(* ===== verification/Prelude.thy ===== *)
theory Prelude
  imports Main "HOL-Library.Word" "HOL-Library.Char_ord" "HOL-Library.List_Lexorder"
    "HOL-Library.RBT" "HOL-Library.AList"
begin

text \<open>
  Shared vocabulary of the development: the Go values the relay handles (byte strings, 16-bit
  kinds, 64-bit timestamps, events and filters), the parts of Go's \<open>strings\<close> and
  \<open>strconv\<close> packages the sources call, push iterators, and the record \<open>lib\<close> of the
  functions of the external nostr library, which every definition that needs them takes as an
  argument.
\<close>

named_theorems gostr "facts about the Go string helpers"
named_theorems gate_simps "facts about the block gate and the buckets it reads"

section \<open>Values\<close>

type_synonym error = string
type_synonym bytes = "8 word list"
type_synonym pubkey = bytes
type_synonym event_id = bytes
type_synonym kind = "16 word"
type_synonym timestamp = "64 word"
type_synonym tag = "string list"

record event =
  ev_id :: event_id
  ev_pubkey :: pubkey
  ev_created_at :: timestamp
  ev_kind :: kind
  ev_tags :: "tag list"
  ev_content :: string
  ev_sig :: bytes

text \<open>
  A filter; \<open>f_tags\<close> is Go's \<open>TagMap\<close>, an association list with distinct keys (a Go map
  has no order: the list is one order of iteration), a zero \<open>f_until\<close> or \<open>f_limit\<close>
  means that the bound is not set.
\<close>

record filter =
  f_ids :: "event_id list"
  f_kinds :: "kind list"
  f_authors :: "pubkey list"
  f_tags :: "(string \<times> string list) list"
  f_since :: timestamp
  f_until :: timestamp
  f_limit :: int
  f_search :: string

definition empty_filter :: filter where
  "empty_filter = \<lparr>f_ids = [], f_kinds = [], f_authors = [], f_tags = [], f_since = 0,
     f_until = 0, f_limit = 0, f_search = []\<rparr>"

text \<open>\<open>nostr.Timestamp\<close> is a signed 64-bit integer.\<close>

abbreviation ts_le :: "timestamp \<Rightarrow> timestamp \<Rightarrow> bool" where
  "ts_le a b \<equiv> sint a \<le> sint b"

abbreviation ts_less :: "timestamp \<Rightarrow> timestamp \<Rightarrow> bool" where
  "ts_less a b \<equiv> sint a < sint b"

section \<open>The external nostr library\<close>

text \<open>
  The functions of \<open>fiatjaf.com/nostr\<close> and of its Typesense event store that the sources call.
  Definitions take a value of this record; \<open>lib_ok\<close> states the documented behaviour the
  theorems rely on: hexadecimal encoding is injective and free of colons, and parsing undoes it.
\<close>

record lib =
  is_addressable :: "kind \<Rightarrow> bool"
  is_replaceable :: "kind \<Rightarrow> bool"
  get_d :: "tag list \<Rightarrow> string"
  tags_has :: "tag list \<Rightarrow> string \<Rightarrow> bool"
  tags_find :: "tag list \<Rightarrow> string \<Rightarrow> tag option"
  pk_hex :: "pubkey \<Rightarrow> string"
  pk_from_hex :: "string \<Rightarrow> error + pubkey"
  id_hex :: "event_id \<Rightarrow> string"
  id_from_hex :: "string \<Rightarrow> error + event_id"
  gen_doc_id :: "string \<Rightarrow> string \<Rightarrow> string"

definition hex_roundtrip :: "lib \<Rightarrow> bool" where
  "hex_roundtrip L \<longleftrightarrow> (\<forall>pk. pk_from_hex L (pk_hex L pk) = Inr pk) \<and>
     (\<forall>i. id_from_hex L (id_hex L i) = Inr i)"

definition hex_no_colon :: "lib \<Rightarrow> bool" where
  "hex_no_colon L \<longleftrightarrow> (\<forall>pk. CHR '':'' \<notin> set (pk_hex L pk))"

definition kinds_disjoint :: "lib \<Rightarrow> bool" where
  "kinds_disjoint L \<longleftrightarrow> (\<forall>k. \<not> (is_addressable L k \<and> is_replaceable L k))"

definition lib_ok :: "lib \<Rightarrow> bool" where
  "lib_ok L \<longleftrightarrow> hex_roundtrip L \<and> hex_no_colon L \<and> kinds_disjoint L"

lemma pk_roundtrip: "lib_ok L \<Longrightarrow> pk_from_hex L (pk_hex L pk) = Inr pk"
  by (simp add: lib_ok_def hex_roundtrip_def)

lemma id_roundtrip: "lib_ok L \<Longrightarrow> id_from_hex L (id_hex L i) = Inr i"
  by (simp add: lib_ok_def hex_roundtrip_def)

lemma pk_hex_inject: "lib_ok L \<Longrightarrow> pk_hex L a = pk_hex L b \<longleftrightarrow> a = b"
  by (metis pk_roundtrip sum.inject(2))

lemma id_hex_inject: "lib_ok L \<Longrightarrow> id_hex L a = id_hex L b \<longleftrightarrow> a = b"
  by (metis id_roundtrip sum.inject(2))

lemma pk_hex_no_colon: "lib_ok L \<Longrightarrow> CHR '':'' \<notin> set (pk_hex L pk)"
  by (simp add: lib_ok_def hex_no_colon_def)

section \<open>Tags\<close>

text \<open>
  The loops over tags skip a tag of fewer than two elements and look at the first two.
\<close>

definition tag_pair :: "tag \<Rightarrow> (string \<times> string) option" where
  "tag_pair t = (case t of n # v # _ \<Rightarrow> Some (n, v) | _ \<Rightarrow> None)"

definition tag_pairs :: "tag list \<Rightarrow> (string \<times> string) list" where
  "tag_pairs tags = List.map_filter tag_pair tags"

text \<open>The values of the tags with the given name, in order.\<close>

definition tag_values :: "string \<Rightarrow> tag list \<Rightarrow> string list" where
  "tag_values name tags = map snd (List.filter (\<lambda>p. fst p = name) (tag_pairs tags))"

lemma tag_pair_simps [simp]:
  "tag_pair [] = None"
  "tag_pair [a] = None"
  "tag_pair (a # b # c) = Some (a, b)"
  by (simp_all add: tag_pair_def)

lemma tag_pairs_simps [simp]:
  "tag_pairs [] = []"
  "tag_pairs (t # ts) = (case tag_pair t of None \<Rightarrow> tag_pairs ts | Some p \<Rightarrow> p # tag_pairs ts)"
  by (simp_all add: tag_pairs_def List.map_filter_def split: option.splits)

lemma tag_pairs_append [simp]: "tag_pairs (xs @ ys) = tag_pairs xs @ tag_pairs ys"
  by (simp add: tag_pairs_def List.map_filter_def)

section \<open>Go strings\<close>

definition has_prefix :: "string \<Rightarrow> string \<Rightarrow> bool" where
  "has_prefix s p \<longleftrightarrow> take (length p) s = p"

definition has_suffix :: "string \<Rightarrow> string \<Rightarrow> bool" where
  "has_suffix s p \<longleftrightarrow> length p \<le> length s \<and> drop (length s - length p) s = p"

definition cut_prefix :: "string \<Rightarrow> string \<Rightarrow> string option" where
  "cut_prefix s p = (if has_prefix s p then Some (drop (length p) s) else None)"

definition cut_suffix :: "string \<Rightarrow> string \<Rightarrow> string option" where
  "cut_suffix s p = (if has_suffix s p then Some (take (length s - length p) s) else None)"

text \<open>\<open>strings.Cut\<close> for a one-character separator: what is before it and, if found, after it.\<close>

fun cut :: "char \<Rightarrow> string \<Rightarrow> string \<times> string option" where
  "cut c [] = ([], None)"
| "cut c (x # xs) = (if x = c then ([], Some xs)
     else (case cut c xs of (a, b) \<Rightarrow> (x # a, b)))"

fun split_n :: "nat \<Rightarrow> char \<Rightarrow> string \<Rightarrow> string list" where
  "split_n 0 c s = []"
| "split_n (Suc 0) c s = [s]"
| "split_n (Suc (Suc n)) c s = (case cut c s of
     (a, None) \<Rightarrow> [a]
   | (a, Some b) \<Rightarrow> a # split_n (Suc n) c b)"

text \<open>\<open>strings.Split\<close>: no bound, so the length of the string (plus one) bounds the pieces.\<close>

definition split_all :: "char \<Rightarrow> string \<Rightarrow> string list" where
  "split_all c s = split_n (Suc (length s)) c s"

fun join :: "string \<Rightarrow> string list \<Rightarrow> string" where
  "join sep [] = []"
| "join sep [x] = x"
| "join sep (x # y # xs) = x @ sep @ join sep (y # xs)"

lemma cut_None [gostr]: "cut c s = (a, None) \<Longrightarrow> a = s \<and> c \<notin> set s"
  by (induction s arbitrary: a) (auto split: if_splits prod.splits)

lemma cut_Some [gostr]: "cut c s = (a, Some b) \<Longrightarrow> s = a @ c # b \<and> c \<notin> set a"
  by (induction s arbitrary: a) (auto split: if_splits prod.splits)

lemma cut_append: "c \<notin> set a \<Longrightarrow> cut c (a @ c # b) = (a, Some b)"
  by (induction a) auto

lemma cut_absent: "c \<notin> set s \<Longrightarrow> cut c s = (s, None)"
  by (induction s) auto

lemma split_n_3:
  assumes "c \<notin> set a" and "c \<notin> set b"
  shows "split_n 3 c (a @ c # b @ c # d) = [a, b, d]"
  using assms by (simp add: numeral_3_eq_3 cut_append)

lemma split_n_3_exact:
  assumes "split_n 3 c s = [a, b, d]"
  shows "s = a @ c # b @ c # d"
  using assms
  by (auto simp: numeral_3_eq_3 dest!: cut_Some split: prod.splits option.splits)

text \<open>\<open>strings.SplitN(s, ":", 3)\<close> where the caller insists on three parts.\<close>

definition split3 :: "string \<Rightarrow> (string \<times> string \<times> string) option" where
  "split3 s = (case split_n 3 CHR '':'' s of [a, b, d] \<Rightarrow> Some (a, b, d) | _ \<Rightarrow> None)"

lemma split3_cut: "split3 s = (case cut CHR '':'' s of
     (a, None) \<Rightarrow> None
   | (a, Some r) \<Rightarrow> (case cut CHR '':'' r of (b, None) \<Rightarrow> None | (b, Some d) \<Rightarrow> Some (a, b, d)))"
  by (simp add: split3_def numeral_3_eq_3 split: prod.splits option.splits)

lemma split3_Some: "split3 s = Some (a, b, d) \<longleftrightarrow>
    s = a @ '':'' @ b @ '':'' @ d \<and> CHR '':'' \<notin> set a \<and> CHR '':'' \<notin> set b"
proof
  assume "split3 s = Some (a, b, d)"
  then obtain r where "cut CHR '':'' s = (a, Some r)" and "cut CHR '':'' r = (b, Some d)"
    by (auto simp: split3_cut split: prod.splits option.splits)
  then show "s = a @ '':'' @ b @ '':'' @ d \<and> CHR '':'' \<notin> set a \<and> CHR '':'' \<notin> set b"
    by (auto dest!: cut_Some)
qed (simp add: split3_cut cut_append)

subsection \<open>Decimal numbers\<close>

definition digit :: "nat \<Rightarrow> char" where
  "digit n = char_of (48 + n)"

definition is_digit :: "char \<Rightarrow> bool" where
  "is_digit c \<longleftrightarrow> 48 \<le> (of_char c :: nat) \<and> (of_char c :: nat) \<le> 57"

fun dec :: "nat \<Rightarrow> string" where
  "dec n = (if n < 10 then [digit n] else dec (n div 10) @ [digit (n mod 10)])"

declare dec.simps [simp del]

definition dec_val :: "string \<Rightarrow> nat" where
  "dec_val ds = foldl (\<lambda>n c. 10 * n + ((of_char c :: nat) - 48)) 0 ds"

text \<open>\<open>strconv.Atoi\<close>: optional sign, at least one digit, and the range of a 64-bit \<open>int\<close>.\<close>

definition atoi :: "string \<Rightarrow> int option" where
  "atoi s = (
     let neg = (case s of c # _ \<Rightarrow> c = CHR ''-'' | [] \<Rightarrow> False);
         ds = (case s of c # cs \<Rightarrow> if c = CHR ''-'' \<or> c = CHR ''+'' then cs else s | [] \<Rightarrow> s)
     in if ds = [] \<or> \<not> list_all is_digit ds then None
        else let v = (if neg then - int (dec_val ds) else int (dec_val ds))
             in if - (2 ^ 63) \<le> v \<and> v < 2 ^ 63 then Some v else None)"

lemma of_char_digit: "n < 10 \<Longrightarrow> (of_char (digit n) :: nat) = 48 + n"
  by (simp add: digit_def)

lemma is_digit_digit [simp]: "n < 10 \<Longrightarrow> is_digit (digit n)"
  by (simp add: is_digit_def of_char_digit)

lemma dec_digits: "list_all is_digit (dec n)"
proof (induction n rule: dec.induct)
  case (1 n)
  then show ?case by (subst dec.simps) simp
qed

lemma dec_nonempty [simp]: "dec n \<noteq> []"
  by (subst dec.simps) simp

lemma dec_val_snoc: "dec_val (ds @ [c]) = 10 * dec_val ds + ((of_char c :: nat) - 48)"
  by (simp add: dec_val_def)

lemma dec_val_dec [simp]: "dec_val (dec n) = n"
proof (induction n rule: dec.induct)
  case (1 n)
  show ?case
  proof (cases "n < 10")
    case True
    then show ?thesis by (subst dec.simps) (simp add: dec_val_def of_char_digit)
  next
    case False
    with 1 show ?thesis by (subst dec.simps) (simp add: dec_val_snoc of_char_digit)
  qed
qed

lemma dec_inject [simp]: "dec m = dec n \<longleftrightarrow> m = n"
  by (metis dec_val_dec)

lemma not_digit_not_in_dec: "\<not> is_digit c \<Longrightarrow> c \<notin> set (dec n)"
  using dec_digits [of n] by (auto simp: list_all_iff)

lemma colon_not_in_dec [simp]: "CHR '':'' \<notin> set (dec n)"
  by (rule not_digit_not_in_dec) (simp add: is_digit_def)

lemma atoi_dec:
  assumes "n < 2 ^ 63"
  shows "atoi (dec n) = Some (int n)"
proof -
  obtain c cs where ds: "dec n = c # cs" by (cases "dec n") auto
  with dec_digits [of n] have "is_digit c" by simp
  then have "c \<noteq> CHR ''-''" and "c \<noteq> CHR ''+''"
    by (auto simp: is_digit_def)
  then have s: "(case dec n of c # cs \<Rightarrow> if c = CHR ''-'' \<or> c = CHR ''+'' then cs else dec n
      | [] \<Rightarrow> dec n) = dec n" and neg: "(case dec n of c # _ \<Rightarrow> c = CHR ''-'' | [] \<Rightarrow> False) = False"
    by (simp_all add: ds)
  from assms have "int n < 2 ^ 63" by (simp add: nat_less_iff)
  then show ?thesis
    by (simp add: atoi_def s neg dec_digits)
qed

text \<open>Go's conversion of an \<open>int\<close> to the 16-bit \<open>nostr.Kind\<close> truncates.\<close>

definition kind_of_int :: "int \<Rightarrow> kind" where
  "kind_of_int n = word_of_int n"

lemma kind_of_int_unat [simp]: "kind_of_int (int (unat k)) = k"
  by (simp add: kind_of_int_def)

lemma kind_of_int_uint [simp]: "kind_of_int (uint k) = k"
  by (simp add: kind_of_int_def)

lemma kind_eq_iff: "unat (j :: kind) = unat k \<longleftrightarrow> j = k"
  by (metis kind_of_int_unat)

lemma kind_lt: "unat (k :: kind) < 2 ^ 63"
proof -
  have "unat k < 2 ^ LENGTH(16)" by (rule unsigned_less)
  then show ?thesis by simp
qed

lemma atoi_kind [simp]: "atoi (dec (unat (k :: kind))) = Some (int (unat k))"
  by (rule atoi_dec) (rule kind_lt)

text \<open>The format \<open>"%d:%s:%s"\<close> of a coordinate.\<close>

definition coord_str :: "kind \<Rightarrow> string \<Rightarrow> string \<Rightarrow> string" where
  "coord_str k hex d = dec (unat k) @ '':'' @ hex @ '':'' @ d"

lemma split_coord_str [gostr]:
  assumes "CHR '':'' \<notin> set hex"
  shows "split_n 3 CHR '':'' (coord_str k hex d) = [dec (unat k), hex, d]"
  using split_n_3 [OF colon_not_in_dec assms] by (simp add: coord_str_def)

lemma split3_coord_str [gostr]:
  "CHR '':'' \<notin> set hex \<Longrightarrow> split3 (coord_str k hex d) = Some (dec (unat k), hex, d)"
  by (simp add: split3_def split_coord_str)

lemma coord_str_inject:
  assumes "CHR '':'' \<notin> set h" and "CHR '':'' \<notin> set h'"
  shows "coord_str k h d = coord_str k' h' d' \<longleftrightarrow> k = k' \<and> h = h' \<and> d = d'"
proof
  assume "coord_str k h d = coord_str k' h' d'"
  then have "split_n 3 CHR '':'' (coord_str k h d) = split_n 3 CHR '':'' (coord_str k' h' d')"
    by simp
  then show "k = k' \<and> h = h' \<and> d = d'"
    by (simp add: split_coord_str assms kind_eq_iff)
qed simp

section \<open>Push iterators\<close>

text \<open>
  A finite \<open>iter.Seq\<close> is the list of the events it would push; \<open>iterate\<close> is Go's range loop
  over it, with the loop body as a function of the loop's state that says whether to go on.
  The first component of the result is False when the body stopped the loop.
\<close>

fun iterate :: "'a list \<Rightarrow> ('a \<Rightarrow> 's \<Rightarrow> bool \<times> 's) \<Rightarrow> 's \<Rightarrow> bool \<times> 's" where
  "iterate [] y s = (True, s)"
| "iterate (x # xs) y s = (case y x s of (go, s') \<Rightarrow> if go then iterate xs y s' else (False, s'))"

text \<open>The consumer that never stops and keeps what it is given.\<close>

definition collect :: "'a \<Rightarrow> 'a list \<Rightarrow> bool \<times> 'a list" where
  "collect x acc = (True, acc @ [x])"

lemma iterate_append:
  "iterate (xs @ ys) y s =
     (case iterate xs y s of (go, s') \<Rightarrow> if go then iterate ys y s' else (False, s'))"
  by (induction xs arbitrary: s) (auto split: prod.splits)

lemma iterate_collect [simp]: "iterate xs collect acc = (True, acc @ xs)"
  by (induction xs arbitrary: acc) (auto simp: collect_def)

section \<open>Lists without duplicates\<close>

text \<open>
  The \<open>seen\<close>-map loops of the sources: keep the first element of every key.
\<close>

fun dedup_from :: "('a \<Rightarrow> 'k) \<Rightarrow> 'k set \<Rightarrow> 'a list \<Rightarrow> 'a list" where
  "dedup_from key seen [] = []"
| "dedup_from key seen (x # xs) =
     (if key x \<in> seen then dedup_from key seen xs
      else x # dedup_from key (insert (key x) seen) xs)"

lemma dedup_from_keys: "key ` set (dedup_from key seen xs) = key ` set xs - seen"
  by (induction xs arbitrary: seen) auto

lemma dedup_from_subset: "set (dedup_from key seen xs) \<subseteq> set xs"
proof (induction xs arbitrary: seen)
  case (Cons x xs)
  from Cons [of seen] Cons [of "insert (key x) seen"] show ?case by auto
qed simp

lemma dedup_from_distinct: "distinct (map key (dedup_from key seen xs))"
proof (induction xs arbitrary: seen)
  case (Cons x xs)
  have "key x \<notin> key ` set (dedup_from key (insert (key x) seen) xs)"
    by (simp add: dedup_from_keys)
  with Cons show ?case by simp
qed simp

lemma dedup_from_append:
  "dedup_from key seen (xs @ ys) =
     dedup_from key seen xs @ dedup_from key (seen \<union> key ` set xs) ys"
proof (induction xs arbitrary: seen)
  case (Cons x xs)
  then show ?case by (auto simp: insert_absorb Un_insert_left)
qed simp

lemma dedup_from_id: "distinct (map key xs) \<Longrightarrow> key ` set xs \<inter> seen = {} \<Longrightarrow>
    dedup_from key seen xs = xs"
  by (induction xs arbitrary: seen) auto

lemma set_map_filter_iff: "y \<in> set (List.map_filter f xs) \<longleftrightarrow> (\<exists>x \<in> set xs. f x = Some y)"
  by (force simp: List.map_filter_def)

lemma case_sum_Some_iff:
  "(case x of Inl _ \<Rightarrow> None | Inr v \<Rightarrow> Some (f v)) = Some y \<longleftrightarrow> (\<exists>v. x = Inr v \<and> f v = y)"
  by (cases x) auto

lemma dedup_from_set: "set (dedup_from (\<lambda>x. x) seen xs) = set xs - seen"
  using dedup_from_keys [of "\<lambda>x. x" seen xs] by simp

section \<open>Hexadecimal\<close>

text \<open>\<open>encoding/hex\<close>: lower case, two digits a byte.\<close>

definition hex_digit :: "nat \<Rightarrow> char" where
  "hex_digit n = ''0123456789abcdef'' ! n"

fun index_of :: "'a \<Rightarrow> 'a list \<Rightarrow> nat option" where
  "index_of x [] = None"
| "index_of x (y # ys) = (if x = y then Some 0 else map_option Suc (index_of x ys))"

definition hex_val :: "char \<Rightarrow> nat option" where
  "hex_val c = index_of c ''0123456789abcdef''"

fun to_hex :: "bytes \<Rightarrow> string" where
  "to_hex [] = []"
| "to_hex (b # bs) = hex_digit (unat b div 16) # hex_digit (unat b mod 16) # to_hex bs"

fun from_hex :: "string \<Rightarrow> bytes option" where
  "from_hex [] = Some []"
| "from_hex (h # l # cs) = (case (hex_val h, hex_val l, from_hex cs) of
     (Some x, Some y, Some bs) \<Rightarrow> Some (word_of_nat (16 * x + y) # bs)
   | _ \<Rightarrow> None)"
| "from_hex _ = None"

lemma hex_val_digit: "n < 16 \<Longrightarrow> hex_val (hex_digit n) = Some n"
  by (auto simp: hex_val_def hex_digit_def less_Suc_eq numeral_eq_Suc)

lemma byte_div: "unat (b :: 8 word) div 16 < 16"
  using unsigned_less [where w = b and 'a = nat] by (simp add: less_mult_imp_div_less)

lemma from_to_hex [simp]: "from_hex (to_hex bs) = Some bs"
proof (induction bs)
  case (Cons b bs)
  then show ?case by (simp add: hex_val_digit byte_div)
qed simp

lemma to_hex_no_colon: "CHR '':'' \<notin> set (to_hex bs)"
proof (induction bs)
  case (Cons b bs)
  have "n < 16 \<Longrightarrow> hex_digit n \<noteq> CHR '':''" for n
    by (auto simp: hex_digit_def less_Suc_eq numeral_eq_Suc)
  then show ?case using Cons byte_div [of b] by (metis mod_less_divisor set_ConsD to_hex.simps(2) zero_less_numeral)
qed simp

section \<open>Searching a list\<close>

lemma find_Some_in: "find P xs = Some x \<Longrightarrow> x \<in> set xs \<and> P x"
  by (induction xs) (auto split: if_splits)

end
