(* ===== verification/Management.thy ===== *)
theory Management
  imports Prelude
begin

text \<open>
  \<open>management.go\<close> and \<open>content_store.go\<close>: the relay's own buckets in the shared bbolt database.
  A bucket is a key-sorted map from strings to bytes (bbolt's documented behaviour): \<open>Put\<close>,
  \<open>Get\<close>, \<open>Delete\<close> and \<open>ForEach\<close> are \<open>RBT.insert\<close>, \<open>RBT.lookup\<close>, \<open>RBT.delete\<close> and
  \<open>RBT.entries\<close>. A write runs in one transaction, whose outcome (\<open>tx\<close>, \<open>None\<close> for a commit)
  is an argument: a failed transaction leaves the database as it was. Read transactions fail
  only on a closed database and are taken to succeed.
\<close>

section \<open>Stored values\<close>

record semantic_config =
  sc_enabled :: bool
  sc_embed_fields :: "string list"

definition DefaultSemanticConfig :: semantic_config where
  "DefaultSemanticConfig = \<lparr>sc_enabled = False,
     sc_embed_fields = [''name'', ''description'', ''keywords'', ''about'']\<rparr>"

record access_config =
  ac_write_restricted :: bool
  ac_read_restricted :: bool

record list_ref =
  lr_direction :: string
  lr_pubkey :: string
  lr_kind :: int
  lr_dtag :: string
  lr_relays :: "string list"
  lr_reason :: string

record content_entry =
  ce_text :: string
  ce_fetched_at :: "64 word"
  ce_status :: string
  ce_source_url :: string
  ce_content_hash :: string

definition empty_entry :: content_entry where
  "empty_entry = \<lparr>ce_text = [], ce_fetched_at = 0, ce_status = [], ce_source_url = [],
     ce_content_hash = []\<rparr>"

record ts_field =
  fd_name :: string
  fd_type :: string
  fd_facet :: bool
  fd_optional :: bool
  fd_num_dim :: nat
  fd_vec_metric :: string

record schema =
  sch_name :: string
  sch_sort :: string
  sch_fields :: "ts_field list"

text \<open>
  The JSON codecs of the stored values. \<open>uj_x\<close> decodes into a fresh value and returns
  what it holds afterwards beside the error, as \<open>json.Unmarshal\<close> does.
\<close>

record json_lib =
  j_reason :: "string \<Rightarrow> bytes"
  uj_reason :: "bytes \<Rightarrow> error option \<times> string"
  j_semantic :: "semantic_config \<Rightarrow> bytes"
  uj_semantic :: "bytes \<Rightarrow> error option \<times> semantic_config"
  j_access :: "access_config \<Rightarrow> bytes"
  uj_access :: "bytes \<Rightarrow> error option \<times> access_config"
  j_list_ref :: "list_ref \<Rightarrow> bytes"
  uj_list_ref :: "bytes \<Rightarrow> error option \<times> list_ref"
  j_content :: "content_entry \<Rightarrow> bytes"
  uj_content :: "bytes \<Rightarrow> error option \<times> content_entry"
  j_schema :: "schema \<Rightarrow> bytes"
  uj_schema :: "bytes \<Rightarrow> error option \<times> schema"

definition json_ok :: "json_lib \<Rightarrow> bool" where
  "json_ok J \<longleftrightarrow> (\<forall>v. uj_reason J (j_reason J v) = (None, v)) \<and>
     (\<forall>v. uj_semantic J (j_semantic J v) = (None, v)) \<and>
     (\<forall>v. uj_access J (j_access J v) = (None, v)) \<and>
     (\<forall>v. uj_list_ref J (j_list_ref J v) = (None, v)) \<and>
     (\<forall>v. uj_content J (j_content J v) = (None, v)) \<and>
     (\<forall>v. uj_schema J (j_schema J v) = (None, v))"

section \<open>The database\<close>

type_synonym bucket = "(string, bytes) rbt"

record mgmt_db =
  b_schema :: bucket
  b_semantic :: bucket
  b_access :: bucket
  b_write_allow :: bucket
  b_read_allow :: bucket
  b_list_refs :: bucket
  b_content :: bucket
  b_needs_refetch :: bucket
  b_profile_queue :: bucket
  b_deleted_events :: bucket
  b_deleted_coords :: bucket
  b_migrations :: bucket
  b_banned_pubkeys :: bucket
  b_banned_events :: bucket

text \<open>
  \<open>Init\<close>: \<open>CreateBucketIfNotExists\<close> for every bucket, so what an earlier run stored is kept.
  The two ban buckets are created by the embedded \<open>relaykit.Store\<close>.
\<close>

definition create_if_missing :: "(string \<Rightarrow> bucket option) \<Rightarrow> string \<Rightarrow> bucket" where
  "create_if_missing raw name = (case raw name of None \<Rightarrow> RBT.empty | Some b \<Rightarrow> b)"

definition ManagementStore_Init :: "(string \<Rightarrow> bucket option) \<Rightarrow> mgmt_db" where
  "ManagementStore_Init raw =
     \<lparr>b_schema = create_if_missing raw ''typesense_schema'',
      b_semantic = create_if_missing raw ''semantic_config'',
      b_access = create_if_missing raw ''access_control'',
      b_write_allow = create_if_missing raw ''write_allowlist'',
      b_read_allow = create_if_missing raw ''read_allowlist'',
      b_list_refs = create_if_missing raw ''list_references'',
      b_content = create_if_missing raw ''fetched_content'',
      b_needs_refetch = create_if_missing raw ''needs_refetch'',
      b_profile_queue = create_if_missing raw ''profile_queue'',
      b_deleted_events = create_if_missing raw ''deleted_events'',
      b_deleted_coords = create_if_missing raw ''deleted_coords'',
      b_migrations = create_if_missing raw ''migrations'',
      b_banned_pubkeys = create_if_missing raw ''banned_pubkeys'',
      b_banned_events = create_if_missing raw ''banned_events''\<rparr>"

definition db_update ::
    "error option \<Rightarrow> (mgmt_db \<Rightarrow> mgmt_db) \<Rightarrow> mgmt_db \<Rightarrow> error option \<times> mgmt_db" where
  "db_update tx f m = (case tx of None \<Rightarrow> (None, f m) | Some e \<Rightarrow> (Some e, m))"

lemma db_update_simps [simp]:
  "db_update None f m = (None, f m)"
  "db_update (Some e) f m = (Some e, m)"
  by (simp_all add: db_update_def)

subsection \<open>Schema and semantic search configuration\<close>

definition SaveSchema :: "json_lib \<Rightarrow> error option \<Rightarrow> schema \<Rightarrow> mgmt_db \<Rightarrow> error option \<times> mgmt_db" where
  "SaveSchema J tx sch =
     db_update tx (\<lambda>m. m\<lparr>b_schema := RBT.insert ''current'' (j_schema J sch) (b_schema m)\<rparr>)"

definition LoadSchema :: "json_lib \<Rightarrow> mgmt_db \<Rightarrow> schema option \<times> error option" where
  "LoadSchema J m = (case RBT.lookup (b_schema m) ''current'' of
     None \<Rightarrow> (None, None)
   | Some v \<Rightarrow> (case uj_schema J v of (err, sch) \<Rightarrow> (Some sch, err)))"

definition DeleteSchema :: "error option \<Rightarrow> mgmt_db \<Rightarrow> error option \<times> mgmt_db" where
  "DeleteSchema tx = db_update tx (\<lambda>m. m\<lparr>b_schema := RBT.delete ''current'' (b_schema m)\<rparr>)"

definition SaveSemanticConfig ::
    "json_lib \<Rightarrow> error option \<Rightarrow> semantic_config \<Rightarrow> mgmt_db \<Rightarrow> error option \<times> mgmt_db" where
  "SaveSemanticConfig J tx cfg =
     db_update tx (\<lambda>m. m\<lparr>b_semantic := RBT.insert ''config'' (j_semantic J cfg) (b_semantic m)\<rparr>)"

definition LoadSemanticConfig :: "json_lib \<Rightarrow> mgmt_db \<Rightarrow> semantic_config \<times> error option" where
  "LoadSemanticConfig J m = (case RBT.lookup (b_semantic m) ''config'' of
     None \<Rightarrow> (DefaultSemanticConfig, None)
   | Some v \<Rightarrow> (case uj_semantic J v of (err, cfg) \<Rightarrow> (cfg, err)))"

subsection \<open>Access control\<close>

text \<open>The format \<open>"%s:%d:%s"\<close>.\<close>

definition int_dec :: "int \<Rightarrow> string" where
  "int_dec n = (if n < 0 then CHR ''-'' # dec (nat (- n)) else dec (nat n))"

definition ListRefKey :: "string \<Rightarrow> int \<Rightarrow> string \<Rightarrow> string" where
  "ListRefKey pubkey knd dtag = pubkey @ '':'' @ int_dec knd @ '':'' @ dtag"

definition SaveAccessControlConfig ::
    "json_lib \<Rightarrow> error option \<Rightarrow> access_config \<Rightarrow> mgmt_db \<Rightarrow> error option \<times> mgmt_db" where
  "SaveAccessControlConfig J tx cfg =
     db_update tx (\<lambda>m. m\<lparr>b_access := RBT.insert ''config'' (j_access J cfg) (b_access m)\<rparr>)"

definition LoadAccessControlConfig :: "json_lib \<Rightarrow> mgmt_db \<Rightarrow> access_config \<times> error option" where
  "LoadAccessControlConfig J m = (case RBT.lookup (b_access m) ''config'' of
     None \<Rightarrow> (\<lparr>ac_write_restricted = False, ac_read_restricted = False\<rparr>, None)
   | Some v \<Rightarrow> (case uj_access J v of (err, cfg) \<Rightarrow> (cfg, err)))"

definition Store_AddWriteAllowPubkey ::
    "json_lib \<Rightarrow> error option \<Rightarrow> string \<Rightarrow> string \<Rightarrow> mgmt_db \<Rightarrow> error option \<times> mgmt_db" where
  "Store_AddWriteAllowPubkey J tx pubkey reason =
     db_update tx (\<lambda>m. m\<lparr>b_write_allow := RBT.insert pubkey (j_reason J reason) (b_write_allow m)\<rparr>)"

definition Store_RemoveWriteAllowPubkey ::
    "error option \<Rightarrow> string \<Rightarrow> mgmt_db \<Rightarrow> error option \<times> mgmt_db" where
  "Store_RemoveWriteAllowPubkey tx pubkey =
     db_update tx (\<lambda>m. m\<lparr>b_write_allow := RBT.delete pubkey (b_write_allow m)\<rparr>)"

text \<open>Keys that are not hexadecimal pubkeys are skipped; a malformed reason reads as empty.\<close>

definition list_pubkeys :: "lib \<Rightarrow> json_lib \<Rightarrow> bucket \<Rightarrow> (pubkey \<times> string) list" where
  "list_pubkeys L J b = List.map_filter
     (\<lambda>(k, v). case pk_from_hex L k of Inl _ \<Rightarrow> None | Inr pk \<Rightarrow> Some (pk, snd (uj_reason J v)))
     (RBT.entries b)"

definition Store_ListWriteAllowPubkeys :: "lib \<Rightarrow> json_lib \<Rightarrow> mgmt_db \<Rightarrow> (pubkey \<times> string) list" where
  "Store_ListWriteAllowPubkeys L J m = list_pubkeys L J (b_write_allow m)"

definition Store_AddReadAllowPubkey ::
    "json_lib \<Rightarrow> error option \<Rightarrow> string \<Rightarrow> string \<Rightarrow> mgmt_db \<Rightarrow> error option \<times> mgmt_db" where
  "Store_AddReadAllowPubkey J tx pubkey reason =
     db_update tx (\<lambda>m. m\<lparr>b_read_allow := RBT.insert pubkey (j_reason J reason) (b_read_allow m)\<rparr>)"

definition Store_RemoveReadAllowPubkey ::
    "error option \<Rightarrow> string \<Rightarrow> mgmt_db \<Rightarrow> error option \<times> mgmt_db" where
  "Store_RemoveReadAllowPubkey tx pubkey =
     db_update tx (\<lambda>m. m\<lparr>b_read_allow := RBT.delete pubkey (b_read_allow m)\<rparr>)"

definition Store_ListReadAllowPubkeys :: "lib \<Rightarrow> json_lib \<Rightarrow> mgmt_db \<Rightarrow> (pubkey \<times> string) list" where
  "Store_ListReadAllowPubkeys L J m = list_pubkeys L J (b_read_allow m)"

definition SaveListReference ::
    "json_lib \<Rightarrow> error option \<Rightarrow> string \<Rightarrow> list_ref \<Rightarrow> mgmt_db \<Rightarrow> error option \<times> mgmt_db" where
  "SaveListReference J tx key ref =
     db_update tx (\<lambda>m. m\<lparr>b_list_refs := RBT.insert key (j_list_ref J ref) (b_list_refs m)\<rparr>)"

definition DeleteListReference :: "error option \<Rightarrow> string \<Rightarrow> mgmt_db \<Rightarrow> error option \<times> mgmt_db" where
  "DeleteListReference tx key =
     db_update tx (\<lambda>m. m\<lparr>b_list_refs := RBT.delete key (b_list_refs m)\<rparr>)"

definition Store_LoadListReferences :: "json_lib \<Rightarrow> mgmt_db \<Rightarrow> (string \<times> list_ref) list" where
  "Store_LoadListReferences J m = List.map_filter
     (\<lambda>(k, v). case uj_list_ref J v of (None, ref) \<Rightarrow> Some (k, ref) | (Some _, _) \<Rightarrow> None)
     (RBT.entries (b_list_refs m))"

subsection \<open>Flag buckets\<close>

definition MarkNeedsRefetch :: "error option \<Rightarrow> string \<Rightarrow> mgmt_db \<Rightarrow> error option \<times> mgmt_db" where
  "MarkNeedsRefetch tx k =
     db_update tx (\<lambda>m. m\<lparr>b_needs_refetch := RBT.insert k [] (b_needs_refetch m)\<rparr>)"

definition RemoveNeedsRefetch :: "error option \<Rightarrow> string \<Rightarrow> mgmt_db \<Rightarrow> error option \<times> mgmt_db" where
  "RemoveNeedsRefetch tx k =
     db_update tx (\<lambda>m. m\<lparr>b_needs_refetch := RBT.delete k (b_needs_refetch m)\<rparr>)"

definition ListNeedsRefetch :: "mgmt_db \<Rightarrow> string list" where
  "ListNeedsRefetch m = map fst (RBT.entries (b_needs_refetch m))"

definition MarkEventDeleted :: "error option \<Rightarrow> string \<Rightarrow> mgmt_db \<Rightarrow> error option \<times> mgmt_db" where
  "MarkEventDeleted tx k =
     db_update tx (\<lambda>m. m\<lparr>b_deleted_events := RBT.insert k [] (b_deleted_events m)\<rparr>)"

definition IsEventDeleted :: "mgmt_db \<Rightarrow> string \<Rightarrow> bool" where
  "IsEventDeleted m k \<longleftrightarrow> RBT.lookup (b_deleted_events m) k \<noteq> None"

definition EnqueueProfileCandidate :: "error option \<Rightarrow> string \<Rightarrow> mgmt_db \<Rightarrow> error option \<times> mgmt_db" where
  "EnqueueProfileCandidate tx k =
     db_update tx (\<lambda>m. m\<lparr>b_profile_queue := RBT.insert k [] (b_profile_queue m)\<rparr>)"

definition RemoveProfileCandidate :: "error option \<Rightarrow> string \<Rightarrow> mgmt_db \<Rightarrow> error option \<times> mgmt_db" where
  "RemoveProfileCandidate tx k =
     db_update tx (\<lambda>m. m\<lparr>b_profile_queue := RBT.delete k (b_profile_queue m)\<rparr>)"

definition ListProfileQueue :: "mgmt_db \<Rightarrow> string list" where
  "ListProfileQueue m = map fst (RBT.entries (b_profile_queue m))"

definition MigrationDone :: "mgmt_db \<Rightarrow> string \<Rightarrow> bool" where
  "MigrationDone m k \<longleftrightarrow> RBT.lookup (b_migrations m) k \<noteq> None"

definition MarkMigrationDone :: "error option \<Rightarrow> string \<Rightarrow> mgmt_db \<Rightarrow> error option \<times> mgmt_db" where
  "MarkMigrationDone tx k =
     db_update tx (\<lambda>m. m\<lparr>b_migrations := RBT.insert k [1] (b_migrations m)\<rparr>)"

subsection \<open>Fetched content\<close>

definition ContentStore_Put ::
    "json_lib \<Rightarrow> error option \<Rightarrow> string \<Rightarrow> content_entry \<Rightarrow> mgmt_db \<Rightarrow> error option \<times> mgmt_db" where
  "ContentStore_Put J tx k entry =
     db_update tx (\<lambda>m. m\<lparr>b_content := RBT.insert k (j_content J entry) (b_content m)\<rparr>)"

text \<open>\<open>Get\<close> returns the entry, whether the row exists, and the decoding error.\<close>

definition ContentStore_Get ::
    "json_lib \<Rightarrow> mgmt_db \<Rightarrow> string \<Rightarrow> content_entry \<times> bool \<times> error option" where
  "ContentStore_Get J m k = (case RBT.lookup (b_content m) k of
     None \<Rightarrow> (empty_entry, False, None)
   | Some v \<Rightarrow> (case uj_content J v of (err, entry) \<Rightarrow> (entry, True, err)))"

definition ContentStore_Delete :: "error option \<Rightarrow> string \<Rightarrow> mgmt_db \<Rightarrow> error option \<times> mgmt_db" where
  "ContentStore_Delete tx k =
     db_update tx (\<lambda>m. m\<lparr>b_content := RBT.delete k (b_content m)\<rparr>)"

text \<open>
  \<open>ForEach\<close> with a callback over a state: malformed rows are skipped, the first error of the
  callback stops the walk and is returned.
\<close>

fun for_each_row :: "json_lib \<Rightarrow> (string \<Rightarrow> content_entry \<Rightarrow> 's \<Rightarrow> error option \<times> 's) \<Rightarrow>
    (string \<times> bytes) list \<Rightarrow> 's \<Rightarrow> error option \<times> 's" where
  "for_each_row J fn [] s = (None, s)"
| "for_each_row J fn ((k, v) # rows) s = (case uj_content J v of
     (Some _, _) \<Rightarrow> for_each_row J fn rows s
   | (None, entry) \<Rightarrow> (case fn k entry s of
       (None, s') \<Rightarrow> for_each_row J fn rows s'
     | (Some e, s') \<Rightarrow> (Some e, s')))"

definition ContentStore_ForEach :: "json_lib \<Rightarrow> (string \<Rightarrow> content_entry \<Rightarrow> 's \<Rightarrow> error option \<times> 's) \<Rightarrow>
    mgmt_db \<Rightarrow> 's \<Rightarrow> error option \<times> 's" where
  "ContentStore_ForEach J fn m s = for_each_row J fn (RBT.entries (b_content m)) s"

text \<open>The rows a walk visits, in key order.\<close>

definition content_rows :: "json_lib \<Rightarrow> mgmt_db \<Rightarrow> (string \<times> content_entry) list" where
  "content_rows J m = List.map_filter
     (\<lambda>(k, v). case uj_content J v of (None, e) \<Rightarrow> Some (k, e) | (Some _, _) \<Rightarrow> None)
     (RBT.entries (b_content m))"

lemma for_each_row_total:
  assumes "\<And>k e s. fst (fn k e s) = None"
  shows "for_each_row J fn rows s = (None, fold (\<lambda>(k, e) s. snd (fn k e s)) (List.map_filter
     (\<lambda>(k, v). case uj_content J v of (None, e) \<Rightarrow> Some (k, e) | (Some _, _) \<Rightarrow> None) rows) s)"
proof (induction rows arbitrary: s)
  case (Cons r rows)
  obtain k v where r: "r = (k, v)" by (cases r)
  obtain err e where u: "uj_content J v = (err, e)" by (cases "uj_content J v")
  obtain o' s' where f: "fn k e s = (o', s')" by (cases "fn k e s")
  from assms [of k e s] f have "o' = None" by simp
  with Cons f show ?case by (cases err) (simp_all add: r u List.map_filter_def)
qed (simp add: List.map_filter_def)

section \<open>What the buckets give back\<close>

lemma rbt_entries_iff: "(k, v) \<in> set (RBT.entries t) \<longleftrightarrow> RBT.lookup t k = Some v"
  by (simp add: RBT.lookup_in_tree)

lemma rbt_keys_set: "fst ` set (RBT.entries t) = dom (RBT.lookup t)"
  by (simp add: RBT.lookup_keys RBT.keys_def_alt)

lemma LoadSemanticConfig_Save:
  "json_ok J \<Longrightarrow> LoadSemanticConfig J (snd (SaveSemanticConfig J None cfg m)) = (cfg, None)"
  by (simp add: LoadSemanticConfig_def SaveSemanticConfig_def json_ok_def)

lemma LoadSchema_Save:
  "json_ok J \<Longrightarrow> LoadSchema J (snd (SaveSchema J None sch m)) = (Some sch, None)"
  by (simp add: LoadSchema_def SaveSchema_def json_ok_def)

lemma LoadSchema_Delete: "LoadSchema J (snd (DeleteSchema None m)) = (None, None)"
  by (simp add: LoadSchema_def DeleteSchema_def)

lemma LoadAccessControlConfig_Save:
  "json_ok J \<Longrightarrow> LoadAccessControlConfig J (snd (SaveAccessControlConfig J None cfg m)) = (cfg, None)"
  by (simp add: LoadAccessControlConfig_def SaveAccessControlConfig_def json_ok_def)

lemma ContentStore_Get_Put:
  "json_ok J \<Longrightarrow> ContentStore_Get J (snd (ContentStore_Put J None k e m)) k' =
     (if k' = k then (e, True, None) else ContentStore_Get J m k')"
  by (simp add: ContentStore_Get_def ContentStore_Put_def json_ok_def)

lemma ContentStore_Get_Delete:
  "ContentStore_Get J (snd (ContentStore_Delete None k m)) k' =
     (if k' = k then (empty_entry, False, None) else ContentStore_Get J m k')"
  by (simp add: ContentStore_Get_def ContentStore_Delete_def)

lemma in_list_pubkeys:
  "(pk, r) \<in> set (list_pubkeys L J b) \<longleftrightarrow>
     (\<exists>k v. RBT.lookup b k = Some v \<and> pk_from_hex L k = Inr pk \<and> snd (uj_reason J v) = r)"
  by (simp add: list_pubkeys_def set_map_filter_iff case_sum_Some_iff Bex_def split_paired_Ex
      rbt_entries_iff)

lemma fst_list_pubkeys:
  "fst ` set (list_pubkeys L J b) = {pk. \<exists>k \<in> dom (RBT.lookup b). pk_from_hex L k = Inr pk}"
proof (rule set_eqI)
  fix pk
  have "pk \<in> fst ` set (list_pubkeys L J b) \<longleftrightarrow> (\<exists>r. (pk, r) \<in> set (list_pubkeys L J b))"
    by force
  then show "pk \<in> fst ` set (list_pubkeys L J b) \<longleftrightarrow>
      pk \<in> {pk. \<exists>k \<in> dom (RBT.lookup b). pk_from_hex L k = Inr pk}"
    by (auto simp: in_list_pubkeys)
qed

section \<open>The interface of a flag bucket\<close>

text \<open>
  The refetch flags, the profile queue and the deleted-event marks share one contract: marking
  and clearing a key change exactly that key, and the listing is sorted without duplicates. The
  facts the clients use follow from it.
\<close>

locale flag_bucket =
  fixes mark :: "string \<Rightarrow> 'm \<Rightarrow> 'm"
    and clear :: "string \<Rightarrow> 'm \<Rightarrow> 'm"
    and flags :: "'m \<Rightarrow> string list"
  assumes flags_mark: "set (flags (mark k m)) = insert k (set (flags m))"
    and flags_clear: "set (flags (clear k m)) = set (flags m) - {k}"
    and flags_sorted: "sorted (flags m)"
    and flags_distinct: "distinct (flags m)"
begin

lemma flags_determined: "set (flags m) = set (flags m') \<Longrightarrow> flags m = flags m'"
  by (rule sorted_distinct_set_unique) (simp_all add: flags_sorted flags_distinct)

lemma mark_idem: "flags (mark k (mark k m)) = flags (mark k m)"
  by (rule flags_determined) (simp add: flags_mark)

lemma clear_idem: "flags (clear k (clear k m)) = flags (clear k m)"
  by (rule flags_determined) (simp add: flags_clear)

lemma mark_commute: "flags (mark j (mark k m)) = flags (mark k (mark j m))"
  by (rule flags_determined) (auto simp: flags_mark)

lemma clear_mark: "k \<notin> set (flags m) \<Longrightarrow> flags (clear k (mark k m)) = flags m"
  by (rule flags_determined) (simp add: flags_mark flags_clear)

lemma flags_clear_all: "set (flags (fold clear ks m)) = set (flags m) - set ks"
  by (induction ks arbitrary: m) (auto simp: flags_clear)

lemma flags_mark_all: "set (flags (fold mark ks m)) = set (flags m) \<union> set ks"
  by (induction ks arbitrary: m) (auto simp: flags_mark)

end

lemma set_ListNeedsRefetch: "set (ListNeedsRefetch m) = dom (RBT.lookup (b_needs_refetch m))"
  by (simp add: ListNeedsRefetch_def rbt_keys_set)

lemma set_ListProfileQueue: "set (ListProfileQueue m) = dom (RBT.lookup (b_profile_queue m))"
  by (simp add: ListProfileQueue_def rbt_keys_set)

interpretation refetch: flag_bucket
  "\<lambda>k m. snd (MarkNeedsRefetch None k m)" "\<lambda>k m. snd (RemoveNeedsRefetch None k m)" ListNeedsRefetch
proof unfold_locales
  fix m
  show "sorted (ListNeedsRefetch m)" "distinct (ListNeedsRefetch m)"
    by (simp_all add: ListNeedsRefetch_def RBT.sorted_entries RBT.distinct_entries)
qed (auto simp: set_ListNeedsRefetch MarkNeedsRefetch_def RemoveNeedsRefetch_def)

interpretation profile_queue: flag_bucket
  "\<lambda>k m. snd (EnqueueProfileCandidate None k m)" "\<lambda>k m. snd (RemoveProfileCandidate None k m)"
  ListProfileQueue
proof unfold_locales
  fix m
  show "sorted (ListProfileQueue m)" "distinct (ListProfileQueue m)"
    by (simp_all add: ListProfileQueue_def RBT.sorted_entries RBT.distinct_entries)
qed (auto simp: set_ListProfileQueue EnqueueProfileCandidate_def RemoveProfileCandidate_def)

end
