(* ===== verification/Demo.thy ===== *)
theory Demo
  imports Management
begin

text \<open>
  One concrete instance of the external library, with lower-case hexadecimal and the kind ranges
  of the protocol, and one of the JSON codecs. They show that the hypotheses of \<open>lib_ok\<close> and
  \<open>json_ok\<close> can hold and are the input of the worked examples that follow the theorems; no
  model definition depends on them.
\<close>

fun first_tag :: "string \<Rightarrow> tag list \<Rightarrow> tag option" where
  "first_tag n [] = None"
| "first_tag n (t # ts) = (if length t \<ge> 2 \<and> t ! 0 = n then Some t else first_tag n ts)"

definition demo_from_hex :: "string \<Rightarrow> error + bytes" where
  "demo_from_hex s = (case from_hex s of None \<Rightarrow> Inl ''invalid hex'' | Some bs \<Rightarrow> Inr bs)"

definition demo_lib :: lib where
  "demo_lib = \<lparr>
     is_addressable = (\<lambda>k. 30000 \<le> k \<and> k < 40000),
     is_replaceable = (\<lambda>k. k = 0 \<or> k = 3 \<or> 10000 \<le> k \<and> k < 20000),
     get_d = (\<lambda>ts. case first_tag ''d'' ts of None \<Rightarrow> [] | Some t \<Rightarrow> t ! 1),
     tags_has = (\<lambda>ts n. list_ex (\<lambda>t. t \<noteq> [] \<and> hd t = n) ts),
     tags_find = (\<lambda>ts n. first_tag n ts),
     pk_hex = to_hex, pk_from_hex = demo_from_hex,
     id_hex = to_hex, id_from_hex = demo_from_hex,
     gen_doc_id = (\<lambda>pk d. pk @ '':'' @ d)\<rparr>"

lemma demo_lib_ok [simp]: "lib_ok demo_lib"
  by (auto simp: lib_ok_def hex_roundtrip_def hex_no_colon_def kinds_disjoint_def demo_lib_def
      demo_from_hex_def to_hex_no_colon word_less_nat_alt word_le_nat_alt)

definition demo_pk :: pubkey where
  "demo_pk = [1, 2, 255]"

definition demo_event :: "8 word \<Rightarrow> kind \<Rightarrow> timestamp \<Rightarrow> tag list \<Rightarrow> event" where
  "demo_event i k t ts = \<lparr>ev_id = [i], ev_pubkey = demo_pk, ev_created_at = t, ev_kind = k,
     ev_tags = ts, ev_content = [], ev_sig = []\<rparr>"

section \<open>A self-delimiting codec\<close>

type_synonym 'a decoder = "bytes \<Rightarrow> ('a \<times> bytes) option"

definition codec :: "('a \<Rightarrow> bytes) \<Rightarrow> 'a decoder \<Rightarrow> bool" where
  "codec e d \<longleftrightarrow> (\<forall>v rest. d (e v @ rest) = Some (v, rest))"

definition enc_bool :: "bool \<Rightarrow> bytes" where
  "enc_bool b = [if b then 1 else 0]"

fun dec_bool :: "bool decoder" where
  "dec_bool [] = None"
| "dec_bool (b # bs) = Some (b = 1, bs)"

definition enc_char :: "char \<Rightarrow> bytes" where
  "enc_char c = [word_of_nat (of_char c)]"

fun dec_char :: "char decoder" where
  "dec_char [] = None"
| "dec_char (b # bs) = Some (char_of (unat b), bs)"

fun enc_list :: "('a \<Rightarrow> bytes) \<Rightarrow> 'a list \<Rightarrow> bytes" where
  "enc_list e [] = [0]"
| "enc_list e (x # xs) = 1 # e x @ enc_list e xs"

text \<open>The first argument bounds the number of elements; the length of the input is enough.\<close>

fun dec_list_upto :: "nat \<Rightarrow> 'a decoder \<Rightarrow> 'a list decoder" where
  "dec_list_upto 0 d bs = None"
| "dec_list_upto (Suc n) d [] = None"
| "dec_list_upto (Suc n) d (b # bs) = (if b = 0 then Some ([], bs) else (case d bs of
     None \<Rightarrow> None
   | Some (x, bs') \<Rightarrow> (case dec_list_upto n d bs' of
       None \<Rightarrow> None
     | Some (xs, bs'') \<Rightarrow> Some (x # xs, bs''))))"

definition dec_list :: "'a decoder \<Rightarrow> 'a list decoder" where
  "dec_list d bs = dec_list_upto (length bs) d bs"

definition enc_pair :: "('a \<Rightarrow> bytes) \<Rightarrow> ('b \<Rightarrow> bytes) \<Rightarrow> 'a \<times> 'b \<Rightarrow> bytes" where
  "enc_pair e f = (\<lambda>(a, b). e a @ f b)"

definition dec_pair :: "'a decoder \<Rightarrow> 'b decoder \<Rightarrow> ('a \<times> 'b) decoder" where
  "dec_pair d g bs = (case d bs of None \<Rightarrow> None | Some (a, bs') \<Rightarrow> (case g bs' of
     None \<Rightarrow> None | Some (b, bs'') \<Rightarrow> Some ((a, b), bs'')))"

definition dec_map :: "('a \<Rightarrow> 'b) \<Rightarrow> 'a decoder \<Rightarrow> 'b decoder" where
  "dec_map f d bs = map_option (apfst f) (d bs)"

lemma codec_bool: "codec enc_bool dec_bool"
  by (simp add: codec_def enc_bool_def)

lemma codec_char: "codec enc_char dec_char"
  by (simp add: codec_def enc_char_def unat_of_nat of_char_mod_256 take_bit_eq_mod)

lemma codec_list:
  assumes "codec e d"
  shows "codec (enc_list e) (dec_list d)"
proof -
  have "length xs < n \<Longrightarrow> dec_list_upto n d (enc_list e xs @ rest) = Some (xs, rest)" for n xs rest
  proof (induction xs arbitrary: n)
    case Nil
    then show ?case by (cases n) simp_all
  next
    case (Cons x xs)
    with assms show ?case by (cases n) (simp_all add: codec_def)
  qed
  moreover have "length xs < length (enc_list e xs @ rest)" for xs rest
    by (induction xs) simp_all
  ultimately show ?thesis by (simp add: codec_def dec_list_def del: length_append)
qed

lemma codec_pair: "codec e d \<Longrightarrow> codec f g \<Longrightarrow> codec (enc_pair e f) (dec_pair d g)"
  by (simp add: codec_def enc_pair_def dec_pair_def split_paired_all)

lemma codec_map: "codec e d \<Longrightarrow> (\<And>v. f (g v) = v) \<Longrightarrow> codec (e \<circ> g) (dec_map f d)"
  by (simp add: codec_def dec_map_def)

definition enc_string :: "string \<Rightarrow> bytes" where
  "enc_string = enc_list enc_char"

definition dec_string :: "string decoder" where
  "dec_string = dec_list dec_char"

lemma codec_string: "codec enc_string dec_string"
  unfolding enc_string_def dec_string_def by (intro codec_list codec_char)

definition enc_nat :: "nat \<Rightarrow> bytes" where
  "enc_nat = enc_list enc_bool \<circ> (\<lambda>n. replicate n True)"

definition dec_nat :: "nat decoder" where
  "dec_nat = dec_map length (dec_list dec_bool)"

lemma codec_nat: "codec enc_nat dec_nat"
  unfolding enc_nat_def dec_nat_def by (intro codec_map codec_list codec_bool) simp

definition enc_int :: "int \<Rightarrow> bytes" where
  "enc_int = enc_pair enc_bool enc_nat \<circ> (\<lambda>i. (i < 0, nat \<bar>i\<bar>))"

definition dec_int :: "int decoder" where
  "dec_int = dec_map (\<lambda>(neg, n). if neg then - int n else int n) (dec_pair dec_bool dec_nat)"

lemma codec_int: "codec enc_int dec_int"
  unfolding enc_int_def dec_int_def by (intro codec_map codec_pair codec_bool codec_nat) simp

definition run_dec :: "'a \<Rightarrow> 'a decoder \<Rightarrow> bytes \<Rightarrow> error option \<times> 'a" where
  "run_dec z d bs = (case d bs of Some (v, []) \<Rightarrow> (None, v) | _ \<Rightarrow> (Some ''invalid'', z))"

lemma run_dec: "codec e d \<Longrightarrow> run_dec z d (e v) = (None, v)"
  by (auto simp: codec_def run_dec_def dest: spec [of _ v] spec [of _ "[]"] split: option.splits
      list.splits) (metis append.right_neutral option.distinct(1) option.inject prod.inject list.distinct(1))+

section \<open>The codecs of the stored values\<close>

definition to_sem :: "bool \<times> string list \<Rightarrow> semantic_config" where
  "to_sem = (\<lambda>(a, b). \<lparr>sc_enabled = a, sc_embed_fields = b\<rparr>)"

definition to_acc :: "bool \<times> bool \<Rightarrow> access_config" where
  "to_acc = (\<lambda>(a, b). \<lparr>ac_write_restricted = a, ac_read_restricted = b\<rparr>)"

definition to_ref :: "(string \<times> string) \<times> (int \<times> string) \<times> string list \<times> string \<Rightarrow> list_ref" where
  "to_ref = (\<lambda>((a, b), (c, d), e, f). \<lparr>lr_direction = a, lr_pubkey = b, lr_kind = c, lr_dtag = d,
     lr_relays = e, lr_reason = f\<rparr>)"

definition to_entry :: "(string \<times> nat) \<times> string \<times> string \<times> string \<Rightarrow> content_entry" where
  "to_entry = (\<lambda>((a, b), c, d, e). \<lparr>ce_text = a, ce_fetched_at = word_of_nat b, ce_status = c,
     ce_source_url = d, ce_content_hash = e\<rparr>)"

definition to_field :: "(string \<times> string) \<times> (bool \<times> bool) \<times> nat \<times> string \<Rightarrow> ts_field" where
  "to_field = (\<lambda>((a, b), (c, d), e, f). \<lparr>fd_name = a, fd_type = b, fd_facet = c, fd_optional = d,
     fd_num_dim = e, fd_vec_metric = f\<rparr>)"

definition to_schema :: "(string \<times> string) \<times> ((string \<times> string) \<times> (bool \<times> bool) \<times> nat \<times> string) list \<Rightarrow>
    schema" where
  "to_schema = (\<lambda>((a, b), fs). \<lparr>sch_name = a, sch_sort = b, sch_fields = map to_field fs\<rparr>)"

definition of_field :: "ts_field \<Rightarrow> (string \<times> string) \<times> (bool \<times> bool) \<times> nat \<times> string" where
  "of_field f = ((fd_name f, fd_type f), (fd_facet f, fd_optional f), fd_num_dim f, fd_vec_metric f)"

lemma to_of_field: "to_field (of_field f) = f"
  by (simp add: to_field_def of_field_def)

definition demo_json :: json_lib where
  "demo_json = \<lparr>
     j_reason = enc_string, uj_reason = run_dec [] dec_string,
     j_semantic = enc_pair enc_bool (enc_list enc_string) \<circ> (\<lambda>v. (sc_enabled v, sc_embed_fields v)),
     uj_semantic = run_dec DefaultSemanticConfig (dec_map to_sem (dec_pair dec_bool (dec_list dec_string))),
     j_access = enc_pair enc_bool enc_bool \<circ> (\<lambda>v. (ac_write_restricted v, ac_read_restricted v)),
     uj_access = run_dec (to_acc (False, False)) (dec_map to_acc (dec_pair dec_bool dec_bool)),
     j_list_ref = enc_pair (enc_pair enc_string enc_string) (enc_pair (enc_pair enc_int enc_string)
         (enc_pair (enc_list enc_string) enc_string)) \<circ>
       (\<lambda>v. ((lr_direction v, lr_pubkey v), (lr_kind v, lr_dtag v), lr_relays v, lr_reason v)),
     uj_list_ref = run_dec (to_ref (([], []), (0, []), [], [])) (dec_map to_ref
       (dec_pair (dec_pair dec_string dec_string) (dec_pair (dec_pair dec_int dec_string)
         (dec_pair (dec_list dec_string) dec_string)))),
     j_content = enc_pair (enc_pair enc_string enc_nat) (enc_pair enc_string (enc_pair enc_string enc_string)) \<circ>
       (\<lambda>v. ((ce_text v, unat (ce_fetched_at v)), ce_status v, ce_source_url v, ce_content_hash v)),
     uj_content = run_dec empty_entry (dec_map to_entry (dec_pair (dec_pair dec_string dec_nat)
       (dec_pair dec_string (dec_pair dec_string dec_string)))),
     j_schema = enc_pair (enc_pair enc_string enc_string) (enc_list (enc_pair (enc_pair enc_string enc_string)
         (enc_pair (enc_pair enc_bool enc_bool) (enc_pair enc_nat enc_string)))) \<circ>
       (\<lambda>v. ((sch_name v, sch_sort v), map of_field (sch_fields v))),
     uj_schema = run_dec (to_schema (([], []), [])) (dec_map to_schema (dec_pair (dec_pair dec_string dec_string)
       (dec_list (dec_pair (dec_pair dec_string dec_string)
         (dec_pair (dec_pair dec_bool dec_bool) (dec_pair dec_nat dec_string))))))\<rparr>"

lemmas codec_intros = codec_map codec_pair codec_list codec_bool codec_string codec_nat codec_int

lemma demo_json_ok [simp]: "json_ok demo_json"
  unfolding json_ok_def demo_json_def
proof (simp only: json_lib.simps, intro conjI allI)
qed (rule run_dec, intro codec_intros; simp add: to_sem_def to_acc_def to_ref_def to_entry_def
    to_schema_def o_def to_of_field cong: map_cong)+

definition fresh_db :: mgmt_db where
  "fresh_db = ManagementStore_Init (\<lambda>_. None)"

lemma fresh_db_empty [simp]:
  "b_access fresh_db = RBT.empty" "b_write_allow fresh_db = RBT.empty"
  "b_read_allow fresh_db = RBT.empty" "b_list_refs fresh_db = RBT.empty"
  "b_content fresh_db = RBT.empty" "b_deleted_events fresh_db = RBT.empty"
  "b_deleted_coords fresh_db = RBT.empty" "b_migrations fresh_db = RBT.empty"
  "b_banned_pubkeys fresh_db = RBT.empty" "b_banned_events fresh_db = RBT.empty"
  by (simp_all add: fresh_db_def ManagementStore_Init_def create_if_missing_def)

end
