(* ===== verification/TSBuffer.thy ===== *)
theory TSBuffer
  imports Demo
begin

text \<open>
  \<open>buffer.go\<close> and the document ids of \<open>content_ts.go\<close>: the single-writer queue in front of the
  search index. Producers append tasks to a bounded channel; one goroutine takes them, collects
  plain events into batches and serialises content patches, community patches and deletes behind
  the pending batch. \<open>'w\<close> is the world: the index and the database that \<open>skip\<close> reads. The
  functions of the goroutine are \<open>addToBatch\<close>, \<open>flushBatch\<close> and \<open>process\<close>; its loop, the
  producers and the shutdown are the step relation \<open>ts_step\<close>.
\<close>

section \<open>Tasks and the writer\<close>

definition tsDocIDFromEvent :: "lib \<Rightarrow> event \<Rightarrow> error + string" where
  "tsDocIDFromEvent L ev = (case tags_find L (ev_tags ev) ''d'' of
     Some (_ # d # _) \<Rightarrow>
       if d = [] then Inl (''event '' @ id_hex L (ev_id ev) @ '' has no d-tag'')
       else Inr (gen_doc_id L (pk_hex L (ev_pubkey ev)) d)
   | _ \<Rightarrow> Inl (''event '' @ id_hex L (ev_id ev) @ '' has no d-tag''))"

record stampPatch =
  sp_DocID :: string
  sp_Communities :: "string list"

record projectionTask =
  pt_Event :: event
  pt_Content :: "content_entry option"
  pt_Stamp :: "stampPatch option"
  pt_Delete :: "event_id option"

definition zero_event :: event where
  "zero_event = \<lparr>ev_id = [], ev_pubkey = [], ev_created_at = 0, ev_kind = 0, ev_tags = [],
     ev_content = [], ev_sig = []\<rparr>"

record 'w projectorWriter =
  pw_Upsert :: "event list \<Rightarrow> 'w \<Rightarrow> (int \<times> error list) \<times> 'w"
  pw_Patch :: "event \<Rightarrow> content_entry \<Rightarrow> 'w \<Rightarrow> error option \<times> 'w"
  pw_PatchCommunity :: "string \<Rightarrow> string list \<Rightarrow> 'w \<Rightarrow> error option \<times> 'w"
  pw_Delete :: "event_id \<Rightarrow> 'w \<Rightarrow> error option \<times> 'w"

record 'w ts_config =
  tc_writer :: "'w projectorWriter"
  tc_batchSize :: int
  tc_skip :: "(event \<Rightarrow> 'w \<Rightarrow> bool) option"
  tc_docid :: "event \<Rightarrow> error + string"

definition newProjectorBufferWithSkip :: "'w projectorWriter \<Rightarrow> int \<Rightarrow> (event \<Rightarrow> 'w \<Rightarrow> bool) option \<Rightarrow>
    (event \<Rightarrow> error + string) \<Rightarrow> 'w ts_config" where
  "newProjectorBufferWithSkip writer batchSize skip docid =
     \<lparr>tc_writer = writer, tc_batchSize = (if batchSize < 1 then 1 else batchSize), tc_skip = skip,
      tc_docid = docid\<rparr>"

definition channel_cap :: "'w ts_config \<Rightarrow> nat" where
  "channel_cap c = nat (tc_batchSize c * 100)"

text \<open>The tasks the producers build; each is sent only when the buffer was open (\<open>ts_step\<close>).\<close>

definition Queue :: "event \<Rightarrow> projectionTask" where
  "Queue ev = \<lparr>pt_Event = ev, pt_Content = None, pt_Stamp = None, pt_Delete = None\<rparr>"

definition QueueContent :: "event \<Rightarrow> content_entry \<Rightarrow> projectionTask" where
  "QueueContent ev content = \<lparr>pt_Event = ev, pt_Content = Some content, pt_Stamp = None, pt_Delete = None\<rparr>"

definition QueueCommunityPatch :: "string \<Rightarrow> string list \<Rightarrow> projectionTask" where
  "QueueCommunityPatch docID communities = \<lparr>pt_Event = zero_event, pt_Content = None,
     pt_Stamp = Some \<lparr>sp_DocID = docID, sp_Communities = communities\<rparr>, pt_Delete = None\<rparr>"

definition QueueDelete :: "event_id \<Rightarrow> projectionTask" where
  "QueueDelete i = \<lparr>pt_Event = zero_event, pt_Content = None, pt_Stamp = None, pt_Delete = Some i\<rparr>"

section \<open>The worker's functions\<close>

record tsbuf =
  tb_batch :: "event list"
  tb_pending :: "string set"

definition empty_buf :: tsbuf where
  "empty_buf = \<lparr>tb_batch = [], tb_pending = {}\<rparr>"

definition skips :: "'w ts_config \<Rightarrow> event \<Rightarrow> 'w \<Rightarrow> bool" where
  "skips c ev w = (case tc_skip c of None \<Rightarrow> False | Some skip \<Rightarrow> skip ev w)"

definition upsertOnce :: "'w ts_config \<Rightarrow> event list \<Rightarrow> 'w \<Rightarrow> bool \<times> 'w" where
  "upsertOnce c batch w = (case pw_Upsert (tc_writer c) batch w of
     ((indexed, errs), w') \<Rightarrow> (indexed = 0 \<and> length errs > 0, w'))"

definition addToBatch :: "'w ts_config \<Rightarrow> event \<Rightarrow> tsbuf \<Rightarrow> tsbuf" where
  "addToBatch c ev b = b\<lparr>tb_batch := tb_batch b @ [ev],
     tb_pending := (case tc_docid c ev of Inr docID \<Rightarrow> insert docID (tb_pending b) | Inl _ \<Rightarrow> tb_pending b)\<rparr>"

definition flushBatch :: "'w ts_config \<Rightarrow> tsbuf \<times> 'w \<Rightarrow> tsbuf \<times> 'w" where
  "flushBatch c = (\<lambda>(b, w).
     let kept = List.filter (\<lambda>ev. \<not> skips c ev w) (tb_batch b) in
     if length kept = 0 then (b\<lparr>tb_batch := [], tb_pending := {}\<rparr>, w)
     else (b\<lparr>tb_batch := [], tb_pending := {}\<rparr>, snd (upsertOnce c kept w)))"

definition process :: "'w ts_config \<Rightarrow> projectionTask \<Rightarrow> tsbuf \<times> 'w \<Rightarrow> tsbuf \<times> 'w" where
  "process c task = (\<lambda>(b, w). case pt_Delete task of
     Some i \<Rightarrow> (case flushBatch c (b, w) of (b1, w1) \<Rightarrow> (b1, snd (pw_Delete (tc_writer c) i w1)))
   | None \<Rightarrow> (case pt_Stamp task of
       Some st \<Rightarrow>
         (case (if sp_DocID st \<in> tb_pending b then flushBatch c (b, w) else (b, w)) of
           (b1, w1) \<Rightarrow> (b1, snd (pw_PatchCommunity (tc_writer c) (sp_DocID st) (sp_Communities st) w1)))
     | None \<Rightarrow> (case pt_Content task of
         Some content \<Rightarrow>
           (case flushBatch c (addToBatch c (pt_Event task) b, w) of
             (b1, w1) \<Rightarrow> if skips c (pt_Event task) w1 then (b1, w1)
               else (b1, snd (pw_Patch (tc_writer c) (pt_Event task) content w1)))
       | None \<Rightarrow>
           let b1 = addToBatch c (pt_Event task) b in
           if int (length (tb_batch b1)) \<ge> tc_batchSize c then flushBatch c (b1, w) else (b1, w))))"

section \<open>The loop, its producers and the shutdown\<close>

text \<open>
  \<open>Top\<close>: the loop's first \<open>select\<close>, which looks at \<open>done\<close> only. \<open>Select\<close>: the second one. \<open>Abandoned\<close>:
  the drain deadline passed. \<open>ts_inflight\<close> holds the tasks of producers that saw the buffer open
  and have not sent yet (they block while the channel is full). \<open>ts_accepted\<close> and \<open>ts_processed\<close>
  record the tasks that entered the channel and those the worker handled.
\<close>

datatype ts_phase = Top | Select | Draining | Stopped | Abandoned

record 'w ts_state =
  ts_local :: tsbuf
  ts_world :: 'w
  ts_queue :: "projectionTask list"
  ts_inflight :: "projectionTask list"
  ts_closed :: bool
  ts_done :: bool
  ts_phase :: ts_phase
  ts_accepted :: "projectionTask list"
  ts_processed :: "projectionTask list"

definition ts_init :: "'w \<Rightarrow> 'w ts_state" where
  "ts_init w = \<lparr>ts_local = empty_buf, ts_world = w, ts_queue = [], ts_inflight = [], ts_closed = False,
     ts_done = False, ts_phase = Top, ts_accepted = [], ts_processed = []\<rparr>"

definition flush_state :: "'w ts_config \<Rightarrow> 'w ts_state \<Rightarrow> 'w ts_state" where
  "flush_state c s = (case flushBatch c (ts_local s, ts_world s) of
     (b, w) \<Rightarrow> s\<lparr>ts_local := b, ts_world := w\<rparr>)"

definition process_state :: "'w ts_config \<Rightarrow> projectionTask \<Rightarrow> 'w ts_state \<Rightarrow> 'w ts_state" where
  "process_state c t s = (case process c t (ts_local s, ts_world s) of
     (b, w) \<Rightarrow> s\<lparr>ts_local := b, ts_world := w, ts_processed := ts_processed s @ [t]\<rparr>)"

inductive ts_step :: "'w ts_config \<Rightarrow> ('w \<Rightarrow> 'w \<Rightarrow> bool) \<Rightarrow> 'w ts_state \<Rightarrow> 'w ts_state \<Rightarrow> bool"
  for c :: "'w ts_config" and env :: "'w \<Rightarrow> 'w \<Rightarrow> bool" where
  Env: "env (ts_world s) w \<Longrightarrow> ts_step c env s (s\<lparr>ts_world := w\<rparr>)"
| Admit: "\<not> ts_closed s \<Longrightarrow> ts_step c env s (s\<lparr>ts_inflight := ts_inflight s @ [t]\<rparr>)"
| Send: "ts_inflight s = xs @ t # ys \<Longrightarrow> length (ts_queue s) < channel_cap c \<Longrightarrow>
    ts_step c env s (s\<lparr>ts_inflight := xs @ ys, ts_queue := ts_queue s @ [t], ts_accepted := ts_accepted s @ [t]\<rparr>)"
| CloseFlag: "\<not> ts_closed s \<Longrightarrow> ts_step c env s (s\<lparr>ts_closed := True\<rparr>)"
| CloseDone: "ts_closed s \<Longrightarrow> \<not> ts_done s \<Longrightarrow> ts_step c env s (s\<lparr>ts_done := True\<rparr>)"
| TopDone: "ts_phase s = Top \<Longrightarrow> ts_done s \<Longrightarrow> ts_step c env s (s\<lparr>ts_phase := Draining\<rparr>)"
| TopSelect: "ts_phase s = Top \<Longrightarrow> \<not> ts_done s \<Longrightarrow> ts_step c env s (s\<lparr>ts_phase := Select\<rparr>)"
| SelectTask: "ts_phase s = Select \<Longrightarrow> ts_queue s = t # q \<Longrightarrow>
    ts_step c env s (process_state c t (s\<lparr>ts_queue := q, ts_phase := Top\<rparr>))"
| SelectTick: "ts_phase s = Select \<Longrightarrow> ts_step c env s (flush_state c (s\<lparr>ts_phase := Top\<rparr>))"
| SelectDone: "ts_phase s = Select \<Longrightarrow> ts_done s \<Longrightarrow> ts_step c env s (s\<lparr>ts_phase := Draining\<rparr>)"
| DrainTask: "ts_phase s = Draining \<Longrightarrow> ts_queue s = t # q \<Longrightarrow>
    ts_step c env s (process_state c t (s\<lparr>ts_queue := q\<rparr>))"
| DrainEnd: "ts_phase s = Draining \<Longrightarrow> ts_queue s = [] \<Longrightarrow>
    ts_step c env s (flush_state c (s\<lparr>ts_phase := Stopped\<rparr>))"
| DeadlineBefore: "ts_phase s = Draining \<Longrightarrow>
    ts_step c env s (s\<lparr>ts_queue := tl (ts_queue s), ts_phase := Abandoned\<rparr>)"
| DeadlineDuring: "ts_phase s = Draining \<Longrightarrow> ts_queue s = t # q \<Longrightarrow>
    ts_step c env s (process_state c t (s\<lparr>ts_queue := q, ts_phase := Abandoned\<rparr>))"
| DeadlineFlush: "ts_phase s = Draining \<Longrightarrow> ts_queue s = [] \<Longrightarrow>
    ts_step c env s (flush_state c (s\<lparr>ts_phase := Abandoned\<rparr>))"

inductive ts_reach :: "'w ts_config \<Rightarrow> ('w \<Rightarrow> 'w \<Rightarrow> bool) \<Rightarrow> 'w ts_state \<Rightarrow> 'w ts_state \<Rightarrow> bool"
  for c :: "'w ts_config" and env :: "'w \<Rightarrow> 'w \<Rightarrow> bool" and s0 :: "'w ts_state" where
  reach_refl: "ts_reach c env s0 s0"
| reach_step: "ts_reach c env s0 s \<Longrightarrow> ts_step c env s s' \<Longrightarrow> ts_reach c env s0 s'"

lemmas ts_state_defs = flush_state_def process_state_def

section \<open>Invariants of the worker\<close>

definition pending_of :: "'w ts_config \<Rightarrow> event list \<Rightarrow> string set" where
  "pending_of c evs = {d. \<exists>ev \<in> set evs. tc_docid c ev = Inr d}"

text \<open>The pending ids are those of the batch, and the batch is below its size.\<close>

definition buf_ok :: "'w ts_config \<Rightarrow> tsbuf \<Rightarrow> bool" where
  "buf_ok c b \<longleftrightarrow> tb_pending b = pending_of c (tb_batch b) \<and> int (length (tb_batch b)) < tc_batchSize c"

lemma flushBatch_fst [simp]: "fst (flushBatch c (b, w)) = empty_buf"
  by (cases b) (simp add: flushBatch_def Let_def empty_buf_def)

lemma buf_ok_empty: "tc_batchSize c \<ge> 1 \<Longrightarrow> buf_ok c empty_buf"
  by (simp add: buf_ok_def empty_buf_def pending_of_def)

lemma addToBatch_fields [simp]:
  "tb_batch (addToBatch c ev b) = tb_batch b @ [ev]"
  by (simp add: addToBatch_def)

lemma addToBatch_pending:
  "tb_pending b = pending_of c (tb_batch b) \<Longrightarrow>
   tb_pending (addToBatch c ev b) = pending_of c (tb_batch b @ [ev])"
  by (auto simp: addToBatch_def pending_of_def split: sum.splits)

lemma flushBatch_pair:
  obtains w1 where "flushBatch c bw = (empty_buf, w1)"
  by (cases "flushBatch c bw"; cases bw) (metis flushBatch_fst fst_conv)

lemma process_local:
  "fst (process c t (b, w)) = empty_buf \<or> fst (process c t (b, w)) = b \<or>
   fst (process c t (b, w)) = addToBatch c (pt_Event t) b \<and>
     int (length (tb_batch (addToBatch c (pt_Event t) b))) < tc_batchSize c"
proof -
  obtain w1 w2 where f: "flushBatch c (b, w) = (empty_buf, w1)"
    "flushBatch c (addToBatch c (pt_Event t) b, w) = (empty_buf, w2)"
    by (metis flushBatch_pair)
  show ?thesis
    by (cases "pt_Delete t"; cases "pt_Stamp t"; cases "pt_Content t") (simp_all add: process_def Let_def f)
qed

lemma process_buf_ok:
  assumes "tc_batchSize c \<ge> 1" and "buf_ok c b"
  shows "buf_ok c (fst (process c t (b, w)))"
  using process_local [of c t b w]
proof (elim disjE conjE)
  assume "fst (process c t (b, w)) = addToBatch c (pt_Event t) b"
    and "int (length (tb_batch (addToBatch c (pt_Event t) b))) < tc_batchSize c"
  then show ?thesis
    using assms(2) addToBatch_pending [of b c "pt_Event t"] by (simp add: buf_ok_def)
qed (use assms in \<open>simp_all add: buf_ok_empty\<close>)

section \<open>Batching does not change what the index ends up with\<close>

text \<open>
  \<open>writer_ok c up\<close>: a working index. A batch is indexed event by event (\<open>up\<close>), and a community
  patch of one document and the indexing of another commute.
\<close>

definition writer_ok :: "'w ts_config \<Rightarrow> (event \<Rightarrow> 'w \<Rightarrow> 'w) \<Rightarrow> bool" where
  "writer_ok c up \<longleftrightarrow>
     (\<forall>evs w. evs \<noteq> [] \<longrightarrow> snd (pw_Upsert (tc_writer c) evs w) = fold up evs w) \<and>
     (\<forall>ev d cs w. tc_docid c ev \<noteq> Inr d \<longrightarrow>
        snd (pw_PatchCommunity (tc_writer c) d cs (up ev w)) = up ev (snd (pw_PatchCommunity (tc_writer c) d cs w)))"

definition skip_stable :: "'w ts_config \<Rightarrow> bool" where
  "skip_stable c \<longleftrightarrow> (\<forall>ev w w'. skips c ev w = skips c ev w')"

text \<open>The specification: each task takes effect at once, no batch.\<close>

definition immediate :: "'w ts_config \<Rightarrow> (event \<Rightarrow> 'w \<Rightarrow> 'w) \<Rightarrow> projectionTask \<Rightarrow> 'w \<Rightarrow> 'w" where
  "immediate c up t w = (case pt_Delete t of
     Some i \<Rightarrow> snd (pw_Delete (tc_writer c) i w)
   | None \<Rightarrow> (case pt_Stamp t of
       Some st \<Rightarrow> snd (pw_PatchCommunity (tc_writer c) (sp_DocID st) (sp_Communities st) w)
     | None \<Rightarrow> if skips c (pt_Event t) w then w else (case pt_Content t of
         Some content \<Rightarrow> snd (pw_Patch (tc_writer c) (pt_Event t) content (up (pt_Event t) w))
       | None \<Rightarrow> up (pt_Event t) w)))"

text \<open>The index as it will be once the pending batch is flushed.\<close>

definition flushed :: "'w ts_config \<Rightarrow> (event \<Rightarrow> 'w \<Rightarrow> 'w) \<Rightarrow> tsbuf \<times> 'w \<Rightarrow> 'w" where
  "flushed c up = (\<lambda>(b, w). fold up (List.filter (\<lambda>ev. \<not> skips c ev w) (tb_batch b)) w)"

lemma flushed_empty [simp]: "flushed c up (empty_buf, w) = w"
  by (simp add: flushed_def empty_buf_def)

lemma flushBatch_flushed:
  "writer_ok c up \<Longrightarrow> flushBatch c (b, w) = (empty_buf, flushed c up (b, w))"
  by (cases b) (auto simp: flushBatch_def flushed_def upsertOnce_def writer_ok_def Let_def empty_buf_def
      split: prod.splits dest!: arg_cong [of _ _ snd])

lemma patch_commutes_fold:
  assumes "writer_ok c up" and "\<forall>ev \<in> set evs. tc_docid c ev \<noteq> Inr d"
  shows "snd (pw_PatchCommunity (tc_writer c) d cs (fold up evs w)) =
    fold up evs (snd (pw_PatchCommunity (tc_writer c) d cs w))"
  using assms(2)
proof (induction evs arbitrary: w)
  case (Cons ev evs)
  then show ?case using assms(1) by (simp add: writer_ok_def)
qed simp

lemma process_refines:
  assumes "writer_ok c up" and "skip_stable c" and "buf_ok c b"
  shows "flushed c up (process c t (b, w)) = immediate c up t (flushed c up (b, w))"
proof -
  define P where "P ev = skips c ev w" for ev
  have sk: "skips c ev w' = P ev" for ev w'
    using assms(2) unfolding skip_stable_def P_def by blast
  have add: "flushed c up (addToBatch c ev b, w) =
      (if P ev then flushed c up (b, w) else up ev (flushed c up (b, w)))" for ev
    by (simp add: flushed_def sk)
  have stamp: "snd (pw_PatchCommunity (tc_writer c) d cs (flushed c up (b, w))) =
      flushed c up (b, snd (pw_PatchCommunity (tc_writer c) d cs w))" if "d \<notin> tb_pending b" for d cs
  proof -
    have "\<forall>ev \<in> set (List.filter (\<lambda>ev. \<not> P ev) (tb_batch b)). tc_docid c ev \<noteq> Inr d"
      using that assms(3) by (auto simp: buf_ok_def pending_of_def)
    from patch_commutes_fold [OF assms(1) this, of cs w] show ?thesis by (simp add: flushed_def sk)
  qed
  note F = flushBatch_flushed [OF assms(1)]
  show ?thesis
  proof (cases "pt_Delete t")
    case (Some i)
    then show ?thesis by (simp add: process_def immediate_def F)
  next
    case no_del: None
    show ?thesis
    proof (cases "pt_Stamp t")
      case (Some st)
      with no_del show ?thesis by (simp add: process_def immediate_def F stamp)
    next
      case no_stamp: None
      show ?thesis
      proof (cases "pt_Content t")
        case None
        with no_del no_stamp show ?thesis by (simp add: process_def immediate_def F add Let_def sk)
      next
        case (Some content)
        with no_del no_stamp show ?thesis
          by (simp add: process_def immediate_def F add sk)
      qed
    qed
  qed
qed

text \<open>The simulation relation, along every run in which nothing else writes to the index.\<close>

definition ts_sim :: "'w ts_config \<Rightarrow> (event \<Rightarrow> 'w \<Rightarrow> 'w) \<Rightarrow> 'w \<Rightarrow> 'w ts_state \<Rightarrow> bool" where
  "ts_sim c up w0 s \<longleftrightarrow> buf_ok c (ts_local s) \<and> (ts_phase s = Abandoned \<or>
     flushed c up (ts_local s, ts_world s) = fold (immediate c up) (ts_processed s) w0 \<and>
     ts_accepted s = ts_processed s @ ts_queue s \<and>
     (ts_phase s = Stopped \<longrightarrow> ts_local s = empty_buf))"

lemma ts_sim_flush:
  assumes "writer_ok c up" and "tc_batchSize c \<ge> 1" and "ts_sim c up w0 s" and "ts_phase s \<noteq> Abandoned"
  shows "ts_sim c up w0 (flush_state c s)"
  using assms buf_ok_empty [OF assms(2)] by (simp add: ts_sim_def flush_state_def flushBatch_flushed)

lemma ts_sim_process:
  assumes "writer_ok c up" and "skip_stable c" and "tc_batchSize c \<ge> 1"
    and "buf_ok c (ts_local s)" and "flushed c up (ts_local s, ts_world s) = fold (immediate c up) (ts_processed s) w0"
    and "ts_accepted s = ts_processed s @ t # ts_queue s" and "ts_phase s \<noteq> Stopped"
  shows "ts_sim c up w0 (process_state c t s)"
proof -
  obtain b w where p: "process c t (ts_local s, ts_world s) = (b, w)"
    by (cases "process c t (ts_local s, ts_world s)")
  have "buf_ok c b" using process_buf_ok [OF assms(3,4), of t "ts_world s"] p by simp
  moreover have "flushed c up (b, w) = immediate c up t (flushed c up (ts_local s, ts_world s))"
    using process_refines [OF assms(1,2,4), of t "ts_world s"] p by simp
  ultimately show ?thesis using assms(5-) by (simp add: ts_sim_def process_state_def p)
qed

lemma ts_sim_step:
  assumes "writer_ok c up" and "skip_stable c" and "tc_batchSize c \<ge> 1" and "\<forall>w w'. env w w' \<longrightarrow> w' = w"
    and "ts_step c env s s'" and "ts_sim c up w0 s"
  shows "ts_sim c up w0 s'"
  using assms(5,6)
proof (induction rule: ts_step.induct)
  case (SelectTask s t q)
  then show ?case
    using ts_sim_process [OF assms(1-3), of "s\<lparr>ts_queue := q, ts_phase := Top\<rparr>" w0 t] by (simp add: ts_sim_def)
next
  case (DrainTask s t q)
  then show ?case
    using ts_sim_process [OF assms(1-3), of "s\<lparr>ts_queue := q\<rparr>" w0 t] by (simp add: ts_sim_def)
next
  case (SelectTick s)
  then show ?case
    using ts_sim_flush [OF assms(1,3), of w0 "s\<lparr>ts_phase := Top\<rparr>"] by (simp add: ts_sim_def)
next
  case (DrainEnd s)
  then show ?case
    using buf_ok_empty [OF assms(3)]
    by (simp add: ts_sim_def flush_state_def flushBatch_flushed [OF assms(1)])
next
  case (DeadlineDuring s t q)
  obtain b w where p: "process c t (ts_local s, ts_world s) = (b, w)"
    by (cases "process c t (ts_local s, ts_world s)")
  with DeadlineDuring process_buf_ok [OF assms(3), of "ts_local s" t "ts_world s"] show ?case
    by (simp add: ts_sim_def process_state_def)
next
  case (DeadlineFlush s)
  then show ?case
    using buf_ok_empty [OF assms(3)] by (simp add: ts_sim_def flush_state_def flushBatch_flushed [OF assms(1)])
qed (use assms(4) in \<open>auto simp: ts_sim_def\<close>)

lemma ts_sim_init: "tc_batchSize c \<ge> 1 \<Longrightarrow> ts_sim c up w (ts_init w)"
  by (simp add: ts_sim_def ts_init_def buf_ok_empty)

lemma ts_sim_reach:
  assumes "writer_ok c up" and "skip_stable c" and "tc_batchSize c \<ge> 1" and "\<forall>w w'. env w w' \<longrightarrow> w' = w"
    and "ts_reach c env (ts_init w0) s"
  shows "ts_sim c up w0 s"
  using assms(5) by induction (use ts_sim_init [OF assms(3)] ts_sim_step [OF assms(1-4)] in auto)

section \<open>A deletion is final\<close>

text \<open>
  \<open>index_ok c i absent\<close>: what the index does to the documents of event \<open>i\<close>. Indexing other events
  and patching creates none, its deletion removes them. \<open>dead\<close>: the gate blocks the event.
\<close>

definition dead :: "'w ts_config \<Rightarrow> event_id \<Rightarrow> 'w \<Rightarrow> bool" where
  "dead c i w \<longleftrightarrow> (\<forall>ev. ev_id ev = i \<longrightarrow> skips c ev w)"

definition index_ok :: "'w ts_config \<Rightarrow> event_id \<Rightarrow> ('w \<Rightarrow> bool) \<Rightarrow> bool" where
  "index_ok c i absent \<longleftrightarrow>
     (\<forall>evs w. absent w \<and> (\<forall>ev \<in> set evs. ev_id ev \<noteq> i) \<longrightarrow> absent (snd (pw_Upsert (tc_writer c) evs w))) \<and>
     (\<forall>ev content w. absent w \<longrightarrow> absent (snd (pw_Patch (tc_writer c) ev content w))) \<and>
     (\<forall>d cs w. absent w \<longrightarrow> absent (snd (pw_PatchCommunity (tc_writer c) d cs w))) \<and>
     (\<forall>j w. absent w \<longrightarrow> absent (snd (pw_Delete (tc_writer c) j w))) \<and>
     (\<forall>w. absent (snd (pw_Delete (tc_writer c) i w)))"

text \<open>The writer touches the index only, so it does not change what is blocked.\<close>

definition writer_keeps_gate :: "'w ts_config \<Rightarrow> bool" where
  "writer_keeps_gate c \<longleftrightarrow>
     (\<forall>evs ev w. skips c ev (snd (pw_Upsert (tc_writer c) evs w)) = skips c ev w) \<and>
     (\<forall>e content ev w. skips c ev (snd (pw_Patch (tc_writer c) e content w)) = skips c ev w) \<and>
     (\<forall>d cs ev w. skips c ev (snd (pw_PatchCommunity (tc_writer c) d cs w)) = skips c ev w) \<and>
     (\<forall>j ev w. skips c ev (snd (pw_Delete (tc_writer c) j w)) = skips c ev w)"

lemma upsertOnce_world: "snd (upsertOnce c evs w) = snd (pw_Upsert (tc_writer c) evs w)"
  by (simp add: upsertOnce_def split: prod.splits)

lemma flushBatch_gate:
  assumes "writer_keeps_gate c"
  shows "skips c ev (snd (flushBatch c (b, w))) = skips c ev w"
  using assms by (simp add: flushBatch_def Let_def upsertOnce_world writer_keeps_gate_def)

lemma flushBatch_absent:
  assumes "index_ok c i absent" and "dead c i w" and "absent w"
  shows "absent (snd (flushBatch c (b, w)))"
proof -
  have "\<forall>ev \<in> set (List.filter (\<lambda>ev. \<not> skips c ev w) (tb_batch b)). ev_id ev \<noteq> i"
    using assms(2) by (auto simp: dead_def)
  then have "absent (snd (pw_Upsert (tc_writer c) (List.filter (\<lambda>ev. \<not> skips c ev w) (tb_batch b)) w))"
    using assms(1,3) unfolding index_ok_def by blast
  with assms(3) show ?thesis by (simp add: flushBatch_def Let_def upsertOnce_world)
qed

lemma process_gate:
  assumes "writer_keeps_gate c"
  shows "skips c ev (snd (process c t (b, w))) = skips c ev w"
proof -
  note k = assms [unfolded writer_keeps_gate_def, THEN conjunct2]
  obtain w1 w2 where f: "flushBatch c (b, w) = (empty_buf, w1)"
    "flushBatch c (addToBatch c (pt_Event t) b, w) = (empty_buf, w2)"
    by (metis flushBatch_pair)
  have g: "skips c ev w1 = skips c ev w" "skips c ev w2 = skips c ev w"
    using flushBatch_gate [OF assms, of ev b w] flushBatch_gate [OF assms, of ev "addToBatch c (pt_Event t) b" w] f
    by simp_all
  show ?thesis
    by (cases "pt_Delete t"; cases "pt_Stamp t"; cases "pt_Content t") (simp_all add: process_def Let_def f g k)
qed

lemma process_absent:
  assumes "index_ok c i absent" and "writer_keeps_gate c" and "dead c i w"
    and "absent w \<or> pt_Delete t = Some i"
  shows "absent (snd (process c t (b, w)))"
proof -
  obtain w1 w2 where f: "flushBatch c (b, w) = (empty_buf, w1)"
    "flushBatch c (addToBatch c (pt_Event t) b, w) = (empty_buf, w2)"
    by (metis flushBatch_pair)
  have a: "absent w1" "absent w2" if "absent w"
    using flushBatch_absent [OF assms(1,3) that, of b]
      flushBatch_absent [OF assms(1,3) that, of "addToBatch c (pt_Event t) b"] f by simp_all
  note ix = assms(1) [unfolded index_ok_def]
  have dl: "absent (snd (pw_Delete (tc_writer c) i x))" for x using ix by blast
  have kp: "absent (snd (pw_Delete (tc_writer c) j x))" "absent (snd (pw_Patch (tc_writer c) e content x))"
    "absent (snd (pw_PatchCommunity (tc_writer c) d cs x))" if "absent x" for j e content d cs x
    using ix that by blast+
  show ?thesis
  proof (cases "pt_Delete t = Some i")
    case True
    then show ?thesis by (simp add: process_def f dl)
  next
    case False
    then have w: "absent w" using assms(4) by simp
    note A = w a [OF w] kp(1) [OF a(1) [OF w]] kp(2) [OF a(2) [OF w]] kp(3) [OF w] kp(3) [OF a(1) [OF w]]
    show ?thesis
      by (cases "pt_Delete t"; cases "pt_Stamp t"; cases "pt_Content t") (simp_all add: process_def Let_def f A)
  qed
qed

text \<open>The event stays dead, and absent from the moment its queued delete was handled.\<close>

definition ts_final :: "'w ts_config \<Rightarrow> event_id \<Rightarrow> ('w \<Rightarrow> bool) \<Rightarrow> nat \<Rightarrow> 'w ts_state \<Rightarrow> bool" where
  "ts_final c i absent n s \<longleftrightarrow> dead c i (ts_world s) \<and> n \<le> length (ts_processed s) \<and>
     ((\<exists>t \<in> set (drop n (ts_processed s)). pt_Delete t = Some i) \<longrightarrow> absent (ts_world s))"

lemma ts_final_flush:
  assumes "index_ok c i absent" and "writer_keeps_gate c" and "ts_final c i absent n s"
  shows "ts_final c i absent n (flush_state c s)"
  using assms(3) flushBatch_gate [OF assms(2), of _ "ts_local s" "ts_world s"]
    flushBatch_absent [OF assms(1), of "ts_world s" "ts_local s"]
  by (auto simp: ts_final_def flush_state_def dead_def split: prod.splits)

lemma ts_final_process:
  assumes "index_ok c i absent" and "writer_keeps_gate c" and "ts_final c i absent n s"
  shows "ts_final c i absent n (process_state c t s)"
  using assms(3) process_gate [OF assms(2), of _ t "ts_local s" "ts_world s"]
    process_absent [OF assms(1,2), of "ts_world s" t "ts_local s"]
  by (auto simp: ts_final_def process_state_def dead_def split: prod.splits)

lemma ts_final_step:
  assumes "index_ok c i absent" and "writer_keeps_gate c"
    and "\<forall>w w'. env w w' \<longrightarrow> (dead c i w \<longrightarrow> dead c i w') \<and> (absent w \<longrightarrow> absent w')"
    and "ts_step c env s s'" and "ts_final c i absent n s"
  shows "ts_final c i absent n s'"
  using assms(4,5)
proof (induction rule: ts_step.induct)
  case (SelectTask s t q)
  then show ?case
    using ts_final_process [OF assms(1,2), of n "s\<lparr>ts_queue := q, ts_phase := Top\<rparr>" t] by (simp add: ts_final_def)
next
  case (DrainTask s t q)
  then show ?case
    using ts_final_process [OF assms(1,2), of n "s\<lparr>ts_queue := q\<rparr>" t] by (simp add: ts_final_def)
next
  case (DeadlineDuring s t q)
  then show ?case
    using ts_final_process [OF assms(1,2), of n "s\<lparr>ts_queue := q, ts_phase := Abandoned\<rparr>" t]
    by (simp add: ts_final_def)
next
  case (SelectTick s)
  then show ?case
    using ts_final_flush [OF assms(1,2), of n "s\<lparr>ts_phase := Top\<rparr>"] by (simp add: ts_final_def)
next
  case (DrainEnd s)
  then show ?case
    using ts_final_flush [OF assms(1,2), of n "s\<lparr>ts_phase := Stopped\<rparr>"] by (simp add: ts_final_def)
next
  case (DeadlineFlush s)
  then show ?case
    using ts_final_flush [OF assms(1,2), of n "s\<lparr>ts_phase := Abandoned\<rparr>"] by (simp add: ts_final_def)
qed (use assms(3) in \<open>auto simp: ts_final_def\<close>)

section \<open>Shutdown\<close>

fun phase_rank :: "ts_phase \<Rightarrow> nat" where
  "phase_rank Select = 3"
| "phase_rank Top = 2"
| "phase_rank Draining = 1"
| "phase_rank Stopped = 0"
| "phase_rank Abandoned = 0"

definition shutdown_measure :: "'w ts_state \<Rightarrow> nat" where
  "shutdown_measure s = phase_rank (ts_phase s) + length (ts_queue s) + 2 * length (ts_inflight s)"

lemma process_state_fields [simp]:
  "ts_phase (process_state c t s) = ts_phase s" "ts_queue (process_state c t s) = ts_queue s"
  "ts_inflight (process_state c t s) = ts_inflight s" "ts_closed (process_state c t s) = ts_closed s"
  "ts_done (process_state c t s) = ts_done s"
  by (simp_all add: process_state_def split: prod.splits)

lemma flush_state_fields [simp]:
  "ts_phase (flush_state c s) = ts_phase s" "ts_queue (flush_state c s) = ts_queue s"
  "ts_inflight (flush_state c s) = ts_inflight s" "ts_closed (flush_state c s) = ts_closed s"
  "ts_done (flush_state c s) = ts_done s"
  by (simp_all add: flush_state_def split: prod.splits)

lemma shutdown_step:
  assumes "ts_step c (\<lambda>_ _. False) s s'" and "ts_closed s" and "ts_done s"
  shows "shutdown_measure s' < shutdown_measure s \<and> ts_closed s' \<and> ts_done s'"
  using assms by induction (auto simp: shutdown_measure_def)

lemma shutdown_bound:
  assumes "(ts_step c (\<lambda>_ _. False) ^^ n) s s'" and "ts_closed s" and "ts_done s"
  shows "n + shutdown_measure s' \<le> shutdown_measure s"
  using assms(1)
proof -
  have "n + shutdown_measure s' \<le> shutdown_measure s \<and> ts_closed s' \<and> ts_done s'"
    using assms
  proof (induction n arbitrary: s')
    case (Suc n)
    then obtain s1 where "(ts_step c (\<lambda>_ _. False) ^^ n) s s1" and "ts_step c (\<lambda>_ _. False) s1 s'" by auto
    with Suc shutdown_step [of c s1 s'] show ?case by fastforce
  qed simp
  then show ?thesis by simp
qed

lemma shutdown_progress:
  assumes "ts_done s" and "ts_phase s \<notin> {Stopped, Abandoned}"
  shows "\<exists>s'. ts_step c env s s'"
  using assms by (cases "ts_phase s") (blast intro: TopDone SelectDone DeadlineBefore)+

section \<open>Every reachable state\<close>

lemma buf_ok_step:
  assumes "tc_batchSize c \<ge> 1" and "ts_step c env s s'" and "buf_ok c (ts_local s)"
  shows "buf_ok c (ts_local s')"
proof -
  have p: "buf_ok c (ts_local (process_state c t x))" if "buf_ok c (ts_local x)" for t x
    using process_buf_ok [OF assms(1) that, of t "ts_world x"]
    by (cases "process c t (ts_local x, ts_world x)") (simp add: process_state_def)
  have f: "buf_ok c (ts_local (flush_state c x))" for x
    using flushBatch_fst [of c "ts_local x" "ts_world x"] buf_ok_empty [OF assms(1)]
    by (cases "flushBatch c (ts_local x, ts_world x)") (simp add: flush_state_def)
  from assms(2,3) show ?thesis
    by (induction rule: ts_step.induct) (simp_all add: p f)
qed

lemma buf_ok_reach:
  assumes "tc_batchSize c \<ge> 1" and "ts_reach c env (ts_init w) s"
  shows "buf_ok c (ts_local s)"
  using assms(2) by induction (simp_all add: ts_init_def buf_ok_empty assms(1) buf_ok_step [OF assms(1)])

lemma ts_final_reach:
  assumes "index_ok c i absent" and "writer_keeps_gate c"
    and "\<forall>w w'. env w w' \<longrightarrow> (dead c i w \<longrightarrow> dead c i w') \<and> (absent w \<longrightarrow> absent w')"
    and "ts_reach c env s0 s" and "dead c i (ts_world s0)"
  shows "ts_final c i absent (length (ts_processed s0)) s"
  using assms(4) by induction (use assms(5) ts_final_step [OF assms(1-3)] in \<open>auto simp: ts_final_def\<close>)

section \<open>Properties\<close>

subsection \<open>An index for the worked examples\<close>

type_synonym demo_index = "string \<Rightarrow> (event_id \<times> string list) option"

definition demo_up :: "event \<Rightarrow> demo_index \<Rightarrow> demo_index" where
  "demo_up ev w = (case tsDocIDFromEvent demo_lib ev of Inl _ \<Rightarrow> w | Inr d \<Rightarrow> w(d \<mapsto> (ev_id ev, [])))"

definition demo_patch :: "string \<Rightarrow> string list \<Rightarrow> demo_index \<Rightarrow> demo_index" where
  "demo_patch d cs w = (case w d of None \<Rightarrow> w | Some (i, _) \<Rightarrow> w(d \<mapsto> (i, cs)))"

definition demo_del :: "event_id \<Rightarrow> demo_index \<Rightarrow> demo_index" where
  "demo_del i w = (\<lambda>d. case w d of None \<Rightarrow> None | Some (j, cs) \<Rightarrow> if j = i then None else Some (j, cs))"

definition demo_writer :: "demo_index projectorWriter" where
  "demo_writer = \<lparr>pw_Upsert = (\<lambda>evs w. ((int (length evs), []), fold demo_up evs w)),
     pw_Patch = (\<lambda>_ _ w. (None, w)), pw_PatchCommunity = (\<lambda>d cs w. (None, demo_patch d cs w)),
     pw_Delete = (\<lambda>i w. (None, demo_del i w))\<rparr>"

definition demo_config :: "demo_index ts_config" where
  "demo_config = newProjectorBufferWithSkip demo_writer 10 (Some (\<lambda>ev _. ev_id ev = [9])) (tsDocIDFromEvent demo_lib)"

lemma demo_config_fields [simp]:
  "tc_writer demo_config = demo_writer" "tc_batchSize demo_config = 10"
  "tc_docid demo_config = tsDocIDFromEvent demo_lib" "skips demo_config ev w = (ev_id ev = [9])"
  by (simp_all add: demo_config_def newProjectorBufferWithSkip_def skips_def)

lemma demo_writer_ok: "writer_ok demo_config demo_up"
  by (auto simp: writer_ok_def demo_writer_def demo_up_def demo_patch_def fun_eq_iff split: sum.splits option.splits)

lemma demo_skip_stable: "skip_stable demo_config"
  by (simp add: skip_stable_def)

definition demo_absent :: "demo_index \<Rightarrow> bool" where
  "demo_absent w \<longleftrightarrow> (\<forall>d cs. w d \<noteq> Some ([9], cs))"

lemma demo_index_ok: "index_ok demo_config [9] demo_absent"
proof -
  have "demo_absent w \<Longrightarrow> \<forall>ev \<in> set evs. ev_id ev \<noteq> [9] \<Longrightarrow> demo_absent (fold demo_up evs w)" for evs w
    by (induction evs arbitrary: w) (auto simp: demo_absent_def demo_up_def split: sum.splits)
  then show ?thesis
    by (auto simp: index_ok_def demo_writer_def demo_absent_def demo_patch_def demo_del_def
        split: option.splits if_splits)
qed

lemma demo_keeps_gate: "writer_keeps_gate demo_config"
  by (simp add: writer_keeps_gate_def)

text \<open>A run that accepts one task, closes and drains.\<close>

lemma demo_ts_drain:
  "\<exists>s. ts_reach demo_config (\<lambda>_ _. False) ((ts_init w)\<lparr>ts_inflight := [t]\<rparr>) s \<and> ts_phase s = Stopped \<and>
     ts_processed s = [t] \<and> ts_queue s = [] \<and> ts_inflight s = []"
proof -
  let ?s1 = "(ts_init w)\<lparr>ts_inflight := [t]\<rparr>"
  let ?R = "ts_reach demo_config (\<lambda>_ _. False) ?s1"
  have cap: "channel_cap demo_config = 1000" by (simp add: channel_cap_def)
  let ?s2 = "(ts_init w)\<lparr>ts_queue := [t], ts_accepted := [t]\<rparr>"
  have 2: "?R ?s2"
    using reach_step [OF reach_refl Send [of ?s1 "[]" t "[]"]] by (simp add: ts_init_def cap)
  let ?s3 = "?s2\<lparr>ts_closed := True\<rparr>"
  have 3: "?R ?s3" using reach_step [OF 2 CloseFlag [of ?s2]] by (simp add: ts_init_def)
  let ?s4 = "?s3\<lparr>ts_done := True\<rparr>"
  have 4: "?R ?s4" using reach_step [OF 3 CloseDone [of ?s3]] by (simp add: ts_init_def)
  let ?s5 = "?s4\<lparr>ts_phase := Draining\<rparr>"
  have 5: "?R ?s5" using reach_step [OF 4 TopDone [of ?s4]] by (simp add: ts_init_def)
  let ?s6 = "process_state demo_config t (?s5\<lparr>ts_queue := []\<rparr>)"
  have 6: "?R ?s6" using reach_step [OF 5 DrainTask [of ?s5 t "[]"]] by (simp add: ts_init_def)
  let ?s7 = "flush_state demo_config (?s6\<lparr>ts_phase := Stopped\<rparr>)"
  have "?R ?s7" using reach_step [OF 6 DrainEnd [of ?s6]] by simp
  moreover have "ts_processed ?s7 = [t] \<and> ts_queue ?s7 = [] \<and> ts_inflight ?s7 = []"
    by (simp add: flush_state_def process_state_def ts_init_def split: prod.splits)
  ultimately show ?thesis by (intro exI conjI) (assumption, simp_all)
qed

lemma reach_trans: "ts_reach c env s1 s2 \<Longrightarrow> ts_reach c env s0 s1 \<Longrightarrow> ts_reach c env s0 s2"
  by (induction rule: ts_reach.induct) (auto intro: reach_step)

lemma demo_run:
  "\<exists>s. ts_reach demo_config (\<lambda>_ _. False) (ts_init w) s \<and> ts_phase s = Stopped \<and> ts_processed s = [t]"
proof -
  have "ts_reach demo_config (\<lambda>_ _. False) (ts_init w) ((ts_init w)\<lparr>ts_inflight := [t]\<rparr>)"
    using reach_step [OF reach_refl Admit [of "ts_init w" demo_config _ t]] by (simp add: ts_init_def)
  with demo_ts_drain [where w = w and t = t] show ?thesis by (meson reach_trans)
qed

text \<open>C1. The buffer is a faithful queue: when it has drained, the index is exactly as if every accepted
  task had been applied at once, one by one and in order, without batches and without the events
  that the gate blocks; only tasks sent after the worker stopped are left over. This holds for
  every interleaving of producers, ticks and the shutdown.\<close>

theorem drained_buffer_equals_immediate_writes:
  assumes "writer_ok c up" and "skip_stable c" and "tc_batchSize c \<ge> 1" and "\<forall>w w'. env w w' \<longrightarrow> w' = w"
    and "ts_reach c env (ts_init w0) s" and "ts_phase s = Stopped"
  shows "ts_world s = fold (immediate c up) (ts_processed s) w0 \<and> ts_accepted s = ts_processed s @ ts_queue s"
  using ts_sim_reach [OF assms(1-5)] assms(6) by (auto simp: ts_sim_def)

lemma drained_buffer_equals_immediate_writes_witness:
  "\<exists>s. ts_reach demo_config (\<lambda>_ _. False) (ts_init (\<lambda>_. None)) s \<and>
     ts_world s = fold (immediate demo_config demo_up) [Queue (demo_event 1 30142 0 [[''d'', ''x'']])] (\<lambda>_. None)"
proof -
  obtain s where s: "ts_reach demo_config (\<lambda>_ _. False) (ts_init (\<lambda>_. None)) s" "ts_phase s = Stopped"
    "ts_processed s = [Queue (demo_event 1 30142 0 [[''d'', ''x'']])]"
    using demo_run by blast
  from drained_buffer_equals_immediate_writes [OF demo_writer_ok demo_skip_stable _ _ s(1,2)] s(1,3)
  show ?thesis by (intro exI [of _ s]) simp
qed

text \<open>C2. A deleted event does not come back: once the gate blocks an event, from the moment its queued
  delete has been handled no document of it is in the index, whatever was in the batch or the
  queue before and whatever is queued later.\<close>

theorem queued_delete_is_final:
  assumes "index_ok c i absent" and "writer_keeps_gate c"
    and "\<forall>w w'. env w w' \<longrightarrow> (dead c i w \<longrightarrow> dead c i w') \<and> (absent w \<longrightarrow> absent w')"
    and "ts_reach c env s0 s" and "dead c i (ts_world s0)"
    and "QueueDelete i \<in> set (drop (length (ts_processed s0)) (ts_processed s))"
  shows "absent (ts_world s)"
  using ts_final_reach [OF assms(1-5)] assms(6) by (force simp: ts_final_def QueueDelete_def)

lemma queued_delete_is_final_witness:
  "\<exists>s. ts_reach demo_config (\<lambda>_ _. False) (ts_init ((\<lambda>_. None)(''x'' \<mapsto> ([9], [])))) s \<and> demo_absent (ts_world s)"
proof -
  let ?w = "(\<lambda>_. None)(''x'' \<mapsto> ([9 :: 8 word], [] :: string list)) :: demo_index"
  obtain s where s: "ts_reach demo_config (\<lambda>_ _. False) (ts_init ?w) s" "ts_processed s = [QueueDelete [9]]"
    using demo_run by blast
  have "dead demo_config [9] (ts_world (ts_init ?w))" by (simp add: dead_def)
  moreover have "QueueDelete [9] \<in> set (drop (length (ts_processed (ts_init ?w))) (ts_processed s))"
    by (simp add: s(2) ts_init_def)
  ultimately have "demo_absent (ts_world s)"
    using queued_delete_is_final [OF demo_index_ok demo_keeps_gate _ s(1)] by blast
  with s(1) show ?thesis by blast
qed

text \<open>In every reachable state the batch is below its configured size (at least one), and the set
  of pending document ids, which decides whether a community patch must wait for a flush, is that
  of the batch.\<close>

theorem batch_stays_bounded:
  assumes "c = newProjectorBufferWithSkip writer batchSize skip docid" and "ts_reach c env (ts_init w) s"
  shows "int (length (tb_batch (ts_local s))) < max 1 batchSize \<and>
    tb_pending (ts_local s) = {d. \<exists>ev \<in> set (tb_batch (ts_local s)). docid ev = Inr d}"
proof -
  have "tc_batchSize c = max 1 batchSize" and "tc_docid c = docid"
    by (simp_all add: assms(1) newProjectorBufferWithSkip_def)
  with buf_ok_reach [OF _ assms(2)] show ?thesis by (auto simp: buf_ok_def pending_of_def)
qed

lemma batch_stays_bounded_witness:
  "\<exists>s :: demo_index ts_state. ts_processed s = [QueueDelete [9]] \<and> int (length (tb_batch (ts_local s))) < 10"
proof -
  obtain s where s: "ts_reach demo_config (\<lambda>_ _. False) (ts_init (\<lambda>_. None)) s" "ts_processed s = [QueueDelete [9]]"
    using demo_run by blast
  with batch_stays_bounded [OF demo_config_def s(1)] show ?thesis by auto
qed

text \<open>C23. Shutdown terminates: after \<open>Close\<close>, every run of the worker and the producers that were already
  past the check is at most as long as the queue, twice the waiting producers and three steps, and
  a worker that has not stopped can always move, so every maximal run stops.\<close>

theorem close_terminates:
  assumes "ts_closed s" and "ts_done s" and "(ts_step c (\<lambda>_ _. False) ^^ n) s s'"
  shows "n \<le> 3 + length (ts_queue s) + 2 * length (ts_inflight s) \<and>
    (ts_phase s' \<in> {Stopped, Abandoned} \<or> (\<exists>s''. ts_step c (\<lambda>_ _. False) s' s''))"
proof -
  have "phase_rank (ts_phase s) \<le> 3" by (cases "ts_phase s") simp_all
  moreover have "ts_done s'"
    using assms
  proof (induction n arbitrary: s')
    case (Suc n)
    then obtain s1 where "(ts_step c (\<lambda>_ _. False) ^^ n) s s1" and st: "ts_step c (\<lambda>_ _. False) s1 s'" by auto
    with Suc have "ts_done s1" by blast
    with st show ?case by induction simp_all
  qed simp
  ultimately show ?thesis
    using shutdown_bound [OF assms(3,1,2)] shutdown_progress [of s'] by (auto simp: shutdown_measure_def)
qed

lemma close_terminates_witness:
  "\<exists>s''. ts_step demo_config (\<lambda>_ _. False) ((ts_init (\<lambda>_. None))\<lparr>ts_closed := True, ts_done := True\<rparr>) s''"
proof -
  let ?s = "(ts_init (\<lambda>_. None))\<lparr>ts_closed := True, ts_done := True\<rparr>"
  have "(ts_step demo_config (\<lambda>_ _. False) ^^ 0) ?s ?s" by simp
  from close_terminates [OF _ _ this] show ?thesis by (simp add: ts_init_def)
qed

end
