(* ===== verification/BoltBuffer.thy ===== *)
theory BoltBuffer
  imports TSBuffer
begin

text \<open>
  \<open>bolt_buffer.go\<close>: the queue in front of the event database. \<open>bolt_process\<close> is the worker's
  treatment of one write with its retries; \<open>bolt_step\<close> is the same code cut at every access to
  shared state, interleaved with the producers, the shutdown and the purge path, which first
  records a ban or tombstone and then deletes. The pauses between retries are left out: other
  goroutines may move between any two steps.
\<close>

section \<open>One write\<close>

text \<open>\<open>DupEvent\<close> is an error for which \<open>errors.Is(err, ErrDupEvent)\<close> holds.\<close>

datatype db_error = DupEvent string | DbError string

record 'w boltEventWriter =
  bw_SaveEvent :: "event \<Rightarrow> 'w \<Rightarrow> db_error option \<times> 'w"
  bw_ReplaceEvent :: "event \<Rightarrow> 'w \<Rightarrow> db_error option \<times> 'w"
  bw_DeleteEvent :: "event_id \<Rightarrow> 'w \<Rightarrow> error option \<times> 'w"

record boltOp =
  op_event :: event
  op_replace :: bool

record 'w bolt_config =
  bc_db :: "'w boltEventWriter"
  bc_skip :: "(event \<Rightarrow> 'w \<Rightarrow> bool) option"

definition boltBufSize :: nat where
  "boltBufSize = 10000"

definition boltMaxRetries :: nat where
  "boltMaxRetries = 5"

definition permanentRejectionPrefixes :: "string list" where
  "permanentRejectionPrefixes = [''duplicate:'', ''blocked:'', ''invalid:'']"

definition isPermanentRejection :: "string \<Rightarrow> bool" where
  "isPermanentRejection msg \<longleftrightarrow> list_ex (\<lambda>prefix. has_prefix msg prefix) permanentRejectionPrefixes"

definition bolt_skips :: "'w bolt_config \<Rightarrow> event \<Rightarrow> 'w \<Rightarrow> bool" where
  "bolt_skips c ev w = (case bc_skip c of None \<Rightarrow> False | Some skip \<Rightarrow> skip ev w)"

definition bolt_write :: "'w bolt_config \<Rightarrow> boltOp \<Rightarrow> 'w \<Rightarrow> db_error option \<times> 'w" where
  "bolt_write c op w = (if op_replace op then bw_ReplaceEvent (bc_db c) (op_event op) w
     else bw_SaveEvent (bc_db c) (op_event op) w)"

definition selfHealIfBanned :: "'w bolt_config \<Rightarrow> event \<Rightarrow> 'w \<Rightarrow> 'w" where
  "selfHealIfBanned c ev w = (if \<not> bolt_skips c ev w then w else snd (bw_DeleteEvent (bc_db c) (ev_id ev) w))"

text \<open>The first argument is the number of attempts left.\<close>

fun bolt_attempts :: "nat \<Rightarrow> 'w bolt_config \<Rightarrow> boltOp \<Rightarrow> 'w \<Rightarrow> 'w" where
  "bolt_attempts 0 c op w = w"
| "bolt_attempts (Suc left) c op w =
     (if bolt_skips c (op_event op) w then w
      else (case bolt_write c op w of
        (None, w') \<Rightarrow> selfHealIfBanned c (op_event op) w'
      | (Some (DupEvent _), w') \<Rightarrow> selfHealIfBanned c (op_event op) w'
      | (Some (DbError msg), w') \<Rightarrow> if isPermanentRejection msg then w' else bolt_attempts left c op w'))"

definition bolt_process :: "'w bolt_config \<Rightarrow> boltOp \<Rightarrow> 'w \<Rightarrow> 'w" where
  "bolt_process c op w = bolt_attempts boltMaxRetries c op w"

section \<open>Interleaving\<close>

text \<open>
  The program counter of the worker: \<open>Loop op n\<close> is the head of the retry loop with \<open>n\<close> attempts
  left, \<open>Write op n\<close> comes after the check of \<open>skip\<close>, \<open>Heal\<close> before the second check and
  \<open>HealDelete\<close> after it. The purge path for event \<open>i\<close>: \<open>mark\<close> records the ban or tombstone.
  \<open>bs_accepted\<close> and \<open>bs_taken\<close> record the writes that entered the channel, whose \<open>Queue\<close> thus
  returned true, and those the worker took out to write them; \<open>bs_abandoned\<close> is the write that the drain had already
  received when its deadline passed and that nobody carries out.
\<close>

datatype bolt_pc = Idle | Loop boltOp nat | Write boltOp nat | Heal boltOp | HealDelete boltOp

datatype purge_pc = NotMarked | Marked | Purged

datatype bolt_phase = Running | BoltDraining | BoltStopped

record 'w bolt_state =
  bs_world :: 'w
  bs_queue :: "boltOp list"
  bs_inflight :: "boltOp list"
  bs_closed :: bool
  bs_done :: bool
  bs_phase :: bolt_phase
  bs_pc :: bolt_pc
  bs_purge :: purge_pc
  bs_accepted :: "boltOp list"
  bs_taken :: "boltOp list"
  bs_abandoned :: "boltOp list"

definition bolt_init :: "'w \<Rightarrow> 'w bolt_state" where
  "bolt_init w = \<lparr>bs_world = w, bs_queue = [], bs_inflight = [], bs_closed = False, bs_done = False,
     bs_phase = Running, bs_pc = Idle, bs_purge = NotMarked, bs_accepted = [], bs_taken = [],
     bs_abandoned = []\<rparr>"

definition after_write :: "boltOp \<Rightarrow> nat \<Rightarrow> db_error option \<Rightarrow> bolt_pc" where
  "after_write op left err = (case err of
     None \<Rightarrow> Heal op
   | Some (DupEvent _) \<Rightarrow> Heal op
   | Some (DbError msg) \<Rightarrow> if isPermanentRejection msg then Idle else Loop op left)"

inductive worker_step :: "'w bolt_config \<Rightarrow> 'w bolt_state \<Rightarrow> 'w bolt_state \<Rightarrow> bool"
  for c :: "'w bolt_config" where
  GiveUp: "bs_pc s = Loop op 0 \<Longrightarrow> worker_step c s (s\<lparr>bs_pc := Idle\<rparr>)"
| CheckDrop: "bs_pc s = Loop op (Suc n) \<Longrightarrow> bolt_skips c (op_event op) (bs_world s) \<Longrightarrow>
    worker_step c s (s\<lparr>bs_pc := Idle\<rparr>)"
| CheckPass: "bs_pc s = Loop op (Suc n) \<Longrightarrow> \<not> bolt_skips c (op_event op) (bs_world s) \<Longrightarrow>
    worker_step c s (s\<lparr>bs_pc := Write op n\<rparr>)"
| DoWrite: "bs_pc s = Write op n \<Longrightarrow> bolt_write c op (bs_world s) = (err, w) \<Longrightarrow>
    worker_step c s (s\<lparr>bs_world := w, bs_pc := after_write op n err\<rparr>)"
| HealPass: "bs_pc s = Heal op \<Longrightarrow> \<not> bolt_skips c (op_event op) (bs_world s) \<Longrightarrow>
    worker_step c s (s\<lparr>bs_pc := Idle\<rparr>)"
| HealHit: "bs_pc s = Heal op \<Longrightarrow> bolt_skips c (op_event op) (bs_world s) \<Longrightarrow>
    worker_step c s (s\<lparr>bs_pc := HealDelete op\<rparr>)"
| DoHeal: "bs_pc s = HealDelete op \<Longrightarrow>
    worker_step c s (s\<lparr>bs_world := snd (bw_DeleteEvent (bc_db c) (ev_id (op_event op)) (bs_world s)), bs_pc := Idle\<rparr>)"

text \<open>
  \<open>drain\<close> receives a write before it runs it under the deadline: when the time is up by then, the write is gone from
  the channel and never carried out (\<open>DeadlineBefore\<close>); when it runs out during the write, \<open>drain\<close> returns and the
  goroutine of the write goes on (\<open>DeadlineDuring\<close>).
\<close>

inductive bolt_step :: "'w bolt_config \<Rightarrow> event_id \<Rightarrow> ('w \<Rightarrow> 'w) \<Rightarrow> 'w bolt_state \<Rightarrow> 'w bolt_state \<Rightarrow> bool"
  for c :: "'w bolt_config" and i :: event_id and mark :: "'w \<Rightarrow> 'w" where
  Work: "worker_step c s s' \<Longrightarrow> bolt_step c i mark s s'"
| Take: "bs_pc s = Idle \<Longrightarrow> bs_phase s \<noteq> BoltStopped \<Longrightarrow> bs_queue s = op # q \<Longrightarrow>
    bolt_step c i mark s (s\<lparr>bs_queue := q, bs_pc := Loop op boltMaxRetries, bs_taken := bs_taken s @ [op]\<rparr>)"
| QueueCheck: "\<not> bs_closed s \<Longrightarrow> bolt_step c i mark s (s\<lparr>bs_inflight := bs_inflight s @ [op]\<rparr>)"
| QueueSend: "bs_inflight s = xs @ op # ys \<Longrightarrow> length (bs_queue s) < boltBufSize \<Longrightarrow>
    bolt_step c i mark s (s\<lparr>bs_inflight := xs @ ys, bs_queue := bs_queue s @ [op], bs_accepted := bs_accepted s @ [op]\<rparr>)"
| SetClosed: "\<not> bs_closed s \<Longrightarrow> bolt_step c i mark s (s\<lparr>bs_closed := True\<rparr>)"
| SetDone: "bs_closed s \<Longrightarrow> \<not> bs_done s \<Longrightarrow> bolt_step c i mark s (s\<lparr>bs_done := True\<rparr>)"
| SeeDone: "bs_pc s = Idle \<Longrightarrow> bs_phase s = Running \<Longrightarrow> bs_done s \<Longrightarrow>
    bolt_step c i mark s (s\<lparr>bs_phase := BoltDraining\<rparr>)"
| DrainDone: "bs_pc s = Idle \<Longrightarrow> bs_phase s = BoltDraining \<Longrightarrow> bs_queue s = [] \<Longrightarrow>
    bolt_step c i mark s (s\<lparr>bs_phase := BoltStopped\<rparr>)"
| DeadlineBefore: "bs_pc s = Idle \<Longrightarrow> bs_phase s = BoltDraining \<Longrightarrow> bs_queue s = op # q \<Longrightarrow>
    bolt_step c i mark s (s\<lparr>bs_queue := q, bs_abandoned := bs_abandoned s @ [op], bs_phase := BoltStopped\<rparr>)"
| DeadlineDuring: "bs_pc s \<noteq> Idle \<Longrightarrow> bs_phase s = BoltDraining \<Longrightarrow> bolt_step c i mark s (s\<lparr>bs_phase := BoltStopped\<rparr>)"
| PurgeMark: "bs_purge s = NotMarked \<Longrightarrow>
    bolt_step c i mark s (s\<lparr>bs_world := mark (bs_world s), bs_purge := Marked\<rparr>)"
| PurgeDelete: "bs_purge s = Marked \<Longrightarrow>
    bolt_step c i mark s (s\<lparr>bs_world := snd (bw_DeleteEvent (bc_db c) i (bs_world s)), bs_purge := Purged\<rparr>)"

definition bolt_run :: "'w bolt_config \<Rightarrow> event_id \<Rightarrow> ('w \<Rightarrow> 'w) \<Rightarrow> 'w bolt_state \<Rightarrow> 'w bolt_state \<Rightarrow> bool" where
  "bolt_run c i mark = (bolt_step c i mark)\<^sup>*\<^sup>*"

section \<open>Undisturbed, the steps compute \<open>bolt_process\<close>\<close>

lemma worker_heals:
  "(worker_step c)\<^sup>*\<^sup>* (s\<lparr>bs_world := w, bs_pc := Heal op\<rparr>)
     (s\<lparr>bs_world := selfHealIfBanned c (op_event op) w, bs_pc := Idle\<rparr>)"
proof (cases "bolt_skips c (op_event op) w")
  case True
  with HealHit [of "s\<lparr>bs_world := w, bs_pc := Heal op\<rparr>" op c] DoHeal [of "s\<lparr>bs_world := w, bs_pc := HealDelete op\<rparr>" op c]
  show ?thesis by (auto simp: selfHealIfBanned_def intro: converse_rtranclp_into_rtranclp)
next
  case False
  with HealPass [of "s\<lparr>bs_world := w, bs_pc := Heal op\<rparr>" op c] show ?thesis by (auto simp: selfHealIfBanned_def)
qed

lemma worker_writes:
  assumes "\<not> bolt_skips c (op_event op) w" and "bolt_write c op w = (err, w1)"
  shows "(worker_step c)\<^sup>*\<^sup>* (s\<lparr>bs_world := w, bs_pc := Loop op (Suc n)\<rparr>) (s\<lparr>bs_world := w1, bs_pc := after_write op n err\<rparr>)"
  using CheckPass [of "s\<lparr>bs_world := w, bs_pc := Loop op (Suc n)\<rparr>" op n c]
    DoWrite [of "s\<lparr>bs_world := w, bs_pc := Write op n\<rparr>" op n c err w1] assms
  by (auto intro: converse_rtranclp_into_rtranclp)

lemma worker_runs_attempts:
  "(worker_step c)\<^sup>*\<^sup>* (s\<lparr>bs_world := w, bs_pc := Loop op n\<rparr>)
     (s\<lparr>bs_world := bolt_attempts n c op w, bs_pc := Idle\<rparr>)"
proof (induction n arbitrary: w)
  case 0
  show ?case
    using GiveUp [of "s\<lparr>bs_world := w, bs_pc := Loop op 0\<rparr>" op c] by (simp add: r_into_rtranclp)
next
  case (Suc n)
  let ?s = "s\<lparr>bs_world := w, bs_pc := Loop op (Suc n)\<rparr>"
  show ?case
  proof (cases "bolt_skips c (op_event op) w")
    case True
    with CheckDrop [of ?s op n c] show ?thesis by (simp add: r_into_rtranclp)
  next
    case False
    obtain err w1 where wr: "bolt_write c op w = (err, w1)" by (cases "bolt_write c op w")
    note wrote = worker_writes [OF False wr, where s = s and n = n] and heal = worker_heals [where s = s and w = w1 and op = op]
    show ?thesis
    proof (cases "\<exists>msg. err = Some (DbError msg)")
      case True
      then obtain msg where msg: "err = Some (DbError msg)" by blast
      show ?thesis
      proof (cases "isPermanentRejection msg")
        case True
        with wrote msg wr False show ?thesis by (simp add: after_write_def)
      next
        case retry: False
        with wrote msg have "(worker_step c)\<^sup>*\<^sup>* ?s (s\<lparr>bs_world := w1, bs_pc := Loop op n\<rparr>)"
          by (simp add: after_write_def)
        with Suc [of w1] msg wr False retry show ?thesis by (auto intro: rtranclp_trans)
      qed
    next
      case no_err: False
      then have "after_write op n err = Heal op"
        by (cases err; cases "the err") (auto simp: after_write_def)
      with wrote heal have "(worker_step c)\<^sup>*\<^sup>* ?s
          (s\<lparr>bs_world := selfHealIfBanned c (op_event op) w1, bs_pc := Idle\<rparr>)" by (simp add: rtranclp_trans)
      with no_err wr False show ?thesis by (cases err; cases "the err") auto
    qed
  qed
qed

lemma worker_run_steps: "(worker_step c)\<^sup>*\<^sup>* s s' \<Longrightarrow> (bolt_step c i mark)\<^sup>*\<^sup>* s s'"
  by (induction rule: rtranclp_induct) (auto intro: Work rtranclp.rtrancl_into_rtrancl)

section \<open>A banned event leaves no row\<close>

text \<open>
  \<open>bolt_ok c i mark present\<close>: the event database and the gate as the worker relies on them. A failed
  write and a write of another event create no row of \<open>i\<close>, deletion removes it, and once marked the
  gate blocks every event with the id for good.
\<close>

definition bolt_dead :: "'w bolt_config \<Rightarrow> event_id \<Rightarrow> 'w \<Rightarrow> bool" where
  "bolt_dead c i w \<longleftrightarrow> (\<forall>ev. ev_id ev = i \<longrightarrow> bolt_skips c ev w)"

definition bolt_ok :: "'w bolt_config \<Rightarrow> event_id \<Rightarrow> ('w \<Rightarrow> 'w) \<Rightarrow> ('w \<Rightarrow> bool) \<Rightarrow> bool" where
  "bolt_ok c i mark present \<longleftrightarrow>
     (\<forall>op w err w'. bolt_write c op w = (err, w') \<and> \<not> present w \<and>
        (ev_id (op_event op) \<noteq> i \<or> (\<exists>msg. err = Some (DbError msg))) \<longrightarrow> \<not> present w') \<and>
     (\<forall>w. \<not> present (snd (bw_DeleteEvent (bc_db c) i w))) \<and>
     (\<forall>j w. \<not> present w \<longrightarrow> \<not> present (snd (bw_DeleteEvent (bc_db c) j w))) \<and>
     (\<forall>w. bolt_dead c i (mark w)) \<and>
     (\<forall>op w. bolt_dead c i w \<longrightarrow> bolt_dead c i (snd (bolt_write c op w))) \<and>
     (\<forall>j w. bolt_dead c i w \<longrightarrow> bolt_dead c i (snd (bw_DeleteEvent (bc_db c) j w)))"

text \<open>Once marked, a row of the event is still to be deleted by the purge or by the worker.\<close>

definition heals :: "event_id \<Rightarrow> bolt_pc \<Rightarrow> bool" where
  "heals i pc \<longleftrightarrow> (\<exists>op. (pc = Heal op \<or> pc = HealDelete op) \<and> ev_id (op_event op) = i)"

definition bolt_inv :: "'w bolt_config \<Rightarrow> event_id \<Rightarrow> ('w \<Rightarrow> bool) \<Rightarrow> 'w bolt_state \<Rightarrow> bool" where
  "bolt_inv c i present s \<longleftrightarrow> (bs_purge s \<noteq> NotMarked \<longrightarrow> bolt_dead c i (bs_world s)) \<and>
     (bs_purge s = Purged \<longrightarrow> present (bs_world s) \<longrightarrow> heals i (bs_pc s))"

lemma bolt_okD:
  assumes "bolt_ok c i mark present"
  shows "bolt_write c op w = (err, w') \<Longrightarrow> \<not> present w \<Longrightarrow> present w' \<Longrightarrow>
      ev_id (op_event op) = i \<and> (\<nexists>msg. err = Some (DbError msg))"
    and "\<not> present (snd (bw_DeleteEvent (bc_db c) i w))"
    and "\<not> present w \<Longrightarrow> \<not> present (snd (bw_DeleteEvent (bc_db c) j w))"
    and "bolt_dead c i (mark w)"
    and "bolt_write c op w = (err, w') \<Longrightarrow> bolt_dead c i w \<Longrightarrow> bolt_dead c i w'"
    and "bolt_dead c i w \<Longrightarrow> bolt_dead c i (snd (bw_DeleteEvent (bc_db c) j w))"
proof -
  note ok = assms [unfolded bolt_ok_def]
  show "bolt_write c op w = (err, w') \<Longrightarrow> \<not> present w \<Longrightarrow> present w' \<Longrightarrow>
      ev_id (op_event op) = i \<and> (\<nexists>msg. err = Some (DbError msg))"
    using ok [THEN conjunct1, rule_format, of op w err w'] by blast
  show "\<not> present (snd (bw_DeleteEvent (bc_db c) i w))" using ok by simp
  show "\<not> present w \<Longrightarrow> \<not> present (snd (bw_DeleteEvent (bc_db c) j w))" using ok by simp
  show "bolt_dead c i (mark w)" using ok by simp
  show "bolt_dead c i w'" if "bolt_write c op w = (err, w')" and "bolt_dead c i w"
  proof -
    have "bolt_dead c i (snd (bolt_write c op w))" using ok that(2) by simp
    with that(1) show ?thesis by simp
  qed
  show "bolt_dead c i w \<Longrightarrow> bolt_dead c i (snd (bw_DeleteEvent (bc_db c) j w))" using ok by simp
qed

lemma worker_inv:
  assumes ok: "bolt_ok c i mark present" and "worker_step c s s'" and "bolt_inv c i present s"
  shows "bolt_inv c i present s'"
  using assms(2,3)
proof (induction rule: worker_step.induct)
  case (DoWrite s op n err w)
  have "heals i (after_write op n err)"
    if "present w" and "present (bs_world s) \<longrightarrow> heals i (bs_pc s)"
  proof -
    have "\<not> present (bs_world s)" using that(2) DoWrite(1) by (auto simp: heals_def)
    from bolt_okD(1) [OF ok DoWrite(2) this that(1)] show ?thesis
      by (cases err; cases "the err") (auto simp: heals_def after_write_def)
  qed
  with DoWrite(3) bolt_okD(5) [OF ok DoWrite(2)] show ?case by (simp add: bolt_inv_def)
next
  case (DoHeal s op)
  have "\<not> present (snd (bw_DeleteEvent (bc_db c) (ev_id (op_event op)) (bs_world s)))"
    if "present (bs_world s) \<longrightarrow> heals i (bs_pc s)"
  proof (cases "ev_id (op_event op) = i")
    case True
    with bolt_okD(2) [OF ok] show ?thesis by simp
  next
    case False
    with that DoHeal(1) have "\<not> present (bs_world s)" by (auto simp: heals_def)
    with bolt_okD(3) [OF ok] show ?thesis by simp
  qed
  with DoHeal(2) bolt_okD(6) [OF ok] show ?case by (simp add: bolt_inv_def)
next
  case (HealPass s op)
  then show ?case by (auto simp: bolt_inv_def heals_def bolt_dead_def)
qed (auto simp: bolt_inv_def heals_def)

lemma bolt_inv_step:
  assumes ok: "bolt_ok c i mark present" and "bolt_step c i mark s s'" and "bolt_inv c i present s"
  shows "bolt_inv c i present s'"
  using assms(2,3)
proof (induction rule: bolt_step.induct)
  case (Work s s')
  then show ?case using worker_inv [OF ok] by blast
next
  case (PurgeMark s)
  with bolt_okD(4) [OF ok] show ?case by (simp add: bolt_inv_def)
next
  case (PurgeDelete s)
  with bolt_okD(2) [OF ok] bolt_okD(6) [OF ok] show ?case by (simp add: bolt_inv_def)
qed (auto simp: bolt_inv_def heals_def)

lemma bolt_inv_run:
  assumes "bolt_ok c i mark present" and "bolt_run c i mark (bolt_init w) s"
  shows "bolt_inv c i present s"
  using assms(2) unfolding bolt_run_def
proof induction
  case base
  show ?case by (simp add: bolt_inv_def bolt_init_def)
next
  case (step s s')
  from bolt_inv_step [OF assms(1) step(2,3)] show ?case .
qed

section \<open>An acknowledged write is stored\<close>

text \<open>
  \<open>keeps_stored c i mark ev stored faults\<close>: a database in which the row of \<open>ev\<close>, or of a version that replaces
  it (\<open>stored\<close>), goes away only when the id of \<open>ev\<close> is deleted, and which fails to write \<open>ev\<close> only
  transiently, using up one of \<open>faults\<close> each time. Nothing blocks the event.
\<close>

definition keeps_stored :: "'w bolt_config \<Rightarrow> event_id \<Rightarrow> ('w \<Rightarrow> 'w) \<Rightarrow> event \<Rightarrow> ('w \<Rightarrow> bool) \<Rightarrow> ('w \<Rightarrow> nat) \<Rightarrow> bool" where
  "keeps_stored c i mark ev stored faults \<longleftrightarrow> i \<noteq> ev_id ev \<and>
     (\<forall>e w. ev_id e = ev_id ev \<longrightarrow> \<not> bolt_skips c e w) \<and>
     (\<forall>op w err w'. bolt_write c op w = (err, w') \<longrightarrow> faults w' \<le> faults w \<and> (stored w \<longrightarrow> stored w') \<and>
        (op_event op = ev \<longrightarrow> (case err of
           Some (DbError msg) \<Rightarrow> \<not> isPermanentRejection msg \<and> faults w' < faults w
         | _ \<Rightarrow> stored w'))) \<and>
     (\<forall>j w err w'. bw_DeleteEvent (bc_db c) j w = (err, w') \<longrightarrow> faults w' \<le> faults w \<and>
        (stored w \<longrightarrow> j \<noteq> ev_id ev \<longrightarrow> stored w')) \<and>
     (\<forall>w. faults (mark w) \<le> faults w \<and> (stored w \<longrightarrow> stored (mark w)))"

lemma keeps_storedD:
  assumes "keeps_stored c i mark ev stored faults"
  shows "i \<noteq> ev_id ev" "ev_id e = ev_id ev \<Longrightarrow> \<not> bolt_skips c e w"
    "bolt_write c op w = (err, w') \<Longrightarrow> faults w' \<le> faults w"
    "bolt_write c op w = (err, w') \<Longrightarrow> stored w \<Longrightarrow> stored w'"
    "bolt_write c op w = (err, w') \<Longrightarrow> op_event op = ev \<Longrightarrow> err = Some (DbError msg) \<Longrightarrow> \<not> isPermanentRejection msg \<and> faults w' < faults w"
    "bolt_write c op w = (err, w') \<Longrightarrow> op_event op = ev \<Longrightarrow> (\<nexists>msg. err = Some (DbError msg)) \<Longrightarrow> stored w'"
    "faults (snd (bw_DeleteEvent (bc_db c) j w)) \<le> faults w"
    "stored w \<Longrightarrow> j \<noteq> ev_id ev \<Longrightarrow> stored (snd (bw_DeleteEvent (bc_db c) j w))"
    "faults (mark w) \<le> faults w" "stored w \<Longrightarrow> stored (mark w)"
proof -
  note k = assms [unfolded keeps_stored_def]
  show "i \<noteq> ev_id ev" using k by blast
  show "\<not> bolt_skips c e w" if "ev_id e = ev_id ev" using k that by blast
  have wr: "faults w' \<le> faults w \<and> (stored w \<longrightarrow> stored w') \<and> (op_event op = ev \<longrightarrow> (case err of
      Some (DbError msg) \<Rightarrow> \<not> isPermanentRejection msg \<and> faults w' < faults w | _ \<Rightarrow> stored w'))"
    if "bolt_write c op w = (err, w')" using k that by blast
  show "faults w' \<le> faults w" if "bolt_write c op w = (err, w')" using wr [OF that] by simp
  show "stored w'" if "bolt_write c op w = (err, w')" "stored w" using wr [OF that(1)] that(2) by simp
  show "\<not> isPermanentRejection msg \<and> faults w' < faults w" if "bolt_write c op w = (err, w')" "op_event op = ev" "err = Some (DbError msg)"
    using wr [OF that(1)] that(2,3) by simp
  show "stored w'" if "bolt_write c op w = (err, w')" "op_event op = ev" "\<nexists>msg. err = Some (DbError msg)"
    using wr [OF that(1)] that(2,3) by (simp split: option.splits db_error.splits)
  have del: "faults w' \<le> faults w \<and> (stored w \<longrightarrow> j \<noteq> ev_id ev \<longrightarrow> stored w')"
    if "bw_DeleteEvent (bc_db c) j w = (err, w')" for err w' using k that by blast
  show "faults (snd (bw_DeleteEvent (bc_db c) j w)) \<le> faults w" using del by (metis prod.collapse)
  show "stored (snd (bw_DeleteEvent (bc_db c) j w))" if "stored w" "j \<noteq> ev_id ev" using del that by (metis prod.collapse)
  show "faults (mark w) \<le> faults w" using k by simp
  show "stored (mark w)" if "stored w" using k that by simp
qed

text \<open>What is left to do for \<open>ev\<close>: the attempts that remain outnumber the faults that remain.\<close>

fun attempting :: "event \<Rightarrow> nat \<Rightarrow> bolt_pc \<Rightarrow> bool" where
  "attempting ev k (Loop op n) \<longleftrightarrow> op_event op = ev \<and> k < n"
| "attempting ev k (Write op n) \<longleftrightarrow> op_event op = ev \<and> k \<le> n"
| "attempting ev k pc \<longleftrightarrow> False"

definition ack_inv :: "event \<Rightarrow> ('w \<Rightarrow> bool) \<Rightarrow> ('w \<Rightarrow> nat) \<Rightarrow> 'w bolt_state \<Rightarrow> bool" where
  "ack_inv ev stored faults s \<longleftrightarrow> faults (bs_world s) < boltMaxRetries \<and>
     bs_accepted s = bs_taken s @ bs_abandoned s @ bs_queue s \<and>
     (bs_abandoned s \<noteq> [] \<longrightarrow> bs_phase s = BoltStopped) \<and>
     (\<forall>op. bs_pc s = HealDelete op \<longrightarrow> ev_id (op_event op) \<noteq> ev_id ev) \<and>
     (ev \<in> op_event ` set (bs_taken s) \<longrightarrow> stored (bs_world s) \<or> attempting ev (faults (bs_world s)) (bs_pc s))"

lemma attempting_mono: "attempting ev k pc \<Longrightarrow> j \<le> k \<Longrightarrow> attempting ev j pc"
  by (induction ev k pc rule: attempting.induct) auto

lemma ack_inv_worker:
  assumes K: "keeps_stored c i mark ev stored faults" and "worker_step c s s'" and "ack_inv ev stored faults s"
  shows "ack_inv ev stored faults s'"
  using assms(2,3)
proof (induction rule: worker_step.induct)
  case (CheckDrop s op n)
  then show ?case using keeps_storedD(2) [OF K, of "op_event op"] by (auto simp: ack_inv_def)
next
  case (DoWrite s op n err w)
  note le = keeps_storedD(3) [OF K DoWrite(2)] and keep = keeps_storedD(4) [OF K DoWrite(2)]
  have "stored w \<or> attempting ev (faults w) (after_write op n err)"
    if "attempting ev (faults (bs_world s)) (Write op n)"
  proof (cases "\<exists>msg. err = Some (DbError msg)")
    case True
    then obtain msg where err: "err = Some (DbError msg)" by blast
    with keeps_storedD(5) [OF K DoWrite(2) _ err] that show ?thesis by (auto simp: after_write_def)
  next
    case False
    with keeps_storedD(6) [OF K DoWrite(2)] that show ?thesis by simp
  qed
  moreover have "after_write op n err \<noteq> HealDelete op'" for op'
    by (auto simp: after_write_def split: option.splits db_error.splits)
  ultimately show ?case using DoWrite(1,3) le keep by (auto simp: ack_inv_def)
next
  case (HealHit s op)
  then show ?case using keeps_storedD(2) [OF K, of "op_event op"] by (auto simp: ack_inv_def)
next
  case (DoHeal s op)
  let ?w = "snd (bw_DeleteEvent (bc_db c) (ev_id (op_event op)) (bs_world s))"
  have "faults ?w \<le> faults (bs_world s)" by (rule keeps_storedD(7) [OF K])
  with DoHeal keeps_storedD(8) [OF K] show ?case by (auto simp: ack_inv_def)
qed (auto simp: ack_inv_def)

lemma ack_inv_step:
  assumes K: "keeps_stored c i mark ev stored faults" and "bolt_step c i mark s s'" and "ack_inv ev stored faults s"
  shows "ack_inv ev stored faults s'"
  using assms(2,3)
proof (induction rule: bolt_step.induct)
  case (Work s s')
  then show ?case using ack_inv_worker [OF K] by blast
next
  case (PurgeMark s)
  then show ?case using keeps_storedD(9,10) [OF K, of "bs_world s"] attempting_mono
    unfolding ack_inv_def by (auto intro: le_less_trans)
next
  case (PurgeDelete s)
  then show ?case using keeps_storedD(7,8) [OF K, where j = i and w = "bs_world s"] keeps_storedD(1) [OF K] attempting_mono
    unfolding ack_inv_def by (auto intro: le_less_trans)
qed (auto simp: ack_inv_def)

lemma ack_inv_run:
  assumes "keeps_stored c i mark ev stored faults" and "bolt_run c i mark (bolt_init w) s" and "faults w < boltMaxRetries"
  shows "ack_inv ev stored faults s"
  using assms(2) unfolding bolt_run_def
proof induction
  case base
  show ?case using assms(3) by (simp add: ack_inv_def bolt_init_def)
next
  case (step s s')
  from ack_inv_step [OF assms(1) step(2,3)] show ?case .
qed

section \<open>Retries\<close>

text \<open>Attempts that fail transiently while nothing blocks the event are used up one by one.\<close>

lemma bolt_attempts_skip:
  assumes "\<forall>j < k. \<not> bolt_skips c (op_event op) (((\<lambda>w. snd (bolt_write c op w)) ^^ j) w) \<and>
      (\<exists>msg. fst (bolt_write c op (((\<lambda>w. snd (bolt_write c op w)) ^^ j) w)) = Some (DbError msg) \<and> \<not> isPermanentRejection msg)"
  shows "bolt_attempts (k + n) c op w = bolt_attempts n c op (((\<lambda>w. snd (bolt_write c op w)) ^^ k) w)"
  using assms
proof (induction k arbitrary: n)
  case (Suc k)
  let ?w = "((\<lambda>w. snd (bolt_write c op w)) ^^ k) w"
  obtain msg w' where "bolt_write c op ?w = (Some (DbError msg), w')" "\<not> isPermanentRejection msg" "\<not> bolt_skips c (op_event op) ?w"
    using Suc.prems by (metis lessI prod.collapse)
  with Suc.IH [of "Suc n"] Suc.prems show ?case by simp
qed simp

section \<open>Properties\<close>

text \<open>A database that is the set of stored ids, with a flag for the ban of \<open>[9]\<close>.\<close>

type_synonym demo_db = "event_id set \<times> bool"

definition demo_bolt :: "demo_db bolt_config" where
  "demo_bolt = \<lparr>bc_db = \<lparr>
       bw_SaveEvent = (\<lambda>ev (r, b). if ev_id ev \<in> r then (Some (DupEvent ''duplicate''), (r, b)) else (None, (insert (ev_id ev) r, b))),
       bw_ReplaceEvent = (\<lambda>ev (r, b). (None, (insert (ev_id ev) r, b))),
       bw_DeleteEvent = (\<lambda>i (r, b). (None, (r - {i}, b)))\<rparr>,
     bc_skip = Some (\<lambda>ev (r, b). b \<and> ev_id ev = [9])\<rparr>"

definition demo_mark :: "demo_db \<Rightarrow> demo_db" where
  "demo_mark = (\<lambda>(r, b). (r, True))"

lemma demo_bolt_ok: "bolt_ok demo_bolt [9] demo_mark (\<lambda>(r, b). [9] \<in> r)"
  by (auto simp: bolt_ok_def demo_bolt_def demo_mark_def bolt_write_def bolt_dead_def bolt_skips_def split: if_splits)

text \<open>C3. A ban wins every race with a queued write: whatever the interleaving of the worker, the
  producers and the purge path, once the purge has deleted the event and the worker is between two
  writes, the database has no row of it, although the worker may have checked the gate before
  the ban and written after the deletion.\<close>

theorem banned_row_is_gone:
  assumes "bolt_ok c i mark present" and "bolt_run c i mark (bolt_init w) s"
    and "bs_purge s = Purged" and "bs_pc s = Idle"
  shows "\<not> present (bs_world s)"
  using bolt_inv_run [OF assms(1,2)] assms(3,4) by (auto simp: bolt_inv_def heals_def)

text \<open>The interleaving in which the write lands between the ban's deletion and the second check.\<close>

lemma banned_row_is_gone_witness:
  "\<exists>s. bolt_run demo_bolt [9] demo_mark (bolt_init ({}, False)) s \<and> bs_purge s = Purged \<and> bs_pc s = Idle \<and>
     [9] \<notin> fst (bs_world s)"
proof -
  let ?op = "\<lparr>op_event = demo_event 9 1 0 [], op_replace = False\<rparr>"
  let ?R = "bolt_run demo_bolt [9] demo_mark (bolt_init ({}, False))"
  have ext: "?R s'" if "?R s" and "bolt_step demo_bolt [9] demo_mark s s'" for s s'
    using that unfolding bolt_run_def by (rule rtranclp.rtrancl_into_rtrancl)
  let ?s0 = "bolt_init ({}, False) :: demo_db bolt_state"
  let ?s1 = "?s0\<lparr>bs_inflight := [?op]\<rparr>"
  have 1: "?R ?s1"
    using ext [of ?s0, OF _ QueueCheck [of ?s0 _ _ _ ?op]] by (simp add: bolt_init_def bolt_run_def)
  let ?s2 = "?s0\<lparr>bs_queue := [?op], bs_accepted := [?op]\<rparr>"
  have 2: "?R ?s2"
    using ext [OF 1 QueueSend [of ?s1 "[]" ?op "[]"]] by (simp add: bolt_init_def boltBufSize_def)
  let ?s3 = "?s0\<lparr>bs_pc := Loop ?op 5, bs_accepted := [?op], bs_taken := [?op]\<rparr>"
  have 3: "?R ?s3" using ext [OF 2 Take [of ?s2 ?op "[]"]] by (simp add: bolt_init_def boltMaxRetries_def)
  let ?s4 = "?s3\<lparr>bs_pc := Write ?op 4\<rparr>"
  have 4: "?R ?s4"
    using ext [OF 3 Work [OF CheckPass [of ?s3 ?op 4]]] by (simp add: bolt_init_def demo_bolt_def bolt_skips_def)
  let ?s5 = "?s4\<lparr>bs_world := ({}, True), bs_purge := Marked\<rparr>"
  have 5: "?R ?s5" using ext [OF 4 PurgeMark [of ?s4]] by (simp add: bolt_init_def demo_mark_def)
  let ?s6 = "?s5\<lparr>bs_purge := Purged\<rparr>"
  have 6: "?R ?s6" using ext [OF 5 PurgeDelete [of ?s5]] by (simp add: bolt_init_def demo_bolt_def)
  let ?s7 = "?s6\<lparr>bs_world := ({[9]}, True), bs_pc := Heal ?op\<rparr>"
  have 7: "?R ?s7"
    using ext [OF 6 Work [OF DoWrite [of ?s6 ?op 4 _ None "({[9]}, True)"]]]
    by (simp add: bolt_init_def demo_bolt_def bolt_write_def demo_event_def after_write_def)
  let ?s8 = "?s7\<lparr>bs_pc := HealDelete ?op\<rparr>"
  have 8: "?R ?s8"
    using ext [OF 7 Work [OF HealHit [of ?s7 ?op]]] by (simp add: bolt_init_def demo_bolt_def bolt_skips_def demo_event_def)
  let ?s9 = "?s8\<lparr>bs_world := ({}, True), bs_pc := Idle\<rparr>"
  have 9: "?R ?s9"
    using ext [OF 8 Work [OF DoHeal [of ?s8 ?op]]] by (simp add: bolt_init_def demo_bolt_def demo_event_def)
  from banned_row_is_gone [OF demo_bolt_ok 9] 9 show ?thesis
    by (intro exI [of _ ?s9]) simp
qed

text \<open>C25. What becomes of one write, against the sequence of writes it amounts to: it is tried again, with the gate asked
  anew each time, as long as the gate lets the event through and the error is transient, five times at most. The first
  attempt the gate stops writes nothing; a permanent rejection ends the write; a success or a duplicate ends
  it too, and takes the row out again if the event has been blocked meanwhile.\<close>

theorem write_is_tried_five_times:
  assumes "\<forall>j < k. \<not> bolt_skips c (op_event op) (((\<lambda>w. snd (bolt_write c op w)) ^^ j) w) \<and>
      (\<exists>msg. fst (bolt_write c op (((\<lambda>w. snd (bolt_write c op w)) ^^ j) w)) = Some (DbError msg) \<and> \<not> isPermanentRejection msg)"
    and "((\<lambda>w. snd (bolt_write c op w)) ^^ k) w = v" and "bolt_write c op v = (err, v')"
  shows "(k = 5 \<longrightarrow> bolt_process c op w = v) \<and>
    (k < 5 \<and> bolt_skips c (op_event op) v \<longrightarrow> bolt_process c op w = v) \<and>
    (k < 5 \<and> \<not> bolt_skips c (op_event op) v \<and> (\<exists>msg. err = Some (DbError msg) \<and> isPermanentRejection msg) \<longrightarrow> bolt_process c op w = v') \<and>
    (k < 5 \<and> \<not> bolt_skips c (op_event op) v \<and> (\<nexists>msg. err = Some (DbError msg)) \<longrightarrow>
      bolt_process c op w = (if bolt_skips c (op_event op) v' then snd (bw_DeleteEvent (bc_db c) (ev_id (op_event op)) v') else v'))"
proof -
  have "bolt_process c op w = bolt_attempts (5 - k) c op v" if "k \<le> 5"
    using bolt_attempts_skip [OF assms(1), of "5 - k"] assms(2) that by (simp add: bolt_process_def boltMaxRetries_def)
  moreover have "5 - k = Suc (4 - k)" if "k < 5" using that by simp
  ultimately show ?thesis using assms(3)
    by (auto simp: selfHealIfBanned_def split: option.split db_error.split)
qed

text \<open>A database that fails twice: the third attempt stores the event.\<close>

definition flaky_bolt :: "nat bolt_config" where
  "flaky_bolt = \<lparr>bc_db = \<lparr>
       bw_SaveEvent = (\<lambda>_ n. (if n < 2 then Some (DbError ''timeout'') else None, Suc n)),
       bw_ReplaceEvent = (\<lambda>_ n. (None, n)), bw_DeleteEvent = (\<lambda>_ n. (None, n))\<rparr>, bc_skip = None\<rparr>"

lemma write_is_tried_five_times_witness:
  "bolt_process flaky_bolt \<lparr>op_event = zero_event, op_replace = False\<rparr> 0 = 3"
proof -
  let ?op = "\<lparr>op_event = zero_event, op_replace = False\<rparr>"
  have s: "(\<lambda>w. snd (bolt_write flaky_bolt ?op w)) = Suc"
    by (simp add: flaky_bolt_def bolt_write_def fun_eq_iff)
  have p: "(Suc ^^ k) 0 = k" for k by (induction k) simp_all
  have two: "((\<lambda>w. snd (bolt_write flaky_bolt ?op w)) ^^ 2) 0 = 2" unfolding s by (rule p)
  have fails: "\<forall>j < 2. \<not> bolt_skips flaky_bolt (op_event ?op) (((\<lambda>w. snd (bolt_write flaky_bolt ?op w)) ^^ j) 0) \<and>
      (\<exists>msg. fst (bolt_write flaky_bolt ?op (((\<lambda>w. snd (bolt_write flaky_bolt ?op w)) ^^ j) 0)) = Some (DbError msg) \<and> \<not> isPermanentRejection msg)"
    unfolding s p
    by (simp add: flaky_bolt_def bolt_write_def bolt_skips_def isPermanentRejection_def permanentRejectionPrefixes_def has_prefix_def)
  have "bolt_write flaky_bolt ?op 2 = (None, 3)" by (simp add: flaky_bolt_def bolt_write_def)
  from write_is_tried_five_times [OF fails two this] show ?thesis by (simp add: flaky_bolt_def bolt_skips_def)
qed

text \<open>No acknowledged event is lost in the shutdown unless its time runs out: when the worker has found its queue empty,
  every event whose \<open>Queue\<close> returned true is stored, or a version that replaces it is, although the database may
  have failed up to four more times on the way, or it is the write the drain had received when its deadline passed.\<close>

theorem acknowledged_write_is_stored:
  assumes "keeps_stored c i mark ev stored faults" and "faults w < 5"
    and "bolt_run c i mark (bolt_init w) s" and "ev \<in> op_event ` set (bs_accepted s)"
    and "bs_queue s = []" and "bs_pc s = Idle"
  shows "bs_accepted s = bs_taken s @ bs_abandoned s \<and>
    (stored (bs_world s) \<or> bs_phase s = BoltStopped \<and> ev \<in> op_event ` set (bs_abandoned s))"
  using ack_inv_run [OF assms(1,3)] assms(2,4-) by (auto simp: ack_inv_def boltMaxRetries_def)

lemma demo_keeps_stored: "keeps_stored demo_bolt [9] demo_mark (demo_event 1 30142 0 []) (\<lambda>(r, b). [1] \<in> r) (\<lambda>_. 0)"
  by (auto simp: keeps_stored_def demo_bolt_def demo_mark_def demo_event_def bolt_write_def bolt_skips_def split: if_splits)

text \<open>One event is queued and written, then the buffer is closed.\<close>

lemma demo_bolt_run:
  "\<exists>s. bolt_run demo_bolt [9] demo_mark (bolt_init ({}, False)) s \<and>
     bs_accepted s = [\<lparr>op_event = demo_event 1 30142 0 [], op_replace = False\<rparr>] \<and> bs_queue s = [] \<and> bs_pc s = Idle \<and>
     bs_phase s = BoltStopped \<and> bs_abandoned s = []"
proof -
  let ?op = "\<lparr>op_event = demo_event 1 30142 0 [], op_replace = False\<rparr>"
  let ?R = "bolt_run demo_bolt [9] demo_mark (bolt_init ({}, False))"
  have ext: "?R s'" if "?R s" and "bolt_step demo_bolt [9] demo_mark s s'" for s s'
    using that unfolding bolt_run_def by (rule rtranclp.rtrancl_into_rtrancl)
  let ?s0 = "bolt_init ({}, False) :: demo_db bolt_state"
  have 1: "?R (?s0\<lparr>bs_inflight := [?op]\<rparr>)"
    using ext [of ?s0, OF _ QueueCheck [of ?s0 _ _ _ ?op]] by (simp add: bolt_init_def bolt_run_def)
  have 2: "?R (?s0\<lparr>bs_queue := [?op], bs_accepted := [?op]\<rparr>)"
    using ext [OF 1 QueueSend [of _ "[]" ?op "[]"]] by (simp add: bolt_init_def boltBufSize_def)
  let ?s3 = "?s0\<lparr>bs_accepted := [?op], bs_taken := [?op]\<rparr>"
  have 3: "?R (?s3\<lparr>bs_world := ({}, False), bs_pc := Loop ?op boltMaxRetries\<rparr>)"
    using ext [OF 2 Take [of _ ?op "[]"]] by (simp add: bolt_init_def)
  let ?s4 = "?s3\<lparr>bs_world := bolt_process demo_bolt ?op ({}, False), bs_pc := Idle\<rparr>"
  have "(worker_step demo_bolt)\<^sup>*\<^sup>* (?s3\<lparr>bs_world := ({}, False), bs_pc := Loop ?op boltMaxRetries\<rparr>) ?s4"
    unfolding bolt_process_def by (rule worker_runs_attempts)
  then have "bolt_run demo_bolt [9] demo_mark (?s3\<lparr>bs_world := ({}, False), bs_pc := Loop ?op boltMaxRetries\<rparr>) ?s4"
    unfolding bolt_run_def by (rule worker_run_steps)
  with 3 have 4: "?R ?s4" unfolding bolt_run_def by (rule rtranclp_trans)
  define s4 where "s4 = ?s4"
  have s4: "bs_accepted s4 = [?op]" "bs_queue s4 = []" "bs_pc s4 = Idle" "bs_phase s4 = Running" "\<not> bs_closed s4" "\<not> bs_done s4"
    "bs_abandoned s4 = []"
    by (simp_all add: s4_def bolt_init_def)
  have 5: "?R (s4\<lparr>bs_closed := True\<rparr>)" using ext [OF 4 [folded s4_def] SetClosed] s4 by simp
  have 6: "?R (s4\<lparr>bs_closed := True, bs_done := True\<rparr>)" using ext [OF 5 SetDone] s4 by simp
  have 7: "?R (s4\<lparr>bs_closed := True, bs_done := True, bs_phase := BoltDraining\<rparr>)" using ext [OF 6 SeeDone] s4 by simp
  have 8: "?R (s4\<lparr>bs_closed := True, bs_done := True, bs_phase := BoltStopped\<rparr>)" using ext [OF 7 DrainDone] s4 by simp
  then show ?thesis using s4 by (intro exI [of _ "s4\<lparr>bs_closed := True, bs_done := True, bs_phase := BoltStopped\<rparr>"]) simp
qed

lemma acknowledged_write_is_stored_witness:
  "\<exists>s. bolt_run demo_bolt [9] demo_mark (bolt_init ({}, False)) s \<and> length (bs_accepted s) = 1 \<and> [1] \<in> fst (bs_world s)"
proof -
  obtain s where s: "bolt_run demo_bolt [9] demo_mark (bolt_init ({}, False)) s" "bs_queue s = []" "bs_pc s = Idle"
    "bs_accepted s = [\<lparr>op_event = demo_event 1 30142 0 [], op_replace = False\<rparr>]" "bs_abandoned s = []"
    using demo_bolt_run by blast
  have "case bs_world s of (r, b) \<Rightarrow> [1] \<in> r"
    using acknowledged_write_is_stored [OF demo_keeps_stored _ s(1)] s(2-) by simp
  with s show ?thesis by (intro exI [of _ s]) (simp add: case_prod_beta)
qed

text \<open>The window the queue leaves open: a send that had passed the check of \<open>closed\<close> before the shutdown is still
  acknowledged when the worker has stopped, and nobody takes it.\<close>

lemma late_send_is_lost:
  "\<exists>s. bolt_run demo_bolt [9] demo_mark (bolt_init ({}, False)) s \<and> bs_phase s = BoltStopped \<and> bs_accepted s \<noteq> bs_taken s"
proof -
  let ?R = "bolt_run demo_bolt [9] demo_mark (bolt_init ({}, False))"
  have ext: "?R s'" if "?R s" and "bolt_step demo_bolt [9] demo_mark s s'" for s s'
    using that unfolding bolt_run_def by (rule rtranclp.rtrancl_into_rtrancl)
  let ?s0 = "bolt_init ({}, False) :: demo_db bolt_state"
  let ?op = "\<lparr>op_event = demo_event 1 30142 0 [], op_replace = False\<rparr>"
  let ?s1 = "?s0\<lparr>bs_inflight := [?op]\<rparr>"
  have 1: "?R ?s1" using ext [of ?s0, OF _ QueueCheck [of ?s0 _ _ _ ?op]] by (simp add: bolt_init_def bolt_run_def)
  have 2: "?R (?s1\<lparr>bs_closed := True\<rparr>)" using ext [OF 1 SetClosed [of ?s1]] by (simp add: bolt_init_def)
  have 3: "?R (?s1\<lparr>bs_closed := True, bs_done := True\<rparr>)" using ext [OF 2 SetDone] by (simp add: bolt_init_def)
  let ?s4 = "?s1\<lparr>bs_closed := True, bs_done := True, bs_phase := BoltDraining\<rparr>"
  have 4: "?R ?s4" using ext [OF 3 SeeDone] by (simp add: bolt_init_def)
  let ?s5 = "?s4\<lparr>bs_phase := BoltStopped\<rparr>"
  have 5: "?R ?s5" using ext [OF 4 DrainDone [of ?s4]] by (simp add: bolt_init_def)
  have "?R (?s5\<lparr>bs_inflight := [], bs_queue := [?op], bs_accepted := [?op]\<rparr>)"
    using ext [OF 5 QueueSend [of ?s5 "[]" ?op "[]"]] by (simp add: bolt_init_def boltBufSize_def)
  then show ?thesis
    by (intro exI [of _ "?s5\<lparr>bs_inflight := [], bs_queue := [?op], bs_accepted := [?op]\<rparr>"]) (simp add: bolt_init_def)
qed

end
