(* ===== verification/DualWrite.thy ===== *)
theory DualWrite
  imports BoltBuffer
begin

text \<open>
  The way of an event through the relay: \<open>relay.StoreEvent\<close> and \<open>relay.ReplaceEvent\<close> of \<open>main.go\<close> put it into the
  queue of the event database and, when that was accepted and the event is a resource (kind 30142), into the queue of the
  search index; the store functions of the other kinds write to their own collections and do not use that queue. Two
  workers empty the queues while handlers, other producers and the shutdown go on. The database and the index are two
  worlds here, each written by its own worker; what is blocked does not change on the side of the index.
\<close>

section \<open>The two queues\<close>

text \<open>\<open>du_handlers\<close> are the events of the handlers between their two queues, \<open>du_dropped\<close> those whose projection was
  logged and dropped because the index buffer had been closed.\<close>

record ('r, 'd) dual =
  du_bolt :: "'r bolt_state"
  du_ts :: "'d ts_state"
  du_handlers :: "event list"
  du_dropped :: "event list"

definition dual_init :: "'r \<Rightarrow> 'd \<Rightarrow> ('r, 'd) dual" where
  "dual_init r d = \<lparr>du_bolt = bolt_init r, du_ts = ts_init d, du_handlers = [], du_dropped = []\<rparr>"

text \<open>
  \<open>Accept\<close>: \<open>boltBuf.Queue\<close> returns true to a handler. \<open>Project\<close> and \<open>Drop\<close>: the handler of a resource calls
  \<open>tsBuf.Queue\<close> and finds it open or closed; \<open>Other\<close>: that of another event does not call it. \<open>Ts\<close> stands for the index worker, the other producers and the end of a blocked send; the index
  buffer is closed after the event buffer (\<open>shutdown_respects_dependencies\<close> in \<open>Boot\<close>).
\<close>

inductive dual_step :: "'r bolt_config \<Rightarrow> event_id \<Rightarrow> ('r \<Rightarrow> 'r) \<Rightarrow> 'd ts_config \<Rightarrow> ('r, 'd) dual \<Rightarrow> ('r, 'd) dual \<Rightarrow> bool"
  for cb i mark ct where
  Bolt: "bolt_step cb i mark (du_bolt s) b \<Longrightarrow> bs_accepted b = bs_accepted (du_bolt s) \<Longrightarrow>
    dual_step cb i mark ct s (s\<lparr>du_bolt := b\<rparr>)"
| Accept: "bolt_step cb i mark (du_bolt s) b \<Longrightarrow> bs_accepted b = bs_accepted (du_bolt s) @ [op] \<Longrightarrow>
    dual_step cb i mark ct s (s\<lparr>du_bolt := b, du_handlers := du_handlers s @ [op_event op]\<rparr>)"
| Project: "du_handlers s = xs @ ev # ys \<Longrightarrow> ev_kind ev = 30142 \<Longrightarrow> \<not> ts_closed (du_ts s) \<Longrightarrow>
    dual_step cb i mark ct s (s\<lparr>du_handlers := xs @ ys, du_ts := (du_ts s)\<lparr>ts_inflight := ts_inflight (du_ts s) @ [Queue ev]\<rparr>\<rparr>)"
| Drop: "du_handlers s = xs @ ev # ys \<Longrightarrow> ev_kind ev = 30142 \<Longrightarrow> ts_closed (du_ts s) \<Longrightarrow>
    dual_step cb i mark ct s (s\<lparr>du_handlers := xs @ ys, du_dropped := du_dropped s @ [ev]\<rparr>)"
| Other: "du_handlers s = xs @ ev # ys \<Longrightarrow> ev_kind ev \<noteq> 30142 \<Longrightarrow> dual_step cb i mark ct s (s\<lparr>du_handlers := xs @ ys\<rparr>)"
| Ts: "ts_step ct (\<lambda>_ _. False) (du_ts s) t \<Longrightarrow>
    ts_closed t = ts_closed (du_ts s) \<or> bs_phase (du_bolt s) = BoltStopped \<Longrightarrow>
    dual_step cb i mark ct s (s\<lparr>du_ts := t\<rparr>)"

definition dual_run :: "'r bolt_config \<Rightarrow> event_id \<Rightarrow> ('r \<Rightarrow> 'r) \<Rightarrow> 'd ts_config \<Rightarrow> ('r, 'd) dual \<Rightarrow> ('r, 'd) dual \<Rightarrow> bool" where
  "dual_run cb i mark ct = (dual_step cb i mark ct)\<^sup>*\<^sup>*"

section \<open>Each side is its own machine\<close>

definition sent :: "'d ts_state \<Rightarrow> projectionTask set" where
  "sent t = set (ts_inflight t) \<union> set (ts_accepted t)"

lemma ts_step_sent: "ts_step ct env t t' \<Longrightarrow> sent t \<subseteq> sent t'"
  by (induction rule: ts_step.induct) (auto simp: sent_def process_state_def flush_state_def split: prod.splits)

lemma bolt_stopped_stays: "bolt_step cb i mark b b' \<Longrightarrow> bs_phase b = BoltStopped \<Longrightarrow> bs_phase b' = BoltStopped"
  by (induction rule: bolt_step.induct) (auto elim: worker_step.cases)

text \<open>
  Each side runs on its own; every accepted resource is still with its handler, on its way into the index, or dropped; and
  nothing is dropped before the event worker has stopped.
\<close>

definition dual_inv :: "'r bolt_config \<Rightarrow> event_id \<Rightarrow> ('r \<Rightarrow> 'r) \<Rightarrow> 'd ts_config \<Rightarrow> 'r \<Rightarrow> 'd \<Rightarrow> ('r, 'd) dual \<Rightarrow> bool" where
  "dual_inv cb i mark ct r d s \<longleftrightarrow> bolt_run cb i mark (bolt_init r) (du_bolt s) \<and>
     ts_reach ct (\<lambda>_ _. False) (ts_init d) (du_ts s) \<and>
     op_event ` set (bs_accepted (du_bolt s)) \<inter> {ev. ev_kind ev = 30142} \<subseteq>
       set (du_handlers s) \<union> set (du_dropped s) \<union> {ev. Queue ev \<in> sent (du_ts s)} \<and>
     (du_dropped s \<noteq> [] \<or> ts_closed (du_ts s) \<longrightarrow> bs_phase (du_bolt s) = BoltStopped)"

lemma dual_inv_step:
  assumes "dual_step cb i mark ct s s'" and "dual_inv cb i mark ct r d s"
  shows "dual_inv cb i mark ct r d s'"
  using assms
proof (induction rule: dual_step.induct)
  case (Bolt s b)
  then show ?case
    using bolt_stopped_stays [OF Bolt(1)] unfolding dual_inv_def bolt_run_def by (auto intro: rtranclp.rtrancl_into_rtrancl)
next
  case (Accept s b op)
  then show ?case
    using bolt_stopped_stays [OF Accept(1)] unfolding dual_inv_def bolt_run_def by (auto intro: rtranclp.rtrancl_into_rtrancl)
next
  case (Project s xs ev ys)
  have "ts_reach ct (\<lambda>_ _. False) (ts_init d) ((du_ts s)\<lparr>ts_inflight := ts_inflight (du_ts s) @ [Queue ev]\<rparr>)"
    using Project(3,4) by (auto simp: dual_inv_def intro: reach_step Admit)
  with Project show ?case by (auto simp: dual_inv_def sent_def)
next
  case (Drop s xs ev ys)
  then show ?case by (auto simp: dual_inv_def)
next
  case (Other s xs ev ys)
  then show ?case by (auto simp: dual_inv_def)
next
  case (Ts s t)
  have "ts_reach ct (\<lambda>_ _. False) (ts_init d) t" using Ts(1,3) by (auto simp: dual_inv_def intro: reach_step)
  moreover have "sent (du_ts s) \<subseteq> sent t" by (rule ts_step_sent [OF Ts(1)])
  ultimately show ?case using Ts(2,3) by (auto simp: dual_inv_def)
qed

lemma dual_inv_init: "dual_inv cb i mark ct r d (dual_init r d)"
  by (simp add: dual_inv_def dual_init_def bolt_run_def reach_refl bolt_init_def ts_init_def)

lemma dual_inv_run: "dual_run cb i mark ct (dual_init r d) s \<Longrightarrow> dual_inv cb i mark ct r d s"
  unfolding dual_run_def by (induction rule: rtranclp_induct) (auto intro: dual_inv_init dual_inv_step)

section \<open>Properties\<close>

lemma accepted_and_drained_is_sent:
  assumes "dual_inv cb i mark ct r d s" and "ev \<in> op_event ` set (bs_accepted (du_bolt s))" and "ev_kind ev = 30142"
    and "du_handlers s = []" and "ts_inflight (du_ts s) = []"
  shows "ev \<in> set (du_dropped s) \<or> Queue ev \<in> set (ts_accepted (du_ts s))"
  using assms by (auto simp: dual_inv_def sent_def)

text \<open>C4. An acknowledged event survives: when the handlers are done and both workers have drained their queues, the
  event is in the database, although up to four writes failed on the way, unless it is the one write that the drain of the
  shutdown had received when its time ran out; and the index is as if the projections had been written one at a
  time and in order, that of the event among them when it is a resource. Only a handler that the shutdown overtook
  between the two queues leaves its projection to the next reindex.\<close>

theorem acknowledged_resource_survives:
  assumes "keeps_stored cb i mark ev stored faults" and "faults r < 5"
    and "writer_ok ct up" and "skip_stable ct" and "tc_batchSize ct \<ge> 1"
    and "dual_run cb i mark ct (dual_init r d) s" and "ev \<in> op_event ` set (bs_accepted (du_bolt s))"
    and "bs_queue (du_bolt s) = []" and "bs_pc (du_bolt s) = Idle" and "du_handlers s = []"
    and "ts_phase (du_ts s) = Stopped" and "ts_queue (du_ts s) = []" and "ts_inflight (du_ts s) = []"
  shows "(stored (bs_world (du_bolt s)) \<or> bs_phase (du_bolt s) = BoltStopped \<and> ev \<in> op_event ` set (bs_abandoned (du_bolt s))) \<and>
    ts_world (du_ts s) = fold (immediate ct up) (ts_processed (du_ts s)) d \<and>
    (ev_kind ev = 30142 \<longrightarrow> Queue ev \<in> set (ts_processed (du_ts s)) \<or> ev \<in> set (du_dropped s) \<and> bs_phase (du_bolt s) = BoltStopped)"
proof -
  have inv: "dual_inv cb i mark ct r d s" by (rule dual_inv_run [OF assms(6)])
  then have run: "bolt_run cb i mark (bolt_init r) (du_bolt s)" and ts: "ts_reach ct (\<lambda>_ _. False) (ts_init d) (du_ts s)"
    by (simp_all add: dual_inv_def)
  have "ts_sim ct up d (du_ts s)" by (rule ts_sim_reach [OF assms(3-5) _ ts]) simp
  with accepted_and_drained_is_sent [OF inv assms(7) _ assms(10,13)] inv assms(7-13)
    acknowledged_write_is_stored [OF assms(1,2) run assms(7-9)]
  show ?thesis by (auto simp: ts_sim_def dual_inv_def)
qed

text \<open>Runs of the two sides are runs of the whole.\<close>

lemma lift_bolt:
  "bolt_run cb i mark b b' \<Longrightarrow> \<exists>h. map op_event (bs_accepted b') = map op_event (bs_accepted b) @ h \<and>
     dual_run cb i mark ct (s\<lparr>du_bolt := b\<rparr>) (s\<lparr>du_bolt := b', du_handlers := du_handlers s @ h\<rparr>)"
  unfolding bolt_run_def
proof (induction rule: rtranclp_induct)
  case base
  show ?case by (auto simp: dual_run_def)
next
  case (step b1 b2)
  then obtain h where h: "map op_event (bs_accepted b1) = map op_event (bs_accepted b) @ h"
    "dual_run cb i mark ct (s\<lparr>du_bolt := b\<rparr>) (s\<lparr>du_bolt := b1, du_handlers := du_handlers s @ h\<rparr>)" by blast
  have "bs_accepted b2 = bs_accepted b1 \<or> (\<exists>op. bs_accepted b2 = bs_accepted b1 @ [op])"
    using step(2) by (induction rule: bolt_step.induct) (auto elim: worker_step.cases)
  then show ?case
  proof
    assume same: "bs_accepted b2 = bs_accepted b1"
    have "dual_step cb i mark ct (s\<lparr>du_bolt := b1, du_handlers := du_handlers s @ h\<rparr>) (s\<lparr>du_bolt := b2, du_handlers := du_handlers s @ h\<rparr>)"
      using Bolt [of cb i mark "s\<lparr>du_bolt := b1, du_handlers := du_handlers s @ h\<rparr>" b2 ct] step(2) same by (cases s) simp
    with h same show ?thesis
      unfolding dual_run_def by (intro exI [of _ h]) (simp add: rtranclp.rtrancl_into_rtrancl)
  next
    assume "\<exists>op. bs_accepted b2 = bs_accepted b1 @ [op]"
    then obtain op where op: "bs_accepted b2 = bs_accepted b1 @ [op]" ..
    have "dual_step cb i mark ct (s\<lparr>du_bolt := b1, du_handlers := du_handlers s @ h\<rparr>) (s\<lparr>du_bolt := b2, du_handlers := du_handlers s @ h @ [op_event op]\<rparr>)"
      using Accept [of cb i mark "s\<lparr>du_bolt := b1, du_handlers := du_handlers s @ h\<rparr>" b2 op ct] step(2) op by (cases s) simp
    with h op show ?thesis
      unfolding dual_run_def by (intro exI [of _ "h @ [op_event op]"]) (simp add: rtranclp.rtrancl_into_rtrancl)
  qed
qed

lemma lift_ts:
  "ts_reach ct (\<lambda>_ _. False) t t' \<Longrightarrow> bs_phase (du_bolt s) = BoltStopped \<Longrightarrow>
     dual_run cb i mark ct (s\<lparr>du_ts := t\<rparr>) (s\<lparr>du_ts := t'\<rparr>)"
proof (induction rule: ts_reach.induct)
  case (reach_step t1 t2)
  with Ts [of ct "s\<lparr>du_ts := t1\<rparr>" t2 cb i mark] show ?case
    unfolding dual_run_def by (auto intro: rtranclp.rtrancl_into_rtrancl)
qed (simp add: dual_run_def)

text \<open>The event worker writes the row and stops; then the handler queues the projection and the index is drained.\<close>

lemma acknowledged_resource_survives_witness:
  "\<exists>s. dual_run demo_bolt [9] demo_mark demo_config (dual_init ({}, False) (\<lambda>_. None)) s \<and> [1] \<in> fst (bs_world (du_bolt s)) \<and>
     ts_world (du_ts s) = fold (immediate demo_config demo_up) [Queue (demo_event 1 30142 0 [])] (\<lambda>_. None)"
proof -
  let ?run = "dual_run demo_bolt [9] demo_mark demo_config"
  let ?s0 = "dual_init ({}, False) (\<lambda>_. None) :: (demo_db, demo_index) dual"
  let ?b0 = "bolt_init ({}, False) :: demo_db bolt_state"
  let ?ev = "demo_event 1 30142 0 []"
  obtain b where b: "bolt_run demo_bolt [9] demo_mark (bolt_init ({}, False)) b" "bs_queue b = []" "bs_pc b = Idle"
    "bs_phase b = BoltStopped" "map op_event (bs_accepted b) = [?ev]" "bs_abandoned b = []"
    using demo_bolt_run by force
  obtain h where h: "map op_event (bs_accepted b) = map op_event (bs_accepted ?b0) @ h"
    and run: "?run (?s0\<lparr>du_bolt := ?b0\<rparr>) (?s0\<lparr>du_bolt := b, du_handlers := du_handlers ?s0 @ h\<rparr>)"
    using lift_bolt [OF b(1), where ct = demo_config and s = ?s0] by blast
  let ?s1 = "?s0\<lparr>du_bolt := b, du_handlers := [?ev]\<rparr>"
  have 1: "?run ?s0 ?s1" using run h b(5) by (simp add: dual_init_def bolt_init_def)
  let ?t = "(ts_init (\<lambda>_. None))\<lparr>ts_inflight := [Queue ?ev]\<rparr>"
  let ?s2 = "?s1\<lparr>du_handlers := [], du_ts := ?t\<rparr>"
  have 2: "dual_step demo_bolt [9] demo_mark demo_config ?s1 ?s2"
    using Project [of ?s1 "[]" ?ev "[]"] by (simp add: dual_init_def ts_init_def demo_event_def)
  obtain t where t: "ts_reach demo_config (\<lambda>_ _. False) ?t t" "ts_phase t = Stopped" "ts_processed t = [Queue ?ev]"
    "ts_queue t = []" "ts_inflight t = []"
    using demo_ts_drain by blast
  let ?s3 = "?s2\<lparr>du_ts := t\<rparr>"
  have 3: "?run ?s2 ?s3" using lift_ts [OF t(1), of ?s2] b(4) by simp
  have run: "?run ?s0 ?s3" using 1 2 3 unfolding dual_run_def by (meson rtranclp.rtrancl_into_rtrancl rtranclp_trans)
  have "?ev \<in> op_event ` set (bs_accepted b)" using b(5) by (metis image_set list.set_intros(1))
  then have "case bs_world b of (r, _) \<Rightarrow> [1] \<in> r" and "ts_world t = fold (immediate demo_config demo_up) (ts_processed t) (\<lambda>_. None)"
    using acknowledged_resource_survives [OF demo_keeps_stored _ demo_writer_ok demo_skip_stable _ run] b(2,3,6) t(2-) by simp_all
  with run t(3) show ?thesis by (intro exI [of _ ?s3]) (simp add: case_prod_beta)
qed

end
