(* ===== verification/Deadline.thy ===== *)
theory Deadline
  imports BoltBuffer "HOL-Library.Sublist"
begin

text \<open>
  The clock of the shutdown: \<open>runBounded\<close> of \<open>buffer.go\<close> and the drains of the two write queues, which run every task
  under it, so that a write that hangs for ever cannot keep the process from ending. In \<open>TSBuffer\<close> and \<open>BoltBuffer\<close> the
  deadline is a step that may come at any time; here it comes when the clock says so. A clock reading is an \<open>int\<close> in
  nanoseconds; how long a call takes is a parameter, \<open>None\<close> when it never returns. A call that \<open>runBounded\<close> gives up
  on keeps running in its goroutine: what it has done when the drain returns is a parameter too (\<open>sofar\<close>), and what it
  does later comes after the states described here.
\<close>

section \<open>One bounded call\<close>

definition second :: int where
  "second = 1000000000"

text \<open>\<open>t\<close> is the clock at the call, \<open>tie\<close> the case that \<open>select\<close> takes when the call returns just as the timer fires.
  The result says whether the call completed, and the clock at the return.\<close>

definition runBounded :: "bool \<Rightarrow> int \<Rightarrow> int \<Rightarrow> int option \<Rightarrow> bool \<times> int" where
  "runBounded tie deadline t dur = (let remaining = deadline - t in
     if remaining \<le> 0 then (False, t)
     else (case dur of
       None \<Rightarrow> (False, t + remaining)
     | Some d \<Rightarrow> if d < remaining \<or> d = remaining \<and> tie then (True, t + d) else (False, t + remaining)))"

lemma runBounded_True: "runBounded tie deadline t dur = (True, t') \<Longrightarrow> \<exists>d. dur = Some d \<and> t' = t + d \<and> t' \<le> deadline \<and> t < deadline"
  by (auto simp: runBounded_def Let_def split: if_splits option.splits)

lemma runBounded_False: "runBounded tie deadline t dur = (False, t') \<Longrightarrow> t' = max t deadline"
  by (auto simp: runBounded_def Let_def split: if_splits option.splits)

section \<open>The drains\<close>

text \<open>
  The loop both buffers share: \<open>q\<close> holds what it receives before the channel is empty. A task that is abandoned has
  left the channel; the rest stays in it. When the deadline has passed before the task is run, \<open>runBounded\<close> returns
  without starting it. The result: whether the channel was emptied, the state, the rest, the clock.
\<close>

fun drain_within :: "(int \<Rightarrow> bool) \<Rightarrow> ('t \<Rightarrow> 's \<Rightarrow> int option) \<Rightarrow> ('t \<Rightarrow> 's \<Rightarrow> 's) \<Rightarrow> ('t \<Rightarrow> 's \<Rightarrow> 's) \<Rightarrow> int \<Rightarrow> 't list \<Rightarrow> 's \<Rightarrow> int \<Rightarrow>
    bool \<times> 's \<times> 't list \<times> int" where
  "drain_within tie cost run sofar deadline [] s t = (True, s, [], t)"
| "drain_within tie cost run sofar deadline (x # q) s t = (case runBounded (tie t) deadline t (cost x s) of
     (True, t') \<Rightarrow> drain_within tie cost run sofar deadline q (run x s) t'
   | (False, t') \<Rightarrow> (False, if t < deadline then sofar x s else s, q, t'))"

definition boltDrainDeadline :: int where
  "boltDrainDeadline = 45 * second"

definition tsDrainDeadline :: int where
  "tsDrainDeadline = 90 * second"

definition bolt_drain :: "(int \<Rightarrow> bool) \<Rightarrow> 'w bolt_config \<Rightarrow> (boltOp \<Rightarrow> 'w \<Rightarrow> int option) \<Rightarrow> (boltOp \<Rightarrow> 'w \<Rightarrow> 'w) \<Rightarrow> boltOp list \<Rightarrow> 'w \<Rightarrow> int \<Rightarrow>
    bool \<times> 'w \<times> boltOp list \<times> int" where
  "bolt_drain tie c cost sofar q w t = drain_within tie cost (bolt_process c) sofar (t + boltDrainDeadline) q w t"

definition ts_drain :: "(int \<Rightarrow> bool) \<Rightarrow> 'd ts_config \<Rightarrow> (projectionTask \<Rightarrow> tsbuf \<times> 'd \<Rightarrow> int option) \<Rightarrow> (tsbuf \<times> 'd \<Rightarrow> int option) \<Rightarrow>
    (projectionTask \<Rightarrow> tsbuf \<times> 'd \<Rightarrow> tsbuf \<times> 'd) \<Rightarrow> (tsbuf \<times> 'd \<Rightarrow> tsbuf \<times> 'd) \<Rightarrow>
    projectionTask list \<Rightarrow> tsbuf \<times> 'd \<Rightarrow> int \<Rightarrow> bool \<times> (tsbuf \<times> 'd) \<times> projectionTask list \<times> int" where
  "ts_drain tie c cost flush_cost sofar flush_sofar q s t = (case drain_within tie cost (process c) sofar (t + tsDrainDeadline) q s t of
     (False, s', rest, t') \<Rightarrow> (False, s', rest, t')
   | (True, s', rest, t') \<Rightarrow> (case runBounded (tie t') (t + tsDrainDeadline) t' (flush_cost s') of
       (True, t'') \<Rightarrow> (True, flushBatch c s', rest, t'')
     | (False, t'') \<Rightarrow> (False, if t' < t + tsDrainDeadline then flush_sofar s' else s', rest, t'')))"

text \<open>
  \<open>Close\<close> waits for the worker, and the worker looks at the signal only between two tasks: \<open>busy\<close> is the time the task
  it has in hand still takes, \<open>None\<close> when that never returns, and \<open>q\<close> and the state are those when it has. No deadline
  covers that task. \<open>None\<close> as a result says that \<open>Close\<close> never returns.
\<close>

definition bolt_close :: "(int \<Rightarrow> bool) \<Rightarrow> 'w bolt_config \<Rightarrow> (boltOp \<Rightarrow> 'w \<Rightarrow> int option) \<Rightarrow> (boltOp \<Rightarrow> 'w \<Rightarrow> 'w) \<Rightarrow> int option \<Rightarrow>
    boltOp list \<Rightarrow> 'w \<Rightarrow> int \<Rightarrow> (bool \<times> 'w \<times> boltOp list \<times> int) option" where
  "bolt_close tie c cost sofar busy q w t = map_option (\<lambda>d. bolt_drain tie c cost sofar q w (t + d)) busy"

definition ts_close :: "(int \<Rightarrow> bool) \<Rightarrow> 'd ts_config \<Rightarrow> (projectionTask \<Rightarrow> tsbuf \<times> 'd \<Rightarrow> int option) \<Rightarrow> (tsbuf \<times> 'd \<Rightarrow> int option) \<Rightarrow>
    (projectionTask \<Rightarrow> tsbuf \<times> 'd \<Rightarrow> tsbuf \<times> 'd) \<Rightarrow> (tsbuf \<times> 'd \<Rightarrow> tsbuf \<times> 'd) \<Rightarrow> int option \<Rightarrow>
    projectionTask list \<Rightarrow> tsbuf \<times> 'd \<Rightarrow> int \<Rightarrow> (bool \<times> (tsbuf \<times> 'd) \<times> projectionTask list \<times> int) option" where
  "ts_close tie c cost flush_cost sofar flush_sofar busy q s t =
     map_option (\<lambda>d. ts_drain tie c cost flush_cost sofar flush_sofar q s (t + d)) busy"

text \<open>What a drain has done when it returns, and when that is.\<close>

lemma drain_within_result:
  assumes "drain_within tie cost run sofar deadline q s t = (ok, s', rest, t')" and "t \<le> deadline"
  shows "t' \<le> deadline \<and> (if ok then rest = [] \<and> s' = fold run q s
    else t' = deadline \<and> (\<exists>finished x. q = finished @ x # rest \<and> (s' = fold run finished s \<or> s' = sofar x (fold run finished s))))"
  using assms
proof (induction q arbitrary: s t)
  case (Cons x q)
  obtain b t1 where r: "runBounded (tie t) deadline t (cost x s) = (b, t1)" by fastforce
  show ?case
  proof (cases b)
    case True
    with r Cons.prems have "drain_within tie cost run sofar deadline q (run x s) t1 = (ok, s', rest, t')" "t1 \<le> deadline"
      using runBounded_True by fastforce+
    from Cons.IH [OF this] show ?thesis by (auto intro: exI [of _ "x # f" for f])
  next
    case False
    with r Cons.prems runBounded_False [of "tie t" deadline t "cost x s" t1] show ?thesis
      by (auto intro: exI [of _ "[]"] split: if_splits)
  qed
qed simp

text \<open>The pause after a failed write: one second, doubled each time, at most sixteen.\<close>

definition retry_backoff :: "nat \<Rightarrow> int" where
  "retry_backoff attempt = (let backoff = 2 ^ attempt * second in if backoff > 16 * second then 16 * second else backoff)"

lemma failing_write_pauses: "sum_list (map retry_backoff [0..<boltMaxRetries]) = 31 * second"
  by (simp add: retry_backoff_def boltMaxRetries_def second_def upt_rec Let_def)

section \<open>A drain of the index is a run of the buffer\<close>

lemma ts_drain_tasks_run:
  assumes "ts_phase s = Draining" and "ts_queue s = q @ rest"
  shows "\<exists>s'. ts_reach c env s s' \<and> ts_phase s' = Draining \<and> ts_queue s' = rest \<and>
    (ts_local s', ts_world s') = fold (process c) q (ts_local s, ts_world s) \<and> ts_processed s' = ts_processed s @ q"
  using assms
proof (induction q arbitrary: s)
  case Nil
  then show ?case by (intro exI [of _ s]) (simp add: reach_refl)
next
  case (Cons x q)
  let ?s = "process_state c x (s\<lparr>ts_queue := q @ rest\<rparr>)"
  have step: "ts_step c env s ?s" using Cons.prems by (intro DrainTask) simp_all
  have fields: "(ts_local ?s, ts_world ?s) = process c x (ts_local s, ts_world s)" "ts_processed ?s = ts_processed s @ [x]"
    by (simp_all add: process_state_def split: prod.splits)
  have "ts_phase ?s = Draining" "ts_queue ?s = q @ rest" using Cons.prems by simp_all
  from Cons.IH [OF this] obtain s' where s': "ts_reach c env ?s s'" "ts_phase s' = Draining" "ts_queue s' = rest"
    "(ts_local s', ts_world s') = fold (process c) q (process c x (ts_local s, ts_world s))" "ts_processed s' = ts_processed s @ x # q"
    unfolding fields by auto
  from reach_trans [OF s'(1) reach_step [OF reach_refl step]] s'(2-) show ?case by (intro exI [of _ s']) simp
qed

text \<open>So all that is shown of the runs of \<open>ts_step\<close> holds of a drain that ends by itself.\<close>

lemma ts_drain_is_a_run:
  assumes "ts_drain tie c cost flush_cost sofar flush_sofar (ts_queue s) (ts_local s, ts_world s) t = (True, (b, w), rest, t')"
    and "ts_phase s = Draining"
  shows "\<exists>s'. ts_reach c env s s' \<and> ts_phase s' = Stopped \<and> ts_queue s' = rest \<and> ts_local s' = b \<and> ts_world s' = w"
proof -
  let ?d = "t + tsDrainDeadline"
  obtain ok1 s1 rest1 t1 where d: "drain_within tie cost (process c) sofar ?d (ts_queue s) (ts_local s, ts_world s) t = (ok1, s1, rest1, t1)"
    by (metis surj_pair)
  obtain b1 t2 where r: "runBounded (tie t1) ?d t1 (flush_cost s1) = (b1, t2)" by fastforce
  have "ok1" "b1" and out: "(b, w) = flushBatch c s1" "rest = rest1"
    using assms(1) d r by (auto simp: ts_drain_def split: if_splits bool.splits)
  have "t \<le> ?d" by (simp add: tsDrainDeadline_def second_def)
  with drain_within_result [OF d] \<open>ok1\<close> have "rest1 = []" "s1 = fold (process c) (ts_queue s) (ts_local s, ts_world s)" by auto
  then obtain s' where s': "ts_reach c env s s'" "ts_phase s' = Draining" "ts_queue s' = []" "(ts_local s', ts_world s') = s1"
    using ts_drain_tasks_run [OF assms(2), of "ts_queue s" "[]"] by auto
  have "(ts_local (flush_state c (s'\<lparr>ts_phase := Stopped\<rparr>)), ts_world (flush_state c (s'\<lparr>ts_phase := Stopped\<rparr>))) = (b, w)"
    using s'(4) out(1) by (simp add: flush_state_def split: prod.splits)
  with reach_step [OF s'(1) DrainEnd [OF s'(2,3)]] out(2) \<open>rest1 = []\<close> s'(3) show ?thesis by (intro exI conjI) (assumption, simp_all)
qed

lemma ts_drain_result:
  assumes "ts_drain tie c cost flush_cost sofar flush_sofar q s t = (ok, s', rest, t')"
  shows "t' \<le> t + tsDrainDeadline \<and> (if ok then rest = [] \<and> s' = flushBatch c (fold (process c) q s)
     else t' = t + tsDrainDeadline \<and> (\<exists>finished. prefix finished q \<and> (s' = fold (process c) finished s \<or>
       (\<exists>x. prefix (finished @ [x]) q \<and> s' = sofar x (fold (process c) finished s)) \<or>
       finished = q \<and> s' = flush_sofar (fold (process c) finished s))))"
proof -
  let ?d = "t + tsDrainDeadline"
  obtain ok1 s1 rest1 t1 where d: "drain_within tie cost (process c) sofar ?d q s t = (ok1, s1, rest1, t1)" by (metis surj_pair)
  have pos: "t \<le> ?d" by (simp add: tsDrainDeadline_def second_def)
  note ts = drain_within_result [OF d pos]
  obtain b t2 where r: "runBounded (tie t1) ?d t1 (flush_cost s1) = (b, t2)" by fastforce
  show ?thesis
  proof (cases ok1)
    case True
    with assms d r ts show ?thesis
      using runBounded_True [of "tie t1" ?d t1 "flush_cost s1" t2] runBounded_False [of "tie t1" ?d t1 "flush_cost s1" t2]
      by (cases b) (auto simp: ts_drain_def intro: exI [of _ q] split: if_splits)
  next
    case False
    with ts obtain finished x where f: "q = finished @ x # rest1" "s1 = fold (process c) finished s \<or> s1 = sofar x (fold (process c) finished s)"
      "t1 = ?d" by auto
    then have "prefix finished q" "prefix (finished @ [x]) q" by simp_all
    moreover have "\<not> ok" "s' = s1" "t' = t1" using assms d False by (auto simp: ts_drain_def)
    ultimately show ?thesis using f(2,3) by auto
  qed
qed

section \<open>Properties\<close>



text \<open>\<open>main.go\<close> describes the drains after the shutdown of the listener as bounded by the retries of one upsert, about 31
  seconds; an index that hangs takes the whole 90.\<close>

lemma hanging_index_takes_its_deadline:
  "q \<noteq> [] \<Longrightarrow> ts_drain tie c (\<lambda>_ _. None) flush_cost sofar flush_sofar q s t = (ok, s', rest, t') \<Longrightarrow> t' = t + 90 * second"
  by (cases q) (auto simp: ts_drain_def runBounded_def tsDrainDeadline_def second_def)

text \<open>The comments of both drains say that a call that hangs for ever cannot keep the shutdown from ending. One that hangs when
  the signal comes does: the worker never gets to its drain, and \<open>Close\<close> waits for the worker.\<close>

lemma hanging_task_in_hand_blocks_close:
  "bolt_close tie c cost sofar None q w t = None"
  "ts_close tie' c' cost' flush_cost sofar' flush_sofar None q' s t' = None"
  by (simp_all add: bolt_close_def ts_close_def)

end
