(* ===== verification/Allowlist.thy ===== *)
theory Allowlist
  imports Demo
begin

text \<open>
  \<open>allowlist.go\<close>: the write and read allowlists. The manager keeps the access configuration, the
  pubkeys resolved from each remote list, the list references and the two merged sets the write
  and read paths ask; every operation that changes a source rebuilds the merged sets. The remote
  pool is the parameter \<open>query\<close> (\<open>QuerySingle\<close>), the outcome of a database transaction is
  \<open>tx\<close>. Operations act on the database and the manager together.
\<close>

section \<open>State\<close>

record acl =
  al_config :: access_config
  al_write :: "string set"
  al_read :: "string set"
  al_list_pubkeys :: "(string \<times> string set) list"
  al_list_refs :: "(string \<times> list_ref) list"

type_synonym pool_query = "string list \<Rightarrow> filter \<Rightarrow> event option"

definition NewAllowlistManager :: acl where
  "NewAllowlistManager = \<lparr>al_config = \<lparr>ac_write_restricted = False, ac_read_restricted = False\<rparr>,
     al_write = {}, al_read = {}, al_list_pubkeys = [], al_list_refs = []\<rparr>"

definition IsWriteRestricted :: "acl \<Rightarrow> bool" where
  "IsWriteRestricted a = ac_write_restricted (al_config a)"

definition IsReadRestricted :: "acl \<Rightarrow> bool" where
  "IsReadRestricted a = ac_read_restricted (al_config a)"

definition IsWriteAllowed :: "acl \<Rightarrow> string \<Rightarrow> bool" where
  "IsWriteAllowed a pk \<longleftrightarrow> pk \<in> al_write a"

definition IsReadAllowed :: "acl \<Rightarrow> string \<Rightarrow> bool" where
  "IsReadAllowed a pk \<longleftrightarrow> pk \<in> al_read a"

section \<open>Rebuilding the merged sets\<close>

fun merge_lists :: "(string \<times> list_ref) list \<Rightarrow> (string \<times> string set) list \<Rightarrow>
    string set \<times> string set \<Rightarrow> string set \<times> string set" where
  "merge_lists refs [] wr = wr"
| "merge_lists refs ((key, pks) # rest) (w, r) = (case map_of refs key of
     None \<Rightarrow> merge_lists refs rest (w, r)
   | Some ref \<Rightarrow> merge_lists refs rest
       (if lr_direction ref = ''write'' then (w \<union> pks, r)
        else if lr_direction ref = ''read'' then (w, r \<union> pks)
        else if lr_direction ref = ''both'' then (w \<union> pks, r \<union> pks)
        else (w, r)))"

definition rebuildMergedSets :: "lib \<Rightarrow> json_lib \<Rightarrow> mgmt_db \<Rightarrow> acl \<Rightarrow> acl" where
  "rebuildMergedSets L J m a = (
     let writeSet = set (map (\<lambda>p. pk_hex L (fst p)) (Store_ListWriteAllowPubkeys L J m));
         readSet = set (map (\<lambda>p. pk_hex L (fst p)) (Store_ListReadAllowPubkeys L J m))
     in case merge_lists (al_list_refs a) (al_list_pubkeys a) (writeSet, readSet) of
       (w, r) \<Rightarrow> a\<lparr>al_write := w, al_read := r\<rparr>)"

section \<open>Fetching lists\<close>

definition list_filter :: "pubkey \<Rightarrow> list_ref \<Rightarrow> filter" where
  "list_filter pk ref =
     (if lr_kind ref = 3
      then empty_filter\<lparr>f_kinds := [3], f_authors := [pk], f_limit := 1\<rparr>
      else empty_filter\<lparr>f_kinds := [30000], f_authors := [pk],
             f_tags := [(''d'', [lr_dtag ref])], f_limit := 1\<rparr>)"

text \<open>The values of the \<open>p\<close> tags.\<close>

definition p_values :: "tag list \<Rightarrow> string set" where
  "p_values tags = set (tag_values ''p'' tags)"

definition fetchList :: "lib \<Rightarrow> pool_query \<Rightarrow> string \<Rightarrow> list_ref \<Rightarrow> acl \<Rightarrow> bool \<times> acl" where
  "fetchList L query key ref a = (case pk_from_hex L (lr_pubkey ref) of
     Inl _ \<Rightarrow> (False, a)
   | Inr pk \<Rightarrow> (case query (lr_relays ref) (list_filter pk ref) of
       None \<Rightarrow> (False, a)
     | Some result \<Rightarrow>
         (True, a\<lparr>al_list_pubkeys := AList.update key (p_values (ev_tags result)) (al_list_pubkeys a)\<rparr>)))"

fun refresh_loop :: "lib \<Rightarrow> pool_query \<Rightarrow> (string \<times> list_ref) list \<Rightarrow> nat \<Rightarrow> acl \<Rightarrow> nat \<times> acl" where
  "refresh_loop L query [] count a = (count, a)"
| "refresh_loop L query ((key, ref) # refs) count a = (case fetchList L query key ref a of
     (ok, a') \<Rightarrow> refresh_loop L query refs (if ok then Suc count else count) a')"

definition refreshAllLists :: "lib \<Rightarrow> pool_query \<Rightarrow> acl \<Rightarrow> nat \<times> acl" where
  "refreshAllLists L query a = refresh_loop L query (al_list_refs a) 0 a"

definition RefreshAllLists :: "lib \<Rightarrow> json_lib \<Rightarrow> pool_query \<Rightarrow> mgmt_db \<Rightarrow> acl \<Rightarrow> nat \<times> acl" where
  "RefreshAllLists L J query m a = (case refreshAllLists L query a of
     (n, a') \<Rightarrow> (n, rebuildMergedSets L J m a'))"

section \<open>Operations\<close>

type_synonym acl_state = "mgmt_db \<times> acl"

definition Allowlist_Init :: "lib \<Rightarrow> json_lib \<Rightarrow> pool_query \<Rightarrow> mgmt_db \<Rightarrow> acl \<Rightarrow> error option \<times> acl" where
  "Allowlist_Init L J query m a = (case LoadAccessControlConfig J m of
     (cfg, Some e) \<Rightarrow> (Some (''loading access control config: '' @ e), a)
   | (cfg, None) \<Rightarrow>
       let refs = Store_LoadListReferences J m;
           a1 = a\<lparr>al_config := cfg, al_list_refs := refs\<rparr>;
           a2 = (if refs \<noteq> [] then snd (refreshAllLists L query a1) else a1)
       in (None, rebuildMergedSets L J m a2))"

definition SetAccessControl ::
    "json_lib \<Rightarrow> error option \<Rightarrow> access_config \<Rightarrow> acl_state \<Rightarrow> error option \<times> acl_state" where
  "SetAccessControl J tx cfg = (\<lambda>(m, a). case SaveAccessControlConfig J tx cfg m of
     (Some e, m') \<Rightarrow> (Some e, (m', a))
   | (None, m') \<Rightarrow> (None, (m', a\<lparr>al_config := cfg\<rparr>)))"

definition AddWriteAllowPubkey :: "lib \<Rightarrow> json_lib \<Rightarrow> error option \<Rightarrow> string \<Rightarrow> string \<Rightarrow> acl_state \<Rightarrow>
    error option \<times> acl_state" where
  "AddWriteAllowPubkey L J tx pubkey reason = (\<lambda>(m, a).
     case Store_AddWriteAllowPubkey J tx pubkey reason m of
     (Some e, m') \<Rightarrow> (Some e, (m', a))
   | (None, m') \<Rightarrow> (None, (m', rebuildMergedSets L J m' a)))"

definition RemoveWriteAllowPubkey :: "lib \<Rightarrow> json_lib \<Rightarrow> error option \<Rightarrow> string \<Rightarrow> acl_state \<Rightarrow>
    error option \<times> acl_state" where
  "RemoveWriteAllowPubkey L J tx pubkey = (\<lambda>(m, a).
     case Store_RemoveWriteAllowPubkey tx pubkey m of
     (Some e, m') \<Rightarrow> (Some e, (m', a))
   | (None, m') \<Rightarrow> (None, (m', rebuildMergedSets L J m' a)))"

definition AddReadAllowPubkey :: "lib \<Rightarrow> json_lib \<Rightarrow> error option \<Rightarrow> string \<Rightarrow> string \<Rightarrow> acl_state \<Rightarrow>
    error option \<times> acl_state" where
  "AddReadAllowPubkey L J tx pubkey reason = (\<lambda>(m, a).
     case Store_AddReadAllowPubkey J tx pubkey reason m of
     (Some e, m') \<Rightarrow> (Some e, (m', a))
   | (None, m') \<Rightarrow> (None, (m', rebuildMergedSets L J m' a)))"

definition RemoveReadAllowPubkey :: "lib \<Rightarrow> json_lib \<Rightarrow> error option \<Rightarrow> string \<Rightarrow> acl_state \<Rightarrow>
    error option \<times> acl_state" where
  "RemoveReadAllowPubkey L J tx pubkey = (\<lambda>(m, a).
     case Store_RemoveReadAllowPubkey tx pubkey m of
     (Some e, m') \<Rightarrow> (Some e, (m', a))
   | (None, m') \<Rightarrow> (None, (m', rebuildMergedSets L J m' a)))"

definition AddListReference :: "lib \<Rightarrow> json_lib \<Rightarrow> pool_query \<Rightarrow> error option \<Rightarrow> list_ref \<Rightarrow> acl_state \<Rightarrow>
    error option \<times> acl_state" where
  "AddListReference L J query tx ref = (\<lambda>(m, a).
     let key = ListRefKey (lr_pubkey ref) (lr_kind ref) (lr_dtag ref) in
     case SaveListReference J tx key ref m of
       (Some e, m') \<Rightarrow> (Some e, (m', a))
     | (None, m') \<Rightarrow>
         let a1 = a\<lparr>al_list_refs := AList.update key ref (al_list_refs a)\<rparr>;
             a2 = snd (fetchList L query key ref a1)
         in (None, (m', rebuildMergedSets L J m' a2)))"

text \<open>The steps of \<open>AddListReference\<close>, between which other calls may run: the lock is taken for each change of the manager and
  not for the whole call.\<close>

definition addlist_save :: "json_lib \<Rightarrow> error option \<Rightarrow> list_ref \<Rightarrow> acl_state \<Rightarrow> error option \<times> acl_state" where
  "addlist_save J tx ref = (\<lambda>(m, a). case SaveListReference J tx (ListRefKey (lr_pubkey ref) (lr_kind ref) (lr_dtag ref)) ref m of
     (e, m') \<Rightarrow> (e, (m', a)))"

definition addlist_remember :: "list_ref \<Rightarrow> acl_state \<Rightarrow> acl_state" where
  "addlist_remember ref = (\<lambda>(m, a). (m, a\<lparr>al_list_refs :=
     AList.update (ListRefKey (lr_pubkey ref) (lr_kind ref) (lr_dtag ref)) ref (al_list_refs a)\<rparr>))"

definition addlist_fetch :: "lib \<Rightarrow> pool_query \<Rightarrow> list_ref \<Rightarrow> acl_state \<Rightarrow> acl_state" where
  "addlist_fetch L query ref = (\<lambda>(m, a). (m, snd (fetchList L query (ListRefKey (lr_pubkey ref) (lr_kind ref) (lr_dtag ref)) ref a)))"

definition addlist_rebuild :: "lib \<Rightarrow> json_lib \<Rightarrow> acl_state \<Rightarrow> acl_state" where
  "addlist_rebuild L J = (\<lambda>(m, a). (m, rebuildMergedSets L J m a))"

lemmas addlist_defs = addlist_save_def addlist_remember_def addlist_fetch_def addlist_rebuild_def

lemma AddListReference_steps:
  "AddListReference L J query tx ref s = (case addlist_save J tx ref s of
     (Some e, s') \<Rightarrow> (Some e, s')
   | (None, s') \<Rightarrow> (None, addlist_rebuild L J (addlist_fetch L query ref (addlist_remember ref s'))))"
  by (cases s) (simp add: AddListReference_def addlist_defs Let_def split: prod.split option.split)

definition RemoveListReference :: "lib \<Rightarrow> json_lib \<Rightarrow> error option \<Rightarrow> string \<Rightarrow> int \<Rightarrow> string \<Rightarrow> acl_state \<Rightarrow>
    error option \<times> acl_state" where
  "RemoveListReference L J tx pubkey knd dtag = (\<lambda>(m, a).
     let key = ListRefKey pubkey knd dtag in
     case DeleteListReference tx key m of
       (Some e, m') \<Rightarrow> (Some e, (m', a))
     | (None, m') \<Rightarrow>
         let a1 = a\<lparr>al_list_refs := AList.delete key (al_list_refs a),
                    al_list_pubkeys := AList.delete key (al_list_pubkeys a)\<rparr>
         in (None, (m', rebuildMergedSets L J m' a1)))"

definition Allowlist_LoadListReferences :: "acl \<Rightarrow> (string \<times> list_ref) list" where
  "Allowlist_LoadListReferences a = al_list_refs a"

section \<open>What the merged sets hold\<close>

text \<open>The pubkeys that the lists of the given direction contribute.\<close>

definition from_lists :: "string \<Rightarrow> acl \<Rightarrow> string set" where
  "from_lists dir a = {pk. \<exists>key pks ref. (key, pks) \<in> set (al_list_pubkeys a) \<and> pk \<in> pks \<and>
     map_of (al_list_refs a) key = Some ref \<and> lr_direction ref \<in> {dir, ''both''}}"

definition canon :: "lib \<Rightarrow> string \<Rightarrow> string option" where
  "canon L k = (case pk_from_hex L k of Inl _ \<Rightarrow> None | Inr pk \<Rightarrow> Some (pk_hex L pk))"

definition direct :: "lib \<Rightarrow> bucket \<Rightarrow> string set" where
  "direct L b = {x. \<exists>k \<in> dom (RBT.lookup b). canon L k = Some x}"

text \<open>The merged sets are the direct pubkeys and those of the lists.\<close>

definition merged_ok :: "lib \<Rightarrow> acl_state \<Rightarrow> bool" where
  "merged_ok L = (\<lambda>(m, a).
     al_write a = direct L (b_write_allow m) \<union> from_lists ''write'' a \<and>
     al_read a = direct L (b_read_allow m) \<union> from_lists ''read'' a)"

text \<open>The configuration and the references are those of the database.\<close>

definition persisted_ok :: "json_lib \<Rightarrow> acl_state \<Rightarrow> bool" where
  "persisted_ok J = (\<lambda>(m, a).
     LoadAccessControlConfig J m = (al_config a, None) \<and>
     map_of (al_list_refs a) = map_of (Store_LoadListReferences J m))"

lemma direct_hex_set: "(\<lambda>p. pk_hex L (fst p)) ` set (list_pubkeys L J b) = direct L b"
proof -
  have "(\<lambda>p. pk_hex L (fst p)) ` set (list_pubkeys L J b) =
      pk_hex L ` fst ` set (list_pubkeys L J b)" by (simp add: image_image)
  also have "\<dots> = direct L b"
    unfolding fst_list_pubkeys direct_def canon_def case_sum_Some_iff by blast
  finally show ?thesis .
qed

lemma merge_lists_eq:
  "merge_lists refs ls (w, r) =
     (w \<union> {pk. \<exists>key pks ref. (key, pks) \<in> set ls \<and> pk \<in> pks \<and>
            map_of refs key = Some ref \<and> lr_direction ref \<in> {''write'', ''both''}},
      r \<union> {pk. \<exists>key pks ref. (key, pks) \<in> set ls \<and> pk \<in> pks \<and>
            map_of refs key = Some ref \<and> lr_direction ref \<in> {''read'', ''both''}})"
proof (induction ls arbitrary: w r)
  case (Cons kp ls)
  obtain key pks where kp: "kp = (key, pks)" by (cases kp)
  show ?case
    unfolding kp by (cases "map_of refs key") (auto simp: Cons)
qed simp

lemma rebuild_eq:
  "rebuildMergedSets L J m a =
     a\<lparr>al_write := direct L (b_write_allow m) \<union> from_lists ''write'' a,
       al_read := direct L (b_read_allow m) \<union> from_lists ''read'' a\<rparr>"
  by (simp add: rebuildMergedSets_def merge_lists_eq from_lists_def direct_hex_set
      Store_ListWriteAllowPubkeys_def Store_ListReadAllowPubkeys_def)

lemma from_lists_update [simp]:
  "from_lists d (a\<lparr>al_write := w\<rparr>) = from_lists d a"
  "from_lists d (a\<lparr>al_read := w\<rparr>) = from_lists d a"
  "from_lists d (a\<lparr>al_config := c\<rparr>) = from_lists d a"
  by (simp_all add: from_lists_def)

lemma merged_ok_rebuild [simp]: "merged_ok L (m, rebuildMergedSets L J m a)"
  by (simp add: merged_ok_def rebuild_eq)

lemma rebuild_fields [simp]:
  "al_config (rebuildMergedSets L J m a) = al_config a"
  "al_list_refs (rebuildMergedSets L J m a) = al_list_refs a"
  "al_list_pubkeys (rebuildMergedSets L J m a) = al_list_pubkeys a"
  by (simp_all add: rebuild_eq)

lemma fetchList_fields [simp]:
  "al_config (snd (fetchList L q k r a)) = al_config a"
  "al_list_refs (snd (fetchList L q k r a)) = al_list_refs a"
  by (simp_all add: fetchList_def split: sum.splits option.splits)

lemma refresh_loop_fields:
  "al_config (snd (refresh_loop L q refs n a)) = al_config a \<and>
   al_list_refs (snd (refresh_loop L q refs n a)) = al_list_refs a"
proof (induction refs arbitrary: n a)
  case (Cons kr refs)
  obtain k r where kr: "kr = (k, r)" by (cases kr)
  obtain ok a' where f: "fetchList L q k r a = (ok, a')" by (cases "fetchList L q k r a")
  then show ?case
    using Cons fetchList_fields [of L q k r a] by (simp add: kr)
qed simp

section \<open>One operation type\<close>

datatype acl_op =
    OpSetAccess access_config
  | OpAddWrite string string
  | OpRemoveWrite string
  | OpAddRead string string
  | OpRemoveRead string
  | OpAddList list_ref
  | OpRemoveList string int string
  | OpRefresh

definition acl_step :: "lib \<Rightarrow> json_lib \<Rightarrow> pool_query \<Rightarrow> error option \<Rightarrow> acl_op \<Rightarrow> acl_state \<Rightarrow>
    error option \<times> acl_state" where
  "acl_step L J query tx op = (case op of
     OpSetAccess cfg \<Rightarrow> SetAccessControl J tx cfg
   | OpAddWrite pk r \<Rightarrow> AddWriteAllowPubkey L J tx pk r
   | OpRemoveWrite pk \<Rightarrow> RemoveWriteAllowPubkey L J tx pk
   | OpAddRead pk r \<Rightarrow> AddReadAllowPubkey L J tx pk r
   | OpRemoveRead pk \<Rightarrow> RemoveReadAllowPubkey L J tx pk
   | OpAddList ref \<Rightarrow> AddListReference L J query tx ref
   | OpRemoveList pk k d \<Rightarrow> RemoveListReference L J tx pk k d
   | OpRefresh \<Rightarrow> (\<lambda>(m, a). (None, (m, snd (RefreshAllLists L J query m a)))))"

lemmas acl_op_defs = SetAccessControl_def AddWriteAllowPubkey_def RemoveWriteAllowPubkey_def
  AddReadAllowPubkey_def RemoveReadAllowPubkey_def AddListReference_def RemoveListReference_def
  RefreshAllLists_def

lemmas store_op_defs = SaveAccessControlConfig_def Store_AddWriteAllowPubkey_def
  Store_RemoveWriteAllowPubkey_def Store_AddReadAllowPubkey_def Store_RemoveReadAllowPubkey_def
  SaveListReference_def DeleteListReference_def

lemma merged_ok_db:
  "merged_ok L (m, a) \<Longrightarrow> b_write_allow m' = b_write_allow m \<Longrightarrow> b_read_allow m' = b_read_allow m \<Longrightarrow>
   merged_ok L (m', a\<lparr>al_config := c\<rparr>)"
  by (simp add: merged_ok_def)

lemma acl_step_merged:
  assumes "merged_ok L s"
  shows "merged_ok L (snd (acl_step L J query tx op s))"
proof (cases s)
  case (Pair m a)
  with assms show ?thesis
    by (cases tx; cases op; simp add: acl_step_def acl_op_defs store_op_defs Let_def
        split: prod.splits; simp add: merged_ok_def)
qed

text \<open>A failed transaction changes nothing.\<close>

lemma acl_step_failed:
  assumes "op \<noteq> OpRefresh"
  shows "acl_step L J query (Some e) op s = (Some e, s)"
  using assms
  by (cases s; cases op; simp add: acl_step_def acl_op_defs store_op_defs Let_def)

lemma map_of_LoadListReferences:
  "map_of (Store_LoadListReferences J m) = (\<lambda>k. case RBT.lookup (b_list_refs m) k of
     None \<Rightarrow> None
   | Some v \<Rightarrow> (case uj_list_ref J v of (None, ref) \<Rightarrow> Some ref | (Some _, _) \<Rightarrow> None))"
proof (rule ext)
  fix k
  have aux: "distinct (map fst xs) \<Longrightarrow> map_of (List.map_filter (\<lambda>(k, v). case uj_list_ref J v of
      (None, ref) \<Rightarrow> Some (k, ref) | (Some _, _) \<Rightarrow> None) xs) k = (case map_of xs k of
      None \<Rightarrow> None | Some v \<Rightarrow> (case uj_list_ref J v of (None, ref) \<Rightarrow> Some ref | (Some _, _) \<Rightarrow> None))"
    for xs :: "(string \<times> bytes) list"
  proof (induction xs)
    case (Cons x xs)
    obtain k' v where x: "x = (k', v)" by (cases x)
    obtain o' r where u: "uj_list_ref J v = (o', r)" by (cases "uj_list_ref J v")
    have "k = k' \<Longrightarrow> map_of xs k = None"
      using Cons.prems by (auto simp: x map_of_eq_None_iff)
    with Cons show ?case
      by (cases o') (auto simp: x u List.map_filter_def)
  qed (simp add: List.map_filter_def)
  show "map_of (Store_LoadListReferences J m) k = (case RBT.lookup (b_list_refs m) k of
     None \<Rightarrow> None
   | Some v \<Rightarrow> (case uj_list_ref J v of (None, ref) \<Rightarrow> Some ref | (Some _, _) \<Rightarrow> None))"
    using aux [OF RBT.distinct_entries, of "b_list_refs m"]
    by (simp add: Store_LoadListReferences_def)
qed

lemma acl_step_persisted:
  assumes "json_ok J" and "persisted_ok J s"
  shows "persisted_ok J (snd (acl_step L J query tx op s))"
proof (cases s)
  case (Pair m a)
  have ref: "al_list_refs (snd (refreshAllLists L query a)) = al_list_refs a"
    "al_config (snd (refreshAllLists L query a)) = al_config a"
    using refresh_loop_fields by (simp_all add: refreshAllLists_def)
  show ?thesis
  proof (cases op)
    case OpRefresh
    with assms(2) ref show ?thesis
      by (auto simp: Pair acl_step_def RefreshAllLists_def persisted_ok_def split: prod.splits)
  next
    case (OpSetAccess cfg)
    with assms show ?thesis
      by (cases tx) (simp_all add: Pair acl_step_def SetAccessControl_def store_op_defs persisted_ok_def
        LoadAccessControlConfig_def json_ok_def Store_LoadListReferences_def)
  next
    case (OpAddList r)
    with assms show ?thesis
      by (cases tx) (auto simp: Pair acl_step_def acl_op_defs store_op_defs persisted_ok_def Let_def
        LoadAccessControlConfig_def json_ok_def map_of_LoadListReferences update_conv' fun_eq_iff)
  next
    case (OpRemoveList p k d)
    with assms show ?thesis
      by (cases tx) (auto simp: Pair acl_step_def acl_op_defs store_op_defs persisted_ok_def Let_def
        LoadAccessControlConfig_def map_of_LoadListReferences delete_conv' fun_eq_iff)
  qed (use assms(2) in \<open>cases tx; simp add: Pair acl_step_def acl_op_defs store_op_defs persisted_ok_def
        LoadAccessControlConfig_def Store_LoadListReferences_def\<close>)+
qed

section \<open>The interface of an allowlist\<close>

text \<open>
  What the management API and the write and read paths rely on, for either direction: adding
  and removing change one stored key, the lists' contribution stays, and a pubkey is allowed when
  a stored key denotes it or a list names it.
\<close>

locale allow_list =
  fixes invar :: "'s \<Rightarrow> bool"
    and stored :: "'s \<Rightarrow> string set"
    and listed :: "'s \<Rightarrow> string set"
    and denotes :: "string \<Rightarrow> string option"
    and allowed :: "'s \<Rightarrow> string \<Rightarrow> bool"
    and add :: "string \<Rightarrow> string \<Rightarrow> 's \<Rightarrow> 's"
    and remove :: "string \<Rightarrow> 's \<Rightarrow> 's"
  assumes allowed_iff: "invar s \<Longrightarrow>
        allowed s x \<longleftrightarrow> (\<exists>k \<in> stored s. denotes k = Some x) \<or> x \<in> listed s"
    and invar_add: "invar s \<Longrightarrow> invar (add k r s)"
    and invar_remove: "invar s \<Longrightarrow> invar (remove k s)"
    and stored_add: "stored (add k r s) = insert k (stored s)"
    and stored_remove: "stored (remove k s) = stored s - {k}"
    and listed_add: "listed (add k r s) = listed s"
    and listed_remove: "listed (remove k s) = listed s"
begin

lemma allowed_add: "invar s \<Longrightarrow> denotes k = Some x \<Longrightarrow> allowed (add k r s) x"
  by (simp add: allowed_iff invar_add stored_add)

lemma allowed_add_other:
  "invar s \<Longrightarrow> denotes k \<noteq> Some x \<Longrightarrow> allowed (add k r s) x \<longleftrightarrow> allowed s x"
  by (simp add: allowed_iff invar_add stored_add listed_add)

lemma allowed_remove:
  assumes "invar s" and "\<And>k'. k' \<in> stored s \<Longrightarrow> denotes k' = Some x \<Longrightarrow> k' = k"
  shows "allowed (remove k s) x \<longleftrightarrow> x \<in> listed s"
  using assms by (auto simp: allowed_iff invar_remove stored_remove listed_remove)

lemma allowed_remove_other:
  "invar s \<Longrightarrow> denotes k \<noteq> Some x \<Longrightarrow> allowed (remove k s) x \<longleftrightarrow> allowed s x"
  by (auto simp: allowed_iff invar_remove stored_remove listed_remove)

end

interpretation write_list: allow_list
  "merged_ok L" "\<lambda>(m, a). dom (RBT.lookup (b_write_allow m))" "\<lambda>(m, a). from_lists ''write'' a"
  "canon L" "\<lambda>(m, a). IsWriteAllowed a" "\<lambda>k r s. snd (AddWriteAllowPubkey L J None k r s)"
  "\<lambda>k s. snd (RemoveWriteAllowPubkey L J None k s)" for L J
  by unfold_locales
    (auto simp: AddWriteAllowPubkey_def RemoveWriteAllowPubkey_def store_op_defs IsWriteAllowed_def
      rebuild_eq merged_ok_def direct_def split: prod.splits)

interpretation read_list: allow_list
  "merged_ok L" "\<lambda>(m, a). dom (RBT.lookup (b_read_allow m))" "\<lambda>(m, a). from_lists ''read'' a"
  "canon L" "\<lambda>(m, a). IsReadAllowed a" "\<lambda>k r s. snd (AddReadAllowPubkey L J None k r s)"
  "\<lambda>k s. snd (RemoveReadAllowPubkey L J None k s)" for L J
  by unfold_locales
    (auto simp: AddReadAllowPubkey_def RemoveReadAllowPubkey_def store_op_defs IsReadAllowed_def
      rebuild_eq merged_ok_def direct_def split: prod.splits)

text \<open>The storage key of a list reference identifies it when the pubkey has no colon.\<close>

lemma colon_not_in_int_dec: "CHR '':'' \<notin> set (int_dec n)"
  by (simp add: int_dec_def)

lemma int_dec_inject: "int_dec m = int_dec n \<longleftrightarrow> m = n"
proof
  assume eq: "int_dec m = int_dec n"
  have minus: "CHR ''-'' \<notin> set (dec i)" for i
    by (rule not_digit_not_in_dec) (simp add: is_digit_def)
  have ne: "dec i \<noteq> CHR ''-'' # xs" for i xs
    using minus [of i] by (auto dest: arg_cong [where f = set])
  from eq ne ne [symmetric] show "m = n"
    by (auto simp: int_dec_def split: if_splits)
qed simp

lemma ListRefKey_inject:
  assumes "CHR '':'' \<notin> set p" and "CHR '':'' \<notin> set p'"
  shows "ListRefKey p k d = ListRefKey p' k' d' \<longleftrightarrow> p = p' \<and> k = k' \<and> d = d'"
proof
  assume "ListRefKey p k d = ListRefKey p' k' d'"
  then have "split_n 3 CHR '':'' (ListRefKey p k d) = split_n 3 CHR '':'' (ListRefKey p' k' d')"
    by simp
  then show "p = p' \<and> k = k' \<and> d = d'"
    using split_n_3 [OF assms(1) colon_not_in_int_dec] split_n_3 [OF assms(2) colon_not_in_int_dec]
    by (simp add: ListRefKey_def int_dec_inject)
qed simp

section \<open>A run of the manager\<close>

text \<open>Any sequence of operations, each with the outcome of its transaction and the pool it sees.\<close>

text \<open>A call that removes the reference between the first two steps of one that adds it is undone in memory only: the manager
  keeps the list, and grants what it grants, while the database has forgotten it.\<close>

lemma remove_during_add_is_undone:
  defines "key \<equiv> \<lambda>ref. ListRefKey (lr_pubkey ref) (lr_kind ref) (lr_dtag ref)"
  defines "raced \<equiv> \<lambda>L J query ref s. addlist_rebuild L J (addlist_fetch L query ref (addlist_remember ref
    (snd (RemoveListReference L J None (lr_pubkey ref) (lr_kind ref) (lr_dtag ref) (snd (addlist_save J None ref s))))))"
  shows "map_of (al_list_refs (snd (raced L J query ref s))) (key ref) = Some ref \<and>
    RBT.lookup (b_list_refs (fst (raced L J query ref s))) (key ref) = None"
  by (cases s) (simp add: key_def raced_def addlist_defs RemoveListReference_def SaveListReference_def DeleteListReference_def
      Let_def update_conv' split: prod.split)

text \<open>Calls that run one after another.\<close>

fun acl_run :: "lib \<Rightarrow> json_lib \<Rightarrow> (error option \<times> pool_query \<times> acl_op) list \<Rightarrow> acl_state \<Rightarrow> acl_state" where
  "acl_run L J [] s = s"
| "acl_run L J ((tx, query, op) # ops) s = acl_run L J ops (snd (acl_step L J query tx op s))"

lemma acl_run_invariants:
  assumes "json_ok J" and "merged_ok L s" and "persisted_ok J s"
  shows "merged_ok L (acl_run L J ops s) \<and> persisted_ok J (acl_run L J ops s)"
  using assms(2,3)
proof (induction ops arbitrary: s)
  case (Cons x ops)
  obtain tx query op where x: "x = (tx, query, op)" by (cases x)
  from Cons acl_step_merged acl_step_persisted [OF assms(1)] show ?case by (simp add: x)
qed simp

lemma Init_invariants:
  assumes "Allowlist_Init L J query m a0 = (None, a)"
  shows "merged_ok L (m, a) \<and> persisted_ok J (m, a)"
proof -
  let ?a1 = "\<lambda>cfg. a0\<lparr>al_config := cfg, al_list_refs := Store_LoadListReferences J m\<rparr>"
  have r: "al_config (snd (refreshAllLists L query a)) = al_config a"
    "al_list_refs (snd (refreshAllLists L query a)) = al_list_refs a" for a
    using refresh_loop_fields by (simp_all add: refreshAllLists_def)
  show ?thesis
    using assms by (auto simp: Allowlist_Init_def Let_def r persisted_ok_def split: prod.splits option.splits if_splits)
qed

text \<open>A pool that answers nothing leaves what was resolved before.\<close>

lemma refresh_loop_offline:
  "(\<And>r f. query r f = None) \<Longrightarrow> refresh_loop L query refs n a = (n, a)"
proof (induction refs arbitrary: n)
  case (Cons x refs)
  then show ?case by (cases x) (simp add: fetchList_def split: sum.splits)
qed simp

section \<open>Properties\<close>

text \<open>C21. In whatever order the operations of the manager run, one after another, and whichever transactions and
  fetches fail, after a successful start the merged sets are exactly the stored pubkeys together
  with those of the resolved lists of each direction, and the configuration and references in
  memory are those in the database.\<close>

theorem allowlists_stay_consistent:
  assumes "json_ok J" and "Allowlist_Init L J query m NewAllowlistManager = (None, a)"
  shows "merged_ok L (acl_run L J ops (m, a)) \<and> persisted_ok J (acl_run L J ops (m, a))"
  using Init_invariants [OF assms(2)] by (intro acl_run_invariants) (simp_all add: assms(1))

lemma allowlists_stay_consistent_witness:
  "merged_ok demo_lib (acl_run demo_lib demo_json
     [(None, \<lambda>_ _. None, OpAddWrite (to_hex demo_pk) ''ok''), (Some ''disk full'', \<lambda>_ _. None, OpRemoveWrite (to_hex demo_pk))]
     (fresh_db, snd (Allowlist_Init demo_lib demo_json (\<lambda>_ _. None) fresh_db NewAllowlistManager)))"
proof -
  have "fst (Allowlist_Init demo_lib demo_json (\<lambda>_ _. None) fresh_db NewAllowlistManager) = None"
    by (simp add: Allowlist_Init_def LoadAccessControlConfig_def Let_def)
  then show ?thesis
    using allowlists_stay_consistent [OF demo_json_ok] by (metis prod.collapse)
qed

text \<open>Adding a pubkey to the write list lets it write and changes nothing for any other pubkey.\<close>

theorem add_write_allows:
  assumes "merged_ok L (m, a)" and "lib_ok L"
    and "AddWriteAllowPubkey L J None (pk_hex L pk) r (m, a) = (e, m', a')"
  shows "IsWriteAllowed a' x \<longleftrightarrow> x = pk_hex L pk \<or> IsWriteAllowed a x"
proof -
  have "canon L (pk_hex L pk) = Some (pk_hex L pk)" by (simp add: canon_def assms(2) pk_roundtrip)
  then show ?thesis
    using write_list.allowed_add [OF assms(1), of "pk_hex L pk" x J r]
      write_list.allowed_add_other [OF assms(1), of "pk_hex L pk" x J r] assms(3)
    by (cases "x = pk_hex L pk") auto
qed

lemma add_write_allows_witness:
  "IsWriteAllowed (snd (snd (AddWriteAllowPubkey demo_lib demo_json None (pk_hex demo_lib demo_pk) []
     (fresh_db, NewAllowlistManager)))) (pk_hex demo_lib demo_pk)"
proof -
  have "merged_ok demo_lib (fresh_db, NewAllowlistManager)"
    by (simp add: merged_ok_def NewAllowlistManager_def direct_def from_lists_def)
  moreover obtain e m' a' where r: "AddWriteAllowPubkey demo_lib demo_json None (pk_hex demo_lib demo_pk) []
     (fresh_db, NewAllowlistManager) = (e, m', a')" by (metis prod.exhaust)
  ultimately show ?thesis
    using add_write_allows [OF _ demo_lib_ok r] by simp
qed

text \<open>A key that is not the hexadecimal form of a pubkey is stored and acknowledged, but admits nobody.\<close>

lemma malformed_key_is_acknowledged:
  assumes "merged_ok L (m, a)" and "pk_from_hex L k = Inl err"
    and "AddWriteAllowPubkey L J None k r (m, a) = (e, m', a')"
  shows "e = None \<and> RBT.lookup (b_write_allow m') k \<noteq> None \<and> (IsWriteAllowed a' x \<longleftrightarrow> IsWriteAllowed a x)"
proof -
  have "canon L k = None" by (simp add: canon_def assms(2))
  then have "IsWriteAllowed a' x \<longleftrightarrow> IsWriteAllowed a x"
    using write_list.allowed_add_other [OF assms(1), of k x J r] assms(3) by simp
  moreover have "e = None \<and> RBT.lookup (b_write_allow m') k \<noteq> None"
    using assms(3) by (auto simp: AddWriteAllowPubkey_def store_op_defs split: prod.splits)
  ultimately show ?thesis by blast
qed

text \<open>Removing a pubkey from the write list revokes its access unless a list names it, provided
  no other stored spelling denotes the same pubkey.\<close>

theorem remove_write_revokes:
  assumes "merged_ok L (m, a)" and "lib_ok L"
    and "\<forall>k \<in> dom (RBT.lookup (b_write_allow m)). canon L k = Some (pk_hex L pk) \<longrightarrow> k = pk_hex L pk"
    and "RemoveWriteAllowPubkey L J None (pk_hex L pk) (m, a) = (e, m', a')"
  shows "IsWriteAllowed a' (pk_hex L pk) \<longleftrightarrow> pk_hex L pk \<in> from_lists ''write'' a"
  using write_list.allowed_remove [OF assms(1), of "pk_hex L pk" "pk_hex L pk" J] assms(3,4) by auto

lemma remove_write_revokes_witness:
  "\<not> IsWriteAllowed (snd (snd (RemoveWriteAllowPubkey demo_lib demo_json None (pk_hex demo_lib demo_pk)
     (fresh_db, NewAllowlistManager)))) (pk_hex demo_lib demo_pk)"
proof -
  have "merged_ok demo_lib (fresh_db, NewAllowlistManager)"
    by (simp add: merged_ok_def NewAllowlistManager_def direct_def from_lists_def)
  moreover obtain e m' a' where r: "RemoveWriteAllowPubkey demo_lib demo_json None (pk_hex demo_lib demo_pk)
     (fresh_db, NewAllowlistManager) = (e, m', a')" by (metis prod.exhaust)
  ultimately show ?thesis
    using remove_write_revokes [OF _ demo_lib_ok _ r] by (simp add: from_lists_def NewAllowlistManager_def)
qed

text \<open>A refresh during which no remote relay answers revokes and grants nothing.\<close>

theorem offline_refresh_keeps_access:
  assumes "merged_ok L (m, a)" and "\<forall>relays f. query relays f = None"
  shows "RefreshAllLists L J query m a = (0, a)"
  using assms by (simp add: RefreshAllLists_def refreshAllLists_def refresh_loop_offline rebuild_eq merged_ok_def)

lemma offline_refresh_keeps_access_witness:
  "RefreshAllLists demo_lib demo_json (\<lambda>_ _. None) fresh_db NewAllowlistManager = (0, NewAllowlistManager)"
  by (rule offline_refresh_keeps_access)
    (simp_all add: merged_ok_def NewAllowlistManager_def direct_def from_lists_def)

text \<open>An operation whose database transaction fails reports the error and changes neither the
  database nor the sets in memory.\<close>

theorem failed_operation_changes_nothing:
  assumes "op \<noteq> OpRefresh"
  shows "acl_step L J query (Some e) op s = (Some e, s)"
  using assms by (rule acl_step_failed)

lemma failed_operation_changes_nothing_witness:
  "acl_step demo_lib demo_json (\<lambda>_ _. None) (Some ''disk full'') (OpAddRead (to_hex demo_pk) [])
     (fresh_db, NewAllowlistManager) = (Some ''disk full'', (fresh_db, NewAllowlistManager))"
  by (rule failed_operation_changes_nothing) simp

end
