(* ===== verification/TSWriter.thy ===== *)
theory TSWriter
  imports TSBuffer
begin

text \<open>
  The production writer of \<open>buffer.go\<close> and \<open>BuildEmbedText\<close> of \<open>embedding.go\<close>: converting a batch,
  embedding it in bounded chunks and retrying the upload. Conversion (\<open>NostrToAMB\<close>), the embedding
  service and the HTTP calls to the search index are parameters; the pauses between retries are left
  out, and so are the HTTP requests themselves.
\<close>

section \<open>Documents\<close>

text \<open>
  The fields of \<open>AMBMetadata\<close> that the sources read or write. A concept is the list of its labels
  in the order Go iterates the map, a nil pointer has no labels.
\<close>

type_synonym vector = "32 word list"

record amb =
  amb_Name :: string
  amb_Description :: string
  amb_Keywords :: "string list"
  amb_About :: "string list list"
  amb_Creator :: "string list"
  amb_Publisher :: "string list"
  amb_LearningResourceType :: "string list list"
  amb_Embedding :: vector

definition EmbedFieldSeparator :: string where
  "EmbedFieldSeparator = '' | ''"

definition EmbedMaxLength :: nat where
  "EmbedMaxLength = 8192"

definition nonempty :: "string list \<Rightarrow> string list" where
  "nonempty = List.filter (\<lambda>s. s \<noteq> [])"

definition embed_parts :: "amb \<Rightarrow> string \<Rightarrow> string list" where
  "embed_parts amb field =
     (if field = ''name'' then nonempty [amb_Name amb]
      else if field = ''description'' then nonempty [amb_Description amb]
      else if field = ''keywords'' then
        (if length (amb_Keywords amb) > 0 then [join '', '' (amb_Keywords amb)] else [])
      else if field = ''about'' then concat (map nonempty (amb_About amb))
      else if field = ''creator'' then nonempty (amb_Creator amb)
      else if field = ''publisher'' then nonempty (amb_Publisher amb)
      else if field = ''learningResourceType'' then concat (map nonempty (amb_LearningResourceType amb))
      else [])"

definition BuildEmbedText :: "amb \<Rightarrow> string list \<Rightarrow> string" where
  "BuildEmbedText amb fs = (
     let text = join EmbedFieldSeparator (concat (map (embed_parts amb) fs))
     in if length text > EmbedMaxLength then take EmbedMaxLength text else text)"

section \<open>Preparing a batch\<close>

record 'w ts_backend =
  be_NostrToAMB :: "event \<Rightarrow> error + amb"
  be_Embedder :: "(string list \<Rightarrow> 'w \<Rightarrow> (error + vector list) \<times> 'w) option"
  be_EmbedFields :: "string list"
  be_BatchUpsertDocs :: "amb list \<Rightarrow> 'w \<Rightarrow> (int \<times> error list) \<times> 'w"
  be_PatchContent :: "string \<Rightarrow> content_entry \<Rightarrow> 'w \<Rightarrow> error option \<times> 'w"
  be_PatchCommunity :: "string \<Rightarrow> string list \<Rightarrow> 'w \<Rightarrow> error option \<times> 'w"
  be_DeleteEvent :: "event_id \<Rightarrow> 'w \<Rightarrow> error option \<times> 'w"

definition maxEmbedBatchSize :: nat where
  "maxEmbedBatchSize = 32"

fun convert_events :: "lib \<Rightarrow> (event \<Rightarrow> error + amb) \<Rightarrow> event list \<Rightarrow> amb list \<times> error list" where
  "convert_events L toAMB [] = ([], [])"
| "convert_events L toAMB (ev # evs) = (case (toAMB ev, convert_events L toAMB evs) of
     (Inl e, (docs, errs)) \<Rightarrow> (docs, (''event '' @ id_hex L (ev_id ev) @ '': convert error: '' @ e) # errs)
   | (Inr d, (docs, errs)) \<Rightarrow> (d # docs, errs))"

definition pending_embeds :: "string list \<Rightarrow> amb list \<Rightarrow> (nat \<times> string) list" where
  "pending_embeds fs docs = List.filter (\<lambda>(_, text). text \<noteq> [])
     (zip [0 ..< length docs] (map (\<lambda>d. BuildEmbedText d fs) docs))"

fun set_embeddings :: "(nat \<times> string) list \<Rightarrow> vector list \<Rightarrow> amb list \<Rightarrow> amb list" where
  "set_embeddings ((idx, _) # ps) (v # vs) docs =
     set_embeddings ps vs (docs[idx := (docs ! idx)\<lparr>amb_Embedding := v\<rparr>])"
| "set_embeddings _ _ docs = docs"

function embed_chunks :: "(string list \<Rightarrow> 'w \<Rightarrow> (error + vector list) \<times> 'w) \<Rightarrow> (nat \<times> string) list \<Rightarrow>
    amb list \<Rightarrow> 'w \<Rightarrow> amb list \<times> 'w" where
  "embed_chunks emb pending docs w =
     (if pending = [] then (docs, w)
      else let chunk = take maxEmbedBatchSize pending; rest = drop maxEmbedBatchSize pending
        in case emb (map snd chunk) w of
          (Inl _, w') \<Rightarrow> embed_chunks emb rest docs w'
        | (Inr embeddings, w') \<Rightarrow> embed_chunks emb rest (set_embeddings chunk embeddings docs) w')"
  by pat_completeness auto
termination
  by (relation "measure (\<lambda>(_, pending, _, _). length pending)") (auto simp: maxEmbedBatchSize_def)

declare embed_chunks.simps [simp del]

definition prepareBatch :: "lib \<Rightarrow> 'w ts_backend \<Rightarrow> event list \<Rightarrow> 'w \<Rightarrow> (amb list \<times> error list) \<times> 'w" where
  "prepareBatch L B events w = (if length events = 0 then (([], []), w)
     else case convert_events L (be_NostrToAMB B) events of
       (docs, errs) \<Rightarrow> (case be_Embedder B of
         None \<Rightarrow> ((docs, errs), w)
       | Some emb \<Rightarrow>
           if length (be_EmbedFields B) = 0 \<or> length docs = 0 then ((docs, errs), w)
           else (case embed_chunks emb (pending_embeds (be_EmbedFields B) docs) docs w of
             (docs', w') \<Rightarrow> ((docs', errs), w'))))"

section \<open>Uploading with retries\<close>

definition upsertHTTPMaxRetries :: nat where
  "upsertHTTPMaxRetries = 5"

text \<open>The first argument is the number of attempts left after the current one.\<close>

fun upsert_attempts :: "nat \<Rightarrow> ('w \<Rightarrow> (int \<times> error list) \<times> 'w) \<Rightarrow> 'w \<Rightarrow> (int \<times> error list) \<times> 'w" where
  "upsert_attempts left upload w = (case upload w of
     ((indexed, lastErrs), w') \<Rightarrow>
       if indexed > 0 \<or> length lastErrs = 0 then ((indexed, lastErrs), w')
       else (case left of
         0 \<Rightarrow> ((indexed, lastErrs), w')
       | Suc left' \<Rightarrow> upsert_attempts left' upload w'))"

declare upsert_attempts.simps [simp del]

definition productionWriter_Upsert :: "lib \<Rightarrow> 'w ts_backend \<Rightarrow> event list \<Rightarrow> 'w \<Rightarrow> (int \<times> error list) \<times> 'w" where
  "productionWriter_Upsert L B events w = (case prepareBatch L B events w of
     ((docs, prepErrs), w1) \<Rightarrow>
       if length docs = 0 then ((0, prepErrs), w1)
       else (case upsert_attempts upsertHTTPMaxRetries (be_BatchUpsertDocs B docs) w1 of
         ((indexed, lastErrs), w2) \<Rightarrow> ((indexed, prepErrs @ lastErrs), w2)))"

definition productionWriter_Patch :: "lib \<Rightarrow> 'w ts_backend \<Rightarrow> event \<Rightarrow> content_entry \<Rightarrow> 'w \<Rightarrow> error option \<times> 'w" where
  "productionWriter_Patch L B ev content w = (case tsDocIDFromEvent L ev of
     Inl e \<Rightarrow> (Some e, w)
   | Inr docID \<Rightarrow> be_PatchContent B docID content w)"

definition productionWriter :: "lib \<Rightarrow> 'w ts_backend \<Rightarrow> 'w projectorWriter" where
  "productionWriter L B = \<lparr>pw_Upsert = productionWriter_Upsert L B, pw_Patch = productionWriter_Patch L B,
     pw_PatchCommunity = be_PatchCommunity B, pw_Delete = be_DeleteEvent B\<rparr>"

definition NewTSWriteBuffer :: "lib \<Rightarrow> 'w ts_backend \<Rightarrow> int \<Rightarrow> (event \<Rightarrow> 'w \<Rightarrow> bool) option \<Rightarrow> 'w ts_config" where
  "NewTSWriteBuffer L B batchSize skip =
     newProjectorBufferWithSkip (productionWriter L B) batchSize skip (tsDocIDFromEvent L)"

section \<open>The chunks\<close>

function chunks_of :: "nat \<Rightarrow> 'a list \<Rightarrow> 'a list list" where
  "chunks_of n xs = (if xs = [] \<or> n = 0 then [] else take n xs # chunks_of n (drop n xs))"
  by pat_completeness auto
termination by (relation "measure (\<lambda>(_, xs). length xs)") auto

declare chunks_of.simps [simp del]

lemma chunks_of_concat: "n > 0 \<Longrightarrow> concat (chunks_of n xs) = xs"
  by (induction n xs rule: chunks_of.induct) (subst chunks_of.simps, simp)

lemma chunks_of_size: "c \<in> set (chunks_of n xs) \<Longrightarrow> length c \<le> n \<and> c \<noteq> []"
  by (induction n xs rule: chunks_of.induct) (subst (asm) (2) chunks_of.simps, auto split: if_splits)

lemma chunks_of_length: "n > 0 \<Longrightarrow> length (chunks_of n xs) = (length xs + n - 1) div n"
proof (induction n xs rule: chunks_of.induct)
  case (1 n xs)
  show ?case
  proof (cases "xs = []")
    case True
    with 1(2) show ?thesis by (simp add: chunks_of.simps)
  next
    case False
    with 1 have "length (chunks_of n xs) = Suc ((length xs - n + n - 1) div n)"
      by (subst chunks_of.simps) simp
    also have "\<dots> = (length xs + n - 1) div n"
    proof (cases "length xs \<ge> n")
      case True
      then have "length xs + n - 1 = (length xs - 1) + n" using 1(2) by simp
      moreover have "(length xs - 1 + n) div n = Suc ((length xs - 1) div n)"
        by (subst div_add_self2) (use 1(2) in simp_all)
      moreover have "length xs - n + n - 1 = length xs - 1" using True by simp
      ultimately show ?thesis by metis
    next
      case le: False
      have "(length xs + n - 1) div n = Suc 0"
        using False 1(2) le by (intro div_nat_eqI) (auto simp: length_greater_0_conv [symmetric] simp del: length_greater_0_conv)
      moreover have "(length xs - n + n - 1) div n = 0" using le 1(2) by simp
      ultimately show ?thesis by simp
    qed
    finally show ?thesis .
  qed
qed

lemma embed_chunks_world:
  "snd (embed_chunks emb pending docs w) =
     fold (\<lambda>texts w. snd (emb texts w)) (map (map snd) (chunks_of maxEmbedBatchSize pending)) w"
proof (induction emb pending docs w rule: embed_chunks.induct)
  case (1 emb pending docs w)
  show ?case
  proof (cases "pending = []")
    case True
    then show ?thesis by (simp add: embed_chunks.simps chunks_of.simps)
  next
    case False
    obtain r w' where e: "emb (map snd (take maxEmbedBatchSize pending)) w = (r, w')"
      by (cases "emb (map snd (take maxEmbedBatchSize pending)) w")
    have n: "maxEmbedBatchSize \<noteq> 0" by (simp add: maxEmbedBatchSize_def)
    show ?thesis
      by (cases r; subst embed_chunks.simps; subst chunks_of.simps)
        (simp_all add: False n e Let_def 1 [OF False refl refl e [symmetric]])
  qed
qed

section \<open>Retries\<close>

lemma upsert_attempts_iter:
  "\<exists>k \<le> Suc left. k > 0 \<and> snd (upsert_attempts left upload w) = ((\<lambda>w. snd (upload w)) ^^ k) w"
proof (induction left arbitrary: w)
  case 0
  have "snd (upsert_attempts 0 upload w) = ((\<lambda>w. snd (upload w)) ^^ 1) w"
    by (subst upsert_attempts.simps) (simp split: prod.splits)
  then show ?case by (intro exI [of _ 1]) simp
next
  case (Suc left)
  obtain r w1 where u: "upload w = (r, w1)" by (cases "upload w")
  from Suc obtain k where k: "k \<le> Suc left" "k > 0"
    "snd (upsert_attempts left upload w1) = ((\<lambda>w. snd (upload w)) ^^ k) w1" by blast
  have "snd (upsert_attempts (Suc left) upload w) = w1 \<or>
      snd (upsert_attempts (Suc left) upload w) = snd (upsert_attempts left upload w1)"
    by (subst upsert_attempts.simps, subst (2) upsert_attempts.simps) (simp add: u split: prod.splits)
  then show ?case
  proof
    assume "snd (upsert_attempts (Suc left) upload w) = w1"
    then show ?thesis by (intro exI [of _ 1]) (simp add: u)
  next
    assume "snd (upsert_attempts (Suc left) upload w) = snd (upsert_attempts left upload w1)"
    with k show ?thesis by (intro exI [of _ "Suc k"]) (simp add: u funpow_Suc_right del: funpow.simps)
  qed
qed

section \<open>Batched embedding is per-document embedding\<close>

text \<open>What one document gets when the service answers each text on its own with \<open>vec\<close>.\<close>

definition embed_one :: "(string \<Rightarrow> vector) \<Rightarrow> string list \<Rightarrow> amb \<Rightarrow> amb" where
  "embed_one vec fs d = (if BuildEmbedText d fs = [] then d
     else d\<lparr>amb_Embedding := vec (BuildEmbedText d fs)\<rparr>)"

abbreviation put_vectors :: "(string \<Rightarrow> vector) \<Rightarrow> (nat \<times> string) list \<Rightarrow> amb list \<Rightarrow> amb list" where
  "put_vectors vec \<equiv> fold (\<lambda>(i, text) docs. docs[i := (docs ! i)\<lparr>amb_Embedding := vec text\<rparr>])"

lemma set_embeddings_eq:
  "set_embeddings ps (map vec (map snd ps)) docs = put_vectors vec ps docs"
  by (induction ps arbitrary: docs) auto

lemma embed_chunks_docs:
  assumes "\<forall>texts w. fst (emb texts w) = Inr (map vec texts)"
  shows "fst (embed_chunks emb pending docs w) = put_vectors vec pending docs"
  using assms
proof (induction emb pending docs w rule: embed_chunks.induct)
  case (1 emb pending docs w)
  show ?case
  proof (cases "pending = []")
    case True
    then show ?thesis by (simp add: embed_chunks.simps)
  next
    case False
    let ?n = maxEmbedBatchSize
    obtain w' where e: "emb (map snd (take ?n pending)) w = (Inr (map vec (map snd (take ?n pending))), w')"
      using 1(3) by (metis prod.collapse)
    have "fst (embed_chunks emb pending docs w) =
        fst (embed_chunks emb (drop ?n pending) (put_vectors vec (take ?n pending) docs) w')"
      by (subst embed_chunks.simps) (simp add: False e Let_def set_embeddings_eq del: map_map)
    also have "\<dots> = put_vectors vec (drop ?n pending) (put_vectors vec (take ?n pending) docs)"
      using 1(2) [OF False refl refl e [symmetric] refl 1(3)] by (simp only: set_embeddings_eq)
    also have "\<dots> = put_vectors vec (take ?n pending @ drop ?n pending) docs"
      by (simp only: fold_append comp_apply)
    also have "\<dots> = put_vectors vec pending docs" by (simp only: append_take_drop_id)
    finally show ?thesis .
  qed
qed

lemma put_vectors_pending:
  "put_vectors vec (List.filter (\<lambda>(_, text). text \<noteq> [])
      (zip [length pre ..< length pre + length ds] (map (\<lambda>d. BuildEmbedText d fs) ds))) (pre @ ds) =
   pre @ map (embed_one vec fs) ds"
proof (induction ds arbitrary: pre)
  case (Cons d ds)
  have up: "[length pre ..< length pre + length (d # ds)] =
      length pre # [Suc (length pre) ..< Suc (length pre + length ds)]"
    by (subst upt_conv_Cons) simp_all
  have ih: "put_vectors vec (List.filter (\<lambda>(_, text). text \<noteq> [])
      (zip [Suc (length pre) ..< Suc (length pre + length ds)] (map (\<lambda>d. BuildEmbedText d fs) ds)))
      (pre @ d' # ds) = pre @ d' # map (embed_one vec fs) ds" for d'
    using Cons [of "pre @ [d']"] by simp
  show ?case unfolding up by (simp add: ih embed_one_def [of vec fs d] del: upt_Suc)
qed simp

lemma embed_pending_docs:
  "put_vectors vec (pending_embeds fs docs) docs = map (embed_one vec fs) docs"
  using put_vectors_pending [of vec "[]" docs fs] by (simp add: pending_embeds_def)

lemma prepareBatch_world:
  assumes "be_Embedder B = Some emb"
  shows "\<exists>pending :: (nat \<times> string) list. snd (prepareBatch L B events w) =
    fold (\<lambda>c w. snd (emb c w)) (map (map snd) (chunks_of maxEmbedBatchSize pending)) w"
proof (cases "events = [] \<or> be_EmbedFields B = [] \<or> fst (convert_events L (be_NostrToAMB B) events) = []")
  case True
  then have "snd (prepareBatch L B events w) = w"
    using assms by (auto simp: prepareBatch_def split: prod.splits)
  then show ?thesis by (intro exI [of _ "[]"]) (simp add: chunks_of.simps)
next
  case False
  obtain docs errs where c: "convert_events L (be_NostrToAMB B) events = (docs, errs)"
    by (cases "convert_events L (be_NostrToAMB B) events")
  obtain docs' w' where e: "embed_chunks emb (pending_embeds (be_EmbedFields B) docs) docs w = (docs', w')"
    by (cases "embed_chunks emb (pending_embeds (be_EmbedFields B) docs) docs w")
  have "snd (prepareBatch L B events w) = snd (embed_chunks emb (pending_embeds (be_EmbedFields B) docs) docs w)"
    using False assms by (simp add: prepareBatch_def c e)
  then show ?thesis unfolding embed_chunks_world by (rule exI)
qed

section \<open>Properties\<close>

definition demo_backend :: "amb list ts_backend" where
  "demo_backend = \<lparr>
     be_NostrToAMB = (\<lambda>ev. Inr \<lparr>amb_Name = ev_content ev, amb_Description = [], amb_Keywords = [],
       amb_About = [], amb_Creator = [], amb_Publisher = [], amb_LearningResourceType = [], amb_Embedding = []\<rparr>),
     be_Embedder = Some (\<lambda>texts w. (Inr (map (\<lambda>t. [word_of_nat (length t)]) texts), w)),
     be_EmbedFields = [''name''],
     be_BatchUpsertDocs = (\<lambda>docs w. ((0, [''unavailable'']), w)),
     be_PatchContent = (\<lambda>_ _ w. (None, w)), be_PatchCommunity = (\<lambda>_ _ w. (None, w)),
     be_DeleteEvent = (\<lambda>_ w. (None, w))\<rparr>"

text \<open>C22. Batching changes nothing about the vectors: when the service answers each text on its own,
  every document of a batch gets exactly the vector of its own text, and a document without text
  gets none.\<close>

theorem batched_embedding_is_per_document:
  assumes "be_Embedder B = Some emb" and "\<forall>texts w. fst (emb texts w) = Inr (map vec texts)"
    and "be_EmbedFields B \<noteq> []"
  shows "fst (fst (prepareBatch L B events w)) =
    map (embed_one vec (be_EmbedFields B)) (fst (convert_events L (be_NostrToAMB B) events))"
proof -
  obtain docs errs where c: "convert_events L (be_NostrToAMB B) events = (docs, errs)"
    by (cases "convert_events L (be_NostrToAMB B) events")
  let ?p = "pending_embeds (be_EmbedFields B) docs"
  obtain docs' w' where e: "embed_chunks emb ?p docs w = (docs', w')" by (cases "embed_chunks emb ?p docs w")
  then have "docs' = map (embed_one vec (be_EmbedFields B)) docs"
    using embed_chunks_docs [OF assms(2), of ?p docs w] by (simp add: embed_pending_docs)
  with c e assms(1,3) show ?thesis by (cases "events = []") (auto simp: prepareBatch_def)
qed

lemma batched_embedding_is_per_document_witness:
  "map amb_Embedding (fst (fst (prepareBatch demo_lib demo_backend
     [demo_event 1 30142 0 [], (demo_event 2 30142 0 [])\<lparr>ev_content := ''abc''\<rparr>] []))) = [[], [3]]"
proof -
  have "fst (fst (prepareBatch demo_lib demo_backend
      [demo_event 1 30142 0 [], (demo_event 2 30142 0 [])\<lparr>ev_content := ''abc''\<rparr>] [])) =
    map (embed_one (\<lambda>t. [word_of_nat (length t)]) (be_EmbedFields demo_backend))
      (fst (convert_events demo_lib (be_NostrToAMB demo_backend)
        [demo_event 1 30142 0 [], (demo_event 2 30142 0 [])\<lparr>ev_content := ''abc''\<rparr>]))"
    by (rule batched_embedding_is_per_document [where emb = "\<lambda>texts w. (Inr (map (\<lambda>t. [word_of_nat (length t)]) texts), w)"])
      (simp_all add: demo_backend_def)
  then show ?thesis
    by (simp add: demo_backend_def embed_one_def BuildEmbedText_def embed_parts_def nonempty_def
        demo_event_def EmbedMaxLength_def Let_def gostr)
qed

text \<open>One upload of a batch computes the embeddings once, in calls of at most 32 texts that cover
  the batch, however many of the at most six upload attempts fail.\<close>

theorem upsert_embeds_once:
  assumes "be_Embedder B = Some emb"
  shows "\<exists>texts k. k \<le> 6 \<and> list_all (\<lambda>c. length c \<le> 32) texts \<and>
    length texts = (length (concat texts) + 31) div 32 \<and>
    snd (productionWriter_Upsert L B events w) =
      ((\<lambda>x. snd (be_BatchUpsertDocs B (fst (fst (prepareBatch L B events w))) x)) ^^ k)
        (fold (\<lambda>c x. snd (emb c x)) texts w)"
proof -
  obtain docs errs w1 where p: "prepareBatch L B events w = ((docs, errs), w1)"
    by (metis prod.exhaust)
  obtain pending :: "(nat \<times> string) list" where w1: "w1 = fold (\<lambda>c w. snd (emb c w)) (map (map snd) (chunks_of 32 pending)) w"
    using prepareBatch_world [OF assms, of L events w] p by (auto simp: maxEmbedBatchSize_def)
  let ?texts = "map (map snd) (chunks_of 32 pending)"
  have small: "list_all (\<lambda>c. length c \<le> 32) ?texts"
    using chunks_of_size [of _ 32 pending] by (auto simp: list_all_iff)
  have "length (concat ?texts) = length (concat (chunks_of 32 pending))"
    by (simp add: map_concat [symmetric])
  then have cover: "length ?texts = (length (concat ?texts) + 31) div 32"
    by (simp add: chunks_of_length chunks_of_concat)
  obtain k where k: "k \<le> 6" "snd (productionWriter_Upsert L B events w) =
      ((\<lambda>x. snd (be_BatchUpsertDocs B docs x)) ^^ k) w1"
  proof (cases "docs = []")
    case True
    then show ?thesis using that [of 0] by (simp add: productionWriter_Upsert_def p)
  next
    case False
    obtain k where "k \<le> Suc 5" "snd (upsert_attempts 5 (be_BatchUpsertDocs B docs) w1) =
        ((\<lambda>x. snd (be_BatchUpsertDocs B docs x)) ^^ k) w1"
      using upsert_attempts_iter [of 5 "be_BatchUpsertDocs B docs" w1] by (elim exE conjE) (rule that)
    moreover obtain i es w2 where "upsert_attempts 5 (be_BatchUpsertDocs B docs) w1 = ((i, es), w2)"
      by (metis prod.exhaust)
    ultimately show ?thesis using that [of k] False
      by (simp add: productionWriter_Upsert_def p upsertHTTPMaxRetries_def)
  qed
  have calls: "snd (productionWriter_Upsert L B events w) =
      ((\<lambda>x. snd (be_BatchUpsertDocs B (fst (fst (prepareBatch L B events w))) x)) ^^ k)
        (fold (\<lambda>c x. snd (emb c x)) ?texts w)"
    using k(2) by (simp add: p w1)
  show ?thesis
    by (rule exI [of _ ?texts], rule exI [of _ k], intro conjI) (fact k(1) small cover calls)+
qed

lemma upsert_embeds_once_witness:
  "\<exists>texts k. k \<le> 6 \<and> list_all (\<lambda>c. length c \<le> 32) texts \<and>
    length texts = (length (concat texts) + 31) div 32 \<and>
    snd (productionWriter_Upsert demo_lib demo_backend [demo_event 1 30142 0 []] []) =
      ((\<lambda>x. snd (be_BatchUpsertDocs demo_backend (fst (fst (prepareBatch demo_lib demo_backend
        [demo_event 1 30142 0 []] []))) x)) ^^ k)
        (fold (\<lambda>c x. snd (the (be_Embedder demo_backend) c x)) texts [])"
  by (rule upsert_embeds_once) (simp add: demo_backend_def)

end
