(* ===== verification/Sha256.thy ===== *)
theory Sha256
  imports Prelude
begin

text \<open>
  \<open>crypto/sha256\<close>, which \<open>MappingIdentifier\<close> hashes its input with: FIPS 180-4 on 32-bit words.
\<close>

unbundle bit_operations_syntax

type_synonym w32 = "32 word"

text \<open>
  The constants are the first 32 bits of the fractional parts of the cube roots of the first 64
  primes and of the square roots of the first eight, computed bit by bit.
\<close>

fun root_from :: "nat \<Rightarrow> nat \<Rightarrow> int \<Rightarrow> int \<Rightarrow> int" where
  "root_from 0 k n acc = acc"
| "root_from (Suc b) k n acc = root_from b k n (if (acc + 2 ^ b) ^ k \<le> n then acc + 2 ^ b else acc)"

definition frac_root :: "nat \<Rightarrow> int \<Rightarrow> w32" where
  "frac_root k p = word_of_int (root_from 40 k (p * 2 ^ (32 * k)) 0)"

definition small_primes :: "int list" where
  "small_primes = List.filter (\<lambda>n. list_all (\<lambda>d. n mod d \<noteq> 0) [2 .. n - 1]) [2 .. 311]"

definition sha_k :: "w32 list" where
  "sha_k = map (frac_root 3) small_primes"

record sha_state =
  sa :: w32
  sb :: w32
  sc :: w32
  sd :: w32
  se :: w32
  sf :: w32
  sg :: w32
  sh :: w32

definition sha_init :: sha_state where
  "sha_init = \<lparr>sa = frac_root 2 2, sb = frac_root 2 3, sc = frac_root 2 5, sd = frac_root 2 7,
     se = frac_root 2 11, sf = frac_root 2 13, sg = frac_root 2 17, sh = frac_root 2 19\<rparr>"

definition rotr :: "nat \<Rightarrow> w32 \<Rightarrow> w32" where
  "rotr n w = drop_bit n w OR push_bit (32 - n) w"

definition small_sigma0 :: "w32 \<Rightarrow> w32" where
  "small_sigma0 w = rotr 7 w XOR rotr 18 w XOR drop_bit 3 w"

definition small_sigma1 :: "w32 \<Rightarrow> w32" where
  "small_sigma1 w = rotr 17 w XOR rotr 19 w XOR drop_bit 10 w"

text \<open>The message schedule, with the last word first.\<close>

fun schedule :: "nat \<Rightarrow> w32 list \<Rightarrow> w32 list" where
  "schedule 0 ws = ws"
| "schedule (Suc n) ws =
     schedule n ((small_sigma1 (ws ! 1) + ws ! 6 + small_sigma0 (ws ! 14) + ws ! 15) # ws)"

definition sha_round :: "w32 \<times> w32 \<Rightarrow> sha_state \<Rightarrow> sha_state" where
  "sha_round = (\<lambda>(k, w) s.
     let s1 = rotr 6 (se s) XOR rotr 11 (se s) XOR rotr 25 (se s);
         ch = (se s AND sf s) XOR (NOT (se s) AND sg s);
         t1 = sh s + s1 + ch + k + w;
         s0 = rotr 2 (sa s) XOR rotr 13 (sa s) XOR rotr 22 (sa s);
         maj = (sa s AND sb s) XOR (sa s AND sc s) XOR (sb s AND sc s);
         t2 = s0 + maj
     in \<lparr>sa = t1 + t2, sb = sa s, sc = sb s, sd = sc s, se = sd s + t1, sf = se s, sg = sf s, sh = sg s\<rparr>)"

definition sha_block :: "w32 list \<Rightarrow> sha_state \<Rightarrow> sha_state" where
  "sha_block ws s = (let t = fold sha_round (zip sha_k (rev (schedule 48 (rev ws)))) s in
     \<lparr>sa = sa s + sa t, sb = sb s + sb t, sc = sc s + sc t, sd = sd s + sd t,
      se = se s + se t, sf = sf s + sf t, sg = sg s + sg t, sh = sh s + sh t\<rparr>)"

text \<open>Big-endian words.\<close>

fun be_words :: "bytes \<Rightarrow> w32 list" where
  "be_words (a # b # c # d # bs) =
     (push_bit 24 (ucast a) OR push_bit 16 (ucast b) OR push_bit 8 (ucast c) OR ucast d) # be_words bs"
| "be_words _ = []"

definition be_bytes :: "w32 \<Rightarrow> bytes" where
  "be_bytes w = [ucast (drop_bit 24 w), ucast (drop_bit 16 w), ucast (drop_bit 8 w), ucast w]"

definition sha_pad :: "bytes \<Rightarrow> bytes" where
  "sha_pad bs = (let n = length bs; bits = (word_of_nat (8 * n) :: 64 word) in
     bs @ [0x80] @ replicate ((119 - n mod 64) mod 64) 0 @
     be_bytes (ucast (drop_bit 32 bits)) @ be_bytes (ucast bits))"

function sha_blocks :: "w32 list \<Rightarrow> sha_state \<Rightarrow> sha_state" where
  "sha_blocks ws s = (if ws = [] then s else sha_blocks (drop 16 ws) (sha_block (take 16 ws) s))"
  by pat_completeness auto
termination by (relation "measure (\<lambda>(ws, _). length ws)") auto

declare sha_blocks.simps [simp del]

definition sha256 :: "bytes \<Rightarrow> bytes" where
  "sha256 bs = (let s = sha_blocks (be_words (sha_pad bs)) sha_init in
     concat (map be_bytes [sa s, sb s, sc s, sd s, se s, sf s, sg s, sh s]))"

lemma length_sha256 [simp]: "length (sha256 bs) = 32"
  by (simp add: sha256_def Let_def be_bytes_def)

lemma sha_pad_blocks: "length (sha_pad bs) mod 64 = 0"
proof -
  have "(n + 1 + (119 - n mod 64) mod 64 + 8) mod 64 = 0" for n :: nat
  proof -
    define q r where "q = n div 64" and "r = n mod 64"
    then have n: "n = 64 * q + r" and r: "r < 64" by simp_all
    have "(119 - r) mod 64 = (if r \<le> 55 then 55 - r else 119 - r)"
      using r by (auto simp: mod_if)
    then have "n + 1 + (119 - r) mod 64 + 8 = 64 * (q + (if r \<le> 55 then 1 else 2))"
      using n r by auto
    then show ?thesis by (simp add: r_def [symmetric] del: add_Suc_right)
  qed
  from this [of "length bs"] show ?thesis by (simp add: sha_pad_def Let_def be_bytes_def ac_simps)
qed

end
