(* ===== verification/VocabParse.thy ===== *)
theory VocabParse
  imports Demo Sha256
begin

text \<open>
  \<open>vocabmap/parse.go\<close>: concepts (39738), mappings (39740) and concordances (39741) of
  NIP-VOCAB read from events. Unicode normalisation (\<open>norm.NFC\<close>) is the parameter \<open>nfc\<close>; SHA-256
  is \<open>Sha256\<close>.
\<close>

section \<open>Records\<close>

definition KindScheme :: kind where "KindScheme = 39737"
definition KindConcept :: kind where "KindConcept = 39738"
definition KindMapping :: kind where "KindMapping = 39740"
definition KindConcordance :: kind where "KindConcordance = 39741"

definition skosNS :: string where
  "skosNS = ''http://www.w3.org/2004/02/skos/core#''"

definition relations :: "string set" where
  "relations = {''exactMatch'', ''closeMatch'', ''broadMatch'', ''narrowMatch'', ''relatedMatch''}"

record Concept =
  cn_ID :: string
  cn_Address :: string
  cn_Schemes :: "string list"
  cn_Broader :: "string list"
  cn_Narrower :: "string list"

record Mapping =
  mp_D :: string
  mp_Relation :: string
  mp_From :: string
  mp_To :: "string list"
  mp_FromScheme :: string
  mp_ToScheme :: string
  mp_PartOf :: string
  mp_Author :: string
  mp_Schemes :: "string list"

record Concordance =
  cc_Address :: string
  cc_Author :: string
  cc_FromScheme :: string
  cc_ToScheme :: string
  cc_Maintainers :: "string list"
  cc_Schemes :: "string list"

section \<open>Tags\<close>

definition first :: "event \<Rightarrow> string \<Rightarrow> string \<times> bool" where
  "first ev name = (case tag_values name (ev_tags ev) of [] \<Rightarrow> ([], False) | v # _ \<Rightarrow> (v, True))"

definition single :: "event \<Rightarrow> string \<Rightarrow> string \<times> bool" where
  "single ev name = (let vs = tag_values name (ev_tags ev) in
     (if vs = [] then [] else last vs, length vs = 1))"

definition Address :: "lib \<Rightarrow> event \<Rightarrow> string" where
  "Address L ev = coord_str (ev_kind ev) (pk_hex L (ev_pubkey ev)) (fst (first ev ''d''))"

text \<open>The \<open>a\<close> tags with their marker, the fourth element.\<close>

definition a_tag :: "tag \<Rightarrow> (string \<times> string) option" where
  "a_tag t = (case t of n # v # rest \<Rightarrow>
       if n = ''a'' then Some (v, case rest of _ # m # _ \<Rightarrow> m | _ \<Rightarrow> []) else None
     | _ \<Rightarrow> None)"

definition a_tags :: "event \<Rightarrow> (string \<times> string) list" where
  "a_tags ev = List.map_filter a_tag (ev_tags ev)"

definition has_marker :: "tag \<Rightarrow> bool" where
  "has_marker t \<longleftrightarrow> length t \<ge> 4"

section \<open>Canonical form and the mapping identifier\<close>

definition uniqueNFC :: "(string \<Rightarrow> string) \<Rightarrow> string list \<Rightarrow> string list" where
  "uniqueNFC nfc values = dedup_from (\<lambda>v. v) {} (map nfc (List.filter (\<lambda>v. v \<noteq> []) values))"

definition canonicalSet :: "(string \<Rightarrow> string) \<Rightarrow> string list \<Rightarrow> string" where
  "canonicalSet nfc values = join ''|'' (sort (uniqueNFC nfc values))"

definition string_bytes :: "string \<Rightarrow> bytes" where
  "string_bytes = map (\<lambda>c. word_of_nat (of_char c))"

definition MappingIdentifier :: "(string \<Rightarrow> string) \<Rightarrow> string \<Rightarrow> string list \<Rightarrow> string \<Rightarrow> string" where
  "MappingIdentifier nfc from to relation = (
     let input = canonicalSet nfc [from] @ '' '' @ skosNS @ relation @ '' '' @ canonicalSet nfc to
     in ''mapping:'' @ to_hex (sha256 (string_bytes input)))"

section \<open>Parsing\<close>

definition ParseConcept :: "lib \<Rightarrow> (string \<Rightarrow> string) \<Rightarrow> event \<Rightarrow> Concept option" where
  "ParseConcept L nfc ev =
     (if ev_kind ev \<noteq> KindConcept then None
      else if \<not> snd (first ev ''d'') \<or> fst (first ev ''d'') = [] then None
      else let addr = Address L ev; (i, ok) = first ev ''i'' in
        Some \<lparr>cn_ID = (if ok \<and> i \<noteq> [] then nfc i else ''nostr:'' @ addr),
              cn_Address = addr,
              cn_Schemes = [v. (v, m) \<leftarrow> a_tags ev, has_prefix v ''39737:''],
              cn_Broader = [v. (v, m) \<leftarrow> a_tags ev, has_prefix v ''39738:'' \<and> m = ''broader''],
              cn_Narrower = [v. (v, m) \<leftarrow> a_tags ev, has_prefix v ''39738:'' \<and> m = ''narrower'']\<rparr>)"

text \<open>The first non-empty \<open>partOf\<close> reference.\<close>

definition first_partOf :: "event \<Rightarrow> string" where
  "first_partOf ev = (case [v. (v, m) \<leftarrow> a_tags ev, m = ''partOf'' \<and> v \<noteq> []] of [] \<Rightarrow> [] | v # _ \<Rightarrow> v)"

definition ParseMapping :: "lib \<Rightarrow> (string \<Rightarrow> string) \<Rightarrow> event \<Rightarrow> Mapping option" where
  "ParseMapping L nfc ev =
     (if ev_kind ev \<noteq> KindMapping then None
      else
        let (d, ok1) = single ev ''d''; (rel, ok2) = single ev ''relation''; (from, ok3) = single ev ''from'';
            (fromScheme, ok4) = single ev ''fromScheme''; (toScheme, ok5) = single ev ''toScheme''
        in if \<not> (ok1 \<and> ok2 \<and> ok3 \<and> ok4 \<and> ok5) \<or> d = [] \<or> from = [] \<or> fromScheme = [] \<or> toScheme = [] \<or>
              rel \<notin> relations
           then None
           else let to = uniqueNFC nfc (tag_values ''to'' (ev_tags ev)) in
             if length to = 0 \<or> MappingIdentifier nfc from to rel \<noteq> d then None
             else Some \<lparr>mp_D = d, mp_Relation = rel, mp_From = nfc from, mp_To = to,
               mp_FromScheme = fromScheme, mp_ToScheme = toScheme, mp_PartOf = first_partOf ev,
               mp_Author = pk_hex L (ev_pubkey ev),
               mp_Schemes = [v. (v, m) \<leftarrow> a_tags ev, m \<noteq> ''partOf'' \<and> has_prefix v ''39737:'']\<rparr>)"

definition maintainer_tag :: "tag \<Rightarrow> string option" where
  "maintainer_tag t = (case t of n # v # _ # m # _ \<Rightarrow>
       if n = ''p'' \<and> m = ''maintainer'' then Some v else None
     | _ \<Rightarrow> None)"

definition ParseConcordance :: "lib \<Rightarrow> event \<Rightarrow> Concordance option" where
  "ParseConcordance L ev =
     (if ev_kind ev \<noteq> KindConcordance then None
      else
        let d = fst (first ev ''d''); fromScheme = fst (first ev ''fromScheme''); toScheme = fst (first ev ''toScheme'')
        in if d = [] \<or> fromScheme = [] \<or> toScheme = [] then None
           else Some \<lparr>cc_Address = Address L ev, cc_Author = pk_hex L (ev_pubkey ev),
             cc_FromScheme = fromScheme, cc_ToScheme = toScheme,
             cc_Maintainers = List.map_filter maintainer_tag (ev_tags ev),
             cc_Schemes = [v. (v, m) \<leftarrow> a_tags ev, has_prefix v ''39737:'']\<rparr>)"

section \<open>Members and latest versions\<close>

definition Members :: "Concordance \<Rightarrow> Mapping list \<Rightarrow> Mapping list" where
  "Members c ms = (
     let allowed = insert (cc_Author c) (set (cc_Maintainers c))
     in dedup_from mp_D {} (List.filter (\<lambda>m. mp_PartOf m = cc_Address c \<and> mp_Author m \<in> allowed \<and>
          mp_FromScheme m = cc_FromScheme c \<and> mp_ToScheme m = cc_ToScheme c) ms))"

text \<open>\<open>supersedes L ev prev\<close>: a newer timestamp, or the smaller id at the same one.\<close>

definition supersedes :: "lib \<Rightarrow> event \<Rightarrow> event \<Rightarrow> bool" where
  "supersedes L ev prev \<longleftrightarrow> ts_less (ev_created_at prev) (ev_created_at ev) \<or>
     ev_created_at ev = ev_created_at prev \<and> id_hex L (ev_id ev) < id_hex L (ev_id prev)"

fun best_of :: "lib \<Rightarrow> event list \<Rightarrow> (string \<Rightarrow> event option) \<Rightarrow> string \<Rightarrow> event option" where
  "best_of L [] best = best"
| "best_of L (ev # evs) best = (let a = Address L ev in
     best_of L evs (case best a of
       None \<Rightarrow> best(a \<mapsto> ev)
     | Some prev \<Rightarrow> if supersedes L ev prev then best(a \<mapsto> ev) else best))"

definition LatestByAddress :: "lib \<Rightarrow> event list \<Rightarrow> event list" where
  "LatestByAddress L evs = (
     let best = best_of L evs (\<lambda>_. None);
         keys = sort (remdups (map (Address L) evs))
     in map (\<lambda>a. the (best a)) keys)"

section \<open>Canonical form\<close>

lemma set_uniqueNFC: "set (uniqueNFC nfc vs) = nfc ` {v \<in> set vs. v \<noteq> []}"
  by (simp add: uniqueNFC_def dedup_from_set)

lemma distinct_uniqueNFC: "distinct (uniqueNFC nfc vs)"
  using dedup_from_distinct [of "\<lambda>v :: string. v"] by (simp add: uniqueNFC_def)

lemma canonicalSet_cong:
  assumes "nfc ` {v \<in> set xs. v \<noteq> []} = nfc ` {v \<in> set ys. v \<noteq> []}"
  shows "canonicalSet nfc xs = canonicalSet nfc ys"
proof -
  have "sort (uniqueNFC nfc xs) = sort (uniqueNFC nfc ys)"
    by (rule sorted_distinct_set_unique) (simp_all add: distinct_uniqueNFC set_uniqueNFC assms)
  then show ?thesis by (simp add: canonicalSet_def)
qed

lemma canonicalSet_uniqueNFC:
  assumes "\<And>v. nfc (nfc v) = nfc v" and "\<And>v. v \<noteq> [] \<Longrightarrow> nfc v \<noteq> []"
  shows "canonicalSet nfc (uniqueNFC nfc vs) = canonicalSet nfc vs"
proof (rule canonicalSet_cong)
  have "{v \<in> set (uniqueNFC nfc vs). v \<noteq> []} = nfc ` {v \<in> set vs. v \<noteq> []}"
    using assms(2) by (auto simp: set_uniqueNFC)
  then show "nfc ` {v \<in> set (uniqueNFC nfc vs). v \<noteq> []} = nfc ` {v \<in> set vs. v \<noteq> []}"
    by (simp add: image_image assms(1))
qed

section \<open>The newest version of every address\<close>

lemma supersedes_linear:
  assumes "lib_ok L" and "\<not> supersedes L a b" and "\<not> supersedes L b a"
  shows "ev_created_at a = ev_created_at b \<and> ev_id a = ev_id b"
proof -
  have "ev_created_at a = ev_created_at b"
    using assms(2,3) by (auto simp: supersedes_def not_less intro: signed_word_eqI)
  with assms show ?thesis by (auto simp: supersedes_def not_less id_hex_inject)
qed

lemma supersedes_trans: "supersedes L a b \<Longrightarrow> supersedes L b c \<Longrightarrow> supersedes L a c"
  by (auto simp: supersedes_def)

lemma ts_eq_iff: "sint (a :: timestamp) = sint b \<longleftrightarrow> a = b"
  by (auto intro: signed_word_eqI)

lemma not_supersedes_trans: "\<not> supersedes L a b \<Longrightarrow> \<not> supersedes L b c \<Longrightarrow> \<not> supersedes L a c"
  by (auto simp: supersedes_def not_less simp flip: ts_eq_iff)

lemma supersedes_irrefl: "\<not> supersedes L a a"
  by (simp add: supersedes_def)

text \<open>After the loop an address holds an event of the list (or what was there before) that none of the
  others supersedes.\<close>

lemma best_of_Some:
  assumes "\<forall>a ev. best a = Some ev \<longrightarrow> Address L ev = a"
  shows "(\<forall>a ev. best_of L evs best a = Some ev \<longrightarrow> Address L ev = a \<and>
      (ev \<in> set evs \<or> best a = Some ev) \<and>
      (\<forall>ev' \<in> set evs. Address L ev' = a \<longrightarrow> \<not> supersedes L ev' ev) \<and>
      (\<forall>prev. best a = Some prev \<longrightarrow> \<not> supersedes L prev ev)) \<and>
    dom (best_of L evs best) = dom best \<union> Address L ` set evs"
  using assms
proof (induction evs arbitrary: best)
  case Nil
  then show ?case by (auto simp: supersedes_irrefl)
next
  case (Cons ev evs)
  define best' where "best' = (case best (Address L ev) of
       None \<Rightarrow> best(Address L ev \<mapsto> ev)
     | Some prev \<Rightarrow> if supersedes L ev prev then best(Address L ev \<mapsto> ev) else best)"
  have inv: "\<forall>a e. best' a = Some e \<longrightarrow> Address L e = a"
    using Cons.prems by (auto simp: best'_def split: option.splits if_splits)
  have res: "best_of L (ev # evs) best = best_of L evs best'"
    by (simp add: best'_def Let_def)
  have old: "\<exists>e'. best' a = Some e' \<and> (e' = e \<or> supersedes L e' e)" if "best a = Some e" for a e
    using that by (auto simp: best'_def split: option.splits)
  have new: "\<exists>e'. best' (Address L ev) = Some e' \<and> (e' = ev \<or> \<not> supersedes L ev e')"
    by (auto simp: best'_def split: option.splits)
  have dom: "dom best' = insert (Address L ev) (dom best)"
    by (auto simp: best'_def split: option.splits if_splits)
  have src: "e = ev \<and> a = Address L ev \<or> best a = Some e" if "best' a = Some e" for a e
    using that by (auto simp: best'_def split: option.splits if_splits)
  note IH = Cons.IH [OF inv]
  show ?case unfolding res
  proof (intro conjI allI impI ballI)
    fix a e
    assume b: "best_of L evs best' a = Some e"
    from IH b show "Address L e = a" by blast
    from IH b src show "e \<in> set (ev # evs) \<or> best a = Some e" by fastforce
    show "\<not> supersedes L ev' e" if "ev' \<in> set (ev # evs)" "Address L ev' = a" for ev'
    proof (cases "ev' \<in> set evs")
      case True
      with IH b that show ?thesis by blast
    next
      case False
      with that have "ev' = ev" by simp
      with new that obtain e' where "best' a = Some e'" "e' = ev' \<or> \<not> supersedes L ev' e'" by auto
      moreover from this(1) IH b have "\<not> supersedes L e' e" by blast
      ultimately show ?thesis
        using not_supersedes_trans supersedes_irrefl by metis
    qed
    show "\<not> supersedes L prev e" if "best a = Some prev" for prev
      using old [OF that] IH b supersedes_trans by blast
  qed (use IH dom in auto)
qed

lemma best_of_latest:
  assumes "ev \<in> set (LatestByAddress L evs)"
  shows "ev \<in> set evs \<and> (\<forall>ev' \<in> set evs. Address L ev' = Address L ev \<longrightarrow> \<not> supersedes L ev' ev)"
proof -
  note B = best_of_Some [of "\<lambda>_. None" L evs, simplified]
  obtain a where a: "a \<in> Address L ` set evs" and ev: "ev = the (best_of L evs (\<lambda>_. None) a)"
    using assms by (auto simp: LatestByAddress_def Let_def)
  have "best_of L evs (\<lambda>_. None) a = Some ev"
    using a ev B by (metis domD option.sel)
  with B show ?thesis by blast
qed

lemma Address_best: "a \<in> Address L ` set evs \<Longrightarrow> Address L (the (best_of L evs (\<lambda>_. None) a)) = a"
  using best_of_Some [of "\<lambda>_. None" L evs] by (metis domD empty_iff dom_empty option.sel option.distinct(1) sup_bot_left)

lemma map_Address_latest: "map (Address L) (LatestByAddress L evs) = sort (remdups (map (Address L) evs))"
  by (auto simp: LatestByAddress_def Let_def o_def intro!: map_idI Address_best)

lemma MappingIdentifier_nonempty [simp]: "MappingIdentifier nfc from to rel \<noteq> []"
  by (simp add: MappingIdentifier_def Let_def)

lemma MappingIdentifier_cong:
  assumes "nfc ` {v \<in> set to. v \<noteq> []} = nfc ` {v \<in> set to'. v \<noteq> []}"
    and "nfc ` {v \<in> {from}. v \<noteq> []} = nfc ` {v \<in> {from'}. v \<noteq> []}"
  shows "MappingIdentifier nfc from to rel = MappingIdentifier nfc from' to' rel"
proof -
  have "canonicalSet nfc to = canonicalSet nfc to'" by (rule canonicalSet_cong [OF assms(1)])
  moreover have "canonicalSet nfc [from] = canonicalSet nfc [from']"
    by (rule canonicalSet_cong) (use assms(2) in simp)
  ultimately show ?thesis by (simp only: MappingIdentifier_def)
qed

section \<open>Properties\<close>

text \<open>Of all events the newest of every address is kept, and of two at the same second the one with
  the smaller id: the result has each address once, in byte order, every one of them an event of the
  input that no other event of the address supersedes.\<close>

theorem latest_by_address_keeps_the_newest:
  "map (Address L) (LatestByAddress L evs) = sort (remdups (map (Address L) evs)) \<and>
   (\<forall>ev \<in> set (LatestByAddress L evs). ev \<in> set evs \<and>
      (\<forall>ev' \<in> set evs. Address L ev' = Address L ev \<longrightarrow> \<not> supersedes L ev' ev))"
  using best_of_latest map_Address_latest by blast

lemma latest_by_address_keeps_the_newest_witness:
  "LatestByAddress demo_lib [demo_event 7 39740 5 [[''d'', ''x'']], demo_event 8 39740 9 [[''d'', ''x'']]] =
     [demo_event 8 39740 9 [[''d'', ''x'']]]"
proof -
  let ?evs = "[demo_event 7 39740 5 [[''d'', ''x'']], demo_event 8 39740 9 [[''d'', ''x'']]]"
  note P = latest_by_address_keeps_the_newest [of demo_lib ?evs]
  have adr: "Address demo_lib (demo_event 7 39740 5 [[''d'', ''x'']]) =
      Address demo_lib (demo_event 8 39740 9 [[''d'', ''x'']])"
    by (simp add: Address_def demo_event_def first_def tag_values_def)
  have "map (Address demo_lib) (LatestByAddress demo_lib ?evs) =
      [Address demo_lib (demo_event 8 39740 9 [[''d'', ''x'']])]"
    using P [THEN conjunct1] by (simp add: adr)
  then obtain ev where ev: "LatestByAddress demo_lib ?evs = [ev]" by (auto simp: map_eq_Cons_conv)
  with P have "ev \<in> set ?evs" and "\<forall>ev' \<in> set ?evs. Address demo_lib ev' = Address demo_lib ev \<longrightarrow>
      \<not> supersedes demo_lib ev' ev" by simp_all
  with adr have "ev = demo_event 8 39740 9 [[''d'', ''x'']]"
    by (auto simp: supersedes_def demo_event_def)
  with ev show ?thesis by simp
qed

text \<open>A mapping that parses is self-certifying: its \<open>d\<close> is the identifier recomputed from its own
  normalised source, targets and relation, the targets are distinct and at least one, and the
  identifier does not depend on the order, the repetition or the spelling of the targets.\<close>

theorem parsed_mapping_is_self_certifying:
  assumes "ParseMapping L nfc ev = Some m" and "\<forall>v. nfc (nfc v) = nfc v" and "\<forall>v. v \<noteq> [] \<longrightarrow> nfc v \<noteq> []"
  shows "mp_D m = MappingIdentifier nfc (mp_From m) (mp_To m) (mp_Relation m) \<and> mp_To m \<noteq> [] \<and>
    distinct (mp_To m) \<and> mp_Relation m \<in> relations"
proof -
  obtain d rel src where m: "mp_D m = d" "mp_Relation m = rel" "mp_From m = nfc src" "src \<noteq> []"
    "mp_To m = uniqueNFC nfc (tag_values ''to'' (ev_tags ev))" "rel \<in> relations"
    "mp_To m \<noteq> []" "MappingIdentifier nfc src (mp_To m) rel = d"
    using assms(1) by (auto simp: ParseMapping_def Let_def split: if_splits prod.splits)
  have "nfc ` {v \<in> {nfc src}. v \<noteq> []} = nfc ` {v \<in> {src}. v \<noteq> []}"
    using assms(2,3) m(4) by auto
  from MappingIdentifier_cong [OF refl this] m have "MappingIdentifier nfc (mp_From m) (mp_To m) rel = d" by simp
  with m show ?thesis by (simp add: distinct_uniqueNFC)
qed

lemma parsed_mapping_is_self_certifying_witness:
  "\<exists>m. ParseMapping demo_lib id (demo_event 1 39740 0
      [[''d'', MappingIdentifier id ''a'' [''b''] ''exactMatch''], [''relation'', ''exactMatch''],
       [''from'', ''a''], [''to'', ''b''], [''fromScheme'', ''s''], [''toScheme'', ''t'']]) = Some m \<and>
    mp_D m = MappingIdentifier id (mp_From m) (mp_To m) (mp_Relation m)"
proof -
  let ?ev = "demo_event 1 39740 0
      [[''d'', MappingIdentifier id ''a'' [''b''] ''exactMatch''], [''relation'', ''exactMatch''],
       [''from'', ''a''], [''to'', ''b''], [''fromScheme'', ''s''], [''toScheme'', ''t'']]"
  obtain m where m: "ParseMapping demo_lib id ?ev = Some m"
    by (simp add: ParseMapping_def demo_event_def KindMapping_def single_def tag_values_def relations_def
        uniqueNFC_def Let_def)
  from parsed_mapping_is_self_certifying [OF this] m show ?thesis by simp
qed

text \<open>A concordance contains exactly the mappings that are part of it, were published by its owner or a
  maintainer and join its two schemes, and of several with the same identifier one, the first.\<close>

theorem members_are_the_authorised_mappings:
  "set (Members c ms) \<subseteq> {m \<in> set ms. mp_PartOf m = cc_Address c \<and>
      mp_Author m \<in> insert (cc_Author c) (set (cc_Maintainers c)) \<and>
      mp_FromScheme m = cc_FromScheme c \<and> mp_ToScheme m = cc_ToScheme c} \<and>
   mp_D ` set (Members c ms) = mp_D ` {m \<in> set ms. mp_PartOf m = cc_Address c \<and>
      mp_Author m \<in> insert (cc_Author c) (set (cc_Maintainers c)) \<and>
      mp_FromScheme m = cc_FromScheme c \<and> mp_ToScheme m = cc_ToScheme c} \<and>
   distinct (map mp_D (Members c ms))"
  using dedup_from_subset [of mp_D "{}"] dedup_from_keys [of mp_D "{}"] dedup_from_distinct [of mp_D "{}"]
  by (fastforce simp: Members_def Let_def)

end
