(* ===== verification/VocabGraph.thy ===== *)
theory VocabGraph
  imports VocabParse
begin

text \<open>
  \<open>vocabmap/graph.go\<close>: the graph of trusted relations between concept identifiers and the expansion
  of an identifier through it. Adjacency is an association list with one entry per identifier (Go's
  map), so it is finite and the breadth-first closure terminates.
\<close>

section \<open>Building the graph\<close>

definition MaxDepth :: nat where "MaxDepth = 4"
definition MaxResults :: nat where "MaxResults = 200"

type_synonym adj = "(string \<times> string list) list"

record Graph =
  g_exact :: adj
  g_close :: adj
  g_related :: adj
  g_narrower :: adj
  g_has :: "(string \<times> string \<times> string) set"

definition nbrs :: "adj \<Rightarrow> string \<Rightarrow> string list" where
  "nbrs m x = (case map_of m x of None \<Rightarrow> [] | Some l \<Rightarrow> l)"

definition add_nbr :: "string \<Rightarrow> string \<Rightarrow> adj \<Rightarrow> adj" where
  "add_nbr from to m = AList.update from (nbrs m from @ [to]) m"

definition link :: "string \<Rightarrow> string \<Rightarrow> string \<Rightarrow> Graph \<Rightarrow> Graph" where
  "link rel from to g =
     (if from = to \<or> (rel, from, to) \<in> g_has g then g
      else let g1 = g\<lparr>g_has := insert (rel, from, to) (g_has g)\<rparr> in
        if rel = ''exact'' then g1\<lparr>g_exact := add_nbr from to (g_exact g1)\<rparr>
        else if rel = ''close'' then g1\<lparr>g_close := add_nbr from to (g_close g1)\<rparr>
        else if rel = ''related'' then g1\<lparr>g_related := add_nbr from to (g_related g1)\<rparr>
        else if rel = ''narrower'' then g1\<lparr>g_narrower := add_nbr from to (g_narrower g1)\<rparr>
        else g1)"

definition both :: "string \<Rightarrow> string \<Rightarrow> string \<Rightarrow> Graph \<Rightarrow> Graph" where
  "both rel a b g = link rel b a (link rel a b g)"

definition empty_graph :: Graph where
  "empty_graph = \<lparr>g_exact = [], g_close = [], g_related = [], g_narrower = [], g_has = {}\<rparr>"

text \<open>\<open>idByAddr\<close>: the last concept of an address wins.\<close>

definition resolve :: "Concept list \<Rightarrow> string \<Rightarrow> string" where
  "resolve concepts addr = (case map_of (rev (map (\<lambda>c. (cn_Address c, cn_ID c)) concepts)) addr of
     Some i \<Rightarrow> i | None \<Rightarrow> ''nostr:'' @ addr)"

definition link_concept :: "Concept list \<Rightarrow> Concept \<Rightarrow> Graph \<Rightarrow> Graph" where
  "link_concept concepts c g =
     fold (\<lambda>n. link ''narrower'' (cn_ID c) (resolve concepts n)) (cn_Narrower c)
       (fold (\<lambda>b. link ''narrower'' (resolve concepts b) (cn_ID c)) (cn_Broader c) g)"

definition pair :: "string \<Rightarrow> string \<Rightarrow> string \<times> string" where
  "pair a b = (if a < b then (a, b) else (b, a))"

definition nonExact :: "Mapping list \<Rightarrow> (string \<times> string) set" where
  "nonExact mappings = set (map (\<lambda>m. pair (mp_From m) (mp_To m ! 0)) (List.filter (\<lambda>m. length (mp_To m) = 1 \<and>
     mp_Relation m \<noteq> ''exactMatch'' \<and> mp_Relation m \<noteq> ''closeMatch'') mappings))"

definition link_mapping :: "(string \<times> string) set \<Rightarrow> Mapping \<Rightarrow> Graph \<Rightarrow> Graph" where
  "link_mapping ne m g =
     (if length (mp_To m) \<noteq> 1 then g
      else let a = mp_From m; b = mp_To m ! 0 in
        if mp_Relation m = ''exactMatch'' then (if pair a b \<notin> ne then both ''exact'' a b g else g)
        else if mp_Relation m = ''closeMatch'' then both ''close'' a b g
        else if mp_Relation m = ''relatedMatch'' then both ''related'' a b g
        else if mp_Relation m = ''broadMatch'' then link ''narrower'' b a g
        else if mp_Relation m = ''narrowMatch'' then link ''narrower'' a b g
        else g)"

definition sort_adj :: "adj \<Rightarrow> adj" where
  "sort_adj m = map (\<lambda>(x, l). (x, sort l)) m"

definition sort_graph :: "Graph \<Rightarrow> Graph" where
  "sort_graph g = g\<lparr>g_exact := sort_adj (g_exact g), g_close := sort_adj (g_close g),
     g_related := sort_adj (g_related g), g_narrower := sort_adj (g_narrower g)\<rparr>"

definition NewGraph :: "Concept list \<Rightarrow> Mapping list \<Rightarrow> Graph" where
  "NewGraph concepts mappings = (
     let g1 = fold (link_concept concepts) concepts empty_graph;
         g2 = fold (link_mapping (nonExact mappings)) mappings g1
     in sort_graph g2)"

section \<open>The exact closure\<close>

definition targets :: "adj \<Rightarrow> string set" where
  "targets m = set (concat (map snd m))"

lemma nbrs_targets: "set (nbrs m x) \<subseteq> targets m"
proof (cases "map_of m x")
  case (Some l)
  then have "(x, l) \<in> set m" by (rule map_of_SomeD)
  then show ?thesis by (force simp: nbrs_def targets_def Some)
qed (simp add: nbrs_def)

text \<open>The queue is \<open>out\<close> itself, \<open>i\<close> the next element to visit; \<open>seen\<close> is the set of \<open>out\<close>.\<close>

function closure_loop :: "adj \<Rightarrow> nat \<Rightarrow> string list \<Rightarrow> string list" where
  "closure_loop m i out = (if i < length out
     then closure_loop m (Suc i) (out @ dedup_from (\<lambda>n. n) (set out) (nbrs m (out ! i)))
     else out)"
  by pat_completeness auto
termination
proof (relation "measure (\<lambda>(m, i, out). card (targets m - set out) + (length out - i))")
  fix m i and out :: "string list"
  assume i: "i < length out"
  let ?new = "dedup_from (\<lambda>n. n) (set out) (nbrs m (out ! i))"
  have set_new: "set ?new = set (nbrs m (out ! i)) - set out" by (rule dedup_from_set)
  then have sub: "set ?new \<subseteq> targets m - set out" using nbrs_targets by blast
  have "distinct ?new" using dedup_from_distinct [of "\<lambda>n. n"] by simp
  then have len: "length ?new = card (set ?new)" by (simp add: distinct_card)
  have fin: "finite (targets m)" by (simp add: targets_def)
  have "targets m - set (out @ ?new) = (targets m - set out) - set ?new" by auto
  then have "card (targets m - set (out @ ?new)) + card (set ?new) = card (targets m - set out)"
    using sub fin card_mono [OF _ sub] by (simp add: card_Diff_subset)
  with i len show "((m, Suc i, out @ ?new), (m, i, out)) \<in>
      measure (\<lambda>(m, i, out). card (targets m - set out) + (length out - i))" by simp
qed simp

declare closure_loop.simps [simp del]

definition exactClosure :: "Graph \<Rightarrow> string \<Rightarrow> string list" where
  "exactClosure g start = closure_loop (g_exact g) 0 [start]"

section \<open>Expansion\<close>

text \<open>
  The running result is the list of the identifiers added so far (\<open>seen\<close> is its set). \<open>Inl ids\<close>: the cap
  was hit and the loop returned \<open>ids\<close>; \<open>Inr\<close>: it goes on. The last component collects the new ones.
\<close>

fun add_new :: "string list \<Rightarrow> string list \<times> string list \<Rightarrow> string list + string list \<times> string list" where
  "add_new [] (ids, new) = Inr (ids, new)"
| "add_new (x # xs) (ids, new) =
     (if x \<in> set ids then add_new xs (ids, new)
      else if length ids \<ge> MaxResults then Inl ids
      else add_new xs (ids @ [x], new @ [x]))"

fun add_children :: "Graph \<Rightarrow> string list \<Rightarrow> string list \<times> string list \<Rightarrow>
    string list + string list \<times> string list" where
  "add_children g [] s = Inr s"
| "add_children g (child # cs) (ids, new) =
     (if child \<in> set ids then add_children g cs (ids, new)
      else case add_new (exactClosure g child) (ids, new) of
        Inl r \<Rightarrow> Inl r
      | Inr s \<Rightarrow> add_children g cs s)"

text \<open>The first argument is the number of levels left.\<close>

fun narrow_loop :: "Graph \<Rightarrow> nat \<Rightarrow> string list \<Rightarrow> string list \<Rightarrow> string list + string list" where
  "narrow_loop g 0 frontier ids = Inr ids"
| "narrow_loop g (Suc d) frontier ids =
     (if frontier = [] then Inr ids
      else case add_children g (concat (map (nbrs (g_narrower g)) frontier)) (ids, []) of
        Inl r \<Rightarrow> Inl r
      | Inr (ids', nxt) \<Rightarrow> narrow_loop g d nxt ids')"

definition Expand :: "Graph \<Rightarrow> string \<Rightarrow> bool \<Rightarrow> string list \<times> bool" where
  "Expand g i related = (
     let exact = exactClosure g i in
     case add_new exact ([], []) of
       Inl r \<Rightarrow> (r, True)
     | Inr (ids1, _) \<Rightarrow> (case add_new (concat (map (nbrs (g_close g)) exact)) (ids1, []) of
         Inl r \<Rightarrow> (r, True)
       | Inr (ids2, close) \<Rightarrow> (case narrow_loop g MaxDepth (exact @ close) ids2 of
           Inl r \<Rightarrow> (r, True)
         | Inr ids3 \<Rightarrow>
             if related then (case add_new (concat (map (nbrs (g_related g)) exact)) (ids3, []) of
               Inl r \<Rightarrow> (r, True)
             | Inr (ids4, _) \<Rightarrow> (ids4, False))
             else (ids3, False))))"

section \<open>The closure is reachability\<close>

definition edges :: "adj \<Rightarrow> (string \<times> string) set" where
  "edges m = {(x, y). y \<in> set (nbrs m x)}"

lemma closure_loop_prefix: "\<exists>rest. closure_loop m i out = out @ rest"
proof (induction m i out rule: closure_loop.induct)
  case (1 m i out)
  then show ?case by (subst closure_loop.simps) auto
qed

lemma closure_loop_distinct: "distinct out \<Longrightarrow> distinct (closure_loop m i out)"
proof (induction m i out rule: closure_loop.induct)
  case (1 m i out)
  let ?new = "dedup_from (\<lambda>n. n) (set out) (nbrs m (out ! i))"
  have "distinct ?new" using dedup_from_distinct [of "\<lambda>n. n"] by simp
  moreover have "set out \<inter> set ?new = {}" by (auto simp: dedup_from_set)
  ultimately have "distinct (out @ ?new)" using 1(2) by simp
  with 1 show ?case by (subst closure_loop.simps) simp
qed

lemma closure_loop_sound:
  "set (closure_loop m i out) \<subseteq> (edges m)\<^sup>* `` set out"
proof (induction m i out rule: closure_loop.induct)
  case (1 m i out)
  show ?case
  proof (cases "i < length out")
    case True
    let ?out' = "out @ dedup_from (\<lambda>n. n) (set out) (nbrs m (out ! i))"
    have "set ?out' \<subseteq> (edges m)\<^sup>* `` set out"
      using nth_mem [OF True] by (auto simp: dedup_from_set edges_def)
    then have "(edges m)\<^sup>* `` set ?out' \<subseteq> (edges m)\<^sup>* `` set out"
      by (blast intro: rtrancl_trans)
    with 1 [OF True] True show ?thesis by (subst closure_loop.simps) auto
  qed (subst closure_loop.simps, auto)
qed

lemma closure_loop_closed:
  assumes "\<forall>j < i. set (nbrs m (out ! j)) \<subseteq> set out" and "i \<le> length out"
  shows "\<forall>x \<in> set (closure_loop m i out). set (nbrs m x) \<subseteq> set (closure_loop m i out)"
  using assms
proof (induction m i out rule: closure_loop.induct)
  case (1 m i out)
  show ?case
  proof (cases "i < length out")
    case True
    let ?out' = "out @ dedup_from (\<lambda>n. n) (set out) (nbrs m (out ! i))"
    have "\<forall>j < Suc i. set (nbrs m (?out' ! j)) \<subseteq> set ?out'"
      using 1(2) True by (auto simp: less_Suc_eq nth_append dedup_from_set)
    with 1(1) [OF True] True show ?thesis
      by (subst (1 2) closure_loop.simps) simp
  next
    case False
    with 1(2,3) have "\<forall>x \<in> set out. set (nbrs m x) \<subseteq> set out" by (metis in_set_conv_nth not_less less_le_trans)
    with False show ?thesis by (subst (1 2) closure_loop.simps) simp
  qed
qed

lemma exactClosure_reach: "set (exactClosure g i) = {y. (i, y) \<in> (edges (g_exact g))\<^sup>*}"
proof
  show "set (exactClosure g i) \<subseteq> {y. (i, y) \<in> (edges (g_exact g))\<^sup>*}"
    using closure_loop_sound [of "g_exact g" 0 "[i]"] by (auto simp: exactClosure_def)
  have start: "i \<in> set (exactClosure g i)"
    using closure_loop_prefix [of "g_exact g" 0 "[i]"] by (auto simp: exactClosure_def)
  have closed: "\<forall>x \<in> set (exactClosure g i). set (nbrs (g_exact g) x) \<subseteq> set (exactClosure g i)"
    unfolding exactClosure_def by (rule closure_loop_closed) simp_all
  have "(i, y) \<in> (edges (g_exact g))\<^sup>* \<Longrightarrow> y \<in> set (exactClosure g i)" for y
    by (induction rule: rtrancl_induct) (use start closed in \<open>auto simp: edges_def\<close>)
  then show "{y. (i, y) \<in> (edges (g_exact g))\<^sup>*} \<subseteq> set (exactClosure g i)" by blast
qed

lemma distinct_exactClosure: "distinct (exactClosure g i)"
  unfolding exactClosure_def by (rule closure_loop_distinct) simp

lemma exactClosure_hd: "\<exists>rest. exactClosure g i = i # rest"
  using closure_loop_prefix [of "g_exact g" 0 "[i]"] by (simp add: exactClosure_def)

section \<open>What expansion returns\<close>

text \<open>\<open>bounded ids\<close>: within the cap and without repetition.\<close>

definition bounded :: "string list \<Rightarrow> bool" where
  "bounded ids \<longleftrightarrow> distinct ids \<and> length ids \<le> MaxResults"

lemma add_new_Inl: "add_new xs (ids, new) = Inl r \<Longrightarrow> bounded ids \<Longrightarrow>
    bounded r \<and> length r = MaxResults \<and> (\<exists>rest. r = ids @ rest)"
  by (induction xs arbitrary: ids new) (fastforce simp: bounded_def split: if_splits)+

lemma add_new_Inr: "add_new xs (ids, new) = Inr (ids', new') \<Longrightarrow> bounded ids \<Longrightarrow>
    bounded ids' \<and> (\<exists>rest. ids' = ids @ rest \<and> new' = new @ rest) \<and> set ids' = set ids \<union> set xs"
proof (induction xs arbitrary: ids new)
  case (Cons x xs)
  show ?case
  proof (cases "x \<in> set ids")
    case True
    with Cons.prems Cons.IH [of ids new] show ?thesis by auto
  next
    case False
    with Cons.prems have "bounded (ids @ [x])" by (auto simp: bounded_def split: if_splits)
    with False Cons.prems Cons.IH [of "ids @ [x]" "new @ [x]"] show ?thesis by (auto split: if_splits)
  qed
qed simp

lemma add_children_Inl: "add_children g cs (ids, new) = Inl r \<Longrightarrow> bounded ids \<Longrightarrow>
    bounded r \<and> length r = MaxResults \<and> (\<exists>rest. r = ids @ rest)"
proof (induction cs arbitrary: ids new)
  case (Cons c cs)
  show ?case
  proof (cases "c \<in> set ids")
    case True
    with Cons show ?thesis by simp
  next
    case False
    show ?thesis
    proof (cases "add_new (exactClosure g c) (ids, new)")
      case (Inl a)
      with False Cons.prems add_new_Inl [OF Inl] show ?thesis by simp
    next
      case (Inr s)
      obtain ids1 new1 where s: "s = (ids1, new1)" by (cases s)
      from add_new_Inr [OF Inr [unfolded s] Cons.prems(2)] Cons.IH [of ids1 new1] Cons.prems(1) False Inr s
      show ?thesis by auto
    qed
  qed
qed simp

text \<open>The new identifiers are the children and their exact closures, and all children are present.\<close>

lemma add_children_Inr: "add_children g cs (ids, new) = Inr (ids', new') \<Longrightarrow> bounded ids \<Longrightarrow>
    bounded ids' \<and> (\<exists>rest. ids' = ids @ rest \<and> new' = new @ rest \<and>
      set rest \<subseteq> (\<Union>c \<in> set cs. set (exactClosure g c))) \<and> set cs \<subseteq> set ids'"
proof (induction cs arbitrary: ids new)
  case (Cons c cs)
  show ?case
  proof (cases "c \<in> set ids")
    case True
    with Cons.prems Cons.IH [of ids new] show ?thesis by auto
  next
    case False
    then obtain ids1 new1 where n: "add_new (exactClosure g c) (ids, new) = Inr (ids1, new1)"
      and r: "add_children g cs (ids1, new1) = Inr (ids', new')"
      using Cons.prems(1) by (auto split: sum.splits)
    obtain rest1 where 1: "bounded ids1" "ids1 = ids @ rest1" "new1 = new @ rest1"
      "set ids1 = set ids \<union> set (exactClosure g c)"
      using add_new_Inr [OF n Cons.prems(2)] by blast
    have d: "set ids \<inter> set rest1 = {}" using 1(1,2) by (simp add: bounded_def)
    then have rest1: "set rest1 \<subseteq> set (exactClosure g c)" using 1(2,4) by auto
    obtain rest2 where 2: "bounded ids'" "ids' = ids1 @ rest2" "new' = new1 @ rest2"
      "set rest2 \<subseteq> (\<Union>c \<in> set cs. set (exactClosure g c))" "set cs \<subseteq> set ids'"
      using Cons.IH [OF r 1(1)] by blast
    have "c \<in> set ids1" using 1(4) exactClosure_hd [of g c] by auto
    with 1 2 rest1 show ?thesis by (auto intro!: exI [of _ "rest1 @ rest2"])
  qed
qed (simp add: bounded_def)

lemma children_eq: "set (concat (map (nbrs (g_narrower g)) frontier)) = edges (g_narrower g) `` set frontier"
  by (auto simp: edges_def)

lemma narrow_loop_Inl: "narrow_loop g d frontier ids = Inl r \<Longrightarrow> bounded ids \<Longrightarrow>
    bounded r \<and> length r = MaxResults \<and> (\<exists>rest. r = ids @ rest)"
proof (induction d arbitrary: frontier ids)
  case (Suc d)
  let ?cs = "concat (map (nbrs (g_narrower g)) frontier)"
  have ne: "frontier \<noteq> []" using Suc.prems(1) by (cases frontier) simp_all
  show ?case
  proof (cases "add_children g ?cs (ids, [])")
    case (Inl a)
    with ne Suc.prems add_children_Inl [OF Inl] show ?thesis by simp
  next
    case (Inr s)
    obtain ids1 new1 where s: "s = (ids1, new1)" by (cases s)
    from add_children_Inr [OF Inr [unfolded s] Suc.prems(2)] Suc.IH [of new1 ids1] Suc.prems(1) ne Inr s
    show ?thesis by auto
  qed
qed simp

lemma levels_covered:
  assumes "N `` A \<subseteq> B" and "\<And>k. k \<le> d \<Longrightarrow> (N ^^ k) `` B \<subseteq> C" and "A \<subseteq> C" and "k \<le> Suc d"
  shows "(N ^^ k) `` A \<subseteq> C"
proof (cases k)
  case (Suc j)
  have "N ^^ k = N O N ^^ j" unfolding Suc by (simp only: relpow.simps(2) relpow_commute)
  then have "(N ^^ k) `` A = (N ^^ j) `` (N `` A)" by (simp only: relcomp_Image)
  also have "\<dots> \<subseteq> (N ^^ j) `` B" using assms(1) by (rule Image_mono [OF subset_refl])
  also have "\<dots> \<subseteq> C" using assms(2,4) Suc by simp
  finally show ?thesis .
qed (use assms(3) in simp)

lemma narrow_loop_Inr:
  assumes "narrow_loop g d frontier ids = Inr ids'" and "bounded ids" and "set frontier \<subseteq> set ids"
    and "edges (g_narrower g) `` (set ids - set frontier) \<subseteq> set ids"
  shows "bounded ids' \<and> (\<exists>rest. ids' = ids @ rest) \<and>
    (\<forall>k \<le> d. (edges (g_narrower g) ^^ k) `` set ids \<subseteq> set ids')"
  using assms
proof (induction d arbitrary: frontier ids)
  case (Suc d)
  let ?N = "edges (g_narrower g)"
  let ?cs = "concat (map (nbrs (g_narrower g)) frontier)"
  show ?case
  proof (cases "frontier = []")
    case True
    then have "?N `` set ids \<subseteq> set ids" using Suc.prems(4) by simp
    then have "(?N ^^ k) `` set ids \<subseteq> set ids" for k by (induction k) auto
    with True Suc.prems show ?thesis by auto
  next
    case False
    then obtain ids1 new1 where c: "add_children g ?cs (ids, []) = Inr (ids1, new1)"
      and r: "narrow_loop g d new1 ids1 = Inr ids'"
      using Suc.prems(1) by (auto split: sum.splits)
    obtain rest where 1: "bounded ids1" "ids1 = ids @ new1" "set ?cs \<subseteq> set ids1"
      "set new1 \<subseteq> (\<Union>c \<in> set ?cs. set (exactClosure g c))"
      using add_children_Inr [OF c Suc.prems(2)] by auto
    have cover: "?N `` set ids \<subseteq> set ids1"
      using 1(2,3) Suc.prems(4) children_eq [of g frontier] by auto
    have "?N `` (set ids1 - set new1) \<subseteq> set ids1" using cover 1(2) by auto
    from Suc.IH [OF r 1(1) _ this] 1(2)
    have IH: "bounded ids'" "\<exists>rest. ids' = ids1 @ rest"
      "\<And>k. k \<le> d \<Longrightarrow> (?N ^^ k) `` set ids1 \<subseteq> set ids'" by auto
    have "(?N ^^ k) `` set ids \<subseteq> set ids'" if "k \<le> Suc d" for k
    proof (rule levels_covered [OF cover IH(3) _ that])
      show "set ids \<subseteq> set ids'" using IH(2) 1(2) by auto
    qed
    then show ?thesis using IH(1,2) 1(2) by auto
  qed
qed auto

text \<open>What an untruncated expansion starts from: the exact closure and its close matches.\<close>

definition expand_base :: "Graph \<Rightarrow> string \<Rightarrow> string set" where
  "expand_base g i = (let E = (edges (g_exact g))\<^sup>* `` {i} in E \<union> edges (g_close g) `` E)"

text \<open>
  The specification by sets: \<open>next_level\<close> takes what is known and the newest part of it to the narrower concepts
  of the newest part that were not known, each with everything a chain of exact matches leads to.
\<close>

definition next_level :: "Graph \<Rightarrow> string set \<times> string set \<Rightarrow> string set \<times> string set" where
  "next_level g = (\<lambda>(known, newest).
     let new = (edges (g_exact g))\<^sup>* `` (edges (g_narrower g) `` newest - known) - known in (known \<union> new, new))"

definition narrowed :: "Graph \<Rightarrow> string \<Rightarrow> nat \<Rightarrow> string set" where
  "narrowed g i d = fst ((next_level g ^^ d) (expand_base g i, expand_base g i))"

lemma exactClosure_Image: "set (exactClosure g i) = (edges (g_exact g))\<^sup>* `` {i}"
  by (auto simp: exactClosure_reach)

text \<open>One level adds exactly the classes of the children that were not known. \<open>K\<close> is what this level has added so far.\<close>

lemma add_children_adds:
  assumes "add_children g cs (ids, new) = Inr (ids', new')" and "bounded ids"
    and "set ids = S \<union> K" and "(edges (g_exact g))\<^sup>* `` K \<subseteq> K"
  shows "set ids' = S \<union> K \<union> (edges (g_exact g))\<^sup>* `` (set cs - S)"
  using assms
proof (induction cs arbitrary: ids new K)
  case (Cons c cs)
  let ?R = "(edges (g_exact g))\<^sup>*"
  show ?case
  proof (cases "c \<in> set ids")
    case True
    with Cons.prems Cons.IH [of ids new K] have "set ids' = S \<union> K \<union> ?R `` (set cs - S)" by simp
    moreover have "c \<in> S \<or> ?R `` {c} \<subseteq> K" using True Cons.prems(3,4) by blast
    ultimately show ?thesis by auto
  next
    case False
    then obtain ids1 new1 where n: "add_new (exactClosure g c) (ids, new) = Inr (ids1, new1)"
      and r: "add_children g cs (ids1, new1) = Inr (ids', new')"
      using Cons.prems(1) by (auto split: sum.splits)
    have 1: "bounded ids1" "set ids1 = S \<union> (K \<union> ?R `` {c})"
      using add_new_Inr [OF n Cons.prems(2)] Cons.prems(3) by (auto simp: exactClosure_Image)
    have "?R `` (K \<union> ?R `` {c}) \<subseteq> K \<union> ?R `` {c}"
      using Cons.prems(4) by (auto intro: rtrancl_trans)
    from Cons.IH [OF r 1 this] show ?thesis using False Cons.prems(3) by auto
  qed
qed auto

lemma next_level_empty: "(next_level g ^^ d) (S, {}) = (S, {})"
  by (induction d) (simp_all add: next_level_def)

lemma narrow_loop_levels:
  assumes "narrow_loop g d frontier ids = Inr ids'" and "bounded ids"
  shows "set ids' = fst ((next_level g ^^ d) (set ids, set frontier))"
  using assms
proof (induction d arbitrary: frontier ids)
  case (Suc d)
  let ?cs = "concat (map (nbrs (g_narrower g)) frontier)"
  show ?case
  proof (cases "frontier = []")
    case True
    with Suc.prems(1) have "ids' = ids" by simp
    with True next_level_empty [where g = g and d = "Suc d" and S = "set ids"] show ?thesis by (simp del: funpow.simps)
  next
    case False
    then obtain ids1 new1 where c: "add_children g ?cs (ids, []) = Inr (ids1, new1)"
      and r: "narrow_loop g d new1 ids1 = Inr ids'"
      using Suc.prems(1) by (auto split: sum.splits)
    have 1: "bounded ids1" "ids1 = ids @ new1" using add_children_Inr [OF c Suc.prems(2)] by auto
    have "set ids1 = set ids \<union> (edges (g_exact g))\<^sup>* `` (edges (g_narrower g) `` set frontier - set ids)"
      using add_children_adds [OF c Suc.prems(2), of "set ids" "{}"] by (simp only: children_eq) simp
    moreover have "set new1 = set ids1 - set ids" using 1 by (auto simp: bounded_def)
    ultimately have "next_level g (set ids, set frontier) = (set ids1, set new1)"
      by (auto simp: next_level_def)
    with Suc.IH [OF r 1(1)] show ?thesis by (simp add: funpow_Suc_right del: funpow.simps)
  qed
qed simp

text \<open>The four stages: each either hits the cap or hands its result on.\<close>

lemma Expand_related:
  assumes "(if related then (case add_new (concat (map (nbrs (g_related g)) E)) (ids3, []) of
      Inl r \<Rightarrow> (r, True) | Inr (ids4, _) \<Rightarrow> (ids4, False)) else (ids3, False)) = (ids, trunc)" and "bounded ids3"
  shows "bounded ids \<and> (\<exists>rest. ids = ids3 @ rest) \<and> (if trunc then length ids = MaxResults
    else set ids = set ids3 \<union> (if related then edges (g_related g) `` set E else {}))"
proof (cases related)
  case True
  have nb: "set (concat (map (nbrs m) xs)) = edges m `` set xs" for m xs by (auto simp: edges_def)
  show ?thesis
  proof (cases "add_new (concat (map (nbrs (g_related g)) E)) (ids3, [])")
    case (Inl r)
    with True assms(1) add_new_Inl [OF Inl assms(2)] show ?thesis by auto
  next
    case (Inr s4)
    obtain ids4 n4 where s4: "s4 = (ids4, n4)" by (cases s4)
    with True assms(1) Inr add_new_Inr [OF Inr [unfolded s4] assms(2)] nb show ?thesis by auto
  qed
qed (use assms in auto)

text \<open>The first two stages: the exact closure and its close matches.\<close>

lemma Expand_start:
  obtains (cut) ids where "\<And>related. Expand g i related = (ids, True)" and "bounded ids" and "length ids = MaxResults" and "\<exists>rest. ids = i # rest"
  | (go) ids1 close where "bounded ids1" and "\<exists>rest. ids1 = i # rest" and "set ids1 = set (exactClosure g i)"
      and "bounded (ids1 @ close)" and "set (ids1 @ close) = expand_base g i"
      and "\<And>related. Expand g i related = (case narrow_loop g MaxDepth (exactClosure g i @ close) (ids1 @ close) of
        Inl r \<Rightarrow> (r, True)
      | Inr ids3 \<Rightarrow> if related then (case add_new (concat (map (nbrs (g_related g)) (exactClosure g i))) (ids3, []) of
          Inl r \<Rightarrow> (r, True) | Inr (ids4, _) \<Rightarrow> (ids4, False)) else (ids3, False))"
proof -
  let ?E = "exactClosure g i"
  let ?C = "concat (map (nbrs (g_close g)) ?E)"
  obtain e where e: "?E = i # e" using exactClosure_hd by blast
  have b1: "bounded [i]" by (simp add: bounded_def MaxResults_def)
  have start: "add_new ?E ([], []) = add_new e ([i], [i])" by (simp add: e MaxResults_def)
  show ?thesis
  proof (cases "add_new e ([i], [i])")
    case (Inl r)
    with add_new_Inl [OF Inl b1] start show ?thesis by (intro cut [of r]) (auto simp: Expand_def Let_def)
  next
    case (Inr s1)
    obtain ids1 n1 where s1: "s1 = (ids1, n1)" by (cases s1)
    note st1 = add_new_Inr [OF Inr [unfolded s1] b1]
    then have set1: "set ids1 = set ?E" by (simp add: e)
    show ?thesis
    proof (cases "add_new ?C (ids1, [])")
      case (Inl r)
      with add_new_Inl [OF Inl] start Inr s1 st1 \<open>add_new e ([i], [i]) = Inr s1\<close> show ?thesis
        by (intro cut [of r]) (auto simp: Expand_def Let_def)
    next
      case Inr2: (Inr s2)
      obtain ids2 close where s2: "s2 = (ids2, close)" by (cases s2)
      have st2: "bounded ids2" "ids2 = ids1 @ close" "set ids2 = set ids1 \<union> set ?C"
        using add_new_Inr [OF Inr2 [unfolded s2] st1 [THEN conjunct1]] by - (blast, force, blast)
      have "set ids2 = expand_base g i" using st2(3) set1 by (auto simp: expand_base_def exactClosure_Image edges_def Let_def)
      with st1 st2 set1 start Inr s1 Inr2 s2 show ?thesis by (intro go [of ids1 close]) (auto simp: Expand_def Let_def)
    qed
  qed
qed

lemma Expand_stages:
  assumes "Expand g i related = (ids, trunc)"
  obtains (cut) "trunc" and "bounded ids" and "length ids = MaxResults" and "\<exists>rest. ids = i # rest"
  | (complete) ids1 ids2 ids3 close where "\<not> trunc"
      and "bounded ids1" and "\<exists>rest. ids1 = i # rest" and "set ids1 = set (exactClosure g i)"
      and "bounded ids2" and "\<exists>rest. ids2 = ids1 @ rest" and "set ids2 = expand_base g i"
      and "set ids2 = set (exactClosure g i @ close)"
      and "narrow_loop g MaxDepth (exactClosure g i @ close) ids2 = Inr ids3"
      and "bounded ids" and "\<exists>rest. ids = ids3 @ rest"
      and "set ids = set ids3 \<union> (if related then edges (g_related g) `` set (exactClosure g i) else {})"
proof (cases rule: Expand_start [of g i, case_names Cut Go])
  case (Cut r)
  with assms show ?thesis by (intro cut) auto
next
  case (Go ids1 close)
  let ?ids2 = "ids1 @ close"
  have fr: "set ?ids2 = set (exactClosure g i @ close)" using Go(3) by simp
  show ?thesis
  proof (cases "narrow_loop g MaxDepth (exactClosure g i @ close) ?ids2")
    case (Inl r)
    with assms narrow_loop_Inl [OF Inl Go(4)] Go(2,6) show ?thesis by (intro cut) auto
  next
    case (Inr ids3)
    have b3: "bounded ids3" and pre3: "\<exists>rest. ids3 = ?ids2 @ rest" using narrow_loop_Inr [OF Inr Go(4)] fr by auto
    note last = Expand_related [OF _ b3, of related g "exactClosure g i" ids trunc]
    show ?thesis
    proof (cases trunc)
      case True
      with last assms Go(2,6) Inr pre3 show ?thesis by (intro cut) auto
    next
      case False
      with last assms Go(6) Inr show ?thesis by (intro complete [OF _ Go(1-4) _ Go(5) fr Inr]) auto
    qed
  qed
qed

section \<open>The edges of the graph\<close>

text \<open>The adjacency lists hold what \<open>has\<close> records; the exact relation is the interesting one.\<close>

definition exact_ok :: "Graph \<Rightarrow> bool" where
  "exact_ok g \<longleftrightarrow> edges (g_exact g) = {(x, y). (''exact'', x, y) \<in> g_has g}"

lemma nbrs_add: "nbrs (add_nbr x y m) z = (if z = x then nbrs m x @ [y] else nbrs m z)"
  by (simp add: add_nbr_def nbrs_def update_conv')

lemma edges_add: "edges (add_nbr x y m) = insert (x, y) (edges m)"
  by (auto simp: edges_def nbrs_add split: if_splits)

lemma exact_ok_link: "exact_ok g \<Longrightarrow> exact_ok (link rel x y g)"
  by (auto simp: exact_ok_def link_def Let_def edges_add)

lemma exact_ok_both: "exact_ok g \<Longrightarrow> exact_ok (both rel x y g)"
  by (simp add: both_def exact_ok_link)

lemma exact_ok_empty: "exact_ok empty_graph"
  by (simp add: exact_ok_def empty_graph_def edges_def nbrs_def)

lemma has_link [simp]: "g_has (link rel x y g) = (if x = y then g_has g else insert (rel, x, y) (g_has g))"
  by (auto simp: link_def Let_def)

lemma fold_inv: "P g \<Longrightarrow> (\<And>x g. P g \<Longrightarrow> P (f x g)) \<Longrightarrow> P (fold f xs g)"
  by (induction xs arbitrary: g) simp_all

lemma exact_ok_concept: "exact_ok g \<Longrightarrow> exact_ok (link_concept cs c g)"
  by (auto simp: link_concept_def intro!: fold_inv [where P = exact_ok] exact_ok_link)

lemma exact_ok_mapping: "exact_ok g \<Longrightarrow> exact_ok (link_mapping ne m g)"
  by (simp add: link_mapping_def Let_def exact_ok_both exact_ok_link)

definition exact_edges :: "Graph \<Rightarrow> (string \<times> string) set" where
  "exact_edges g = {(x, y). (''exact'', x, y) \<in> g_has g}"

lemma exact_edges_narrower [simp]: "exact_edges (link ''narrower'' x y g) = exact_edges g"
  by (auto simp: exact_edges_def)

lemma exact_edges_concept: "exact_edges (link_concept cs c g) = exact_edges g"
proof -
  have "exact_edges (fold (\<lambda>n. link ''narrower'' (a n) (b n)) xs g) = exact_edges g"
    for a b g and xs :: "string list"
    by (induction xs arbitrary: g) simp_all
  then show ?thesis by (simp add: link_concept_def)
qed

definition contributes :: "(string \<times> string) set \<Rightarrow> Mapping \<Rightarrow> (string \<times> string) set" where
  "contributes ne m = (if length (mp_To m) = 1 \<and> mp_Relation m = ''exactMatch'' \<and>
       pair (mp_From m) (mp_To m ! 0) \<notin> ne
     then {(x, y). x \<noteq> y \<and> {x, y} = {mp_From m, mp_To m ! 0}} else {})"

lemma exact_edges_mapping: "exact_edges (link_mapping ne m g) = exact_edges g \<union> contributes ne m"
  by (auto simp: exact_edges_def link_mapping_def contributes_def Let_def both_def doubleton_eq_iff)

lemma exact_edges_fold:
  "exact_edges (fold (link_mapping ne) ms g) = exact_edges g \<union> (\<Union>m \<in> set ms. contributes ne m)"
  by (induction ms arbitrary: g) (auto simp: exact_edges_mapping)

lemma exact_edges_concepts: "exact_edges (fold (link_concept cs) ds g) = exact_edges g"
  by (induction ds arbitrary: g) (simp_all add: exact_edges_concept)

lemma nbrs_sort: "nbrs (sort_adj m) x = sort (nbrs m x)"
proof -
  have "map_of (sort_adj m) x = map_option sort (map_of m x)"
    by (induction m) (auto simp: sort_adj_def)
  then show ?thesis by (simp add: nbrs_def split: option.splits)
qed

lemma edges_sort: "edges (sort_adj m) = edges m"
  by (simp add: edges_def nbrs_sort)

lemma edges_NewGraph:
  "edges (g_exact (NewGraph cs ms)) = (\<Union>m \<in> set ms. contributes (nonExact ms) m)"
proof -
  let ?g1 = "fold (link_concept cs) cs empty_graph"
  let ?g2 = "fold (link_mapping (nonExact ms)) ms ?g1"
  have "exact_ok ?g1" by (rule fold_inv) (simp_all add: exact_ok_concept exact_ok_empty)
  then have "exact_ok ?g2" by (rule fold_inv) (simp_all add: exact_ok_mapping)
  then have "edges (g_exact ?g2) = exact_edges ?g2" by (simp add: exact_ok_def exact_edges_def)
  also have "\<dots> = exact_edges empty_graph \<union> (\<Union>m \<in> set ms. contributes (nonExact ms) m)"
    by (simp add: exact_edges_fold exact_edges_concepts)
  finally show ?thesis
    by (simp add: NewGraph_def sort_graph_def edges_sort exact_edges_def empty_graph_def Let_def)
qed

lemma pair_eq_iff: "pair a b = pair c d \<longleftrightarrow> {a, b} = {c, d}"
  by (auto simp: pair_def doubleton_eq_iff)

lemma in_nonExact: "pair a b \<in> nonExact ms \<longleftrightarrow> (\<exists>m \<in> set ms. length (mp_To m) = 1 \<and>
    mp_Relation m \<notin> {''exactMatch'', ''closeMatch''} \<and> {a, b} = {mp_From m, mp_To m ! 0})"
  by (auto simp: nonExact_def pair_eq_iff)

section \<open>Properties\<close>

text \<open>C20. The exact relation of a new graph is symmetric and follows the conflict rule: two different
  identifiers are linked exactly when some one-to-one mapping says exactMatch of the pair and no
  one-to-one mapping claims a broad, narrow or related match of it, in either direction and
  whatever the order of the mappings.\<close>

theorem exact_edges_follow_the_conflict_rule:
  "y \<in> set (nbrs (g_exact (NewGraph concepts mappings)) x) \<longleftrightarrow> x \<noteq> y \<and>
     (\<exists>m \<in> set mappings. length (mp_To m) = 1 \<and> mp_Relation m = ''exactMatch'' \<and> {x, y} = {mp_From m, mp_To m ! 0}) \<and>
     \<not> (\<exists>m \<in> set mappings. length (mp_To m) = 1 \<and> mp_Relation m \<notin> {''exactMatch'', ''closeMatch''} \<and>
       {x, y} = {mp_From m, mp_To m ! 0})"
proof -
  have "y \<in> set (nbrs (g_exact (NewGraph concepts mappings)) x) \<longleftrightarrow>
      (\<exists>m \<in> set mappings. (x, y) \<in> contributes (nonExact mappings) m)"
    using edges_NewGraph [of concepts mappings] by (auto simp: edges_def)
  also have "\<dots> \<longleftrightarrow> x \<noteq> y \<and> (\<exists>m \<in> set mappings. length (mp_To m) = 1 \<and> mp_Relation m = ''exactMatch'' \<and>
      {x, y} = {mp_From m, mp_To m ! 0} \<and> pair (mp_From m) (mp_To m ! 0) \<notin> nonExact mappings)"
    by (auto simp: contributes_def)
  also have "\<dots> \<longleftrightarrow> x \<noteq> y \<and> (\<exists>m \<in> set mappings. length (mp_To m) = 1 \<and> mp_Relation m = ''exactMatch'' \<and>
      {x, y} = {mp_From m, mp_To m ! 0}) \<and> pair x y \<notin> nonExact mappings"
    by (metis pair_eq_iff)
  finally show ?thesis by (simp only: in_nonExact)
qed

text \<open>The breadth-first closure computes reachability: it returns the identifier first and then, each
  once, exactly the identifiers that a chain of exact matches leads to, and it always terminates.\<close>

theorem exactClosure_is_reachability:
  "set (exactClosure g i) = {y. (i, y) \<in> {(a, b). b \<in> set (nbrs (g_exact g) a)}\<^sup>*} \<and>
   distinct (exactClosure g i) \<and> hd (exactClosure g i) = i"
  using exactClosure_reach [of g i] distinct_exactClosure [of g i] exactClosure_hd [of g i]
  by (auto simp: edges_def)

text \<open>C13. Expansion is bounded and honest about it: at most 200 identifiers, the queried one first, none
  twice, and the truncation flag only when the cap was reached.\<close>

theorem expand_is_bounded:
  assumes "Expand g i related = (ids, trunc)"
  shows "length ids \<le> 200 \<and> distinct ids \<and> ids \<noteq> [] \<and> hd ids = i \<and> (trunc \<longrightarrow> length ids = 200)"
proof (rule Expand_stages [OF assms])
  assume "trunc" "bounded ids" "length ids = MaxResults" "\<exists>rest. ids = i # rest"
  then show ?thesis by (auto simp: bounded_def MaxResults_def)
next
  fix ids1 ids2 ids3 close
  assume a: "\<not> trunc" "bounded ids" "\<exists>rest. ids = ids3 @ rest" "\<exists>rest. ids1 = i # rest" "\<exists>rest. ids2 = ids1 @ rest"
    "bounded ids2" "set ids2 = set (exactClosure g i @ close)"
    "narrow_loop g MaxDepth (exactClosure g i @ close) ids2 = Inr ids3"
  then have "\<exists>rest. ids3 = ids2 @ rest" using narrow_loop_Inr [OF a(8,6)] by auto
  with a show ?thesis by (auto simp: bounded_def MaxResults_def)
qed

lemma expand_is_bounded_witness:
  "length (fst (Expand (NewGraph [] []) ''x'' True)) \<le> 200 \<and> hd (fst (Expand (NewGraph [] []) ''x'' True)) = ''x''"
  using expand_is_bounded [of "NewGraph [] []" "''x''" True] by (metis prod.collapse)

text \<open>C12. An expansion that was not truncated returns exactly what its specification by sets says: the exact closure
  and its close matches, then four times over the narrower concepts that were not there yet, each with its own exact
  closure, and, when asked, the related matches of the first closure. In particular everything a chain of
  at most four narrower links leads to is in it.\<close>

theorem expand_is_complete_and_sound:
  assumes "Expand g i related = (ids, False)"
  shows "set ids = narrowed g i 4 \<union> (if related then edges (g_related g) `` ((edges (g_exact g))\<^sup>* `` {i}) else {}) \<and>
    (\<forall>k \<le> 4. (edges (g_narrower g) ^^ k) `` expand_base g i \<subseteq> set ids)"
proof (rule Expand_stages [OF assms])
  fix ids1 ids2 ids3 close
  assume a: "bounded ids2" "set ids2 = expand_base g i" "set ids2 = set (exactClosure g i @ close)"
    "narrow_loop g MaxDepth (exactClosure g i @ close) ids2 = Inr ids3"
    "set ids = set ids3 \<union> (if related then edges (g_related g) `` set (exactClosure g i) else {})"
  have "set ids3 = narrowed g i 4"
    using narrow_loop_levels [OF a(4,1)] unfolding a(2) a(3) [symmetric] by (simp add: narrowed_def MaxDepth_def)
  moreover have "\<forall>k \<le> MaxDepth. (edges (g_narrower g) ^^ k) `` set ids2 \<subseteq> set ids3"
    using narrow_loop_Inr [OF a(4,1)] a(3) by auto
  ultimately show ?thesis using a(2,5) by (auto simp: MaxDepth_def exactClosure_Image)
qed auto

text \<open>A concept with a narrower one that matches a third exactly: all three come back.\<close>

definition demo_vocabulary :: Graph where
  "demo_vocabulary = NewGraph
     [\<lparr>cn_ID = ''a'', cn_Address = ''A'', cn_Schemes = [], cn_Broader = [], cn_Narrower = [''B'']\<rparr>,
      \<lparr>cn_ID = ''b'', cn_Address = ''B'', cn_Schemes = [], cn_Broader = [], cn_Narrower = []\<rparr>]
     [\<lparr>mp_D = [], mp_Relation = ''exactMatch'', mp_From = ''b'', mp_To = [''c''], mp_FromScheme = [], mp_ToScheme = [],
       mp_PartOf = [], mp_Author = [], mp_Schemes = []\<rparr>]"

lemma expand_is_complete_and_sound_witness:
  "narrowed demo_vocabulary ''a'' 4 = {''a'', ''b'', ''c''}"
proof -
  have "Expand demo_vocabulary ''a'' False = ([''a'', ''b'', ''c''], False)" by code_simp
  from expand_is_complete_and_sound [OF this] show ?thesis by auto
qed

end
