(* ===== verification/Registry.thy ===== *)
theory Registry
  imports Prelude
begin

text \<open>
  \<open>content_registry.go\<close> and the read side of \<open>deletion.go\<close>: the registry that dispatches the event
  path by kind. A content type's closures act on the state \<open>'w\<close> of the stores, so the registry is
  polymorphic in it. Queries are finite sequences of events; \<open>registry_fetch_push\<close> is the push
  iterator of the source with its consumer, \<open>registry_fetch\<close> the sequence it stands for.
\<close>

section \<open>The raw event store and the search query parser\<close>

text \<open>
  The external BoltDB event store and NIP-50 parser the relay calls. The store's
  \<open>rs_query\<close> takes the filter and the maximum number of events.
\<close>

record 'w raw_store =
  rs_query :: "filter \<Rightarrow> int \<Rightarrow> 'w \<Rightarrow> event list"
  rs_count :: "filter \<Rightarrow> 'w \<Rightarrow> 32 word \<times> error option"
  rs_save :: "event \<Rightarrow> 'w \<Rightarrow> error option \<times> 'w"
  rs_replace :: "event \<Rightarrow> 'w \<Rightarrow> error option \<times> 'w"
  rs_delete :: "event_id \<Rightarrow> 'w \<Rightarrow> error option \<times> 'w"

record search_lib =
  raw_terms :: "string \<Rightarrow> string list"
  field_filters :: "string \<Rightarrow> (string \<times> string) list"

section \<open>Registration\<close>

record 'w content_type =
  ct_kinds :: "kind list"
  ct_validate :: "event \<Rightarrow> bool \<times> string"
  ct_store :: "event \<Rightarrow> 'w \<Rightarrow> 'w"
  ct_fetch :: "filter \<Rightarrow> int \<Rightarrow> 'w \<Rightarrow> event list"
  ct_count :: "filter \<Rightarrow> 'w \<Rightarrow> 32 word \<times> error option"
  ct_deleteID :: "event_id \<Rightarrow> 'w \<Rightarrow> error option \<times> 'w"
  ct_chunked :: bool

record 'w registry =
  rg_types :: "'w content_type list"
  rg_byKind :: "kind \<Rightarrow> nat option"

fun index_kinds :: "nat \<Rightarrow> 'w content_type list \<Rightarrow> (kind \<Rightarrow> nat option) \<Rightarrow> (kind \<Rightarrow> nat option)" where
  "index_kinds i [] m = m"
| "index_kinds i (ct # cts) m = index_kinds (Suc i) cts (fold (\<lambda>k m. m(k \<mapsto> i)) (ct_kinds ct) m)"

definition newRegistry :: "'w content_type list \<Rightarrow> 'w registry" where
  "newRegistry types = \<lparr>rg_types = types, rg_byKind = index_kinds 0 types (\<lambda>_. None)\<rparr>"

definition registry_kinds :: "'w registry \<Rightarrow> kind list" where
  "registry_kinds r = concat (map ct_kinds (rg_types r))"

section \<open>Single-event dispatch\<close>

definition registry_validate :: "'w registry \<Rightarrow> event \<Rightarrow> bool \<times> string" where
  "registry_validate r ev = (case rg_byKind r (ev_kind ev) of
     None \<Rightarrow> (True, ''kind not accepted'')
   | Some i \<Rightarrow> ct_validate (rg_types r ! i) ev)"

definition registry_store :: "'w registry \<Rightarrow> event \<Rightarrow> 'w \<Rightarrow> 'w" where
  "registry_store r ev w = (case rg_byKind r (ev_kind ev) of
     None \<Rightarrow> w
   | Some i \<Rightarrow> ct_store (rg_types r ! i) ev w)"

section \<open>Fan-out\<close>

fun selected_loop :: "'w registry \<Rightarrow> kind list \<Rightarrow> nat set \<Rightarrow> nat list" where
  "selected_loop r [] seen = []"
| "selected_loop r (k # ks) seen = (case rg_byKind r k of
     None \<Rightarrow> selected_loop r ks seen
   | Some i \<Rightarrow> if i \<in> seen then selected_loop r ks seen
       else i # selected_loop r ks (insert i seen))"

definition selected :: "'w registry \<Rightarrow> filter \<Rightarrow> nat list" where
  "selected r f = (if f_kinds f = [] then [0 ..< length (rg_types r)]
     else selected_loop r (f_kinds f) {})"

definition fetch_body :: "(event \<Rightarrow> 's \<Rightarrow> bool \<times> 's) \<Rightarrow> event \<Rightarrow> event_id set \<times> 's \<Rightarrow>
    bool \<times> (event_id set \<times> 's)" where
  "fetch_body yield ev = (\<lambda>(seen, s). if ev_id ev \<in> seen then (True, (seen, s))
     else case yield ev s of (go, s') \<Rightarrow> (go, (insert (ev_id ev) seen, s')))"

definition registry_fetch_push :: "'w registry \<Rightarrow> filter \<Rightarrow> int \<Rightarrow> 'w \<Rightarrow>
    (event \<Rightarrow> 's \<Rightarrow> bool \<times> 's) \<Rightarrow> 's \<Rightarrow> bool \<times> 's" where
  "registry_fetch_push r f maxLimit w yield s =
     (case iterate (selected r f)
         (\<lambda>i st. iterate (ct_fetch (rg_types r ! i) f maxLimit w) (fetch_body yield) st) ({}, s) of
       (go, (seen, s')) \<Rightarrow> (go, s'))"

definition registry_fetch :: "'w registry \<Rightarrow> filter \<Rightarrow> int \<Rightarrow> 'w \<Rightarrow> event list" where
  "registry_fetch r f maxLimit w = snd (registry_fetch_push r f maxLimit w collect [])"

definition targetsChunked :: "'w registry \<Rightarrow> filter \<Rightarrow> bool" where
  "targetsChunked r f = (if f_kinds f = [] then list_ex ct_chunked (rg_types r)
     else list_ex (\<lambda>k. case rg_byKind r k of None \<Rightarrow> False | Some i \<Rightarrow> ct_chunked (rg_types r ! i))
       (f_kinds f))"

definition searchHasFreeText :: "search_lib \<Rightarrow> string \<Rightarrow> bool" where
  "searchHasFreeText P search \<longleftrightarrow> length (raw_terms P search) > 0"

definition searchHasFieldFilters :: "search_lib \<Rightarrow> string \<Rightarrow> bool" where
  "searchHasFieldFilters P search \<longleftrightarrow> length (field_filters P search) > 0"

definition conceptTagPrefix :: string where
  "conceptTagPrefix = ''concepts_''"

definition hasConceptTags :: "filter \<Rightarrow> bool" where
  "hasConceptTags f \<longleftrightarrow> list_ex (\<lambda>(name, _). has_prefix name conceptTagPrefix) (f_tags f)"

definition rerankOwns :: "search_lib \<Rightarrow> 'w registry \<Rightarrow> filter \<Rightarrow> bool" where
  "rerankOwns P r f \<longleftrightarrow> targetsChunked r f \<and> searchHasFreeText P (f_search f) \<and>
     \<not> searchHasFieldFilters P (f_search f) \<and> \<not> hasConceptTags f"

fun count_loop :: "'w registry \<Rightarrow> filter \<Rightarrow> 'w \<Rightarrow> nat list \<Rightarrow> 32 word \<Rightarrow> 32 word \<times> error option" where
  "count_loop r f w [] tot = (tot, None)"
| "count_loop r f w (i # is) tot = (case ct_count (rg_types r ! i) f w of
     (n, Some e) \<Rightarrow> (tot, Some e)
   | (n, None) \<Rightarrow> count_loop r f w is (tot + n))"

definition registry_count :: "'w registry \<Rightarrow> filter \<Rightarrow> 'w \<Rightarrow> 32 word \<times> error option" where
  "registry_count r f w = count_loop r f w (selected r f) 0"

text \<open>\<open>deleteEverywhere\<close> also returns the later errors, which the source hands to \<open>logErr\<close>.\<close>

fun delete_loop :: "event_id \<Rightarrow> 'w content_type list \<Rightarrow> error option \<Rightarrow> error list \<Rightarrow> 'w \<Rightarrow>
    error option \<times> error list \<times> 'w" where
  "delete_loop i [] firstErr logged w = (firstErr, logged, w)"
| "delete_loop i (ct # cts) firstErr logged w = (case ct_deleteID ct i w of
     (None, w') \<Rightarrow> delete_loop i cts firstErr logged w'
   | (Some e, w') \<Rightarrow> (case firstErr of
       None \<Rightarrow> delete_loop i cts (Some e) logged w'
     | Some _ \<Rightarrow> delete_loop i cts firstErr (logged @ [e]) w'))"

definition deleteEverywhere :: "'w registry \<Rightarrow> event_id \<Rightarrow> 'w \<Rightarrow> error option \<times> error list \<times> 'w" where
  "deleteEverywhere r i w = delete_loop i (rg_types r) None [] w"

section \<open>Serving deletion requests\<close>

definition KindDeletion :: kind where
  "KindDeletion = 5"

definition clamp_deletion :: "filter \<Rightarrow> filter" where
  "clamp_deletion f = f\<lparr>f_kinds := [KindDeletion]\<rparr>"

definition deletionContentType ::
    "'w raw_store \<Rightarrow> (event \<Rightarrow> bool \<times> string) \<Rightarrow> 'w content_type" where
  "deletionContentType db validate_deletion =
     \<lparr>ct_kinds = [KindDeletion],
      ct_validate = validate_deletion,
      ct_store = (\<lambda>_ w. w),
      ct_fetch = (\<lambda>f maxLimit w. List.filter (\<lambda>ev. ev_kind ev = KindDeletion)
         (rs_query db (clamp_deletion f) maxLimit w)),
      ct_count = (\<lambda>f w. rs_count db (clamp_deletion f) w),
      ct_deleteID = (\<lambda>_ w. (None, w)),
      ct_chunked = False\<rparr>"

section \<open>What the kind index holds\<close>

lemma fold_assign: "fold (\<lambda>k m. m(k \<mapsto> i)) ks m k = (if k \<in> set ks then Some i else m k)"
  by (induction ks arbitrary: m) auto

text \<open>The index of a kind is that of the last type that lists it.\<close>

lemma index_kinds_Some:
  assumes "index_kinds b cts m k = Some i"
  shows "m k = Some i \<and> (\<forall>ct \<in> set cts. k \<notin> set (ct_kinds ct)) \<or>
    b \<le> i \<and> i < b + length cts \<and> k \<in> set (ct_kinds (cts ! (i - b)))"
  using assms
proof (induction cts arbitrary: b m)
  case (Cons ct cts)
  let ?m = "fold (\<lambda>k m. m(k \<mapsto> b)) (ct_kinds ct) m"
  have "index_kinds (Suc b) cts ?m k = Some i" using Cons.prems by simp
  from Cons.IH [OF this] show ?case
    by (auto simp: fold_assign nth_Cons' split: if_splits)
qed simp

lemma index_kinds_None:
  "index_kinds b cts m k = None \<longleftrightarrow> m k = None \<and> (\<forall>ct \<in> set cts. k \<notin> set (ct_kinds ct))"
  by (induction cts arbitrary: b m) (auto simp: fold_assign split: if_splits)

lemma byKind_Some:
  assumes "rg_byKind (newRegistry types) k = Some i"
  shows "i < length types" and "k \<in> set (ct_kinds (types ! i))"
  using index_kinds_Some [of 0 types "\<lambda>_. None" k i] assms by (auto simp: newRegistry_def)

lemma byKind_None:
  "rg_byKind (newRegistry types) k = None \<longleftrightarrow> k \<notin> set (registry_kinds (newRegistry types))"
  by (auto simp: newRegistry_def registry_kinds_def index_kinds_None)

lemma rg_types_new [simp]: "rg_types (newRegistry types) = types"
  by (simp add: newRegistry_def)

lemma selected_loop_eq:
  "selected_loop r ks seen = dedup_from (\<lambda>i. i) seen (List.map_filter (rg_byKind r) ks)"
  by (induction ks arbitrary: seen) (auto simp: List.map_filter_def split: option.splits)

lemma distinct_selected: "distinct (selected r f)"
  using dedup_from_distinct [of "\<lambda>i. i :: nat"] by (simp add: selected_def selected_loop_eq)

lemma selected_range: "i \<in> set (selected (newRegistry types) f) \<Longrightarrow> i < length types"
  by (auto simp: selected_def selected_loop_eq dedup_from_set set_map_filter_iff
      dest: byKind_Some(1) split: if_splits)

lemma selected_iff:
  "f_kinds f \<noteq> [] \<Longrightarrow> i \<in> set (selected r f) \<longleftrightarrow> (\<exists>k \<in> set (f_kinds f). rg_byKind r k = Some i)"
  by (simp add: selected_def selected_loop_eq dedup_from_set set_map_filter_iff)

section \<open>The fetch loop\<close>

text \<open>The events the selected types would push, one type after the other.\<close>

definition fanout :: "'w registry \<Rightarrow> filter \<Rightarrow> int \<Rightarrow> 'w \<Rightarrow> event list" where
  "fanout r f maxLimit w = concat (map (\<lambda>i. ct_fetch (rg_types r ! i) f maxLimit w) (selected r f))"

lemma iterate_concat:
  "iterate is (\<lambda>i st. iterate (g i) y st) st = iterate (concat (map g is)) y st"
  by (induction "is" arbitrary: st) (auto simp: iterate_append split: prod.splits)

lemma iterate_fetch_body:
  "(case iterate evs (fetch_body yield) (seen, s) of (go, (_, s')) \<Rightarrow> (go, s')) =
     iterate (dedup_from ev_id seen evs) yield s"
proof (induction evs arbitrary: seen s)
  case (Cons ev evs)
  then show ?case by (auto simp: fetch_body_def split: prod.splits)
qed simp

lemma registry_fetch_push_eq:
  "registry_fetch_push r f m w yield s = iterate (dedup_from ev_id {} (fanout r f m w)) yield s"
  by (simp add: registry_fetch_push_def iterate_concat iterate_fetch_body fanout_def)

lemma registry_fetch_eq: "registry_fetch r f m w = dedup_from ev_id {} (fanout r f m w)"
  by (simp add: registry_fetch_def registry_fetch_push_eq)

lemma registry_fetch_subset: "set (registry_fetch r f m w) \<subseteq> set (fanout r f m w)"
  unfolding registry_fetch_eq by (rule dedup_from_subset)

section \<open>The delete loop\<close>

lemma delete_loop_world:
  "snd (snd (delete_loop i cts fe lg w)) = fold (\<lambda>ct w. snd (ct_deleteID ct i w)) cts w"
  by (induction cts arbitrary: fe lg w) (auto split: prod.splits option.splits)

lemma delete_loop_first: "fst (delete_loop i cts (Some e) lg w) = Some e"
  by (induction cts arbitrary: lg w) (auto split: prod.splits option.splits)

text \<open>The errors of the deletes, in registration order.\<close>

fun delete_errors :: "event_id \<Rightarrow> 'w content_type list \<Rightarrow> 'w \<Rightarrow> error list" where
  "delete_errors i [] w = []"
| "delete_errors i (ct # cts) w = (case ct_deleteID ct i w of
     (None, w') \<Rightarrow> delete_errors i cts w'
   | (Some e, w') \<Rightarrow> e # delete_errors i cts w')"

lemma delete_loop_errors_some:
  "fst (snd (delete_loop i cts (Some e0) lg w)) = lg @ delete_errors i cts w"
  by (induction cts arbitrary: lg w) (auto split: prod.splits option.splits)

lemma delete_loop_errors:
  "(case delete_loop i cts None lg w of (fe, lg', w') \<Rightarrow>
      (case fe of None \<Rightarrow> [] | Some e \<Rightarrow> [e]) @ lg') =
   (case delete_errors i cts w of [] \<Rightarrow> lg | e # es \<Rightarrow> e # lg @ es)"
proof (induction cts arbitrary: w)
  case (Cons ct cts)
  obtain o' w' where d: "ct_deleteID ct i w = (o', w')" by (cases "ct_deleteID ct i w")
  show ?case
  proof (cases o')
    case None
    with Cons d show ?thesis by simp
  next
    case (Some e)
    obtain fe lg' w'' where l: "delete_loop i cts (Some e) lg w' = (fe, lg', w'')"
      by (cases "delete_loop i cts (Some e) lg w'") auto
    with delete_loop_first [of i cts e lg w'] delete_loop_errors_some [of i cts e lg w'] Some d
    show ?thesis by simp
  qed
qed simp

section \<open>Counting\<close>

lemma count_loop_ok:
  assumes "\<forall>i \<in> set is. snd (ct_count (rg_types r ! i) f w) = None"
  shows "count_loop r f w is t = (t + sum_list (map (\<lambda>i. fst (ct_count (rg_types r ! i) f w)) is), None)"
  using assms by (induction "is" arbitrary: t) (auto split: prod.splits option.splits)

lemma count_loop_error:
  assumes "count_loop r f w is t = (n, Some e)"
  shows "\<exists>i \<in> set is. snd (ct_count (rg_types r ! i) f w) = Some e"
  using assms by (induction "is" arbitrary: t) (auto split: prod.splits option.splits)

lemma count_loop_None:
  "snd (count_loop r f w is t) = None \<longleftrightarrow> (\<forall>i \<in> set is. snd (ct_count (rg_types r ! i) f w) = None)"
  by (induction "is" arbitrary: t) (auto split: prod.splits option.splits)

section \<open>Properties\<close>

text \<open>The fan-out of a query returns each event id once, returns the ids the selected collections
  return and no others, and pushes them in order until the consumer stops, keeping nothing back.\<close>

theorem registry_fetch_unique_and_complete:
  "distinct (map ev_id (registry_fetch r f n w)) \<and>
   ev_id ` set (registry_fetch r f n w) =
     (\<Union>i \<in> set (selected r f). ev_id ` set (ct_fetch (rg_types r ! i) f n w)) \<and>
   registry_fetch_push r f n w yield s = iterate (registry_fetch r f n w) yield s"
  by (auto simp: registry_fetch_push_eq registry_fetch_eq dedup_from_distinct dedup_from_keys fanout_def)

text \<open>A deletion visits every collection in registration order whatever fails; the caller gets the
  first error and the log all later ones.\<close>

theorem deleteEverywhere_tries_every_type:
  "(case deleteEverywhere r i w of (first, logged, w') \<Rightarrow>
      (case first of None \<Rightarrow> [] | Some e \<Rightarrow> [e]) @ logged = delete_errors i (rg_types r) w \<and>
      w' = fold (\<lambda>ct w. snd (ct_deleteID ct i w)) (rg_types r) w)"
  using delete_loop_errors [of i "rg_types r" "[]" w] delete_loop_world [of i "rg_types r" None "[]" w]
  by (auto simp: deleteEverywhere_def split: prod.splits list.splits)

text \<open>A filter's count is the wrap-around sum of the selected collections' counts, unless one of
  them fails: then the count is that error.\<close>

theorem registry_count_sums:
  "registry_count r f w =
     (sum_list (map (\<lambda>i. fst (ct_count (rg_types r ! i) f w)) (selected r f)), None) \<or>
   (\<exists>i \<in> set (selected r f). \<exists>e. snd (ct_count (rg_types r ! i) f w) = Some e \<and>
     snd (registry_count r f w) = Some e)"
proof (cases "\<forall>i \<in> set (selected r f). snd (ct_count (rg_types r ! i) f w) = None")
  case True
  then show ?thesis using count_loop_ok [of "selected r f" r f w 0] by (simp add: registry_count_def)
next
  case False
  then obtain n e where "registry_count r f w = (n, Some e)"
    using count_loop_None [of r f w "selected r f" 0]
    by (cases "registry_count r f w") (auto simp: registry_count_def)
  then show ?thesis using count_loop_error [of r f w "selected r f" 0 n e] by (auto simp: registry_count_def)
qed

end
