(* ===== verification/Expand.thy ===== *)
theory Expand
  imports VocabGraph Registry
begin

text \<open>
  \<open>expand.go\<close> and \<open>expand_config.go\<close>: concept filters of a query rewritten into synthetic tags
  \<open>concepts_<n>\<close> that hold the values expanded through the trusted mappings. The decoder of NIP-19
  strings is the parameter \<open>decode\<close>; the graph provider is a record of its two operations. A nil map
  entry of Go reads as the zero value. Logging is left out.
\<close>

section \<open>Tag names and schema fields\<close>

definition maxConceptFilters :: nat where "maxConceptFilters = 8"

definition slot_key :: "nat \<Rightarrow> string" where
  "slot_key n = conceptTagPrefix @ dec n"

definition conceptTagFields :: "(string \<times> string) list" where
  "conceptTagFields = map (\<lambda>i. (slot_key i, ''concepts'')) [0 ..< maxConceptFilters]"

definition plain_field :: "string \<Rightarrow> string \<Rightarrow> ts_field" where
  "plain_field n t = \<lparr>fd_name = n, fd_type = t, fd_facet = False, fd_optional = False, fd_num_dim = 0,
     fd_vec_metric = []\<rparr>"

definition ensureConceptsField :: "schema \<Rightarrow> schema" where
  "ensureConceptsField sch = (if list_ex (\<lambda>f. fd_name f = ''concepts'') (sch_fields sch) then sch
     else sch\<lparr>sch_fields := sch_fields sch @ [(plain_field ''concepts'' ''string[]'')\<lparr>fd_optional := True\<rparr>]\<rparr>)"

section \<open>Rate-limited warnings\<close>

text \<open>Times are nanoseconds; \<open>prev\<close> is what the load saw and \<open>cur\<close> what the compare-and-swap finds.\<close>

definition noGraphWarnEvery :: int where "noGraphWarnEvery = 60 * 1000000000"

definition warning_allow :: "int \<Rightarrow> int \<Rightarrow> int \<Rightarrow> bool \<times> int" where
  "warning_allow now prev cur =
     (if prev \<noteq> 0 \<and> now - prev < noGraphWarnEvery then (False, cur)
      else if cur = prev then (True, now) else (False, cur))"

section \<open>Trust and options\<close>

record Trust =
  tr_Concordances :: "string list"
  tr_Authors :: "string list"

datatype nip19_data = EntityPointer kind pubkey string | PubKeyData pubkey | OtherData

type_synonym nip19_decode = "string \<Rightarrow> error + string \<times> nip19_data"

record expandOptions =
  eo_off :: bool
  eo_related :: bool
  eo_concordances :: "string list"
  eo_authors :: "string list"

definition no_options :: expandOptions where
  "no_options = \<lparr>eo_off = False, eo_related = False, eo_concordances = [], eo_authors = []\<rparr>"

definition parse_option :: "lib \<Rightarrow> nip19_decode \<Rightarrow> string \<Rightarrow> expandOptions \<Rightarrow> expandOptions" where
  "parse_option L decode value opts =
     (if value = ''off'' then opts\<lparr>eo_off := True\<rparr>
      else if value = ''related'' then opts\<lparr>eo_related := True\<rparr>
      else case decode value of
        Inl _ \<Rightarrow> opts
      | Inr (prefix, data) \<Rightarrow>
          if prefix = ''naddr'' then
            (case data of EntityPointer k pk i \<Rightarrow>
               if k = KindConcordance
               then opts\<lparr>eo_concordances := eo_concordances opts @ [coord_str k (pk_hex L pk) i]\<rparr> else opts
             | _ \<Rightarrow> opts)
          else if prefix = ''npub'' then
            (case data of PubKeyData pk \<Rightarrow> opts\<lparr>eo_authors := eo_authors opts @ [pk_hex L pk]\<rparr> | _ \<Rightarrow> opts)
          else opts)"

definition options_trust :: "expandOptions \<Rightarrow> Trust \<Rightarrow> Trust" where
  "options_trust o' defaults =
     \<lparr>tr_Concordances = (if length (eo_concordances o') > 0 then eo_concordances o' else tr_Concordances defaults),
      tr_Authors = eo_authors o'\<rparr>"

section \<open>Concept keys\<close>

definition conceptBases :: "string set" where
  "conceptBases = {''educationalLevel'', ''about'', ''learningResourceType'', ''audience''}"

definition isConceptKey :: "string \<Rightarrow> char \<Rightarrow> bool" where
  "isConceptKey key sep = (let parts = split_all sep key in
     if length parts = 2 then parts ! 1 = ''id'' \<and> parts ! 0 \<in> conceptBases
     else length parts = 4 \<and> parts ! 0 = ''ext'' \<and> parts ! 1 \<noteq> [] \<and> parts ! 2 \<noteq> [] \<and> parts ! 3 = ''id'')"

section \<open>The search tokenizer\<close>

lemma cut_length: "cut c s = (a, Some b) \<Longrightarrow> length b < length s"
  by (drule cut_Some) simp

text \<open>The inner loop from a position inside a token: the rest of the token and what follows it.\<close>

function (sequential) token_body :: "string \<Rightarrow> string \<times> string" where
  "token_body [] = ([], [])"
| "token_body (c # s) =
     (if c = CHR '' '' then ([], c # s)
      else if c = CHR 0x22 then (case cut CHR 0x22 s of
          (a, Some b) \<Rightarrow> (case token_body b of (t, r) \<Rightarrow> (c # a @ CHR 0x22 # t, r))
        | (a, None) \<Rightarrow> (case token_body s of (t, r) \<Rightarrow> (c # t, r)))
      else (case token_body s of (t, r) \<Rightarrow> (c # t, r)))"
  by pat_completeness auto
termination
  by (relation "measure length") (auto dest: cut_length [OF sym])

text \<open>One token from its first character on: a phrase ends with its closing quote.\<close>

definition next_token :: "string \<Rightarrow> string \<times> string" where
  "next_token s = (case s of
     c # r \<Rightarrow> if c = CHR 0x22 then (case cut CHR 0x22 r of
         (a, Some b) \<Rightarrow> (c # a @ [CHR 0x22], b)
       | (a, None) \<Rightarrow> token_body s)
       else token_body s
   | [] \<Rightarrow> ([], []))"

lemma token_body_split: "token_body s = (t, r) \<Longrightarrow> s = t @ r"
proof (induction s arbitrary: t r rule: token_body.induct)
  case (2 c s)
  then show ?case by (auto split: if_splits prod.splits option.splits dest!: cut_Some)
qed simp

lemma next_token_split: "next_token s = (t, r) \<Longrightarrow> s = t @ r"
  by (auto simp: next_token_def split: list.splits if_splits prod.splits option.splits
      dest!: cut_Some token_body_split)

lemma next_token_nonempty:
  "next_token (c # s) = (t, r) \<Longrightarrow> c \<noteq> CHR '' '' \<Longrightarrow> \<exists>t'. t = c # t'"
  by (auto simp: next_token_def split: if_splits prod.splits option.splits)

lemma next_token_shorter:
  "next_token (c # s) = (t, r) \<Longrightarrow> c \<noteq> CHR '' '' \<Longrightarrow> length r \<le> length s"
  using next_token_nonempty [of c s t r] next_token_split [of "c # s" t r] by auto

function searchTokens :: "string \<Rightarrow> string list" where
  "searchTokens s = (case dropWhile (\<lambda>c. c = CHR '' '') s of
     [] \<Rightarrow> []
   | c # r \<Rightarrow> (case next_token (c # r) of (t, rest) \<Rightarrow> t # searchTokens rest))"
  by pat_completeness auto
termination
proof (relation "measure length")
  fix s t rest c r
  assume d: "dropWhile (\<lambda>c. c = CHR '' '') s = c # r" and n: "(t, rest) = next_token (c # r)"
  from d have "c \<noteq> CHR '' ''" using hd_dropWhile [of "\<lambda>c. c = CHR '' ''" s] by simp
  then have "length rest \<le> length r" using next_token_shorter [OF n [symmetric]] by simp
  moreover have "length (c # r) \<le> length s" using length_dropWhile_le [of "\<lambda>c. c = CHR '' ''" s] d by simp
  ultimately show "(rest, s) \<in> measure length" by simp
qed simp

declare searchTokens.simps [simp del]

text \<open>Go's \<open>strings.Trim\<close> with one character.\<close>

definition trim_char :: "char \<Rightarrow> string \<Rightarrow> string" where
  "trim_char c s = rev (dropWhile (\<lambda>x. x = c) (rev (dropWhile (\<lambda>x. x = c) s)))"

definition fieldToken :: "string \<Rightarrow> (string \<times> string) option" where
  "fieldToken tok =
     (if has_prefix tok [CHR 0x22] then None
      else case cut CHR '':'' tok of
        (field, Some rest) \<Rightarrow>
          if field = [] then None
          else let value = trim_char CHR 0x22 rest in if value = [] then None else Some (field, value)
      | (_, None) \<Rightarrow> None)"

definition onlyAMB :: "kind list \<Rightarrow> bool" where
  "onlyAMB ks \<longleftrightarrow> (if length ks = 0 then False else list_all (\<lambda>k. k = 30142) ks)"

section \<open>Rewriting a query\<close>

text \<open>\<open>expandValues\<close> with a running list: what is in it is what \<open>seen\<close> holds.\<close>

definition expandValues :: "Graph \<Rightarrow> string list \<Rightarrow> bool \<Rightarrow> string list \<times> bool" where
  "expandValues g values related = (
     let out = dedup_from (\<lambda>v. v) {} values;
         added = dedup_from (\<lambda>v. v) (set out) (concat (map (\<lambda>v. fst (Expand g v related)) values))
     in (out @ added, added \<noteq> []))"

record token =
  tk_raw :: string
  tk_field :: string
  tk_value :: string

text \<open>The first loop: the tokens kept, the options and whether an \<open>expand:\<close> token was taken out.\<close>

fun scan_tokens :: "lib \<Rightarrow> nip19_decode \<Rightarrow> string list \<Rightarrow> token list \<times> expandOptions \<times> bool \<Rightarrow>
    token list \<times> expandOptions \<times> bool" where
  "scan_tokens L decode [] st = st"
| "scan_tokens L decode (raw # raws) (toks, opts, stripped) = (case fieldToken raw of
     Some (field, value) \<Rightarrow>
       if field = ''expand'' then scan_tokens L decode raws (toks, parse_option L decode value opts, True)
       else scan_tokens L decode raws (toks @ [\<lparr>tk_raw = raw, tk_field = field, tk_value = value\<rparr>], opts, stripped)
   | None \<Rightarrow> scan_tokens L decode raws (toks @ [\<lparr>tk_raw = raw, tk_field = [], tk_value = []\<rparr>], opts, stripped))"

definition field_base :: "string \<Rightarrow> string" where
  "field_base field = fst (cut CHR ''.'' field)"

definition fieldsByBase :: "token list \<Rightarrow> string \<Rightarrow> string set" where
  "fieldsByBase toks base = set (List.filter (\<lambda>f. f \<noteq> [] \<and> field_base f = base) (map tk_field toks))"

definition join_tokens :: "token list \<Rightarrow> string set \<Rightarrow> string" where
  "join_tokens toks drop' = join '' '' (map tk_raw (List.filter (\<lambda>t. tk_field t \<notin> drop' \<or> tk_field t = []) toks))"

record group =
  gr_tag :: string
  gr_field :: string
  gr_values :: "string list"

definition tag_groups :: "filter \<Rightarrow> group list" where
  "tag_groups f = map (\<lambda>name. \<lparr>gr_tag = name, gr_field = [], gr_values = the (map_of (f_tags f) name)\<rparr>)
     (sort (List.filter (\<lambda>name. isConceptKey name CHR '':'') (map fst (f_tags f))))"

definition groupable :: "token list \<Rightarrow> token \<Rightarrow> bool" where
  "groupable toks t \<longleftrightarrow> \<not> (tk_field t = [] \<or> \<not> isConceptKey (tk_field t) CHR ''.'' \<or>
     card (fieldsByBase toks (field_base (tk_field t))) \<noteq> 1)"

fun field_groups :: "token list \<Rightarrow> token list \<Rightarrow> (string \<Rightarrow> nat option) \<Rightarrow> group list \<Rightarrow> group list" where
  "field_groups toks [] seenField groups = groups"
| "field_groups toks (t # ts) seenField groups =
     (if \<not> groupable toks t then field_groups toks ts seenField groups
      else case seenField (tk_field t) of
        Some i \<Rightarrow> field_groups toks ts seenField
          (groups[i := (groups ! i)\<lparr>gr_values := gr_values (groups ! i) @ [tk_value t]\<rparr>])
      | None \<Rightarrow> field_groups toks ts (seenField(tk_field t \<mapsto> length groups))
          (groups @ [\<lparr>gr_tag = [], gr_field = tk_field t, gr_values = [tk_value t]\<rparr>]))"

type_synonym tagmap = "(string \<times> string list) list"

function free_slot :: "tagmap \<Rightarrow> nat \<Rightarrow> nat" where
  "free_slot tags slot = (if slot < maxConceptFilters \<and> map_of tags (slot_key slot) \<noteq> None
     then free_slot tags (Suc slot) else slot)"
  by pat_completeness auto
termination
  by (relation "measure (\<lambda>(_, slot). maxConceptFilters - slot)") auto

declare free_slot.simps [simp del]

fun write_groups :: "Graph \<Rightarrow> bool \<Rightarrow> group list \<Rightarrow> nat \<Rightarrow> tagmap \<times> string set \<times> bool \<Rightarrow> tagmap \<times> string set \<times> bool" where
  "write_groups g related [] slot st = st"
| "write_groups g related (gr # grs) slot (tags, dropFields, written) =
     (case expandValues g (gr_values gr) related of
       (expanded, False) \<Rightarrow> write_groups g related grs slot (tags, dropFields, written)
     | (expanded, True) \<Rightarrow>
         let n = free_slot tags slot in
         if n \<ge> maxConceptFilters then (tags, dropFields, written)
         else let tags1 = AList.update (slot_key n) expanded tags in
           if gr_tag gr \<noteq> [] then write_groups g related grs (Suc n) (AList.delete (gr_tag gr) tags1, dropFields, True)
           else write_groups g related grs (Suc n) (tags1, insert (gr_field gr) dropFields, True))"

record 'w graphProvider =
  gp_Defaults :: Trust
  gp_Graph :: "Trust \<Rightarrow> 'w \<Rightarrow> Graph option \<times> 'w"

definition expandConceptFilters :: "lib \<Rightarrow> nip19_decode \<Rightarrow> filter \<Rightarrow> 'w graphProvider option \<Rightarrow> 'w \<Rightarrow> filter \<times> 'w" where
  "expandConceptFilters L decode f reg w =
     (case scan_tokens L decode (searchTokens (f_search f)) ([], no_options, False) of
       (toks, opts, stripped) \<Rightarrow>
         let out = (if stripped then f\<lparr>f_search := join_tokens toks {}\<rparr> else f) in
         case reg of
           None \<Rightarrow> (out, w)
         | Some p \<Rightarrow>
             if eo_off opts \<or> \<not> onlyAMB (f_kinds f) then (out, w)
             else let groups = field_groups toks toks (\<lambda>_. None) (tag_groups f) in
               if length groups = 0 then (out, w)
               else case gp_Graph p (options_trust opts (gp_Defaults p)) w of
                 (None, w') \<Rightarrow> (out, w')
               | (Some g, w') \<Rightarrow> (case write_groups g (eo_related opts) groups 0 (f_tags f, {}, False) of
                   (tags, dropFields, written) \<Rightarrow>
                     if \<not> written then (out, w')
                     else let out1 = out\<lparr>f_tags := tags\<rparr> in
                       ((if dropFields \<noteq> {} then out1\<lparr>f_search := join_tokens toks dropFields\<rparr> else out1), w')))"

section \<open>Configuration\<close>

definition is_space :: "char \<Rightarrow> bool" where
  "is_space c \<longleftrightarrow> c = CHR '' '' \<or> c = CHR 0x09 \<or> c = CHR 0x0A \<or> c = CHR 0x0B \<or> c = CHR 0x0C \<or> c = CHR 0x0D"

text \<open>\<open>strings.TrimSpace\<close> on ASCII.\<close>

definition trim_space :: "string \<Rightarrow> string" where
  "trim_space s = rev (dropWhile is_space (rev (dropWhile is_space s)))"

definition split_list :: "string \<Rightarrow> string list" where
  "split_list s = List.filter (\<lambda>r. r \<noteq> []) (map trim_space (split_all CHR '','' s))"

definition concordance_entry :: "lib \<Rightarrow> nip19_decode \<Rightarrow> string \<Rightarrow> string option" where
  "concordance_entry L decode raw = (case decode raw of
     Inr (prefix, EntityPointer k pk i) \<Rightarrow>
       if prefix \<noteq> ''naddr'' \<or> k \<noteq> KindConcordance then None else Some (coord_str k (pk_hex L pk) i)
   | _ \<Rightarrow> None)"

definition defaultExpandRelay :: string where "defaultExpandRelay = ''wss://relay.edufeed.org''"
definition defaultExpandRefresh :: int where "defaultExpandRefresh = 10 * 60 * 1000000000"

text \<open>\<open>time.ParseDuration\<close> is the parameter \<open>parse_duration\<close>.\<close>

definition conceptExpansionConfig :: "lib \<Rightarrow> nip19_decode \<Rightarrow> (string \<Rightarrow> int option) \<Rightarrow> (string \<Rightarrow> string) \<Rightarrow>
    string list \<times> Trust \<times> int \<times> bool" where
  "conceptExpansionConfig L decode parse_duration getenv = (
     let concordances = List.map_filter (concordance_entry L decode) (split_list (getenv ''EXPAND_CONCORDANCES''));
         relays = split_list (getenv ''EXPAND_READ_RELAYS'');
         raw = getenv ''EXPAND_REFRESH_INTERVAL''
     in (if length relays = 0 then [defaultExpandRelay] else relays,
         \<lparr>tr_Concordances = concordances, tr_Authors = []\<rparr>,
         (if raw = [] then defaultExpandRefresh
          else case parse_duration raw of
            Some d \<Rightarrow> if d > 0 then d else defaultExpandRefresh
          | None \<Rightarrow> defaultExpandRefresh),
         getenv ''EXPAND_DEBUG'' = ''true''))"

section \<open>Tokens survive being joined again\<close>

text \<open>A token is found again when followed by a separator, as long as no quote appears after one that
  found no partner: \<open>u\<close> may hold quotes only if what followed before did.\<close>

definition follows :: "string \<Rightarrow> string \<Rightarrow> bool" where
  "follows u r \<longleftrightarrow> (u = [] \<or> hd u = CHR '' '') \<and> (CHR 0x22 \<in> set u \<longrightarrow> CHR 0x22 \<in> set r)"

lemma token_body_follow: "token_body u = ([], u)" if "u = [] \<or> hd u = CHR '' ''"
  using that by (cases u) auto

lemma token_body_refind: "token_body s = (t, r) \<Longrightarrow> follows u r \<Longrightarrow> token_body (t @ u) = (t, u)"
proof (induction s arbitrary: t r rule: token_body.induct)
  case 1
  then show ?case by (auto simp: follows_def token_body_follow)
next
  case (2 c s)
  consider "c = CHR '' ''" | a b where "c = CHR 0x22" "cut CHR 0x22 s = (a, Some b)"
    | "c = CHR 0x22" "CHR 0x22 \<notin> set s" | "c \<noteq> CHR '' ''" "c \<noteq> CHR 0x22"
    by (metis cut_None surj_pair not_None_eq)
  then show ?case
  proof cases
    case 1
    with 2 show ?thesis by (auto simp: follows_def token_body_follow)
  next
    case (2 a b)
    from \<open>cut CHR 0x22 s = (a, Some b)\<close> have nq: "CHR 0x22 \<notin> set a" by (simp add: cut_Some)
    obtain t' where t': "token_body b = (t', r)" "t = c # a @ CHR 0x22 # t'"
      using 2 "2.prems"(1) by (auto split: prod.splits)
    have "token_body (t' @ u) = (t', u)"
      using "2.IH"(2) [OF _ _ 2(2) [symmetric] refl t'(1) "2.prems"(2)] 2(1) by simp
    with t'(2) 2(1) nq show ?thesis by (simp add: cut_append)
  next
    case 3
    then obtain t' where t': "token_body s = (t', r)" "t = c # t'"
      using "2.prems"(1) by (auto simp: cut_absent split: prod.splits)
    from token_body_split [OF t'(1)] 3(2) "2.prems"(2) have nq: "CHR 0x22 \<notin> set (t' @ u)"
      by (auto simp: follows_def)
    have "token_body (t' @ u) = (t', u)"
      using 3 t'(1) "2.prems"(2) "2.IH"(1) by (simp add: cut_absent)
    with t'(2) 3(1) nq show ?thesis by (simp add: cut_absent)
  next
    case 4
    then obtain t' where t': "token_body s = (t', r)" "t = c # t'"
      using "2.prems"(1) by (auto split: prod.splits)
    with 4 "2.IH"(3) "2.prems"(2) show ?thesis by simp
  qed
qed

lemma next_token_refind: "next_token s = (t, r) \<Longrightarrow> s \<noteq> [] \<Longrightarrow> follows u r \<Longrightarrow> next_token (t @ u) = (t, u)"
proof (cases s)
  case (Cons c s')
  assume n: "next_token s = (t, r)" and f: "follows u r"
  show ?thesis
  proof (cases "c = CHR 0x22 \<and> CHR 0x22 \<in> set s'")
    case True
    then obtain a b where "cut CHR 0x22 s' = (a, Some b)" by (metis cut_None surj_pair not_None_eq)
    with n True show ?thesis
      by (auto simp: next_token_def Cons cut_append dest: cut_Some)
  next
    case False
    then have b: "token_body s = (t, r)" using n by (auto simp: next_token_def Cons cut_absent split: if_splits)
    note tb = token_body_refind [OF b f]
    show ?thesis
    proof (cases t)
      case Nil
      with f show ?thesis by (auto simp: next_token_def follows_def token_body_follow split: list.splits)
    next
      case (Cons d t')
      then have d: "d = c" "s' = t' @ r" using token_body_split [OF b] \<open>s = c # s'\<close> by auto
      have "c = CHR 0x22 \<Longrightarrow> CHR 0x22 \<notin> set (t' @ u)" using False d f by (auto simp: follows_def)
      then show ?thesis using tb by (auto simp: next_token_def Cons d cut_absent)
    qed
  qed
qed simp

lemma searchTokens_Nil [simp]: "searchTokens [] = []"
  by (simp add: searchTokens.simps)

lemma searchTokens_space [simp]: "searchTokens (CHR '' '' # s) = searchTokens s"
  by (subst (1 2) searchTokens.simps) simp

lemma searchTokens_token: "c \<noteq> CHR '' '' \<Longrightarrow> next_token (c # s) = (t, r) \<Longrightarrow> searchTokens (c # s) = t # searchTokens r"
  by (subst searchTokens.simps) simp

lemma dropWhile_suffix: "\<exists>u. s = u @ dropWhile P s"
  by (metis takeWhile_dropWhile_id)

lemma searchTokens_chars: "t \<in> set (searchTokens s) \<Longrightarrow> set t \<subseteq> set s"
proof (induction s arbitrary: t rule: searchTokens.induct)
  case (1 s)
  show ?case
  proof (cases "dropWhile (\<lambda>c. c = CHR '' '') s")
    case Nil
    have "searchTokens s = []" by (subst searchTokens.simps) (simp only: Nil list.case)
    with 1(2) show ?thesis by simp
  next
    case (Cons c r)
    obtain t' rest where n: "next_token (c # r) = (t', rest)" by fastforce
    have sub: "set t' \<union> set rest \<subseteq> set s"
      using next_token_split [OF n] dropWhile_suffix [of s "\<lambda>c. c = CHR '' ''"] Cons
      by (metis set_append sup_ge2)
    from 1(2) have "t = t' \<or> t \<in> set (searchTokens rest)"
      by (subst (asm) searchTokens.simps) (simp add: Cons n)
    with 1(1) [OF Cons n [symmetric]] sub show ?thesis by auto
  qed
qed

lemma join_set: "set (join sep ts) \<subseteq> set sep \<union> (\<Union>t \<in> set ts. set t)"
  by (induction sep ts rule: join.induct) auto

lemma rejoin: "searchTokens (join '' '' (List.filter P (searchTokens s))) = List.filter P (searchTokens s)"
proof (induction s rule: searchTokens.induct)
  case (1 s)
  show ?case
  proof (cases "dropWhile (\<lambda>c. c = CHR '' '') s")
    case Nil
    have "searchTokens s = []" by (subst searchTokens.simps) (simp only: Nil list.case)
    then show ?thesis by simp
  next
    case (Cons c r)
    obtain t rest where n: "next_token (c # r) = (t, rest)" by fastforce
    have st: "searchTokens s = t # searchTokens rest" by (subst searchTokens.simps) (simp add: Cons n)
    note IH = 1 [OF Cons n [symmetric]]
    have c: "c \<noteq> CHR '' ''" using Cons hd_dropWhile [of "\<lambda>c. c = CHR '' ''" s] by simp
    from next_token_nonempty [OF n c] obtain t' where t': "t = c # t'" by blast
    let ?ts = "List.filter P (searchTokens rest)"
    let ?u = "if ?ts = [] then [] else CHR '' '' # join '' '' ?ts"
    have "set (join '' '' ?ts) \<subseteq> insert (CHR '' '') (set rest)"
      using join_set [of "'' ''" ?ts] searchTokens_chars [of _ rest] by fastforce
    then have "follows ?u rest" by (auto simp: follows_def)
    then have nu: "next_token (c # t' @ ?u) = (t, ?u)"
      using next_token_refind [OF n] t' by simp
    have "join '' '' (t # ?ts) = c # t' @ ?u" by (cases ?ts) (simp_all add: t')
    then have "searchTokens (join '' '' (t # ?ts)) = t # searchTokens ?u"
      using searchTokens_token [OF c nu] by (simp add: t')
    also have "searchTokens ?u = ?ts" using IH by simp
    finally show ?thesis using IH by (simp add: st)
  qed
qed

section \<open>What the rewriting writes\<close>

lemma expandValues_set: "expandValues g vs related = (ws, changed) \<Longrightarrow> set vs \<subseteq> set ws"
  by (auto simp: expandValues_def Let_def dedup_from_set)

definition mk_token :: "string \<Rightarrow> token" where
  "mk_token raw = (case fieldToken raw of
     Some (field, value) \<Rightarrow> \<lparr>tk_raw = raw, tk_field = field, tk_value = value\<rparr>
   | None \<Rightarrow> \<lparr>tk_raw = raw, tk_field = [], tk_value = []\<rparr>)"

definition is_expand :: "string \<Rightarrow> bool" where
  "is_expand raw \<longleftrightarrow> (case fieldToken raw of Some (field, _) \<Rightarrow> field = ''expand'' | None \<Rightarrow> False)"

lemma tk_raw_mk [simp]: "tk_raw (mk_token raw) = raw"
  by (simp add: mk_token_def split: option.split)

lemma fieldToken_nonempty: "fieldToken raw = Some (field, v) \<Longrightarrow> field \<noteq> []"
  by (auto simp: fieldToken_def Let_def split: if_splits prod.splits option.splits)

lemma mk_token_field: "tk_field (mk_token raw) \<noteq> [] \<Longrightarrow>
    fieldToken raw = Some (tk_field (mk_token raw), tk_value (mk_token raw))"
  by (auto simp: mk_token_def split: option.splits)

lemma scan_tokens_eq:
  "\<exists>opts'. scan_tokens L decode raws (toks, opts, stripped) =
     (toks @ map mk_token (List.filter (\<lambda>r. \<not> is_expand r) raws), opts', stripped \<or> list_ex is_expand raws)"
proof (induction raws arbitrary: toks opts stripped)
  case (Cons raw raws)
  show ?case
  proof (cases "is_expand raw")
    case True
    then obtain v where "fieldToken raw = Some (''expand'', v)" by (auto simp: is_expand_def split: option.splits)
    with True Cons.IH [of toks "parse_option L decode v opts" True] show ?thesis by simp
  next
    case False
    then have "scan_tokens L decode (raw # raws) (toks, opts, stripped) =
        scan_tokens L decode raws (toks @ [mk_token raw], opts, stripped)"
      by (auto simp: is_expand_def mk_token_def split: option.splits)
    with False Cons.IH [of "toks @ [mk_token raw]" opts stripped] show ?thesis by simp
  qed
qed simp

lemma map_raw_join:
  "join_tokens (map mk_token raws) D =
     join '' '' (List.filter (\<lambda>r. tk_field (mk_token r) \<notin> D \<or> tk_field (mk_token r) = []) raws)"
  by (simp add: join_tokens_def filter_map o_def)

lemma slot_key_inject [simp]: "slot_key m = slot_key n \<longleftrightarrow> m = n"
  by (simp add: slot_key_def)

lemma free_slot_props:
  "slot \<le> free_slot tags slot"
  "free_slot tags slot < maxConceptFilters \<Longrightarrow> map_of tags (slot_key (free_slot tags slot)) = None"
proof (induction tags slot rule: free_slot.induct)
  case (1 tags slot)
  {
    case 1
    then show ?case using "1.IH"(1) by (subst free_slot.simps) auto
  next
    case 2
    then show ?case using "1.IH"(2) by (subst (asm) free_slot.simps, subst free_slot.simps) (auto split: if_splits)
  }
qed

lemma split_all_none: "c \<notin> set s \<Longrightarrow> split_all c s = [s]"
  by (cases s) (auto simp: split_all_def cut_absent)

lemma slot_key_plain: "\<not> isConceptKey (slot_key n) CHR '':''"
proof -
  have "CHR '':'' \<notin> set (slot_key n)" by (simp add: slot_key_def conceptTagPrefix_def)
  then show ?thesis by (simp add: isConceptKey_def split_all_none)
qed

lemma Nil_plain: "\<not> isConceptKey [] c"
  by (simp add: isConceptKey_def split_all_none)

text \<open>Values that a slot of \<open>T\<close>, free in the original tags \<open>O'\<close>, covers.\<close>

definition covered :: "tagmap \<Rightarrow> tagmap \<Rightarrow> string list \<Rightarrow> bool" where
  "covered O' T vs \<longleftrightarrow> (\<exists>n < maxConceptFilters. \<exists>ws. map_of O' (slot_key n) = None \<and>
     map_of T (slot_key n) = Some ws \<and> set vs \<subseteq> set ws)"

definition write_ok :: "tagmap \<Rightarrow> group list \<Rightarrow> nat \<Rightarrow> tagmap \<Rightarrow> string set \<Rightarrow> bool" where
  "write_ok O' grs slot T D \<longleftrightarrow>
     (\<forall>n \<ge> slot. map_of T (slot_key n) = map_of O' (slot_key n)) \<and>
     (\<forall>name vs. map_of O' name = Some vs \<longrightarrow>
        map_of T name = Some vs \<or> isConceptKey name CHR '':'' \<and> covered O' T vs) \<and>
     (\<forall>fd \<in> D. \<exists>gr \<in> set grs. gr_tag gr = [] \<and> gr_field gr = fd \<and> covered O' T (gr_values gr))"

definition groups_of_tags :: "tagmap \<Rightarrow> group list \<Rightarrow> bool" where
  "groups_of_tags O' grs \<longleftrightarrow> (\<forall>gr \<in> set grs. gr_tag gr \<noteq> [] \<longrightarrow>
     isConceptKey (gr_tag gr) CHR '':'' \<and> map_of O' (gr_tag gr) = Some (gr_values gr))"

lemma covered_update:
  assumes "covered O' T vs" and "map_of T (slot_key n) = None"
  shows "covered O' (AList.update (slot_key n) ws T) vs"
proof -
  from assms(1) obtain m us where m: "m < maxConceptFilters" "map_of O' (slot_key m) = None"
    "map_of T (slot_key m) = Some us" "set vs \<subseteq> set us" unfolding covered_def by blast
  with assms(2) have "m \<noteq> n" by auto
  with m show ?thesis unfolding covered_def by (intro exI [of _ m]) (simp add: update_conv')
qed

lemma covered_delete:
  assumes "covered O' T vs" and "isConceptKey k CHR '':''"
  shows "covered O' (AList.delete k T) vs"
proof -
  have "slot_key m \<noteq> k" for m using assms(2) slot_key_plain by auto
  with assms(1) show ?thesis by (auto simp: covered_def delete_conv')
qed

text \<open>The state after the expansion of one group has been put into the free slot \<open>n\<close>: for a group from the search string, and
  for one from a tag, which is then removed.\<close>

lemma write_ok_slot:
  assumes "write_ok O' all slot T D" and "slot \<le> n" and "n < maxConceptFilters" and "map_of T (slot_key n) = None"
    and "set (gr_values gr) \<subseteq> set ws"
  shows "write_ok O' all (Suc n) (AList.update (slot_key n) ws T) D" and "covered O' (AList.update (slot_key n) ws T) (gr_values gr)"
proof -
  note W = assms(1) [unfolded write_ok_def]
  have freeO: "map_of O' (slot_key n) = None" using W assms(2,4) by metis
  with assms(3,5) show "covered O' (AList.update (slot_key n) ws T) (gr_values gr)" by (auto simp: covered_def update_conv')
  have "map_of (AList.update (slot_key n) ws T) (slot_key m) = map_of O' (slot_key m)" if "m \<ge> Suc n" for m
    using that W assms(2) by (simp add: update_conv')
  moreover have "map_of (AList.update (slot_key n) ws T) name = map_of T name" if "map_of T name \<noteq> None" for name
    using that assms(4) by (auto simp: update_conv')
  moreover have "covered O' T vs \<Longrightarrow> covered O' (AList.update (slot_key n) ws T) vs" for vs using covered_update assms(4) by blast
  ultimately show "write_ok O' all (Suc n) (AList.update (slot_key n) ws T) D"
    unfolding write_ok_def using W by (intro conjI) (blast, metis option.distinct(1), blast)
qed

lemma write_ok_delete:
  assumes "write_ok O' all slot T D" and "isConceptKey key CHR '':''" and "map_of O' key = Some vs" and "covered O' T vs"
  shows "write_ok O' all slot (AList.delete key T) D"
proof -
  note W = assms(1) [unfolded write_ok_def]
  have ne: "slot_key m \<noteq> key" for m using assms(2) slot_key_plain [of m] by auto
  have del: "covered O' T us \<Longrightarrow> covered O' (AList.delete key T) us" for us using covered_delete assms(2) by blast
  have "map_of (AList.delete key T) (slot_key m) = map_of O' (slot_key m)" if "m \<ge> slot" for m
    using that W ne by (simp add: delete_conv')
  moreover have "map_of (AList.delete key T) name = Some us \<or> isConceptKey name CHR '':'' \<and> covered O' (AList.delete key T) us"
    if "map_of O' name = Some us" for name us
    using that W assms(2-4) del by (cases "name = key") (auto simp: delete_conv')
  ultimately show ?thesis unfolding write_ok_def using W del by blast
qed

lemma write_groups_ok:
  assumes "write_groups g related grs slot (T, D, wr) = (T', D', wr')"
    and "write_ok O' all slot T D" and "groups_of_tags O' grs" and "set grs \<subseteq> set all"
  shows "\<exists>slot'. write_ok O' all slot' T' D'"
  using assms
proof (induction grs arbitrary: slot T D wr)
  case Nil
  then show ?case by auto
next
  case (Cons gr grs)
  obtain ws changed where e: "expandValues g (gr_values gr) related = (ws, changed)" by fastforce
  have gt: "groups_of_tags O' grs" and sub: "set grs \<subseteq> set all" and gr: "gr \<in> set all"
    using Cons.prems by (auto simp: groups_of_tags_def)
  let ?n = "free_slot T slot"
  show ?case
  proof (cases "changed \<and> ?n < maxConceptFilters")
    case False
    with Cons gt sub e show ?thesis by (cases changed) (auto simp: Let_def)
  next
    case True
    have free: "map_of T (slot_key ?n) = None" and le: "slot \<le> ?n"
      using free_slot_props True by auto
    let ?T1 = "AList.update (slot_key ?n) ws T"
    have sub_ws: "set (gr_values gr) \<subseteq> set ws" using expandValues_set [OF e] by auto
    note ok1 = write_ok_slot [OF Cons.prems(2) le _ free sub_ws]
    show ?thesis
    proof (cases "gr_tag gr = []")
      case True
      have "write_ok O' all (Suc ?n) ?T1 (insert (gr_field gr) D)"
        using ok1 gr True \<open>changed \<and> ?n < maxConceptFilters\<close> unfolding write_ok_def by blast
      from Cons.IH [OF _ this gt sub] show ?thesis
        using Cons.prems(1) e \<open>changed \<and> ?n < maxConceptFilters\<close> True by (simp add: Let_def)
    next
      case False
      then have "isConceptKey (gr_tag gr) CHR '':''" and "map_of O' (gr_tag gr) = Some (gr_values gr)"
        using Cons.prems(3) by (auto simp: groups_of_tags_def)
      from write_ok_delete [OF ok1(1) this ok1(2)] \<open>changed \<and> ?n < maxConceptFilters\<close>
      have "write_ok O' all (Suc ?n) (AList.delete (gr_tag gr) ?T1) D" by blast
      from Cons.IH [OF _ this gt sub] show ?thesis
        using Cons.prems(1) e \<open>changed \<and> ?n < maxConceptFilters\<close> False by (simp add: Let_def)
    qed
  qed
qed

section \<open>What is grouped\<close>

definition groups_ok :: "token list \<Rightarrow> token list \<Rightarrow> (string \<Rightarrow> nat option) \<Rightarrow> group list \<Rightarrow> bool" where
  "groups_ok toks pre seen groups \<longleftrightarrow>
     (\<forall>fd i. seen fd = Some i \<longrightarrow> i < length groups \<and> gr_tag (groups ! i) = [] \<and> gr_field (groups ! i) = fd \<and>
        isConceptKey fd CHR ''.'' \<and> card (fieldsByBase toks (field_base fd)) = 1 \<and> fd \<noteq> []) \<and>
     (\<forall>i < length groups. gr_tag (groups ! i) = [] \<longrightarrow> seen (gr_field (groups ! i)) = Some i) \<and>
     (\<forall>t \<in> set pre. groupable toks t \<longrightarrow>
        (\<exists>i. seen (tk_field t) = Some i \<and> tk_value t \<in> set (gr_values (groups ! i))))"

lemma groups_ok_step_new:
  assumes "groups_ok toks pre seen groups" and "groupable toks t" and "seen (tk_field t) = None"
  shows "groups_ok toks (pre @ [t]) (seen(tk_field t \<mapsto> length groups))
    (groups @ [\<lparr>gr_tag = [], gr_field = tk_field t, gr_values = [tk_value t]\<rparr>])"
proof -
  let ?g = "\<lparr>gr_tag = [], gr_field = tk_field t, gr_values = [tk_value t]\<rparr>"
  let ?s = "seen(tk_field t \<mapsto> length groups)"
  note G = assms(1) [unfolded groups_ok_def]
  have t: "isConceptKey (tk_field t) CHR ''.''" "card (fieldsByBase toks (field_base (tk_field t))) = 1" "tk_field t \<noteq> []"
    using assms(2) by (auto simp: groupable_def)
  have 1: "i < length (groups @ [?g]) \<and> gr_tag ((groups @ [?g]) ! i) = [] \<and> gr_field ((groups @ [?g]) ! i) = fd \<and>
      isConceptKey fd CHR ''.'' \<and> card (fieldsByBase toks (field_base fd)) = 1 \<and> fd \<noteq> []" if "?s fd = Some i" for fd i
  proof (cases "fd = tk_field t")
    case True
    with that t show ?thesis by auto
  next
    case False
    with that have "seen fd = Some i" by simp
    with G have "i < length groups" and "gr_tag (groups ! i) = [] \<and> gr_field (groups ! i) = fd \<and>
      isConceptKey fd CHR ''.'' \<and> card (fieldsByBase toks (field_base fd)) = 1 \<and> fd \<noteq> []" by blast+
    then show ?thesis by (simp add: nth_append)
  qed
  have 2: "?s (gr_field ((groups @ [?g]) ! i)) = Some i" if "i < length (groups @ [?g])" "gr_tag ((groups @ [?g]) ! i) = []" for i
  proof (cases "i < length groups")
    case True
    with that G have "seen (gr_field (groups ! i)) = Some i" by (simp add: nth_append)
    with True assms(3) show ?thesis by (auto simp: nth_append)
  next
    case False
    with that have "i = length groups" by simp
    then show ?thesis by simp
  qed
  have 3: "\<exists>i. ?s (tk_field u) = Some i \<and> tk_value u \<in> set (gr_values ((groups @ [?g]) ! i))"
    if "u \<in> set (pre @ [t])" "groupable toks u" for u
  proof (cases "tk_field u = tk_field t")
    case True
    with that G assms(3) have "u = t" by (auto; metis option.distinct(1))
    then show ?thesis by simp
  next
    case False
    with that G obtain i where "seen (tk_field u) = Some i" "tk_value u \<in> set (gr_values (groups ! i))" by auto
    with False G show ?thesis by (intro exI [of _ i]) (auto simp: nth_append)
  qed
  show ?thesis unfolding groups_ok_def using 1 2 3 by blast
qed

lemma groups_ok_step_old:
  assumes "groups_ok toks pre seen groups" and "groupable toks t" and "seen (tk_field t) = Some i"
  shows "groups_ok toks (pre @ [t]) seen
    (groups[i := (groups ! i)\<lparr>gr_values := gr_values (groups ! i) @ [tk_value t]\<rparr>])"
  using assms unfolding groups_ok_def
  by (auto simp: nth_list_update split: if_splits)

lemma groups_ok_skip: "groups_ok toks pre seen groups \<Longrightarrow> \<not> groupable toks t \<Longrightarrow> groups_ok toks (pre @ [t]) seen groups"
  by (auto simp: groups_ok_def)

lemma field_groups_ok:
  assumes "groups_ok toks pre seen groups"
  shows "\<exists>seen'. groups_ok toks (pre @ ts) seen' (field_groups toks ts seen groups)"
  using assms
proof (induction ts arbitrary: pre seen groups)
  case (Cons t ts)
  have step: "\<exists>seen'. groups_ok toks (pre @ t # ts) seen' (field_groups toks ts s g)"
    if "groups_ok toks (pre @ [t]) s g" for s g
    using Cons.IH [OF that] by simp
  show ?case
  proof (cases "groupable toks t")
    case False
    then show ?thesis using step [OF groups_ok_skip [OF Cons.prems]] by simp
  next
    case g: True
    show ?thesis
    proof (cases "seen (tk_field t)")
      case None
      then show ?thesis using step [OF groups_ok_step_new [OF Cons.prems g None]] g by simp
    next
      case (Some i)
      then show ?thesis using step [OF groups_ok_step_old [OF Cons.prems g Some]] g by simp
    qed
  qed
qed auto

lemma update_untagged: "i < length xs \<Longrightarrow> \<not> P (xs ! i) \<Longrightarrow> \<not> P x \<Longrightarrow> {y \<in> set (xs[i := x]). P y} = {y \<in> set xs. P y}"
proof (induction xs arbitrary: i)
  case (Cons a xs)
  then show ?case by (cases i) auto
qed simp

lemma field_groups_tags:
  "\<forall>fd i. seen fd = Some i \<longrightarrow> i < length groups \<and> gr_tag (groups ! i) = [] \<Longrightarrow>
   {gr \<in> set (field_groups toks ts seen groups). gr_tag gr \<noteq> []} = {gr \<in> set groups. gr_tag gr \<noteq> []}"
proof (induction ts arbitrary: seen groups)
  case (Cons t ts)
  show ?case
  proof (cases "groupable toks t")
    case False
    with Cons show ?thesis by simp
  next
    case g: True
    show ?thesis
    proof (cases "seen (tk_field t)")
      case None
      have "\<forall>fd i. (seen(tk_field t \<mapsto> length groups)) fd = Some i \<longrightarrow>
          i < length (groups @ [\<lparr>gr_tag = [], gr_field = tk_field t, gr_values = [tk_value t]\<rparr>]) \<and>
          gr_tag ((groups @ [\<lparr>gr_tag = [], gr_field = tk_field t, gr_values = [tk_value t]\<rparr>]) ! i) = []"
      proof (intro allI impI)
        fix fd i
        assume "(seen(tk_field t \<mapsto> length groups)) fd = Some i"
        then have "i = length groups \<or> i < length groups \<and> gr_tag (groups ! i) = []"
          using Cons.prems by (cases "fd = tk_field t") auto
        then show "i < length (groups @ [\<lparr>gr_tag = [], gr_field = tk_field t, gr_values = [tk_value t]\<rparr>]) \<and>
          gr_tag ((groups @ [\<lparr>gr_tag = [], gr_field = tk_field t, gr_values = [tk_value t]\<rparr>]) ! i) = []"
          by (elim disjE) (simp_all add: nth_append)
      qed
      note IH = Cons.IH [OF this]
      have "{gr \<in> set (groups @ [\<lparr>gr_tag = [], gr_field = tk_field t, gr_values = [tk_value t]\<rparr>]). gr_tag gr \<noteq> []} =
          {gr \<in> set groups. gr_tag gr \<noteq> []}" by auto
      with IH have "{gr \<in> set (field_groups toks ts (seen(tk_field t \<mapsto> length groups))
            (groups @ [\<lparr>gr_tag = [], gr_field = tk_field t, gr_values = [tk_value t]\<rparr>])). gr_tag gr \<noteq> []} =
          {gr \<in> set groups. gr_tag gr \<noteq> []}" by (rule trans)
      then show ?thesis by (simp only: field_groups.simps None g not_True_eq_False if_False option.case)
    next
      case (Some i)
      let ?g = "groups[i := (groups ! i)\<lparr>gr_values := gr_values (groups ! i) @ [tk_value t]\<rparr>]"
      have i: "i < length groups" "gr_tag (groups ! i) = []" using Cons.prems Some by auto
      then have eq: "{gr \<in> set ?g. gr_tag gr \<noteq> []} = {gr \<in> set groups. gr_tag gr \<noteq> []}"
        by (intro update_untagged) simp_all
      have "\<forall>fd j. seen fd = Some j \<longrightarrow> j < length ?g \<and> gr_tag (?g ! j) = []"
        using Cons.prems i by (auto simp: nth_list_update)
      note IH = trans [OF Cons.IH [OF this] eq]
      then show ?thesis by (simp only: field_groups.simps Some g not_True_eq_False if_False option.case)
    qed
  qed
qed simp

definition query_groups :: "filter \<Rightarrow> token list \<Rightarrow> group list" where
  "query_groups f toks = field_groups toks toks (\<lambda>_. None) (tag_groups f)"

lemma tag_groups_tagged: "gr \<in> set (tag_groups f) \<Longrightarrow> gr_tag gr \<noteq> [] \<and> isConceptKey (gr_tag gr) CHR '':'' \<and>
    map_of (f_tags f) (gr_tag gr) = Some (gr_values gr)"
proof -
  assume "gr \<in> set (tag_groups f)"
  then obtain name where n: "name \<in> fst ` set (f_tags f)" "isConceptKey name CHR '':''"
    and gr: "gr = \<lparr>gr_tag = name, gr_field = [], gr_values = the (map_of (f_tags f) name)\<rparr>"
    by (auto simp: tag_groups_def)
  from n(1) obtain vs where "map_of (f_tags f) name = Some vs"
    by (metis map_of_eq_None_iff not_None_eq)
  with n(2) gr Nil_plain show ?thesis by auto
qed

lemma query_groups_tags: "groups_of_tags (f_tags f) (query_groups f toks)"
  using tag_groups_tagged [of _ f] field_groups_tags [of "\<lambda>_. None" "tag_groups f" toks toks]
  by (auto simp: groups_of_tags_def query_groups_def)

lemma query_groups_fields:
  assumes "gr \<in> set (query_groups f toks)" and "gr_tag gr = []"
  shows "isConceptKey (gr_field gr) CHR ''.''"
    and "t \<in> set toks \<Longrightarrow> tk_field t = gr_field gr \<Longrightarrow> tk_value t \<in> set (gr_values gr)"
proof -
  have "groups_ok toks [] (\<lambda>_. None) (tag_groups f)"
    using tag_groups_tagged [of _ f] by (auto simp: groups_ok_def)
  from field_groups_ok [OF this, of toks] obtain seen where G: "groups_ok toks toks seen (query_groups f toks)"
    by (auto simp: query_groups_def)
  obtain i where i: "i < length (query_groups f toks)" "gr = query_groups f toks ! i"
    using assms(1) by (metis in_set_conv_nth)
  with G assms(2) have s: "seen (gr_field gr) = Some i" by (auto simp: groups_ok_def)
  with G have f: "isConceptKey (gr_field gr) CHR ''.''" "card (fieldsByBase toks (field_base (gr_field gr))) = 1" "gr_field gr \<noteq> []"
    unfolding groups_ok_def by blast+
  then show "isConceptKey (gr_field gr) CHR ''.''" by simp
  assume t: "t \<in> set toks" "tk_field t = gr_field gr"
  then have "groupable toks t" using f by (simp add: groupable_def)
  with G t(1) obtain j where "seen (tk_field t) = Some j" "tk_value t \<in> set (gr_values (query_groups f toks ! j))"
    unfolding groups_ok_def by blast
  with s t(2) i(2) show "tk_value t \<in> set (gr_values gr)" by simp
qed

text \<open>The result of a query, in one form for all branches.\<close>

lemma expandConceptFilters_shape:
  obtains toks D T where
    "toks = map mk_token (List.filter (\<lambda>r. \<not> is_expand r) (searchTokens (f_search f)))"
    "fst (expandConceptFilters L decode f reg w) = f\<lparr>f_tags := T, f_search :=
       (if D \<noteq> {} \<or> list_ex is_expand (searchTokens (f_search f)) then join_tokens toks D else f_search f)\<rparr>"
    "\<exists>slot. write_ok (f_tags f) (query_groups f toks) slot T D"
proof -
  define toks where "toks = map mk_token (List.filter (\<lambda>r. \<not> is_expand r) (searchTokens (f_search f)))"
  let ?st = "list_ex is_expand (searchTokens (f_search f))"
  obtain opts where sc: "scan_tokens L decode (searchTokens (f_search f)) ([], no_options, False) = (toks, opts, ?st)"
    using scan_tokens_eq [of L decode "searchTokens (f_search f)" "[]" no_options False] by (auto simp: toks_def)
  have ok0: "write_ok (f_tags f) (query_groups f toks) 0 (f_tags f) {}" by (simp add: write_ok_def)
  let ?r = "fst (expandConceptFilters L decode f reg w)"
  let ?plain = "f\<lparr>f_search := if ?st then join_tokens toks {} else f_search f\<rparr>"
  show thesis
  proof (cases "?r = ?plain")
    case True
    then show thesis using that [OF toks_def, where T = "f_tags f" and D = "{}"] ok0 by auto
  next
    case False
    then obtain p g w' where p: "reg = Some p" "\<not> (eo_off opts \<or> \<not> onlyAMB (f_kinds f))" "query_groups f toks \<noteq> []"
      "gp_Graph p (options_trust opts (gp_Defaults p)) w = (Some g, w')"
      by (auto simp: expandConceptFilters_def sc query_groups_def Let_def split: option.splits if_splits prod.splits)
    obtain T D wr where wg: "write_groups g (eo_related opts) (query_groups f toks) 0 (f_tags f, {}, False) = (T, D, wr)"
      by (metis surj_pair)
    have "wr" using False p wg by (auto simp: expandConceptFilters_def sc query_groups_def Let_def split: if_splits)
    then have "?r = f\<lparr>f_tags := T, f_search := if D \<noteq> {} \<or> ?st then join_tokens toks D else f_search f\<rparr>"
      using p wg by (simp add: expandConceptFilters_def sc query_groups_def [symmetric] Let_def)
    then show thesis
      using that [OF toks_def] write_groups_ok [OF wg ok0 query_groups_tags subset_refl] by blast
  qed
qed

section \<open>Properties\<close>

text \<open>C17. Tokens kept from a search string are found again unchanged when they are joined by spaces: for
  every choice of tokens to keep, tokenizing the joined string gives back exactly the tokens kept.\<close>

theorem kept_tokens_rejoin:
  "searchTokens (join '' '' (List.filter P (searchTokens s))) = List.filter P (searchTokens s)"
  by (rule rejoin)

text \<open>C16. Expansion never narrows a query: apart from tags and search the filter is what it was; every tag
  is still there, unless it is a concept tag whose values are all values of a new \<open>concepts_<n>\<close> tag with n
  below eight; and every search token is still there, unless it is an \<open>expand:\<close> token or a concept field
  whose value is a value of such a tag.\<close>

theorem expansion_never_narrows:
  assumes "f' = fst (expandConceptFilters L decode f reg w)"
  shows "f' = f\<lparr>f_tags := f_tags f', f_search := f_search f'\<rparr> \<and>
    (\<forall>name vs. map_of (f_tags f) name = Some vs \<longrightarrow> map_of (f_tags f') name = Some vs \<or>
       isConceptKey name CHR '':'' \<and> covered (f_tags f) (f_tags f') vs) \<and>
    (\<forall>raw \<in> set (searchTokens (f_search f)). raw \<in> set (searchTokens (f_search f')) \<or>
       (\<exists>field v. fieldToken raw = Some (field, v) \<and> (field = ''expand'' \<or>
          isConceptKey field CHR ''.'' \<and> covered (f_tags f) (f_tags f') [v])))"
proof -
  obtain toks D T slot where toks: "toks = map mk_token (List.filter (\<lambda>r. \<not> is_expand r) (searchTokens (f_search f)))"
    and f': "f' = f\<lparr>f_tags := T, f_search :=
       (if D \<noteq> {} \<or> list_ex is_expand (searchTokens (f_search f)) then join_tokens toks D else f_search f)\<rparr>"
    and W: "write_ok (f_tags f) (query_groups f toks) slot T D"
    using expandConceptFilters_shape [of f L decode reg w] assms by metis
  have T: "f_tags f' = T" by (simp add: f')
  have tags: "map_of T name = Some vs \<or> isConceptKey name CHR '':'' \<and> covered (f_tags f) T vs"
    if "map_of (f_tags f) name = Some vs" for name vs
    using W that by (simp add: write_ok_def)
  have search: "raw \<in> set (searchTokens (f_search f')) \<or> (\<exists>field v. fieldToken raw = Some (field, v) \<and>
      (field = ''expand'' \<or> isConceptKey field CHR ''.'' \<and> covered (f_tags f) T [v]))"
    if raw: "raw \<in> set (searchTokens (f_search f))" for raw
  proof (cases "is_expand raw")
    case True
    then show ?thesis by (auto simp: is_expand_def split: option.splits)
  next
    case ne: False
    let ?t = "mk_token raw"
    show ?thesis
    proof (cases "tk_field ?t \<in> D \<and> tk_field ?t \<noteq> []")
      case True
      then obtain gr where gr: "gr \<in> set (query_groups f toks)" "gr_tag gr = []" "gr_field gr = tk_field ?t"
        "covered (f_tags f) T (gr_values gr)"
        using W unfolding write_ok_def by blast
      have "?t \<in> set toks" using raw ne by (simp add: toks)
      with gr query_groups_fields [OF gr(1,2)] have "isConceptKey (tk_field ?t) CHR ''.''" "covered (f_tags f) T [tk_value ?t]"
        by (auto simp: covered_def)
      moreover have "fieldToken raw = Some (tk_field ?t, tk_value ?t)" using mk_token_field True by blast
      ultimately show ?thesis by blast
    next
      case False
      then have "raw \<in> set (searchTokens (f_search f'))"
        using raw ne by (auto simp: f' toks map_raw_join rejoin)
      then show ?thesis ..
    qed
  qed
  from f' T tags search show ?thesis by simp
qed

definition demo_query :: filter where
  "demo_query = empty_filter\<lparr>f_kinds := [30142], f_tags := [(''about:id'', [''x''])],
     f_search := ''expand:related maths audience.id:z''\<rparr>"

definition demo_provider :: "unit graphProvider" where
  "demo_provider = \<lparr>gp_Defaults = \<lparr>tr_Concordances = [], tr_Authors = []\<rparr>,
     gp_Graph = (\<lambda>_ w. (Some (empty_graph\<lparr>g_exact := [(''x'', [''y''])]\<rparr>), w))\<rparr>"

lemma demo_expansion:
  "map_of (f_tags (fst (expandConceptFilters demo_lib (\<lambda>_. Inl []) demo_query (Some demo_provider) ()))) ''about:id'' = None"
  by code_simp

lemma expansion_never_narrows_witness:
  "covered (f_tags demo_query)
     (f_tags (fst (expandConceptFilters demo_lib (\<lambda>_. Inl []) demo_query (Some demo_provider) ()))) [''x'']"
proof -
  have "map_of (f_tags demo_query) ''about:id'' = Some [''x'']" by (simp add: demo_query_def)
  with expansion_never_narrows [where f = demo_query and L = demo_lib and decode = "\<lambda>_. Inl []" and
      reg = "Some demo_provider" and w = "()", OF refl] demo_expansion
  show ?thesis by (metis option.distinct(1))
qed

text \<open>No \<open>expand:\<close> token reaches the search engine, and nothing else of the search string changes but
  by whole tokens: the tokens of the resulting search are those tokens of the original that are kept, in
  their order.\<close>

theorem expand_tokens_are_stripped:
  "\<exists>P. searchTokens (f_search (fst (expandConceptFilters L decode f reg w))) = List.filter P (searchTokens (f_search f)) \<and>
     (\<forall>raw v. fieldToken raw = Some (''expand'', v) \<longrightarrow>
        raw \<notin> set (searchTokens (f_search (fst (expandConceptFilters L decode f reg w)))))"
proof -
  obtain toks D T where toks: "toks = map mk_token (List.filter (\<lambda>r. \<not> is_expand r) (searchTokens (f_search f)))"
    and f': "fst (expandConceptFilters L decode f reg w) = f\<lparr>f_tags := T, f_search :=
       (if D \<noteq> {} \<or> list_ex is_expand (searchTokens (f_search f)) then join_tokens toks D else f_search f)\<rparr>"
    using expandConceptFilters_shape [of f L decode reg w] by metis
  have ex: "is_expand raw" if "fieldToken raw = Some (''expand'', v)" for raw v using that by (simp add: is_expand_def)
  show ?thesis
  proof (cases "D \<noteq> {} \<or> list_ex is_expand (searchTokens (f_search f))")
    case True
    define P where "P = (\<lambda>r. \<not> is_expand r \<and> (tk_field (mk_token r) \<notin> D \<or> tk_field (mk_token r) = []))"
    have "searchTokens (f_search (fst (expandConceptFilters L decode f reg w))) = List.filter P (searchTokens (f_search f))"
      using True by (simp add: f' toks map_raw_join rejoin P_def conj_commute)
    then show ?thesis using ex by (intro exI [of _ P]) (auto simp: P_def)
  next
    case False
    then have "searchTokens (f_search (fst (expandConceptFilters L decode f reg w))) =
        List.filter (\<lambda>_. True) (searchTokens (f_search f))" by (simp add: f')
    with False ex show ?thesis by (intro exI [of _ "\<lambda>_. True"]) (auto simp: list_ex_iff)
  qed
qed

lemma expand_tokens_are_stripped_witness:
  "''expand:off'' \<notin> set (searchTokens (f_search (fst (expandConceptFilters demo_lib (\<lambda>_. Inl [])
     (empty_filter\<lparr>f_search := ''expand:off x''\<rparr>) (None :: unit graphProvider option) ()))))"
proof -
  have "fieldToken ''expand:off'' = Some (''expand'', ''off'')" by code_simp
  then show ?thesis using expand_tokens_are_stripped [where f = "empty_filter\<lparr>f_search := ''expand:off x''\<rparr>" and
      L = demo_lib and decode = "\<lambda>_. Inl []" and reg = "None :: unit graphProvider option" and w = "()"] by blast
qed

end
