(* ===== verification/ExpandRegistry.thy ===== *)
theory ExpandRegistry
  imports Expand
begin

text \<open>
  \<open>expand_registry.go\<close>: the registry of trusted mapping sources and the paging of a relay. Go's maps
  are association lists (their order is one order of iteration); the clock, the fetching source and
  the relay are parameters that act on the world \<open>'w\<close>. Times are nanoseconds. The operations under
  the registry's mutex are \<open>toLoad\<close>, \<open>markFailed\<close>, \<open>mr_store\<close> and \<open>graphFor\<close>; everything
  concurrent queries and refreshes do to the registry is an interleaving of these. The refresh loop
  repeats \<open>mr_refresh\<close>; \<open>fetchPage\<close> (connection handling) is the parameter of the paging loop.
\<close>

section \<open>Sources\<close>

definition mappingRetryAfter :: int where "mappingRetryAfter = 60 * 1000000000"
definition mappingOnDemandTimeout :: int where "mappingOnDemandTimeout = 3 * 1000000000"
definition maxOnDemandSources :: nat where "maxOnDemandSources = 32"
definition mappingPageSize :: nat where "mappingPageSize = 300"
definition maxOnDemandLoadsPerQuery :: nat where "maxOnDemandLoadsPerQuery = 4"
definition maxCachedGraphs :: nat where "maxCachedGraphs = 64"
definition maxFailedSources :: nat where "maxFailedSources = 1024"

definition sourceKeys :: "Trust \<Rightarrow> string list" where
  "sourceKeys t = sort (remdups (map (\<lambda>c. ''c:'' @ c) (tr_Concordances t) @ map (\<lambda>a. ''p:'' @ a) (tr_Authors t)))"

record 'w mappingSource =
  ms_Fetch :: "string list \<Rightarrow> filter \<Rightarrow> 'w \<Rightarrow> (error + event list) \<times> 'w"
  ms_now :: "'w \<Rightarrow> int"
  ms_ctx_err :: "'w \<Rightarrow> bool"

record sourceEntry =
  se_concepts :: "Concept list"
  se_mappings :: "Mapping list"
  se_lastUsed :: int

record MappingRegistry =
  mr_relays :: "string list"
  mr_defaults :: Trust
  mr_onDemandTimeout :: int
  mr_entries :: "(string \<times> sourceEntry) list"
  mr_failedAt :: "(string \<times> int) list"
  mr_graphs :: "(string \<times> Graph) list"

definition NewMappingRegistry :: "string list \<Rightarrow> Trust \<Rightarrow> MappingRegistry" where
  "NewMappingRegistry relays defaults = \<lparr>mr_relays = relays, mr_defaults = defaults,
     mr_onDemandTimeout = mappingOnDemandTimeout, mr_entries = [], mr_failedAt = [], mr_graphs = []\<rparr>"

definition isDefault :: "MappingRegistry \<Rightarrow> string \<Rightarrow> bool" where
  "isDefault r key \<longleftrightarrow> list_ex (\<lambda>k. k = key) (sourceKeys (mr_defaults r))"

section \<open>Operations under the mutex\<close>

definition toLoad :: "int \<Rightarrow> string list \<Rightarrow> MappingRegistry \<Rightarrow> string list" where
  "toLoad now keys r = List.filter (\<lambda>k.
     \<not> (map_of (mr_entries r) k \<noteq> None \<or> isDefault r k) \<and>
     \<not> (case map_of (mr_failedAt r) k of None \<Rightarrow> False | Some t \<Rightarrow> now - t < mappingRetryAfter)) keys"

text \<open>The key with the smallest time, the first one on ties; the empty string is Go's start value.\<close>

definition oldest_key :: "(string \<times> int) list \<Rightarrow> string" where
  "oldest_key m = fold (\<lambda>(k, t) oldest. if oldest = [] \<or> t < the (map_of m oldest) then k else oldest) m []"

lemma fold_pick: "fold (\<lambda>(k, t) oldest. if P oldest t then k else oldest) m o' \<in> insert o' (fst ` set m)"
proof (induction m arbitrary: o')
  case (Cons p m)
  then show ?case by (cases p) (force split: if_splits)
qed simp

lemma oldest_key_in:
  assumes "m \<noteq> []"
  shows "oldest_key m \<in> fst ` set m"
proof (cases m)
  case (Cons p m')
  then show ?thesis
    using fold_pick [of "\<lambda>oldest t. oldest = [] \<or> t < the (map_of m oldest)" m' "fst p"]
    by (cases p) (auto simp: oldest_key_def)
qed (use assms in simp)

lemma delete_shorter: "k \<in> fst ` set m \<Longrightarrow> length (AList.delete k m) < length m"
proof (induction m)
  case (Cons p m)
  have "length (AList.delete k m) \<le> length m" by (simp add: AList.delete_eq length_filter_le)
  with Cons show ?case by auto
qed simp

function evict_failed :: "(string \<times> int) list \<Rightarrow> (string \<times> int) list" where
  "evict_failed m = (if length m \<ge> maxFailedSources then evict_failed (AList.delete (oldest_key m) m) else m)"
  by pat_completeness auto
termination
  by (relation "measure length") (auto simp: maxFailedSources_def intro!: delete_shorter oldest_key_in)

declare evict_failed.simps [simp del]

definition markFailed :: "int \<Rightarrow> string \<Rightarrow> MappingRegistry \<Rightarrow> MappingRegistry" where
  "markFailed now key r = r\<lparr>mr_failedAt := AList.update key now
     (evict_failed (List.filter (\<lambda>(k, t). \<not> now - t \<ge> mappingRetryAfter) (mr_failedAt r)))\<rparr>"

definition on_demand :: "(string \<Rightarrow> bool) \<Rightarrow> (string \<times> sourceEntry) list \<Rightarrow> (string \<times> int) list" where
  "on_demand dflt entries = map (\<lambda>(k, e). (k, se_lastUsed e)) (List.filter (\<lambda>(k, _). \<not> dflt k) entries)"

function evict_sources :: "(string \<Rightarrow> bool) \<Rightarrow> (string \<times> sourceEntry) list \<Rightarrow> (string \<times> sourceEntry) list" where
  "evict_sources dflt entries =
     (let cands = on_demand dflt entries in
      if length cands \<le> maxOnDemandSources then entries
      else evict_sources dflt (AList.delete (oldest_key cands) entries))"
  by pat_completeness auto
termination
proof (relation "measure (length \<circ> snd)")
  fix dflt :: "string \<Rightarrow> bool" and entries :: "(string \<times> sourceEntry) list" and cands
  assume "cands = on_demand dflt entries" and "\<not> length cands \<le> maxOnDemandSources"
  then have "on_demand dflt entries \<noteq> []" by (auto simp: maxOnDemandSources_def)
  from oldest_key_in [OF this] have "oldest_key cands \<in> fst ` set entries"
    using \<open>cands = on_demand dflt entries\<close> by (force simp: on_demand_def)
  from delete_shorter [OF this]
  show "((dflt, AList.delete (oldest_key cands) entries), dflt, entries) \<in> measure (length \<circ> snd)" by simp
qed simp

declare evict_sources.simps [simp del]

definition mr_store :: "int \<Rightarrow> string \<Rightarrow> sourceEntry \<Rightarrow> MappingRegistry \<Rightarrow> MappingRegistry" where
  "mr_store now key e r = (
     let e1 = e\<lparr>se_lastUsed := (case map_of (mr_entries r) key of Some old \<Rightarrow> se_lastUsed old | None \<Rightarrow> now)\<rparr>
     in r\<lparr>mr_entries := evict_sources (isDefault r) (AList.update key e1 (mr_entries r)),
          mr_failedAt := AList.delete key (mr_failedAt r),
          mr_graphs := []\<rparr>)"

definition mapping_key :: "Mapping \<Rightarrow> string" where
  "mapping_key m = mp_Author m @ ''|'' @ mp_D m"

definition build_graph :: "sourceEntry list \<Rightarrow> Graph" where
  "build_graph present = NewGraph
     (dedup_from cn_Address {} (concat (map se_concepts present)))
     (dedup_from mapping_key {} (concat (map se_mappings present)))"

definition touch :: "int \<Rightarrow> string list \<Rightarrow> (string \<times> sourceEntry) list \<Rightarrow> (string \<times> sourceEntry) list" where
  "touch now keys entries = map (\<lambda>(k, e). (k, if k \<in> set keys then e\<lparr>se_lastUsed := now\<rparr> else e)) entries"

definition presentKeys :: "string list \<Rightarrow> MappingRegistry \<Rightarrow> string list" where
  "presentKeys keys r = List.filter (\<lambda>k. map_of (mr_entries r) k \<noteq> None) keys"

definition graphFor :: "int \<Rightarrow> string list \<Rightarrow> MappingRegistry \<Rightarrow> Graph option \<times> MappingRegistry" where
  "graphFor now keys r = (
     let present = presentKeys keys r;
         r1 = r\<lparr>mr_entries := touch now keys (mr_entries r)\<rparr>;
         cacheKey = join '','' present
     in if length present = 0 then (None, r1)
        else case map_of (mr_graphs r1) cacheKey of
          Some g \<Rightarrow> (Some g, r1)
        | None \<Rightarrow>
            let g = build_graph (map (\<lambda>k. the (map_of (mr_entries r1) k)) present);
                graphs = (if length (mr_graphs r1) \<ge> maxCachedGraphs then [] else mr_graphs r1)
            in (Some g, r1\<lparr>mr_graphs := AList.update cacheKey g graphs\<rparr>))"

section \<open>Loading a source\<close>

definition parseMappings :: "lib \<Rightarrow> (string \<Rightarrow> string) \<Rightarrow> event list \<Rightarrow> Mapping list" where
  "parseMappings L nfc evs = List.map_filter (ParseMapping L nfc) (LatestByAddress L evs)"

definition loadConcepts :: "lib \<Rightarrow> (string \<Rightarrow> string) \<Rightarrow> 'w mappingSource \<Rightarrow> string list \<Rightarrow> string list \<Rightarrow> 'w \<Rightarrow>
    (error + Concept list) \<times> 'w" where
  "loadConcepts L nfc src relays schemes w =
     (if length schemes = 0 then (Inr [], w)
      else case ms_Fetch src relays (empty_filter\<lparr>f_kinds := [KindConcept], f_tags := [(''a'', schemes)]\<rparr>) w of
        (Inl e, w') \<Rightarrow> (Inl e, w')
      | (Inr evs, w') \<Rightarrow>
          let out = List.map_filter (ParseConcept L nfc) (LatestByAddress L evs) in
          if length out = 0 then (Inl ''no concepts for schemes'', w') else (Inr out, w'))"

definition new_entry :: "Concept list \<Rightarrow> Mapping list \<Rightarrow> sourceEntry" where
  "new_entry cs ms = \<lparr>se_concepts = cs, se_mappings = ms, se_lastUsed = 0\<rparr>"

definition loadConcordance :: "lib \<Rightarrow> (string \<Rightarrow> string) \<Rightarrow> 'w mappingSource \<Rightarrow> string list \<Rightarrow> string \<Rightarrow> 'w \<Rightarrow>
    (error + sourceEntry) \<times> 'w" where
  "loadConcordance L nfc src relays addr w = (case split3 addr of
     None \<Rightarrow> (Inl (''not a concordance address: '' @ addr), w)
   | Some (k, p, d) \<Rightarrow>
       if k \<noteq> ''39741'' then (Inl (''not a concordance address: '' @ addr), w)
       else case pk_from_hex L p of
         Inl e \<Rightarrow> (Inl e, w)
       | Inr owner \<Rightarrow> (case ms_Fetch src relays (empty_filter\<lparr>f_kinds := [KindConcordance], f_authors := [owner],
             f_tags := [(''d'', [d])]\<rparr>) w of
           (Inl e, w1) \<Rightarrow> (Inl e, w1)
         | (Inr evs, w1) \<Rightarrow> (case LatestByAddress L evs of
             [] \<Rightarrow> (Inl ''concordance not found'', w1)
           | ev # _ \<Rightarrow> (case ParseConcordance L ev of
               None \<Rightarrow> (Inl ''invalid concordance event'', w1)
             | Some conc \<Rightarrow>
                 let authors = owner # List.map_filter (\<lambda>m. case pk_from_hex L m of Inl _ \<Rightarrow> None | Inr pk \<Rightarrow> Some pk)
                       (cc_Maintainers conc)
                 in case ms_Fetch src relays (empty_filter\<lparr>f_kinds := [KindMapping], f_authors := authors,
                     f_tags := [(''a'', [addr])]\<rparr>) w1 of
                   (Inl e, w2) \<Rightarrow> (Inl e, w2)
                 | (Inr mevs, w2) \<Rightarrow>
                     let members = Members conc (parseMappings L nfc mevs) in
                     if length members = 0 then (Inl ''concordance has no member mappings'', w2)
                     else case loadConcepts L nfc src relays (cc_Schemes conc) w2 of
                       (Inl e, w3) \<Rightarrow> (Inl e, w3)
                     | (Inr concepts, w3) \<Rightarrow> (Inr (new_entry concepts members), w3)))))"

definition loadAuthor :: "lib \<Rightarrow> (string \<Rightarrow> string) \<Rightarrow> 'w mappingSource \<Rightarrow> string list \<Rightarrow> string \<Rightarrow> 'w \<Rightarrow>
    (error + sourceEntry) \<times> 'w" where
  "loadAuthor L nfc src relays hexKey w = (case pk_from_hex L hexKey of
     Inl e \<Rightarrow> (Inl e, w)
   | Inr pk \<Rightarrow> (case ms_Fetch src relays (empty_filter\<lparr>f_kinds := [KindMapping], f_authors := [pk]\<rparr>) w of
       (Inl e, w1) \<Rightarrow> (Inl e, w1)
     | (Inr evs, w1) \<Rightarrow>
         let mappings = parseMappings L nfc evs in
         if length mappings = 0 then (Inl ''author has no mappings'', w1)
         else case loadConcepts L nfc src relays (dedup_from (\<lambda>s. s) {} (concat (map mp_Schemes mappings))) w1 of
           (Inl e, w2) \<Rightarrow> (Inl e, w2)
         | (Inr concepts, w2) \<Rightarrow> (Inr (new_entry concepts mappings), w2)))"

definition mr_load :: "lib \<Rightarrow> (string \<Rightarrow> string) \<Rightarrow> 'w mappingSource \<Rightarrow> string list \<Rightarrow> string \<Rightarrow> 'w \<Rightarrow>
    (error + sourceEntry) \<times> 'w" where
  "mr_load L nfc src relays key w = (case cut CHR '':'' key of (kind, rest) \<Rightarrow>
     let value = (case rest of None \<Rightarrow> [] | Some v \<Rightarrow> v) in
     if kind = ''c'' then loadConcordance L nfc src relays value w
     else if kind = ''p'' then loadAuthor L nfc src relays value w
     else (Inl (''unknown source '' @ key), w))"

section \<open>Serving a query and refreshing\<close>

text \<open>The loop over the sources to load; \<open>deadline\<close> is that of the shared timeout.\<close>

fun load_loop :: "lib \<Rightarrow> (string \<Rightarrow> string) \<Rightarrow> 'w mappingSource \<Rightarrow> int \<Rightarrow> string list \<Rightarrow> MappingRegistry \<times> 'w \<Rightarrow>
    MappingRegistry \<times> 'w" where
  "load_loop L nfc src deadline [] s = s"
| "load_loop L nfc src deadline (k # ks) (r, w) =
     (if ms_ctx_err src w \<or> ms_now src w \<ge> deadline then (r, w)
      else case mr_load L nfc src (mr_relays r) k w of
        (Inl _, w') \<Rightarrow> load_loop L nfc src deadline ks (markFailed (ms_now src w') k r, w')
      | (Inr e, w') \<Rightarrow> load_loop L nfc src deadline ks (mr_store (ms_now src w') k e r, w'))"

definition mr_Graph :: "lib \<Rightarrow> (string \<Rightarrow> string) \<Rightarrow> 'w mappingSource \<Rightarrow> Trust \<Rightarrow> MappingRegistry \<times> 'w \<Rightarrow>
    Graph option \<times> (MappingRegistry \<times> 'w)" where
  "mr_Graph L nfc src trust s = (case s of (r, w) \<Rightarrow>
     let keys = sourceKeys trust in
     if length keys = 0 then (None, (r, w))
     else let todo = take maxOnDemandLoadsPerQuery (toLoad (ms_now src w) keys r) in
       case (if length todo > 0 then load_loop L nfc src (ms_now src w + mr_onDemandTimeout r) todo (r, w) else (r, w)) of
         (r1, w1) \<Rightarrow> (case graphFor (ms_now src w1) keys r1 of (g, r2) \<Rightarrow> (g, (r2, w1))))"

fun refresh_keys :: "lib \<Rightarrow> (string \<Rightarrow> string) \<Rightarrow> 'w mappingSource \<Rightarrow> string list \<Rightarrow> MappingRegistry \<times> 'w \<Rightarrow>
    MappingRegistry \<times> 'w" where
  "refresh_keys L nfc src [] s = s"
| "refresh_keys L nfc src (k # ks) (r, w) = (case mr_load L nfc src (mr_relays r) k w of
     (Inl _, w') \<Rightarrow> refresh_keys L nfc src ks (r, w')
   | (Inr e, w') \<Rightarrow> refresh_keys L nfc src ks (mr_store (ms_now src w') k e r, w'))"

definition mr_refresh :: "lib \<Rightarrow> (string \<Rightarrow> string) \<Rightarrow> 'w mappingSource \<Rightarrow> MappingRegistry \<times> 'w \<Rightarrow> MappingRegistry \<times> 'w" where
  "mr_refresh L nfc src s = (case s of (r, w) \<Rightarrow>
     refresh_keys L nfc src (sourceKeys (mr_defaults r) @
       List.filter (\<lambda>k. \<not> isDefault r k) (map fst (mr_entries r))) (r, w))"

text \<open>The registry as the graph provider of the expander; its world holds the registry.\<close>

definition mapping_provider :: "lib \<Rightarrow> (string \<Rightarrow> string) \<Rightarrow> 'w mappingSource \<Rightarrow> Trust \<Rightarrow> (MappingRegistry \<times> 'w) graphProvider" where
  "mapping_provider L nfc src defaults =
     \<lparr>gp_Defaults = defaults, gp_Graph = mr_Graph L nfc src\<rparr>"

section \<open>Paging a relay\<close>

type_synonym byID = "(event_id \<times> event) list"

text \<open>One page: the oldest timestamp (0 at the start, as Go's zero value), how many ids are new to this
  relay, and the two sets of ids updated.\<close>

fun page_scan :: "event list \<Rightarrow> timestamp \<times> nat \<times> event_id set \<times> byID \<Rightarrow> timestamp \<times> nat \<times> event_id set \<times> byID" where
  "page_scan [] s = s"
| "page_scan (ev # evs) (oldest, new, seen, ids) = page_scan evs
     (if oldest = 0 \<or> ts_less (ev_created_at ev) oldest then ev_created_at ev else oldest,
      if ev_id ev \<in> seen then new else Suc new,
      insert (ev_id ev) seen, AList.update (ev_id ev) ev ids)"

definition show_int :: "int \<Rightarrow> string" where
  "show_int i = (if i < 0 then ''-'' @ dec (nat (- i)) else dec (nat i))"

type_synonym 'w pageFetcher = "string \<Rightarrow> filter \<Rightarrow> 'w \<Rightarrow> (error + event list) \<times> 'w"

partial_function (option) page_loop :: "'w pageFetcher \<Rightarrow> string \<Rightarrow> filter \<Rightarrow> event_id set \<Rightarrow> timestamp \<Rightarrow> byID \<Rightarrow> 'w \<Rightarrow>
    (error option \<times> byID \<times> 'w) option" where
  "page_loop fetch url f seen until ids w =
     (case fetch url (f\<lparr>f_limit := int mappingPageSize, f_until := until\<rparr>) w of
       (Inl e, w') \<Rightarrow> Some (Some (url @ '': '' @ e), ids, w')
     | (Inr evs, w') \<Rightarrow> (case page_scan evs (0, 0, seen, ids) of (oldest, new, seen', ids') \<Rightarrow>
         if length evs < mappingPageSize then Some (None, ids', w')
         else if new = 0 then
           Some (Some (url @ '': more than '' @ dec mappingPageSize @ '' events share created_at '' @
             show_int (sint oldest)), ids', w')
         else page_loop fetch url f seen' oldest ids' w'))"

definition pageRelay :: "'w pageFetcher \<Rightarrow> string \<Rightarrow> filter \<Rightarrow> byID \<Rightarrow> 'w \<Rightarrow> (error option \<times> byID \<times> 'w) option" where
  "pageRelay fetch url f ids w = page_loop fetch url f {} 0 ids w"

fun fetch_relays :: "'w pageFetcher \<Rightarrow> string list \<Rightarrow> filter \<Rightarrow> byID \<Rightarrow> 'w \<Rightarrow> ((error + event list) \<times> 'w) option" where
  "fetch_relays fetch [] f ids w = Some (Inr (map snd ids), w)"
| "fetch_relays fetch (url # urls) f ids w = (case pageRelay fetch url f ids w of
     None \<Rightarrow> None
   | Some (Some e, _, w') \<Rightarrow> Some (Inl e, w')
   | Some (None, ids', w') \<Rightarrow> fetch_relays fetch urls f ids' w')"

definition pool_Fetch :: "'w pageFetcher \<Rightarrow> string list \<Rightarrow> filter \<Rightarrow> 'w \<Rightarrow> ((error + event list) \<times> 'w) option" where
  "pool_Fetch fetch relays f w = fetch_relays fetch relays f [] w"

section \<open>The reachable registries\<close>

inductive mreg_reach :: "string list \<Rightarrow> Trust \<Rightarrow> MappingRegistry \<Rightarrow> bool" for relays defaults where
  new: "mreg_reach relays defaults (NewMappingRegistry relays defaults)"
| stored: "mreg_reach relays defaults r \<Longrightarrow> mreg_reach relays defaults (mr_store now k e r)"
| failed: "mreg_reach relays defaults r \<Longrightarrow> mreg_reach relays defaults (markFailed now k r)"
| asked: "mreg_reach relays defaults r \<Longrightarrow> mreg_reach relays defaults (snd (graphFor now keys r))"

lemma load_loop_reach: "mreg_reach relays defaults r \<Longrightarrow>
    mreg_reach relays defaults (fst (load_loop L nfc src deadline ks (r, w)))"
  by (induction ks arbitrary: r w) (auto intro: mreg_reach.intros split: prod.split sum.split)

lemma refresh_keys_reach: "mreg_reach relays defaults r \<Longrightarrow>
    mreg_reach relays defaults (fst (refresh_keys L nfc src ks (r, w)))"
  by (induction ks arbitrary: r w) (auto intro: mreg_reach.intros split: prod.split sum.split)

lemma mr_refresh_reach: "mreg_reach relays defaults r \<Longrightarrow> mreg_reach relays defaults (fst (mr_refresh L nfc src (r, w)))"
  by (simp add: mr_refresh_def refresh_keys_reach)

lemma mr_Graph_reach:
  assumes "mreg_reach relays defaults r"
  shows "mreg_reach relays defaults (fst (snd (mr_Graph L nfc src trust (r, w))))"
proof -
  let ?todo = "take maxOnDemandLoadsPerQuery (toLoad (ms_now src w) (sourceKeys trust) r)"
  obtain r1 w1 where s1: "(if length ?todo > 0 then load_loop L nfc src (ms_now src w + mr_onDemandTimeout r) ?todo (r, w)
      else (r, w)) = (r1, w1)" by fastforce
  have "mreg_reach relays defaults r1"
    using assms load_loop_reach [OF assms, of L nfc src _ ?todo w] s1 by (metis fst_conv)
  then have "mreg_reach relays defaults (snd (graphFor (ms_now src w1) (sourceKeys trust) r1))"
    by (rule mreg_reach.asked)
  moreover have "mr_Graph L nfc src trust (r, w) = (if length (sourceKeys trust) = 0 then (None, (r, w))
      else case graphFor (ms_now src w1) (sourceKeys trust) r1 of (g, r2) \<Rightarrow> (g, (r2, w1)))"
    unfolding mr_Graph_def Let_def prod.case s1 ..
  ultimately show ?thesis using assms by (simp split: prod.split) (metis snd_conv)
qed

text \<open>Bounds on everything a client's choice of sources can grow.\<close>

lemma evict_sources_small: "length (on_demand dflt entries) \<le> maxOnDemandSources \<Longrightarrow> evict_sources dflt entries = entries"
  by (subst evict_sources.simps) (simp add: Let_def)

lemma evict_sources_bound: "length (on_demand dflt (evict_sources dflt entries)) \<le> maxOnDemandSources"
proof (induction dflt entries rule: evict_sources.induct)
  case (1 dflt entries)
  then show ?case by (subst evict_sources.simps) (simp add: Let_def)
qed

lemma evict_sources_delete:
  "map_of (evict_sources dflt entries) k = None \<or> map_of (evict_sources dflt entries) k = map_of entries k"
proof (induction dflt entries rule: evict_sources.induct)
  case (1 dflt entries)
  show ?case
  proof (cases "length (on_demand dflt entries) \<le> maxOnDemandSources")
    case True
    then show ?thesis by (subst (1 2) evict_sources.simps) (simp add: Let_def)
  next
    case False
    let ?es = "AList.delete (oldest_key (on_demand dflt entries)) entries"
    have "evict_sources dflt entries = evict_sources dflt ?es"
      using False by (subst evict_sources.simps) (simp add: Let_def)
    with 1 [OF refl False] show ?thesis by (auto simp: delete_conv' split: if_splits)
  qed
qed

lemma on_demand_touch: "length (on_demand dflt (touch now keys entries)) = length (on_demand dflt entries)"
  by (induction entries) (auto simp: on_demand_def touch_def)

lemma evict_failed_bound: "length (evict_failed m) < maxFailedSources"
proof (induction m rule: evict_failed.induct)
  case (1 m)
  then show ?case by (subst evict_failed.simps) simp
qed

lemma length_update_le: "length (AList.update k v m) \<le> Suc (length m)"
  by (induction m) auto

lemma mr_defaults_ops [simp]:
  "mr_defaults (mr_store now k e r) = mr_defaults r"
  "mr_defaults (markFailed now k r) = mr_defaults r"
  "mr_defaults (snd (graphFor now keys r)) = mr_defaults r"
  by (simp_all add: mr_store_def markFailed_def graphFor_def Let_def split: option.split)

lemma isDefault_cong: "mr_defaults r = mr_defaults r' \<Longrightarrow> isDefault r = isDefault r'"
  by (simp add: isDefault_def fun_eq_iff)

definition mreg_bounded :: "MappingRegistry \<Rightarrow> bool" where
  "mreg_bounded r \<longleftrightarrow> length (on_demand (isDefault r) (mr_entries r)) \<le> maxOnDemandSources \<and>
     length (mr_failedAt r) \<le> maxFailedSources \<and> length (mr_graphs r) \<le> maxCachedGraphs"

lemma bounded_store: "mreg_bounded r \<Longrightarrow> mreg_bounded (mr_store now k e r)"
  using isDefault_cong [OF mr_defaults_ops(1), of now k e r]
  by (auto simp: mreg_bounded_def mr_store_def Let_def evict_sources_bound AList.delete_eq intro: le_trans [OF length_filter_le])

lemma bounded_failed: "mreg_bounded r \<Longrightarrow> mreg_bounded (markFailed now k r)"
  using isDefault_cong [OF mr_defaults_ops(2), of now k r]
    le_trans [OF length_update_le Suc_leI [OF evict_failed_bound]]
  by (auto simp: mreg_bounded_def markFailed_def)

lemma graphFor_fields:
  "mr_entries (snd (graphFor now keys r)) = touch now keys (mr_entries r)"
  "mr_failedAt (snd (graphFor now keys r)) = mr_failedAt r"
  by (simp_all add: graphFor_def Let_def split: option.split)

lemma graphFor_graphs: "length (mr_graphs r) \<le> maxCachedGraphs \<Longrightarrow>
    length (mr_graphs (snd (graphFor now keys r))) \<le> maxCachedGraphs"
proof -
  assume b: "length (mr_graphs r) \<le> maxCachedGraphs"
  show ?thesis
  proof (cases "length (mr_graphs r) \<ge> maxCachedGraphs")
    case True
    with b show ?thesis by (simp add: graphFor_def Let_def maxCachedGraphs_def split: option.split)
  next
    case False
    then have "length (AList.update k v (mr_graphs r)) \<le> maxCachedGraphs" for k v
      using length_update_le [of k v "mr_graphs r"] by linarith
    with b False show ?thesis by (simp add: graphFor_def Let_def split: option.split)
  qed
qed

lemma bounded_asked: "mreg_bounded r \<Longrightarrow> mreg_bounded (snd (graphFor now keys r))"
  using isDefault_cong [OF mr_defaults_ops(3), of now keys r]
  by (simp add: mreg_bounded_def graphFor_fields on_demand_touch graphFor_graphs)

lemma reach_bounded: "mreg_reach relays defaults r \<Longrightarrow> mreg_bounded r"
  by (induction rule: mreg_reach.induct)
    (simp_all add: bounded_store bounded_failed bounded_asked,
     simp add: mreg_bounded_def NewMappingRegistry_def on_demand_def maxOnDemandSources_def)

text \<open>The cached graphs are those of the entries they were built from.\<close>

definition entries_of :: "MappingRegistry \<Rightarrow> string list \<Rightarrow> sourceEntry list" where
  "entries_of r ks = map (\<lambda>k. the (map_of (mr_entries r) k)) ks"

definition graph_of :: "MappingRegistry \<Rightarrow> string list \<Rightarrow> Graph" where
  "graph_of r ks = build_graph (entries_of r ks)"

definition cache_ok :: "MappingRegistry \<Rightarrow> bool" where
  "cache_ok r \<longleftrightarrow> (\<forall>ck g. map_of (mr_graphs r) ck = Some g \<longrightarrow> (\<exists>ks. ks \<noteq> [] \<and>
     set ks \<subseteq> dom (map_of (mr_entries r)) \<and> ck = join '','' ks \<and> g = graph_of r ks))"

lemma map_of_touch: "map_of (touch now keys entries) k =
    map_option (\<lambda>e. if k \<in> set keys then e\<lparr>se_lastUsed := now\<rparr> else e) (map_of entries k)"
  by (induction entries) (auto simp: touch_def)

lemma build_graph_cong:
  assumes "map se_concepts es = map se_concepts es'" and "map se_mappings es = map se_mappings es'"
  shows "build_graph es = build_graph es'"
  using assms by (simp add: build_graph_def)

lemma graph_of_touch:
  assumes "set ks \<subseteq> dom (map_of (mr_entries r))" and "mr_entries r' = touch now keys (mr_entries r)"
  shows "graph_of r' ks = graph_of r ks"
proof -
  have "se_concepts (the (map_of (mr_entries r') k)) = se_concepts (the (map_of (mr_entries r) k)) \<and>
      se_mappings (the (map_of (mr_entries r') k)) = se_mappings (the (map_of (mr_entries r) k))" if "k \<in> set ks" for k
    using assms that by (auto simp: map_of_touch dom_def)
  then show ?thesis unfolding graph_of_def entries_of_def by (intro build_graph_cong) simp_all
qed

lemma dom_touch: "dom (map_of (touch now keys entries)) = dom (map_of entries)"
  by (auto simp: map_of_touch dom_def)

lemma graphFor_result:
  "fst (graphFor now keys r) = (let ks = presentKeys keys r in
     if ks = [] then None else case map_of (mr_graphs r) (join '','' ks) of
       Some g \<Rightarrow> Some g | None \<Rightarrow> Some (graph_of (snd (graphFor now keys r)) ks))"
  by (simp add: graphFor_def Let_def graph_of_def entries_of_def split: option.split)

lemma presentKeys_dom: "set (presentKeys keys r) \<subseteq> dom (map_of (mr_entries r))"
  by (auto simp: presentKeys_def)

lemma graphFor_new_graph:
  "map_of (mr_graphs (snd (graphFor now keys r))) ck = Some g \<Longrightarrow>
     map_of (mr_graphs r) ck = Some g \<or> presentKeys keys r \<noteq> [] \<and> ck = join '','' (presentKeys keys r) \<and>
       g = graph_of (snd (graphFor now keys r)) (presentKeys keys r)"
  by (auto simp: graphFor_def Let_def graph_of_def entries_of_def update_conv' split: option.splits if_splits)

lemma cache_asked:
  assumes "cache_ok r"
  shows "cache_ok (snd (graphFor now keys r))"
  unfolding cache_ok_def
proof (intro allI impI)
  fix ck g
  let ?r = "snd (graphFor now keys r)"
  assume "map_of (mr_graphs ?r) ck = Some g"
  from graphFor_new_graph [OF this]
  show "\<exists>ks. ks \<noteq> [] \<and> set ks \<subseteq> dom (map_of (mr_entries ?r)) \<and> ck = join '','' ks \<and> g = graph_of ?r ks"
  proof
    assume "map_of (mr_graphs r) ck = Some g"
    with assms obtain ks where "ks \<noteq> []" "set ks \<subseteq> dom (map_of (mr_entries r))" "ck = join '','' ks" "g = graph_of r ks"
      unfolding cache_ok_def by blast
    with graph_of_touch [OF _ graphFor_fields(1), of ks r now keys] show ?thesis
      by (intro exI [of _ ks]) (simp add: graphFor_fields dom_touch)
  next
    assume "presentKeys keys r \<noteq> [] \<and> ck = join '','' (presentKeys keys r) \<and> g = graph_of ?r (presentKeys keys r)"
    then show ?thesis using presentKeys_dom by (intro exI [of _ "presentKeys keys r"]) (simp add: graphFor_fields dom_touch)
  qed
qed

lemma reach_cache: "mreg_reach relays defaults r \<Longrightarrow> cache_ok r"
proof (induction rule: mreg_reach.induct)
  case (failed r now k)
  then show ?case by (simp add: cache_ok_def markFailed_def graph_of_def entries_of_def)
qed (simp_all add: cache_asked, simp_all add: cache_ok_def NewMappingRegistry_def mr_store_def Let_def)

lemma join_comma_inject:
  "ks \<noteq> [] \<Longrightarrow> ks' \<noteq> [] \<Longrightarrow> \<forall>k \<in> set ks \<union> set ks'. CHR '','' \<notin> set k \<Longrightarrow> join '','' ks = join '','' ks' \<Longrightarrow> ks = ks'"
proof (induction ks arbitrary: ks')
  case (Cons k ks)
  obtain k' us where k': "ks' = k' # us" using Cons.prems(2) by (cases ks') auto
  have cutj: "cut CHR '','' (join '','' (a # as)) = (a, if as = [] then None else Some (join '','' as))"
    if "CHR '','' \<notin> set a" for a as
    using that by (cases as) (simp_all add: cut_absent cut_append)
  have "(k, if ks = [] then None else Some (join '','' ks)) = (k', if us = [] then None else Some (join '','' us))"
    using cutj [of k ks] cutj [of k' us] Cons.prems k' by simp
  then show ?case using Cons.IH [of us] Cons.prems k' by (auto split: if_splits)
qed simp

section \<open>One page\<close>

lemma page_scan_seen: "page_scan evs (old, n, seen, ids) = (old', n', seen', ids') \<Longrightarrow> seen' = seen \<union> ev_id ` set evs"
proof (induction evs arbitrary: old n seen ids)
  case (Cons ev evs)
  then have "seen' = insert (ev_id ev) seen \<union> ev_id ` set evs" by (auto simp del: Un_insert_left dest: Cons.IH)
  then show ?case by simp
qed simp

lemma page_scan_new: "page_scan evs (old, n, seen, ids) = (old', n', seen', ids') \<Longrightarrow>
    n' = 0 \<longleftrightarrow> n = 0 \<and> ev_id ` set evs \<subseteq> seen"
  by (induction evs arbitrary: old n seen ids) (auto split: if_splits)

lemma page_scan_other: "page_scan evs (old, n, seen, ids) = (old', n', seen', ids') \<Longrightarrow> i \<notin> ev_id ` set evs \<Longrightarrow>
    map_of ids' i = map_of ids i"
  by (induction evs arbitrary: old n seen ids) (auto simp: update_conv')

lemma page_scan_stored: "page_scan evs (old, n, seen, ids) = (old', n', seen', ids') \<Longrightarrow> inj_on ev_id (set evs) \<Longrightarrow>
    e \<in> set evs \<Longrightarrow> map_of ids' (ev_id e) = Some e"
proof (induction evs arbitrary: old n seen ids)
  case (Cons ev evs)
  show ?case
  proof (cases "e \<in> set evs")
    case True
    with Cons show ?thesis by (auto split: if_splits)
  next
    case False
    with Cons.prems have e: "e = ev" by simp
    with False Cons.prems(2) have "ev_id e \<notin> ev_id ` set evs" by (auto simp: inj_on_def)
    from page_scan_other [OF _ this] Cons.prems(1) show ?thesis by (auto simp: e update_conv' split: if_splits)
  qed
qed simp

lemma page_scan_distinct: "page_scan evs (old, n, seen, ids) = (old', n', seen', ids') \<Longrightarrow> distinct (map fst ids) \<Longrightarrow>
    distinct (map fst ids')"
  by (induction evs arbitrary: old n seen ids) (auto simp: distinct_update split: if_splits)

lemma page_scan_oldest:
  assumes "page_scan evs (old, n, seen, ids) = (old', n', seen', ids')" and "\<forall>e \<in> set evs. 0 < sint (ev_created_at e)"
  shows "(old' = old \<or> old' \<in> ev_created_at ` set evs) \<and> (old \<noteq> 0 \<longrightarrow> ts_le old' old) \<and>
    (\<forall>e \<in> set evs. ts_le old' (ev_created_at e)) \<and> (evs \<noteq> [] \<and> 0 \<le> sint old \<longrightarrow> 0 < sint old')"
  using assms
proof (induction evs arbitrary: old n seen ids)
  case (Cons ev evs)
  let ?o = "if old = 0 \<or> ts_less (ev_created_at ev) old then ev_created_at ev else old"
  obtain m where step: "page_scan evs (?o, m, insert (ev_id ev) seen, AList.update (ev_id ev) ev ids) = (old', n', seen', ids')"
    using Cons.prems by simp
  have pos: "0 < sint (ev_created_at ev)" and posr: "\<forall>e \<in> set evs. 0 < sint (ev_created_at e)" using Cons.prems by auto
  have o0: "?o \<noteq> 0" using pos by auto
  have oe: "?o = old \<or> ?o = ev_created_at ev" "ts_le ?o (ev_created_at ev)" "old \<noteq> 0 \<Longrightarrow> ts_le ?o old" by auto
  have op: "0 < sint ?o" if "0 \<le> sint old"
  proof (cases "old = 0")
    case False
    then have "sint old \<noteq> 0" by (metis ts_eq_iff sint_0)
    with that pos show ?thesis by auto
  qed (use pos in simp)
  note IH = Cons.IH [OF step posr]
  have "old' = old \<or> old' \<in> ev_created_at ` set (ev # evs)" using IH oe(1) by auto
  moreover have le: "ts_le old' ?o" using IH o0 by blast
  then have "ts_le old' (ev_created_at ev)" and "old \<noteq> 0 \<longrightarrow> ts_le old' old" using oe(2,3) by linarith+
  moreover have "0 < sint old'" if "0 \<le> sint old"
    using IH op [OF that] posr by (cases "evs = []") auto
  ultimately show ?case using IH by simp
qed simp

section \<open>A relay that serves a set of events\<close>

definition upto_ts :: "event set \<Rightarrow> timestamp \<Rightarrow> event set" where
  "upto_ts R until = {e \<in> R. until = 0 \<or> ts_le (ev_created_at e) until}"

text \<open>The contract of a relay (NIP-01): it holds finitely many matching events with positive timestamps and
  answers with the newest ones that \<open>until\<close> admits, all of them if they are fewer than the limit.\<close>

definition relay_set :: "event set \<Rightarrow> bool" where
  "relay_set R \<longleftrightarrow> finite R \<and> inj_on ev_id R \<and> (\<forall>e \<in> R. 0 < sint (ev_created_at e))"

definition serves_page :: "event set \<Rightarrow> timestamp \<Rightarrow> event list \<Rightarrow> bool" where
  "serves_page R until evs \<longleftrightarrow> distinct evs \<and> set evs \<subseteq> upto_ts R until \<and>
     (length evs < mappingPageSize \<longrightarrow> set evs = upto_ts R until) \<and>
     (\<forall>e \<in> upto_ts R until - set evs. \<forall>e' \<in> set evs. ts_le (ev_created_at e) (ev_created_at e'))"

definition relay_serves :: "'w pageFetcher \<Rightarrow> string \<Rightarrow> filter \<Rightarrow> event set \<Rightarrow> bool" where
  "relay_serves fetch url f R \<longleftrightarrow> relay_set R \<and>
     (\<forall>until w. \<exists>evs w'. fetch url (f\<lparr>f_limit := int mappingPageSize, f_until := until\<rparr>) w = (Inr evs, w') \<and>
        serves_page R until evs)"

text \<open>A relay that may also fail at any time, but never passes off a part of a page as the page.\<close>

definition relay_honest :: "'w pageFetcher \<Rightarrow> string \<Rightarrow> filter \<Rightarrow> event set \<Rightarrow> bool" where
  "relay_honest fetch url f R \<longleftrightarrow> relay_set R \<and>
     (\<forall>until w evs w'. fetch url (f\<lparr>f_limit := int mappingPageSize, f_until := until\<rparr>) w = (Inr evs, w') \<longrightarrow>
        serves_page R until evs)"

definition page_fails :: "'w pageFetcher \<Rightarrow> string \<Rightarrow> filter \<Rightarrow> bool" where
  "page_fails fetch url f \<longleftrightarrow> (\<exists>until w e w'. fetch url (f\<lparr>f_limit := int mappingPageSize, f_until := until\<rparr>) w = (Inl e, w'))"

lemma relay_serves_honest:
  assumes "relay_serves fetch url f R"
  shows "relay_honest fetch url f R" and "\<not> page_fails fetch url f"
proof -
  have serves: "\<exists>evs w'. fetch url (f\<lparr>f_limit := int mappingPageSize, f_until := until\<rparr>) w = (Inr evs, w') \<and> serves_page R until evs"
    for until w using assms by (simp add: relay_serves_def)
  show "relay_honest fetch url f R"
    using assms serves unfolding relay_honest_def relay_serves_def by (metis prod.inject sum.inject(2))
  show "\<not> page_fails fetch url f"
    using serves unfolding page_fails_def by (metis prod.inject sum.distinct(1))
qed

definition page_inv :: "event set \<Rightarrow> event_id set \<Rightarrow> timestamp \<Rightarrow> byID \<Rightarrow> bool" where
  "page_inv R seen until ids \<longleftrightarrow> until = 0 \<and> seen = {} \<or> 0 < sint until \<and>
     (\<forall>e \<in> R. \<not> ts_le (ev_created_at e) until \<longrightarrow> map_of ids (ev_id e) = Some e) \<and>
     (\<forall>e \<in> R. ev_id e \<in> seen \<longrightarrow> ts_le until (ev_created_at e))"

lemma page_inv_step:
  assumes R: "relay_set R" and inv: "page_inv R seen until ids"
    and sub: "set evs \<subseteq> upto_ts R until" and ne: "evs \<noteq> []"
    and newest: "\<forall>e \<in> upto_ts R until - set evs. \<forall>e' \<in> set evs. ts_le (ev_created_at e) (ev_created_at e')"
    and scan: "page_scan evs (0, 0, seen, ids) = (old', n', seen', ids')"
  shows "page_inv R seen' old' ids'"
proof -
  have inj: "inj_on ev_id R" and pos: "\<forall>e \<in> set evs. 0 < sint (ev_created_at e)" and subR: "set evs \<subseteq> R"
    using R sub by (auto simp: relay_set_def upto_ts_def)
  note O = page_scan_oldest [OF scan pos]
  have p: "0 < sint old'" using O ne by simp
  then obtain eo where eo: "eo \<in> set evs" "old' = ev_created_at eo" using O by auto
  have high: "map_of ids' (ev_id e) = Some e" if e: "e \<in> R" "\<not> ts_le (ev_created_at e) old'" for e
  proof (cases "e \<in> set evs")
    case True
    then show ?thesis using page_scan_stored [OF scan] inj subR by (metis inj_on_subset)
  next
    case False
    with newest eo e have "e \<notin> upto_ts R until" by auto
    with e have "map_of ids (ev_id e) = Some e" using inv by (auto simp: page_inv_def upto_ts_def)
    moreover have "ev_id e \<notin> ev_id ` set evs" using False e(1) subR inj by (auto dest: inj_onD)
    ultimately show ?thesis using page_scan_other [OF scan] by simp
  qed
  have low: "ts_le old' (ev_created_at e)" if e: "e \<in> R" "ev_id e \<in> seen'" for e
  proof (cases "e \<in> set evs")
    case True
    then show ?thesis using O by blast
  next
    case False
    then have "ev_id e \<notin> ev_id ` set evs" using e(1) subR inj by (auto dest: inj_onD)
    with e have s: "ev_id e \<in> seen" using page_scan_seen [OF scan] by simp
    with inv e have "ts_le until (ev_created_at e)" "until \<noteq> 0" by (auto simp: page_inv_def)
    moreover from eo sub \<open>until \<noteq> 0\<close> have "ts_le old' until" by (auto simp: upto_ts_def)
    ultimately show ?thesis by simp
  qed
  from p high low show ?thesis by (simp add: page_inv_def)
qed

text \<open>The result of the loop on a relay that holds R: it returns; without an error it has stored every event of R; an
  error means that a page failed or that too many events share a timestamp; other entries stay.\<close>

definition page_done :: "'w pageFetcher \<Rightarrow> string \<Rightarrow> filter \<Rightarrow> event set \<Rightarrow> byID \<Rightarrow> (error option \<times> byID \<times> 'w) option \<Rightarrow> bool" where
  "page_done fetch url f R ids r \<longleftrightarrow> (\<exists>err ids' w'. r = Some (err, ids', w') \<and>
    (err = None \<longrightarrow> (\<forall>e \<in> R. map_of ids' (ev_id e) = Some e)) \<and>
    (err \<noteq> None \<longrightarrow> page_fails fetch url f \<or> (\<exists>t. mappingPageSize \<le> card {e \<in> R. ev_created_at e = t})) \<and>
    (\<forall>i. i \<notin> ev_id ` R \<longrightarrow> map_of ids' i = map_of ids i) \<and> (distinct (map fst ids) \<longrightarrow> distinct (map fst ids')))"

lemma page_done_trans:
  assumes "page_done fetch url f R ids' r" and "\<And>i. i \<notin> ev_id ` R \<Longrightarrow> map_of ids' i = map_of ids i"
    and "distinct (map fst ids) \<Longrightarrow> distinct (map fst ids')"
  shows "page_done fetch url f R ids r"
  using assms(1) unfolding page_done_def by (elim exE conjE, intro exI conjI) (use assms(2,3) in auto)

text \<open>One round of the loop: the page ends it, or the loop goes on with fewer events to come.\<close>

text \<open>A page that is not full is the last one; a full page without news holds only events of one timestamp.\<close>

lemma last_page_completes:
  assumes "page_inv R seen until ids" and "inj_on ev_id R" and "set evs \<subseteq> R" and "set evs = upto_ts R until"
    and scan: "page_scan evs (0, 0, seen, ids) = (old', n', seen', ids')" and e: "e \<in> R"
  shows "map_of ids' (ev_id e) = Some e"
proof (cases "e \<in> set evs")
  case True
  then show ?thesis using page_scan_stored [OF scan] assms(2,3) by (metis inj_on_subset)
next
  case False
  with assms(1,4) e have "map_of ids (ev_id e) = Some e" by (auto simp: upto_ts_def page_inv_def)
  moreover have "ev_id e \<notin> ev_id ` set evs" using False e assms(2,3) by (auto dest: inj_onD)
  ultimately show ?thesis using page_scan_other [OF scan] by simp
qed

lemma stuck_page:
  assumes "page_inv R seen until ids" and "finite R" and "set evs \<subseteq> upto_ts R until" and "distinct evs"
    and "evs \<noteq> []" and "ev_id ` set evs \<subseteq> seen"
  shows "length evs \<le> card {e \<in> R. ev_created_at e = until}"
proof -
  have u: "seen \<noteq> {}" using assms(5,6) by auto
  have "ev_created_at e = until" if "e \<in> set evs" for e
  proof -
    have "e \<in> R" "ev_id e \<in> seen" using that assms(3,6) by (auto simp: upto_ts_def)
    then have "ts_le until (ev_created_at e)" "until \<noteq> 0" using assms(1) u by (auto simp: page_inv_def)
    moreover from this that assms(3) have "ts_le (ev_created_at e) until" by (auto simp: upto_ts_def)
    ultimately show ?thesis by (simp add: ts_eq_iff [symmetric])
  qed
  then have "set evs \<subseteq> {e \<in> R. ev_created_at e = until}" using assms(3) by (auto simp: upto_ts_def)
  from card_mono [OF _ this] assms(2,4) show ?thesis by (simp add: distinct_card)
qed

lemma page_loop_round:
  assumes IH: "\<And>seen' until' ids w. card (ev_id ` R - seen') < card (ev_id ` R - seen) \<Longrightarrow> page_inv R seen' until' ids \<Longrightarrow>
      page_done fetch url f R ids (page_loop fetch url f seen' until' ids w)"
    and inv: "page_inv R seen until ids" and R: "relay_set R"
    and fetch: "fetch url (f\<lparr>f_limit := int mappingPageSize, f_until := until\<rparr>) w = (Inr evs, w1)"
    and page: "serves_page R until evs"
  shows "page_done fetch url f R ids (page_loop fetch url f seen until ids w)"
proof -
  have fin: "finite R" and inj: "inj_on ev_id R" using R by (auto simp: relay_set_def)
  note evs = page [unfolded serves_page_def, THEN conjunct1] page [unfolded serves_page_def, THEN conjunct2, THEN conjunct1]
    page [unfolded serves_page_def, THEN conjunct2, THEN conjunct2, THEN conjunct1]
    page [unfolded serves_page_def, THEN conjunct2, THEN conjunct2, THEN conjunct2]
  obtain old' n' seen' ids' where scan: "page_scan evs (0, 0, seen, ids) = (old', n', seen', ids')"
    by (metis surj_pair)
  have subR: "set evs \<subseteq> R" using evs(2) by (auto simp: upto_ts_def)
  have other: "map_of ids' i = map_of ids i" if "i \<notin> ev_id ` R" for i
    using page_scan_other [OF scan] that subR by blast
  note dist = page_scan_distinct [OF scan]
  note loop = page_loop.simps [of fetch url f seen until ids w, unfolded fetch sum.case prod.case scan]
  consider (short) "length evs < mappingPageSize" | (stuck) "\<not> length evs < mappingPageSize" "n' = 0"
    | (go) "\<not> length evs < mappingPageSize" "n' \<noteq> 0" by blast
  then show ?thesis
  proof cases
    case short
    then have "set evs = upto_ts R until" using evs(2,3) by auto
    from last_page_completes [OF inv inj subR this scan] short loop other dist show ?thesis by (simp add: page_done_def)
  next
    case stuck
    then have ne: "evs \<noteq> []" by (auto simp: mappingPageSize_def)
    have "ev_id ` set evs \<subseteq> seen" using page_scan_new [OF scan] stuck by simp
    from stuck_page [OF inv fin evs(2,1) ne this] stuck have "mappingPageSize \<le> card {e \<in> R. ev_created_at e = until}" by simp
    with stuck loop other dist show ?thesis by (auto simp: page_done_def)
  next
    case go
    then have ne: "evs \<noteq> []" by (auto simp: mappingPageSize_def)
    from page_scan_new [OF scan] go obtain e where e: "e \<in> set evs" "ev_id e \<notin> seen" by auto
    then have "ev_id ` R - seen' \<subset> ev_id ` R - seen" using page_scan_seen [OF scan] subR by auto
    then have "card (ev_id ` R - seen') < card (ev_id ` R - seen)" using fin by (intro psubset_card_mono) auto
    from page_done_trans [OF IH [OF this page_inv_step [OF R inv evs(2) ne evs(4) scan]] other dist]
    show ?thesis using go loop by simp
  qed
qed

lemma page_loop_complete:
  assumes R: "relay_honest fetch url f R" and inv: "page_inv R seen until ids"
  shows "page_done fetch url f R ids (page_loop fetch url f seen until ids w)"
  using inv
proof (induction "card (ev_id ` R - seen)" arbitrary: seen until ids w rule: less_induct)
  case less
  have set: "relay_set R" using R by (simp add: relay_honest_def)
  show ?case
  proof (cases "fst (fetch url (f\<lparr>f_limit := int mappingPageSize, f_until := until\<rparr>) w)")
    case (Inl e)
    then obtain w1 where fetch: "fetch url (f\<lparr>f_limit := int mappingPageSize, f_until := until\<rparr>) w = (Inl e, w1)"
      by (metis prod.collapse)
    then have "page_fails fetch url f" by (auto simp: page_fails_def)
    then show ?thesis by (simp add: page_done_def page_loop.simps [of fetch url f seen until ids w] fetch)
  next
    case (Inr evs)
    then obtain w1 where fetch: "fetch url (f\<lparr>f_limit := int mappingPageSize, f_until := until\<rparr>) w = (Inr evs, w1)"
      by (metis prod.collapse)
    then have "serves_page R until evs" using R unfolding relay_honest_def by blast
    with less.hyps less.prems set fetch show ?thesis by (rule page_loop_round)
  qed
qed

section \<open>Properties\<close>

text \<open>C14. Paging one relay terminates and loses nothing: if the relay serves the set R of matching events
  newest first, the paging loop returns, either with every event of R in the result or with an error,
  and the error only if at least 300 events of R share one timestamp.\<close>

theorem paging_loses_nothing:
  assumes "relay_serves fetch url f R"
  shows "\<exists>err ids' w'. pageRelay fetch url f ids w = Some (err, ids', w') \<and>
    (err = None \<longrightarrow> (\<forall>e \<in> R. map_of ids' (ev_id e) = Some e)) \<and>
    (err \<noteq> None \<longrightarrow> (\<exists>t. mappingPageSize \<le> card {e \<in> R. ev_created_at e = t}))"
  using page_loop_complete [OF relay_serves_honest(1) [OF assms], of "{}" 0 ids w] relay_serves_honest(2) [OF assms]
  by (auto simp: pageRelay_def page_done_def page_inv_def)

definition demo_relay :: "unit pageFetcher" where
  "demo_relay = (\<lambda>_ g w. (Inr (if f_until g = 0 \<or> ts_le 5 (f_until g) then [demo_event 1 39740 5 []] else []), w))"

lemma paging_loses_nothing_witness:
  "\<exists>ids' w'. pageRelay demo_relay ''r'' empty_filter [] () = Some (None, ids', w') \<and>
     map_of ids' [1] = Some (demo_event 1 39740 5 [])"
proof -
  let ?e = "demo_event 1 39740 5 []"
  have e: "ev_created_at ?e = 5" "ev_id ?e = [1]" by (simp_all add: demo_event_def)
  have serves: "relay_serves demo_relay ''r'' empty_filter {?e}"
    by (auto simp: relay_serves_def relay_set_def serves_page_def demo_relay_def upto_ts_def e mappingPageSize_def)
  have "\<not> mappingPageSize \<le> card {x \<in> {?e}. ev_created_at x = t}" for t
    by (rule notI, drule le_trans [OF _ card_mono [of "{?e}"]]) (auto simp: mappingPageSize_def)
  with paging_loses_nothing [OF serves, of "[]" "()"] e show ?thesis by fastforce
qed

text \<open>C19. However clients choose their sources, the registry stays small: after any interleaving of loads,
  failures and queries it holds at most 32 sources that are not defaults, at most 1024 failures and at
  most 64 cached graphs.\<close>

theorem registry_stays_bounded:
  assumes "mreg_reach relays defaults r"
  shows "length (List.filter (\<lambda>(k, _). \<not> isDefault r k) (mr_entries r)) \<le> 32 \<and>
    length (mr_failedAt r) \<le> 1024 \<and> length (mr_graphs r) \<le> 64"
  using reach_bounded [OF assms]
  by (simp add: mreg_bounded_def on_demand_def maxOnDemandSources_def maxFailedSources_def maxCachedGraphs_def)

lemma registry_stays_bounded_witness:
  "length (mr_failedAt (markFailed 7 ''p:x'' (NewMappingRegistry [] \<lparr>tr_Concordances = [], tr_Authors = []\<rparr>))) \<le> 1024"
  using registry_stays_bounded [OF mreg_reach.failed [OF mreg_reach.new]] by blast

text \<open>C18. The graph cache never serves a stale graph: after any interleaving of loads, failures and queries, the graph
  for a list of sources, none if none of them is loaded, is built from loaded sources as they are now, whose keys joined
  with commas are those of the loaded ones of the list. These are the loaded ones of the list themselves as long as no
  loaded source has a comma in its key; otherwise they may be others.\<close>

theorem cached_graph_is_current:
  assumes "mreg_reach relays defaults r"
  shows "if presentKeys keys r = [] then fst (graphFor now keys r) = None
    else \<exists>ks. fst (graphFor now keys r) = Some (build_graph (map (\<lambda>k. the (map_of (mr_entries r) k)) ks)) \<and>
      ks \<noteq> [] \<and> set ks \<subseteq> dom (map_of (mr_entries r)) \<and> join '','' ks = join '','' (presentKeys keys r) \<and>
      ((\<forall>k \<in> dom (map_of (mr_entries r)). CHR '','' \<notin> set k) \<longrightarrow> ks = presentKeys keys r)"
proof (cases "presentKeys keys r = []")
  case False
  let ?ks = "presentKeys keys r"
  have same: "(\<forall>k \<in> dom (map_of (mr_entries r)). CHR '','' \<notin> set k) \<longrightarrow> ks = ?ks"
    if "ks \<noteq> []" "set ks \<subseteq> dom (map_of (mr_entries r))" "join '','' ks = join '','' ?ks" for ks
    using that presentKeys_dom by (intro impI join_comma_inject False) blast+
  have touch: "graph_of (snd (graphFor now keys r)) ?ks = graph_of r ?ks"
    by (rule graph_of_touch [OF presentKeys_dom graphFor_fields(1)])
  show ?thesis
  proof (cases "map_of (mr_graphs r) (join '','' ?ks)")
    case None
    then have "fst (graphFor now keys r) = Some (graph_of r ?ks)" using False touch by (simp add: graphFor_result Let_def)
    with False presentKeys_dom [of keys r] show ?thesis
      by (simp add: graph_of_def entries_of_def) (rule exI [of _ ?ks], simp)
  next
    case (Some g)
    then have "fst (graphFor now keys r) = Some g" using False by (simp add: graphFor_result Let_def)
    moreover from reach_cache [OF assms] Some obtain ks where "ks \<noteq> []" "set ks \<subseteq> dom (map_of (mr_entries r))"
      "join '','' ks = join '','' ?ks" "g = graph_of r ks" unfolding cache_ok_def by metis
    ultimately show ?thesis using False same by (auto simp: graph_of_def entries_of_def)
  qed
qed (simp add: graphFor_def Let_def)

definition demo_entry :: sourceEntry where
  "demo_entry = new_entry [] [\<lparr>mp_D = ''d'', mp_Relation = ''exactMatch'', mp_From = ''x'', mp_To = [''y''], mp_FromScheme = [],
     mp_ToScheme = [], mp_PartOf = [], mp_Author = ''a'', mp_Schemes = []\<rparr>]"

definition demo_registry :: "(string \<times> sourceEntry) list \<Rightarrow> MappingRegistry" where
  "demo_registry es = fold (\<lambda>(k, e). mr_store 0 k e) es (NewMappingRegistry [] \<lparr>tr_Concordances = [], tr_Authors = []\<rparr>)"

lemma demo_registry_reach: "mreg_reach [] \<lparr>tr_Concordances = [], tr_Authors = []\<rparr> (demo_registry es)"
proof -
  have "mreg_reach rs t r \<Longrightarrow> mreg_reach rs t (fold (\<lambda>(k, e). mr_store 0 k e) es r)" for rs t r
    by (induction es arbitrary: r) (auto intro: mreg_reach.stored)
  then show ?thesis by (simp add: demo_registry_def mreg_reach.new)
qed

lemma demo_registry_entries: "map_of (mr_entries (demo_registry [(''p:a'', demo_entry)])) = [''p:a'' \<mapsto> demo_entry]"
  by (simp add: demo_registry_def mr_store_def NewMappingRegistry_def evict_sources_small on_demand_def
      maxOnDemandSources_def demo_entry_def new_entry_def Let_def)

lemma cached_graph_is_current_witness:
  "fst (graphFor 3 [''p:a'', ''p:b''] (demo_registry [(''p:a'', demo_entry)])) = Some (build_graph [demo_entry])"
proof -
  have "\<forall>k \<in> dom (map_of (mr_entries (demo_registry [(''p:a'', demo_entry)]))). CHR '','' \<notin> set k"
    by (simp add: demo_registry_entries)
  with cached_graph_is_current [OF demo_registry_reach, where now = 3 and keys = "[''p:a'', ''p:b'']", of "[(''p:a'', demo_entry)]"] show ?thesis
    by (auto simp: presentKeys_def demo_registry_entries)
qed

text \<open>The cache can answer with the graph of other sources: the address of one
  concordance may contain a comma and so be the joined key of two sources.\<close>

lemma cache_keys_collide:
  "\<exists>r. mreg_reach [] \<lparr>tr_Concordances = [], tr_Authors = []\<rparr> r \<and>
     presentKeys [''c:a'', ''c:b''] r = [''c:a'', ''c:b''] \<and>
     fst (graphFor 2 [''c:a'', ''c:b''] r) = Some (graph_of r [''c:a,c:b'']) \<and>
     graph_of r [''c:a,c:b''] \<noteq> graph_of r [''c:a'', ''c:b'']"
proof -
  let ?base = "demo_registry [(''c:a'', new_entry [] []), (''c:b'', new_entry [] []), (''c:a,c:b'', demo_entry)]"
  let ?r = "snd (graphFor 1 [''c:a,c:b''] ?base)"
  have e: "mr_entries ?base = [(''c:a'', new_entry [] []), (''c:b'', new_entry [] []), (''c:a,c:b'', demo_entry)]"
    and g: "mr_graphs ?base = []"
    by (simp_all add: demo_registry_def mr_store_def NewMappingRegistry_def evict_sources_small on_demand_def
      maxOnDemandSources_def demo_entry_def new_entry_def Let_def)
  have es: "mr_entries ?r = touch 1 [''c:a,c:b''] (mr_entries ?base)" by (rule graphFor_fields)
  have gs: "mr_graphs ?r = [(''c:a,c:b'', graph_of ?r [''c:a,c:b''])]"
    by (simp add: graphFor_def presentKeys_def e g Let_def graph_of_def entries_of_def maxCachedGraphs_def)
  have p: "presentKeys [''c:a'', ''c:b''] ?r = [''c:a'', ''c:b'']"
    by (simp add: presentKeys_def es e touch_def)
  have f: "fst (graphFor 2 [''c:a'', ''c:b''] ?r) = Some (graph_of ?r [''c:a,c:b''])"
    by (simp add: graphFor_result Let_def p gs)
  have "build_graph [demo_entry] \<noteq> build_graph [new_entry [] [], new_entry [] []]"
    by (simp add: build_graph_def demo_entry_def new_entry_def NewGraph_def Let_def
        nonExact_def link_mapping_def both_def link_def empty_graph_def add_nbr_def nbrs_def sort_graph_def sort_adj_def pair_def)
  moreover have "entries_of ?base [''c:a,c:b''] = [demo_entry]"
    "entries_of ?base [''c:a'', ''c:b''] = [new_entry [] [], new_entry [] []]"
    by (simp_all add: entries_of_def e)
  ultimately have "graph_of ?base [''c:a,c:b''] \<noteq> graph_of ?base [''c:a'', ''c:b'']"
    by (simp only: graph_of_def not_False_eq_True)
  moreover have "graph_of ?r ks = graph_of ?base ks" if "set ks \<subseteq> dom (map_of (mr_entries ?base))" for ks
    by (rule graph_of_touch [OF that es])
  ultimately have "graph_of ?r [''c:a,c:b''] \<noteq> graph_of ?r [''c:a'', ''c:b'']" by (simp add: e)
  with p f mreg_reach.asked [OF demo_registry_reach] show ?thesis by blast
qed

end
