(* ===== verification/Validate.thy ===== *)
theory Validate
  imports Registry Demo
begin

text \<open>
  \<open>validate.go\<close>, \<open>validateShare\<close> and \<open>shareCommunities\<close> of \<open>shares.go\<close> and
  \<open>validateDeletion\<close> of \<open>deletion.go\<close>: the write policy of every content type. A validator
  returns whether the event is rejected, and the message.
\<close>

section \<open>Content types with required tags\<close>

definition validateAMB :: "lib \<Rightarrow> event \<Rightarrow> bool \<times> string" where
  "validateAMB L ev =
     (if get_d L (ev_tags ev) = [] then (True, ''missing required 'd' tag'')
      else if \<not> tags_has L (ev_tags ev) ''name'' then (True, ''missing required 'name' tag'')
      else (False, []))"

definition validateLongform :: "lib \<Rightarrow> event \<Rightarrow> bool \<times> string" where
  "validateLongform L ev =
     (if get_d L (ev_tags ev) = [] then (True, ''missing required 'd' tag'')
      else if \<not> tags_has L (ev_tags ev) ''title'' then (True, ''missing required 'title' tag'')
      else (False, []))"

definition validateWiki :: "lib \<Rightarrow> event \<Rightarrow> bool \<times> string" where
  "validateWiki L ev =
     (if get_d L (ev_tags ev) = [] then (True, ''missing required 'd' tag'') else (False, []))"

definition rsvp_status :: "lib \<Rightarrow> event \<Rightarrow> string" where
  "rsvp_status L ev = (case tags_find L (ev_tags ev) ''status'' of
     Some (_ # v # _) \<Rightarrow> v | _ \<Rightarrow> [])"

definition validateCalendar :: "lib \<Rightarrow> event \<Rightarrow> bool \<times> string" where
  "validateCalendar L ev =
     (if ev_kind ev = 31922 \<or> ev_kind ev = 31923 then
        (if get_d L (ev_tags ev) = [] then (True, ''missing required 'd' tag'')
         else if \<not> tags_has L (ev_tags ev) ''title'' then (True, ''missing required 'title' tag'')
         else if \<not> tags_has L (ev_tags ev) ''start'' then (True, ''missing required 'start' tag'')
         else (False, []))
      else if ev_kind ev = 31924 then
        (if get_d L (ev_tags ev) = [] then (True, ''missing required 'd' tag'')
         else if \<not> tags_has L (ev_tags ev) ''title'' then (True, ''missing required 'title' tag'')
         else (False, []))
      else if ev_kind ev = 31925 then
        (if get_d L (ev_tags ev) = [] then (True, ''missing required 'd' tag'')
         else if \<not> tags_has L (ev_tags ev) ''a'' then (True, ''missing required 'a' tag'')
         else if rsvp_status L ev \<notin> {''accepted'', ''declined'', ''tentative''}
         then (True, ''missing or invalid 'status' tag (accepted/declined/tentative)'')
         else (False, []))
      else (False, []))"

definition validateTransferkiosk :: "lib \<Rightarrow> event \<Rightarrow> bool \<times> string" where
  "validateTransferkiosk L ev =
     (if get_d L (ev_tags ev) = [] then (True, ''missing required 'd' tag'')
      else if \<not> tags_has L (ev_tags ev) ''name'' then (True, ''missing required 'name' tag'')
      else (False, []))"

definition validatePublication :: "lib \<Rightarrow> event \<Rightarrow> bool \<times> string" where
  "validatePublication L ev =
     (if get_d L (ev_tags ev) = [] then (True, ''missing required 'd' tag'')
      else if \<not> tags_has L (ev_tags ev) ''title'' then (True, ''missing required 'title' tag'')
      else if ev_kind ev = 30040 \<and> ev_content ev \<noteq> []
      then (True, ''kind 30040 requires empty content (NKBIP-01)'')
      else (False, []))"

section \<open>Community shares\<close>

definition kindGenericRepost :: kind where
  "kindGenericRepost = 16"

definition kindTargetedPublication :: kind where
  "kindTargetedPublication = 30222"

definition share_targets :: "event \<Rightarrow> string list" where
  "share_targets ev = map snd (List.filter
     (\<lambda>(n, v). n = ''h'' \<or> n = ''p'' \<and> ev_kind ev = kindTargetedPublication) (tag_pairs (ev_tags ev)))"

definition shareCommunities :: "event \<Rightarrow> string list" where
  "shareCommunities ev = dedup_from (\<lambda>v. v) {} (List.filter (\<lambda>v. v \<noteq> []) (share_targets ev))"

definition validateShare :: "event \<Rightarrow> bool \<times> string" where
  "validateShare ev = (
     let hasRef = list_ex (\<lambda>(n, v). n = ''e'' \<or> n = ''a'') (tag_pairs (ev_tags ev));
         hasD = list_ex (\<lambda>(n, v). n = ''d'') (tag_pairs (ev_tags ev))
     in if length (shareCommunities ev) = 0
        then (True, ''share event missing community target (h tag, or p tag for kind 30222)'')
        else if \<not> hasRef then (True, ''share event missing content reference (e or a tag)'')
        else if ev_kind ev = kindTargetedPublication \<and> \<not> hasD
        then (True, ''targeted publication missing required 'd' tag'')
        else (False, []))"

section \<open>Deletion requests\<close>

definition serves_coord :: "(kind \<Rightarrow> bool) \<Rightarrow> string \<Rightarrow> bool" where
  "serves_coord served v = (case split_n 2 CHR '':'' v of
     [a, b] \<Rightarrow> (case atoi a of None \<Rightarrow> False | Some n \<Rightarrow> served (kind_of_int n))
   | _ \<Rightarrow> False)"

fun deletion_flags :: "lib \<Rightarrow> (kind \<Rightarrow> bool) \<Rightarrow> (string \<times> string) list \<Rightarrow> bool \<times> bool \<times> bool \<Rightarrow>
    bool \<times> bool \<times> bool" where
  "deletion_flags L served [] fl = fl"
| "deletion_flags L served ((n, v) # ps) (hasE, hasA, servesA) =
     (if v = [] then deletion_flags L served ps (hasE, hasA, servesA)
      else if n = ''e'' then
        deletion_flags L served ps ((case id_from_hex L v of Inl _ \<Rightarrow> hasE | Inr _ \<Rightarrow> True), hasA, servesA)
      else if n = ''a'' then
        deletion_flags L served ps (hasE, True, servesA \<or> serves_coord served v)
      else deletion_flags L served ps (hasE, hasA, servesA))"

definition validateDeletion :: "lib \<Rightarrow> (kind \<Rightarrow> bool) \<Rightarrow> event \<Rightarrow> bool \<times> string" where
  "validateDeletion L served ev =
     (case deletion_flags L served (tag_pairs (ev_tags ev)) (False, False, False) of
       (hasE, hasA, servesA) \<Rightarrow>
         if hasE then (False, [])
         else if \<not> hasA then (True, ''missing 'e' or 'a' tag referencing the event to delete'')
         else if \<not> servesA then (True, ''deletion references no kind served by this relay'')
         else (False, []))"

section \<open>What acceptance means\<close>

text \<open>A message is given exactly when the event is rejected.\<close>

lemma reject_iff_message:
  "fst (validateAMB L ev) \<longleftrightarrow> snd (validateAMB L ev) \<noteq> []"
  "fst (validateLongform L ev) \<longleftrightarrow> snd (validateLongform L ev) \<noteq> []"
  "fst (validateWiki L ev) \<longleftrightarrow> snd (validateWiki L ev) \<noteq> []"
  "fst (validateCalendar L ev) \<longleftrightarrow> snd (validateCalendar L ev) \<noteq> []"
  "fst (validateTransferkiosk L ev) \<longleftrightarrow> snd (validateTransferkiosk L ev) \<noteq> []"
  "fst (validatePublication L ev) \<longleftrightarrow> snd (validatePublication L ev) \<noteq> []"
  "fst (validateShare ev) \<longleftrightarrow> snd (validateShare ev) \<noteq> []"
  by (simp_all add: validateAMB_def validateLongform_def validateWiki_def validateCalendar_def
      validateTransferkiosk_def validatePublication_def validateShare_def Let_def)

text \<open>Every content type but the shares requires a non-empty identifier.\<close>

lemma accepted_has_d:
  "\<not> fst (validateAMB L ev) \<Longrightarrow> get_d L (ev_tags ev) \<noteq> []"
  "\<not> fst (validateLongform L ev) \<Longrightarrow> get_d L (ev_tags ev) \<noteq> []"
  "\<not> fst (validateWiki L ev) \<Longrightarrow> get_d L (ev_tags ev) \<noteq> []"
  "ev_kind ev \<in> {31922, 31923, 31924, 31925} \<Longrightarrow> \<not> fst (validateCalendar L ev) \<Longrightarrow>
     get_d L (ev_tags ev) \<noteq> []"
  "\<not> fst (validateTransferkiosk L ev) \<Longrightarrow> get_d L (ev_tags ev) \<noteq> []"
  "\<not> fst (validatePublication L ev) \<Longrightarrow> get_d L (ev_tags ev) \<noteq> []"
  by (auto simp: validateAMB_def validateLongform_def validateWiki_def validateCalendar_def
      validateTransferkiosk_def validatePublication_def split: if_splits)

lemma deletion_flags_eq:
  "deletion_flags L served ps (e, a, s) =
     (e \<or> (\<exists>v i. (''e'', v) \<in> set ps \<and> v \<noteq> [] \<and> id_from_hex L v = Inr i),
      a \<or> (\<exists>v. (''a'', v) \<in> set ps \<and> v \<noteq> []),
      s \<or> (\<exists>v. (''a'', v) \<in> set ps \<and> v \<noteq> [] \<and> serves_coord served v))"
proof (induction ps arbitrary: e a s)
  case (Cons p ps)
  obtain n v where p: "p = (n, v)" by (cases p)
  have hit: "(case id_from_hex L v of Inl _ \<Rightarrow> e | Inr _ \<Rightarrow> True) \<longleftrightarrow> e \<or> (\<exists>i. id_from_hex L v = Inr i)"
    by (cases "id_from_hex L v") auto
  show ?case
    unfolding p by (auto simp: Cons hit)
qed simp

lemma validateDeletion_accepts:
  "\<not> fst (validateDeletion L served ev) \<longleftrightarrow>
     (\<exists>v i. (''e'', v) \<in> set (tag_pairs (ev_tags ev)) \<and> v \<noteq> [] \<and> id_from_hex L v = Inr i) \<or>
     (\<exists>v. (''a'', v) \<in> set (tag_pairs (ev_tags ev)) \<and> v \<noteq> [] \<and> serves_coord served v)"
  by (auto simp: validateDeletion_def deletion_flags_eq)

lemma set_shareCommunities:
  "set (shareCommunities ev) = {v. v \<noteq> [] \<and>
     ((''h'', v) \<in> set (tag_pairs (ev_tags ev)) \<or>
      ev_kind ev = kindTargetedPublication \<and> (''p'', v) \<in> set (tag_pairs (ev_tags ev)))}"
  by (force simp: shareCommunities_def share_targets_def dedup_from_set)

lemma distinct_shareCommunities: "distinct (shareCommunities ev)"
  using dedup_from_distinct [of "\<lambda>v :: string. v"] by (simp add: shareCommunities_def)

lemma shareCommunities_nonempty:
  "shareCommunities ev \<noteq> [] \<longleftrightarrow>
     (\<exists>v. v \<noteq> [] \<and> ((''h'', v) \<in> set (tag_pairs (ev_tags ev)) \<or>
        ev_kind ev = kindTargetedPublication \<and> (''p'', v) \<in> set (tag_pairs (ev_tags ev))))"
  using set_shareCommunities [of ev] by (auto simp flip: ex_in_conv set_empty2)

section \<open>Properties\<close>

text \<open>A deletion request is accepted exactly when an \<open>e\<close> tag holds a valid event id or an \<open>a\<close> tag
  names a kind that the relay serves.\<close>

theorem validateDeletion_exact:
  "fst (validateDeletion L served ev) \<longleftrightarrow>
     \<not> ((\<exists>v i. (''e'', v) \<in> set (tag_pairs (ev_tags ev)) \<and> v \<noteq> [] \<and> id_from_hex L v = Inr i) \<or>
     (\<exists>v. (''a'', v) \<in> set (tag_pairs (ev_tags ev)) \<and> v \<noteq> [] \<and> serves_coord served v))"
  using validateDeletion_accepts [of L served ev] by blast

text \<open>A share is accepted exactly when it targets a community, references content and, as a targeted
  publication, carries an identifier; the communities it is filed under are the non-empty targets,
  each once.\<close>

theorem validateShare_exact:
  "(\<not> fst (validateShare ev) \<longleftrightarrow>
     (\<exists>v. v \<noteq> [] \<and> ((''h'', v) \<in> set (tag_pairs (ev_tags ev)) \<or>
        ev_kind ev = kindTargetedPublication \<and> (''p'', v) \<in> set (tag_pairs (ev_tags ev)))) \<and>
     (\<exists>v. (''e'', v) \<in> set (tag_pairs (ev_tags ev)) \<or> (''a'', v) \<in> set (tag_pairs (ev_tags ev))) \<and>
     (ev_kind ev \<noteq> kindTargetedPublication \<or> (\<exists>v. (''d'', v) \<in> set (tag_pairs (ev_tags ev))))) \<and>
   distinct (shareCommunities ev)"
  using distinct_shareCommunities [of ev] shareCommunities_nonempty [of ev]
  by (auto simp: validateShare_def Let_def list_ex_iff)

lemma validateShare_exact_witness:
  "\<not> fst (validateShare (demo_event 1 kindGenericRepost 0 [[''h'', ''c''], [''e'', ''x'']]))"
  using validateShare_exact [of "demo_event 1 kindGenericRepost 0 [[''h'', ''c''], [''e'', ''x'']]"]
  by (simp add: demo_event_def kindGenericRepost_def kindTargetedPublication_def)

text \<open>A validator rejects with a message, never silently, and accepts without one.\<close>

theorem validators_give_a_reason:
  "(fst (validateAMB L ev) \<longleftrightarrow> snd (validateAMB L ev) \<noteq> []) \<and>
   (fst (validateLongform L ev) \<longleftrightarrow> snd (validateLongform L ev) \<noteq> []) \<and>
   (fst (validateWiki L ev) \<longleftrightarrow> snd (validateWiki L ev) \<noteq> []) \<and>
   (fst (validateCalendar L ev) \<longleftrightarrow> snd (validateCalendar L ev) \<noteq> []) \<and>
   (fst (validateTransferkiosk L ev) \<longleftrightarrow> snd (validateTransferkiosk L ev) \<noteq> []) \<and>
   (fst (validatePublication L ev) \<longleftrightarrow> snd (validatePublication L ev) \<noteq> []) \<and>
   (fst (validateShare ev) \<longleftrightarrow> snd (validateShare ev) \<noteq> [])"
  by (simp only: reject_iff_message)

text \<open>A coordinate's kind is read as a number and then cut to 16 bits: a deletion that names kind 95678 passes as one
  of kind 30142.\<close>

lemma wrapped_kind_is_served:
  assumes "served k"
  shows "serves_coord served (dec (unat k + 65536) @ CHR '':'' # x)"
proof -
  have "split_n 2 CHR '':'' (dec (unat k + 65536) @ CHR '':'' # x) = [dec (unat k + 65536), x]"
    by (simp add: numeral_2_eq_2 cut_append [OF colon_not_in_dec])
  moreover have "unat k < 2 ^ 16" using unsigned_less [of k, where ?'a = nat] by simp
  then have "atoi (dec (unat k + 65536)) = Some (int (unat k + 65536))" by (intro atoi_dec) simp
  moreover have "kind_of_int (int (unat k + 65536)) = k"
  proof -
    have "(65536 :: 16 word) = 0" by simp
    then show ?thesis by (simp add: kind_of_int_def)
  qed
  ultimately show ?thesis using assms by (simp add: serves_coord_def)
qed

end
