(* ===== verification/Community.thy ===== *)
theory Community
  imports Validate
begin

text \<open>
  \<open>community_registry.go\<close>, \<open>community_stamp.go\<close> and \<open>docIDFor\<close> of \<open>structured.go\<close>: who may publish what
  into a community, and the \<open>community\<close> field of the content documents. A Go set is a set, a map
  from kinds or coordinates a function; the relay pool (\<open>query_single\<close>) and the stores are
  parameters. The refresh and sweep loops, which repeat \<open>refresh\<close> and \<open>reconcileAll\<close> are in the
  theory Loops; what they leave in the \<open>community\<close> fields is shown in Stamping.
\<close>

section \<open>Community definitions\<close>

record listCoord =
  lc_Pubkey :: string
  lc_DTag :: string
  lc_Relay :: string

record communitySection =
  cs_Kinds :: "kind list"
  cs_List :: "listCoord option"

definition parseListCoord :: "tag \<Rightarrow> listCoord option" where
  "parseListCoord aTag = (case aTag of
     _ # v # rest \<Rightarrow> (case split3 v of
       None \<Rightarrow> None
     | Some (k, p, d) \<Rightarrow> if k \<noteq> ''30000'' then None
         else Some \<lparr>lc_Pubkey = p, lc_DTag = d, lc_Relay = (case rest of r # _ \<Rightarrow> r | [] \<Rightarrow> [])\<rparr>)
   | _ \<Rightarrow> None)"

text \<open>\<open>cur\<close> is always the last section, so it is not kept separately.\<close>

definition section_tag :: "tag \<Rightarrow> communitySection list \<Rightarrow> communitySection list" where
  "section_tag t secs = (case t of
     [] \<Rightarrow> secs
   | name # rest \<Rightarrow>
       if name = ''content'' then secs @ [\<lparr>cs_Kinds = [], cs_List = None\<rparr>]
       else if secs = [] then secs
       else if name = ''k'' then
         (case rest of [] \<Rightarrow> secs | v # _ \<Rightarrow> (case atoi v of
            None \<Rightarrow> secs
          | Some n \<Rightarrow> butlast secs @ [(last secs)\<lparr>cs_Kinds := cs_Kinds (last secs) @ [kind_of_int n]\<rparr>]))
       else if name = ''a'' then
         (if cs_List (last secs) \<noteq> None then secs
          else (case parseListCoord t of
            None \<Rightarrow> secs
          | Some lc \<Rightarrow> butlast secs @ [(last secs)\<lparr>cs_List := Some lc\<rparr>]))
       else secs)"

definition parseCommunitySections :: "event \<Rightarrow> communitySection list" where
  "parseCommunitySections ev = fold section_tag (ev_tags ev) []"

section \<open>Membership\<close>

record communityMembership =
  cm_Owner :: string
  cm_Members :: "kind \<Rightarrow> string set option"

definition allows :: "communityMembership \<Rightarrow> string \<Rightarrow> kind \<Rightarrow> bool" where
  "allows m pubkey k =
     (if pubkey = cm_Owner m then True
      else (case cm_Members m k of None \<Rightarrow> True | Some s \<Rightarrow> pubkey \<in> s))"

definition listKey :: "listCoord \<Rightarrow> string" where
  "listKey lc = lc_Pubkey lc @ '':'' @ lc_DTag lc"

type_synonym member_acc = "kind set \<times> (kind \<Rightarrow> string set option)"

definition section_kind :: "(string \<Rightarrow> string set option) \<Rightarrow> communitySection \<Rightarrow> kind \<Rightarrow> member_acc \<Rightarrow> member_acc" where
  "section_kind lists' sec k = (\<lambda>(openKinds, restricted). case cs_List sec of
     None \<Rightarrow> (insert k openKinds, restricted)
   | Some lc \<Rightarrow> (openKinds, restricted(k \<mapsto>
       (case restricted k of None \<Rightarrow> {} | Some s \<Rightarrow> s) \<union>
       (case lists' (listKey lc) of None \<Rightarrow> {} | Some s \<Rightarrow> s))))"

definition buildMembership :: "string \<Rightarrow> communitySection list \<Rightarrow> (string \<Rightarrow> string set option) \<Rightarrow> communityMembership" where
  "buildMembership owner sections lists' =
     (case fold (\<lambda>sec acc. fold (section_kind lists' sec) (cs_Kinds sec) acc) sections ({}, \<lambda>_. None) of
       (openKinds, restricted) \<Rightarrow>
         \<lparr>cm_Owner = owner, cm_Members = (\<lambda>k. if k \<in> openKinds then None else restricted k)\<rparr>)"

section \<open>Resolving a community\<close>

type_synonym query_single = "string list \<Rightarrow> filter \<Rightarrow> event option"

definition membersFromTags :: "tag list \<Rightarrow> string set" where
  "membersFromTags tags = set (tag_values ''p'' tags)"

definition community_fetchList :: "lib \<Rightarrow> query_single \<Rightarrow> string list \<Rightarrow> listCoord \<Rightarrow> string set option" where
  "community_fetchList L query fallback lc = (case pk_from_hex L (lc_Pubkey lc) of
     Inl _ \<Rightarrow> None
   | Inr pk \<Rightarrow>
       let relays = (if lc_Relay lc \<noteq> [] then lc_Relay lc # fallback else fallback) in
       (case query relays (empty_filter\<lparr>f_kinds := [30000], f_authors := [pk],
           f_tags := [(''d'', [lc_DTag lc])], f_limit := 1\<rparr>) of
         None \<Rightarrow> None
       | Some res \<Rightarrow> Some (membersFromTags (ev_tags res))))"

fun fetch_lists :: "lib \<Rightarrow> query_single \<Rightarrow> string list \<Rightarrow> communitySection list \<Rightarrow> (string \<Rightarrow> string set option) \<Rightarrow>
    string \<Rightarrow> string set option" where
  "fetch_lists L query relays [] acc = acc"
| "fetch_lists L query relays (sec # secs) acc = (case cs_List sec of
     None \<Rightarrow> fetch_lists L query relays secs acc
   | Some lc \<Rightarrow>
       if acc (listKey lc) \<noteq> None then fetch_lists L query relays secs acc
       else (case community_fetchList L query relays lc of
         Some s \<Rightarrow> fetch_lists L query relays secs (acc(listKey lc \<mapsto> s))
       | None \<Rightarrow> fetch_lists L query relays secs acc))"

definition Resolve :: "lib \<Rightarrow> query_single \<Rightarrow> string list \<Rightarrow> string \<Rightarrow> communityMembership option" where
  "Resolve L query relays community = (case pk_from_hex L community of
     Inl _ \<Rightarrow> None
   | Inr pk \<Rightarrow> (case query relays (empty_filter\<lparr>f_kinds := [10222], f_authors := [pk], f_limit := 1\<rparr>) of
       None \<Rightarrow> None
     | Some def \<Rightarrow>
         let sections = parseCommunitySections def in
         Some (buildMembership community sections (fetch_lists L query relays sections (\<lambda>_. None)))))"

section \<open>The registry\<close>

text \<open>The communities targeted by the stored events of the given kinds, in first-seen order.\<close>

definition backfillCommunities :: "(filter \<Rightarrow> int \<Rightarrow> 'w \<Rightarrow> event list) \<Rightarrow> kind list \<Rightarrow> int \<Rightarrow> 'w \<Rightarrow> string list" where
  "backfillCommunities q ks maxLimit w = dedup_from (\<lambda>c. c) {}
     (concat (map shareCommunities (q (empty_filter\<lparr>f_kinds := ks\<rparr>) maxLimit w)))"

type_synonym resolved = "string \<Rightarrow> communityMembership option"

definition IsMember :: "resolved \<Rightarrow> string \<Rightarrow> string \<Rightarrow> kind \<Rightarrow> bool" where
  "IsMember r community pubkey k = (case r community of None \<Rightarrow> True | Some m \<Rightarrow> allows m pubkey k)"

fun refresh :: "lib \<Rightarrow> (string \<Rightarrow> communityMembership option) \<Rightarrow> string list \<Rightarrow> resolved \<Rightarrow> resolved" where
  "refresh L resolve [] r = r"
| "refresh L resolve (c # cs) r = (case pk_from_hex L c of
     Inl _ \<Rightarrow> refresh L resolve cs r
   | Inr _ \<Rightarrow> (case resolve c of
       None \<Rightarrow> refresh L resolve cs r
     | Some m \<Rightarrow> refresh L resolve cs (r(c \<mapsto> m))))"

section \<open>Shares\<close>

record shareRef =
  sr_Coord :: string
  sr_Kind :: kind
  sr_Pubkey :: string
  sr_DTag :: string
  sr_Author :: string
  sr_Communities :: "string list"
  sr_RelayHint :: string

fun first_ref :: "string \<Rightarrow> string list \<Rightarrow> tag list \<Rightarrow> shareRef option" where
  "first_ref author communities [] = None"
| "first_ref author communities (t # ts) = (case t of
     n # v # rest \<Rightarrow>
       if n \<noteq> ''a'' then first_ref author communities ts
       else (case split3 v of
         None \<Rightarrow> first_ref author communities ts
       | Some (k, p, d) \<Rightarrow>
           if k = [] \<or> p = [] \<or> d = [] then first_ref author communities ts
           else (case atoi k of
             None \<Rightarrow> first_ref author communities ts
           | Some num \<Rightarrow> Some \<lparr>sr_Coord = v, sr_Kind = kind_of_int num, sr_Pubkey = p, sr_DTag = d,
               sr_Author = author, sr_Communities = communities,
               sr_RelayHint = (case rest of h # _ \<Rightarrow> h | [] \<Rightarrow> [])\<rparr>))
   | _ \<Rightarrow> first_ref author communities ts)"

definition shareToRef :: "lib \<Rightarrow> event \<Rightarrow> shareRef option" where
  "shareToRef L ev = (let communities = shareCommunities ev in
     if length communities = 0 then None
     else first_ref (pk_hex L (ev_pubkey ev)) communities (ev_tags ev))"

definition contentOwnCommunities :: "event \<Rightarrow> string list" where
  "contentOwnCommunities ev = dedup_from (\<lambda>v. v) {} (tag_values ''h'' (ev_tags ev))"

text \<open>An absent coordinate has the empty set, as a nil map in Go.\<close>

definition deriveStamps :: "shareRef list \<Rightarrow> (string \<Rightarrow> string \<Rightarrow> kind \<Rightarrow> bool) \<Rightarrow> string \<Rightarrow> string set" where
  "deriveStamps refs isMember = fold (\<lambda>ref st. fold (\<lambda>c st.
       if \<not> isMember c (sr_Author ref) (sr_Kind ref) then st
       else st(sr_Coord ref := insert c (st (sr_Coord ref)))) (sr_Communities ref) st) refs (\<lambda>_. {})"

definition contentCoord :: "lib \<Rightarrow> event \<Rightarrow> (string \<times> kind \<times> string \<times> string) option" where
  "contentCoord L ev = (case tag_values ''d'' (ev_tags ev) of
     [] \<Rightarrow> None
   | d # _ \<Rightarrow> let pk = pk_hex L (ev_pubkey ev) in Some (coord_str (ev_kind ev) pk d, ev_kind ev, pk, d))"

definition unionSorted :: "string list \<Rightarrow> string set \<Rightarrow> string list" where
  "unionSorted a b = sorted_list_of_set (set a \<union> b)"

definition hintsFromRefs :: "shareRef list \<Rightarrow> string list" where
  "hintsFromRefs refs = List.filter (\<lambda>h. h \<noteq> []) (map sr_RelayHint refs)"

definition docIDFor :: "lib \<Rightarrow> kind \<Rightarrow> string \<Rightarrow> string \<Rightarrow> string" where
  "docIDFor L k pubkey dTag =
     (if k \<in> {30040, 30041, 30143, 30144, 30145, 31922, 31923, 31924, 31925}
      then dec (unat k) @ '':'' @ gen_doc_id L pubkey dTag
      else gen_doc_id L pubkey dTag)"

section \<open>The stamper\<close>

record 'w stamper =
  st_isMember :: "'w \<Rightarrow> string \<Rightarrow> string \<Rightarrow> kind \<Rightarrow> bool"
  st_sharesFor :: "string \<Rightarrow> 'w \<Rightarrow> event list"
  st_allShares :: "'w \<Rightarrow> event list"
  st_lookup :: "string \<Rightarrow> 'w \<Rightarrow> event option"
  st_fetch :: "(shareRef \<Rightarrow> string list \<Rightarrow> 'w \<Rightarrow> event option) option"
  st_validate :: "(event \<Rightarrow> bool \<times> string) option"
  st_store :: "(event \<Rightarrow> 'w \<Rightarrow> 'w) option"
  st_patch :: "kind \<Rightarrow> string \<Rightarrow> string list \<Rightarrow> 'w \<Rightarrow> error option \<times> 'w"
  st_stampKinds :: "kind set"

definition isStampKind :: "'w stamper \<Rightarrow> kind \<Rightarrow> bool" where
  "isStampKind s k \<longleftrightarrow> k \<in> st_stampKinds s"

text \<open>The content to stamp and the world in which it is stored, if there is any.\<close>

definition stamp_content :: "'w stamper \<Rightarrow> string \<Rightarrow> kind \<Rightarrow> string \<Rightarrow> string \<Rightarrow> shareRef list \<Rightarrow> string set \<Rightarrow> 'w \<Rightarrow>
    (event \<times> 'w) option" where
  "stamp_content s coord k pubkey dTag refs desired w = (case st_lookup s coord w of
     Some ev \<Rightarrow> Some (ev, w)
   | None \<Rightarrow>
       if desired = {} then None
       else (case st_fetch s of
         None \<Rightarrow> None
       | Some fetch \<Rightarrow> (case fetch \<lparr>sr_Coord = coord, sr_Kind = k, sr_Pubkey = pubkey, sr_DTag = dTag,
             sr_Author = [], sr_Communities = [], sr_RelayHint = []\<rparr> (hintsFromRefs refs) w of
           None \<Rightarrow> None
         | Some fetched \<Rightarrow>
             if (case st_validate s of None \<Rightarrow> False | Some validate \<Rightarrow> fst (validate fetched)) then None
             else Some (fetched, case st_store s of None \<Rightarrow> w | Some store \<Rightarrow> store fetched w))))"

definition reconcile :: "lib \<Rightarrow> 'w stamper \<Rightarrow> string \<Rightarrow> kind \<Rightarrow> string \<Rightarrow> string \<Rightarrow> 'w \<Rightarrow> 'w" where
  "reconcile L s coord k pubkey dTag w =
     (if \<not> isStampKind s k then w
      else let refs = List.map_filter (shareToRef L) (st_sharesFor s coord w);
               desired = deriveStamps refs (st_isMember s w) coord
        in case stamp_content s coord k pubkey dTag refs desired w of
             None \<Rightarrow> w
           | Some (ev, w') \<Rightarrow>
               snd (st_patch s k (docIDFor L k pubkey dTag) (unionSorted (contentOwnCommunities ev) desired) w'))"

definition reconcileShare :: "lib \<Rightarrow> 'w stamper \<Rightarrow> event \<Rightarrow> 'w \<Rightarrow> 'w" where
  "reconcileShare L s ev w = (case shareToRef L ev of
     None \<Rightarrow> w
   | Some ref \<Rightarrow> reconcile L s (sr_Coord ref) (sr_Kind ref) (sr_Pubkey ref) (sr_DTag ref) w)"

fun reconcile_loop :: "lib \<Rightarrow> 'w stamper \<Rightarrow> event list \<Rightarrow> string set \<Rightarrow> 'w \<Rightarrow> 'w" where
  "reconcile_loop L s [] seen w = w"
| "reconcile_loop L s (ev # evs) seen w = (case shareToRef L ev of
     None \<Rightarrow> reconcile_loop L s evs seen w
   | Some ref \<Rightarrow>
       if sr_Coord ref \<in> seen then reconcile_loop L s evs seen w
       else reconcile_loop L s evs (insert (sr_Coord ref) seen)
         (reconcile L s (sr_Coord ref) (sr_Kind ref) (sr_Pubkey ref) (sr_DTag ref) w))"

definition reconcileAll :: "lib \<Rightarrow> 'w stamper \<Rightarrow> 'w \<Rightarrow> 'w" where
  "reconcileAll L s w = reconcile_loop L s (st_allShares s w) {} w"

section \<open>Who is a member\<close>

definition covers :: "communitySection list \<Rightarrow> kind \<Rightarrow> bool" where
  "covers secs k \<longleftrightarrow> (\<exists>sec \<in> set secs. k \<in> set (cs_Kinds sec) \<and> cs_List sec \<noteq> None)"

definition opens :: "communitySection list \<Rightarrow> kind \<Rightarrow> bool" where
  "opens secs k \<longleftrightarrow> (\<exists>sec \<in> set secs. k \<in> set (cs_Kinds sec) \<and> cs_List sec = None)"

definition listed :: "(string \<Rightarrow> string set option) \<Rightarrow> communitySection list \<Rightarrow> kind \<Rightarrow> string set" where
  "listed ls secs k = {pk. \<exists>sec \<in> set secs. \<exists>lc s. k \<in> set (cs_Kinds sec) \<and> cs_List sec = Some lc \<and>
     ls (listKey lc) = Some s \<and> pk \<in> s}"

lemma listed_Nil [simp]: "listed ls [] k = {}"
  by (simp add: listed_def)

lemma section_fold:
  "fold (section_kind ls sec) ks (op, restr) = (case cs_List sec of
     None \<Rightarrow> (op \<union> set ks, restr)
   | Some lc \<Rightarrow> (op, \<lambda>k. if k \<in> set ks
       then Some ((case restr k of None \<Rightarrow> {} | Some s \<Rightarrow> s) \<union> (case ls (listKey lc) of None \<Rightarrow> {} | Some s \<Rightarrow> s))
       else restr k))"
proof (induction ks arbitrary: op restr)
  case Nil
  then show ?case by (simp split: option.split)
next
  case (Cons k ks)
  show ?case
  proof (cases "cs_List sec")
    case None
    with Cons show ?thesis by (simp add: section_kind_def)
  next
    case (Some lc)
    with Cons show ?thesis by (auto simp: section_kind_def fun_eq_iff split: option.splits)
  qed
qed

lemma sections_fold:
  "fold (\<lambda>sec acc. fold (section_kind ls sec) (cs_Kinds sec) acc) secs (op, restr) =
     (op \<union> {k. opens secs k},
      \<lambda>k. if covers secs k then Some ((case restr k of None \<Rightarrow> {} | Some s \<Rightarrow> s) \<union> listed ls secs k) else restr k)"
proof (induction secs arbitrary: op restr)
  case Nil
  then show ?case by (simp add: opens_def covers_def)
next
  case (Cons sec secs)
  show ?case
  proof (cases "cs_List sec")
    case None
    then have "listed ls (sec # secs) = listed ls secs" by (auto simp: listed_def fun_eq_iff)
    with None Cons show ?thesis by (auto simp: section_fold opens_def covers_def fun_eq_iff)
  next
    case (Some lc)
    have l: "listed ls (sec # secs) k = (if k \<in> set (cs_Kinds sec)
        then (case ls (listKey lc) of None \<Rightarrow> {} | Some s \<Rightarrow> s) else {}) \<union> listed ls secs k" for k
      using Some by (auto simp: listed_def split: option.splits)
    have e: "\<not> covers secs k \<Longrightarrow> listed ls secs k = {}" for k
      by (auto simp: listed_def covers_def)
    have c: "covers (sec # secs) k \<longleftrightarrow> k \<in> set (cs_Kinds sec) \<or> covers secs k" for k
      using Some by (simp add: covers_def)
    have o: "opens (sec # secs) = opens secs" using Some by (simp add: opens_def fun_eq_iff)
    show ?thesis
      using Some e by (auto simp: section_fold Cons l c o fun_eq_iff split: option.splits)
  qed
qed

lemma allows_buildMembership:
  "allows (buildMembership owner secs ls) pk k \<longleftrightarrow>
     pk = owner \<or> opens secs k \<or> \<not> covers secs k \<or> pk \<in> listed ls secs k"
  by (auto simp: allows_def buildMembership_def sections_fold)

section \<open>What is stamped\<close>

lemma deriveStamps_fold:
  "fold (\<lambda>ref st. fold (\<lambda>c st. if \<not> isMember c (sr_Author ref) (sr_Kind ref) then st
       else st(sr_Coord ref := insert c (st (sr_Coord ref)))) (sr_Communities ref) st) refs st coord =
   st coord \<union> {c. \<exists>ref \<in> set refs. sr_Coord ref = coord \<and> c \<in> set (sr_Communities ref) \<and>
     isMember c (sr_Author ref) (sr_Kind ref)}"
proof (induction refs arbitrary: st)
  case (Cons ref refs)
  have inner: "fold (\<lambda>c st. if \<not> isMember c (sr_Author ref) (sr_Kind ref) then st
       else st(sr_Coord ref := insert c (st (sr_Coord ref)))) cs st coord =
     st coord \<union> {c. sr_Coord ref = coord \<and> c \<in> set cs \<and> isMember c (sr_Author ref) (sr_Kind ref)}" for cs st
    by (induction cs arbitrary: st) auto
  show ?case by (auto simp: Cons inner)
qed simp

lemma deriveStamps_eq: "deriveStamps refs isMember coord = {c. \<exists>ref \<in> set refs. sr_Coord ref = coord \<and>
    c \<in> set (sr_Communities ref) \<and> isMember c (sr_Author ref) (sr_Kind ref)}"
  by (simp add: deriveStamps_def deriveStamps_fold)

lemma finite_deriveStamps: "finite (deriveStamps refs isMember coord)"
proof (rule finite_subset)
  show "deriveStamps refs isMember coord \<subseteq> (\<Union>ref \<in> set refs. set (sr_Communities ref))"
    by (auto simp: deriveStamps_eq)
qed simp

lemma unionSorted_props:
  "finite b \<Longrightarrow> sorted (unionSorted a b) \<and> distinct (unionSorted a b) \<and> set (unionSorted a b) = set a \<union> b"
  by (simp add: unionSorted_def)

lemma set_contentOwnCommunities: "set (contentOwnCommunities ev) = set (tag_values ''h'' (ev_tags ev))"
  by (simp add: contentOwnCommunities_def dedup_from_set)

lemma reconcile_loop_eq:
  "reconcile_loop L s evs seen w =
     fold (\<lambda>ref. reconcile L s (sr_Coord ref) (sr_Kind ref) (sr_Pubkey ref) (sr_DTag ref))
       (dedup_from sr_Coord seen (List.map_filter (shareToRef L) evs)) w"
  by (induction evs arbitrary: seen w) (auto simp: List.map_filter_def split: option.splits)

section \<open>Properties\<close>

text \<open>Membership is exactly the rule of a community definition: the owner may publish every kind; a kind
  that no section restricts, or that some section leaves open, is open to everybody; any other
  kind is for the members of the lists of its sections that could be fetched, so a kind whose lists
  are all unreachable is the owner's alone.\<close>

theorem membership_rule:
  "allows (buildMembership owner secs ls) pk k \<longleftrightarrow> pk = owner \<or>
     (\<exists>sec \<in> set secs. k \<in> set (cs_Kinds sec) \<and> cs_List sec = None) \<or>
     {sec \<in> set secs. k \<in> set (cs_Kinds sec) \<and> cs_List sec \<noteq> None} = {} \<or>
     (\<exists>sec \<in> set secs. \<exists>lc s. k \<in> set (cs_Kinds sec) \<and> cs_List sec = Some lc \<and> ls (listKey lc) = Some s \<and> pk \<in> s)"
  unfolding allows_buildMembership opens_def covers_def listed_def by blast

text \<open>A refresh keeps what it knew: a community that is not scanned, is not a valid pubkey or cannot be
  resolved keeps its last membership, and one that never resolved stays open to everybody.\<close>

theorem refresh_keeps_last_known:
  "refresh L resolve cs r c =
     (if c \<in> set cs then (case (pk_from_hex L c, resolve c) of (Inr _, Some m) \<Rightarrow> Some m | _ \<Rightarrow> r c) else r c)"
proof (induction cs arbitrary: r)
  case (Cons c' cs)
  then show ?case
    by (cases "c = c'"; cases "pk_from_hex L c'"; cases "resolve c'") (auto split: sum.splits option.splits)
qed simp

text \<open>A sweep reconciles every content coordinate that some share references, and each once.\<close>

theorem sweep_reconciles_each_coordinate_once:
  "\<exists>refs :: shareRef list. reconcileAll L s w =
       fold (\<lambda>ref. reconcile L s (sr_Coord ref) (sr_Kind ref) (sr_Pubkey ref) (sr_DTag ref)) refs w \<and>
     distinct (map sr_Coord refs) \<and>
     sr_Coord ` set refs = {sr_Coord ref | ref share. share \<in> set (st_allShares s w) \<and> shareToRef L share = Some ref}"
proof -
  let ?refs = "dedup_from sr_Coord {} (List.map_filter (shareToRef L) (st_allShares s w))"
  have keys: "sr_Coord ` set ?refs = {sr_Coord ref | ref share. share \<in> set (st_allShares s w) \<and> shareToRef L share = Some ref}"
    by (force simp: dedup_from_keys set_map_filter_iff)
  have run: "reconcileAll L s w =
       fold (\<lambda>ref. reconcile L s (sr_Coord ref) (sr_Kind ref) (sr_Pubkey ref) (sr_DTag ref)) ?refs w"
    by (simp only: reconcileAll_def reconcile_loop_eq)
  show ?thesis using run keys dedup_from_distinct [of sr_Coord] by blast
qed

end
