(* ===== verification/Profiles.thy ===== *)
theory Profiles
  imports Community Expand
begin

text \<open>
  \<open>profile_manager.go\<close> and \<open>nip05_directory.go\<close>: the durable queue of authors whose kind-0 profile is to be
  fetched, the pass that drains it, the worker that decides when to drain, and the NIP-05 directories that
  feed it. The queue is the \<open>profile_queue\<close> bucket of the management database; relays, the profile
  collection and the directories are the world \<open>'w\<close>.
\<close>

section \<open>The manager\<close>

record 'w profile_env =
  pe_tx_enqueue :: "string \<Rightarrow> error option"
  pe_tx_remove :: "string \<Rightarrow> error option"
  pe_list_err :: "error option"
  pe_Fetch :: "string list \<Rightarrow> pubkey list \<Rightarrow> 'w \<Rightarrow> event list \<times> 'w"
  pe_ParseMetadata :: "event \<Rightarrow> string option"
  pe_verify :: "string \<Rightarrow> pubkey \<Rightarrow> 'w \<Rightarrow> bool"
  pe_store :: "event \<Rightarrow> bool \<Rightarrow> 'w \<Rightarrow> 'w"
  pe_ctx_err :: "'w \<Rightarrow> bool"
  pe_relays :: "string list"
  pe_fallbackRelays :: "string list"
  pe_batchSize :: int

definition NewProfileManager :: "'w profile_env \<Rightarrow> 'w profile_env" where
  "NewProfileManager E = (if pe_batchSize E \<le> 0 then E\<lparr>pe_batchSize := 50\<rparr> else E)"

text \<open>\<open>nip05.IsValidIdentifier\<close> and \<open>nip05.QueryIdentifier\<close> are parameters.\<close>

definition verifyNIP05 :: "(string \<Rightarrow> bool) \<Rightarrow> (string \<Rightarrow> error + pubkey) \<Rightarrow> string \<Rightarrow> pubkey \<Rightarrow> bool" where
  "verifyNIP05 valid query identifier pk =
     (if identifier = [] \<or> \<not> valid identifier then False
      else case query identifier of Inl _ \<Rightarrow> False | Inr p \<Rightarrow> p = pk)"

definition backfillAuthors :: "(filter \<Rightarrow> int \<Rightarrow> 'w \<Rightarrow> event list) \<Rightarrow> kind list \<Rightarrow> int \<Rightarrow> 'w \<Rightarrow> pubkey list" where
  "backfillAuthors q ks maxLimit w = dedup_from (\<lambda>p. p) {} (map ev_pubkey (q (empty_filter\<lparr>f_kinds := ks\<rparr>) maxLimit w))"

fun add_communities :: "lib \<Rightarrow> string list \<Rightarrow> pubkey set \<Rightarrow> pubkey list \<Rightarrow> pubkey list" where
  "add_communities L [] seen out = out"
| "add_communities L (h # hs) seen out = (case pk_from_hex L h of
     Inl _ \<Rightarrow> add_communities L hs seen out
   | Inr pk \<Rightarrow> if pk \<in> seen then add_communities L hs seen out
       else add_communities L hs (insert pk seen) (out @ [pk]))"

definition backfillProfileCandidates :: "lib \<Rightarrow> (filter \<Rightarrow> int \<Rightarrow> 'w \<Rightarrow> event list) \<Rightarrow> kind list \<Rightarrow> kind list \<Rightarrow> int \<Rightarrow> 'w \<Rightarrow> pubkey list" where
  "backfillProfileCandidates L q contentKinds communityKinds maxLimit w = (
     let out = backfillAuthors q contentKinds maxLimit w
     in add_communities L (backfillCommunities q communityKinds maxLimit w) (set out) out)"

text \<open>\<open>Enqueue\<close>: the candidate and whether the worker was kicked (always).\<close>

definition profile_Enqueue :: "lib \<Rightarrow> 'w profile_env \<Rightarrow> pubkey \<Rightarrow> mgmt_db \<Rightarrow> mgmt_db" where
  "profile_Enqueue L E pk m = snd (EnqueueProfileCandidate (pe_tx_enqueue E (pk_hex L pk)) (pk_hex L pk) m)"

definition enqueueShareCommunities :: "lib \<Rightarrow> 'w profile_env option \<Rightarrow> event \<Rightarrow> mgmt_db \<Rightarrow> mgmt_db" where
  "enqueueShareCommunities L pm ev m = (case pm of
     None \<Rightarrow> m
   | Some E \<Rightarrow> fold (\<lambda>h m. case pk_from_hex L h of Inl _ \<Rightarrow> m | Inr pk \<Rightarrow> profile_Enqueue L E pk m) (shareCommunities ev) m)"

section \<open>Draining the queue\<close>

definition remove_candidate :: "'w profile_env \<Rightarrow> string \<Rightarrow> mgmt_db \<Rightarrow> mgmt_db" where
  "remove_candidate E h m = snd (RemoveProfileCandidate (pe_tx_remove E h) h m)"

text \<open>The events that parse, each with whether its claimed identifier verifies.\<close>

definition verified_batch :: "'w profile_env \<Rightarrow> event list \<Rightarrow> 'w \<Rightarrow> (event \<times> bool) list" where
  "verified_batch E evs w = List.map_filter (\<lambda>ev. case pe_ParseMetadata E ev of
     None \<Rightarrow> None
   | Some claim \<Rightarrow> Some (ev, claim \<noteq> [] \<and> pe_verify E claim (ev_pubkey ev) w)) evs"

definition store_batch :: "lib \<Rightarrow> 'w profile_env \<Rightarrow> (event \<times> bool) list \<Rightarrow> mgmt_db \<times> 'w \<Rightarrow> mgmt_db \<times> 'w" where
  "store_batch L E batch s = fold (\<lambda>(ev, verified) (m, w).
     (remove_candidate E (pk_hex L (ev_pubkey ev)) m, pe_store E ev verified w)) batch s"

definition fetchStore :: "lib \<Rightarrow> 'w profile_env \<Rightarrow> string list \<Rightarrow> pubkey list \<Rightarrow> mgmt_db \<times> 'w \<Rightarrow> pubkey list \<times> mgmt_db \<times> 'w" where
  "fetchStore L E relays authors s = (case s of (m, w) \<Rightarrow> (case pe_Fetch E relays authors w of
     (evs, w1) \<Rightarrow>
       let batch = verified_batch E evs w1;
           stored = set (map (\<lambda>b. ev_pubkey (fst b)) batch)
       in (List.filter (\<lambda>pk. pk \<notin> stored) authors, store_batch L E batch (m, w1))))"

fun batch_authors :: "lib \<Rightarrow> 'w profile_env \<Rightarrow> string list \<Rightarrow> pubkey list \<times> nat \<Rightarrow> mgmt_db \<Rightarrow> (pubkey list \<times> nat) \<times> mgmt_db" where
  "batch_authors L E [] r m = (r, m)"
| "batch_authors L E (h # hs) (authors, dropped) m = (case pk_from_hex L h of
     Inl _ \<Rightarrow> batch_authors L E hs (authors, Suc dropped) (remove_candidate E h m)
   | Inr pk \<Rightarrow> batch_authors L E hs (authors @ [pk], dropped) m)"

text \<open>One batch: what the primary and the fallback relays resolved.\<close>

definition drain_batch :: "lib \<Rightarrow> 'w profile_env \<Rightarrow> pubkey list \<Rightarrow> nat \<times> nat \<Rightarrow> mgmt_db \<times> 'w \<Rightarrow> (nat \<times> nat) \<times> mgmt_db \<times> 'w" where
  "drain_batch L E authors cnt s = (case cnt of (viaPrimary, viaFallback) \<Rightarrow>
     (case fetchStore L E (pe_relays E) authors s of (remaining, s1) \<Rightarrow>
       let viaPrimary' = viaPrimary + (length authors - length remaining) in
       if length remaining > 0 \<and> length (pe_fallbackRelays E) > 0 then
         (case fetchStore L E (pe_fallbackRelays E) remaining s1 of (stillMissing, s2) \<Rightarrow>
           ((viaPrimary', viaFallback + (length remaining - length stillMissing)), s2))
       else ((viaPrimary', viaFallback), s1)))"

text \<open>The batches; the batch size is positive, a size of zero ends the recursion only in this definition.\<close>

function drain_loop :: "lib \<Rightarrow> 'w profile_env \<Rightarrow> string list \<Rightarrow> nat \<times> nat \<times> nat \<Rightarrow> mgmt_db \<times> 'w \<Rightarrow> (nat \<times> nat \<times> nat) \<times> mgmt_db \<times> 'w" where
  "drain_loop L E queued cnt s = (
     let b = nat (pe_batchSize E) in
     if queued = [] \<or> b = 0 then (cnt, s)
     else (case cnt of (viaPrimary, viaFallback, dropped) \<Rightarrow> (case s of (m, w) \<Rightarrow>
       (case batch_authors L E (take b queued) ([], dropped) m of ((authors, dropped'), m1) \<Rightarrow>
         if authors = [] then drain_loop L E (drop b queued) (viaPrimary, viaFallback, dropped') (m1, w)
         else (case drain_batch L E authors (viaPrimary, viaFallback) (m1, w) of ((p, f), (m2, w2)) \<Rightarrow>
           if pe_ctx_err E w2 then ((p, f, dropped'), (m2, w2))
           else drain_loop L E (drop b queued) (p, f, dropped') (m2, w2))))))"
  by pat_completeness auto
termination
  by (relation "measure (\<lambda>(_, _, queued, _, _). length queued)") auto

declare drain_loop.simps [simp del]

definition drainOnce :: "lib \<Rightarrow> 'w profile_env \<Rightarrow> mgmt_db \<times> 'w \<Rightarrow> int \<times> mgmt_db \<times> 'w" where
  "drainOnce L E s = (case pe_list_err E of
     Some _ \<Rightarrow> (0, s)
   | None \<Rightarrow>
       let queued = ListProfileQueue (fst s) in
       if length queued = 0 then (0, s)
       else (case drain_loop L E queued (0, 0, 0) s of ((viaPrimary, viaFallback, dropped), s') \<Rightarrow>
         (int (length queued) - int viaPrimary - int viaFallback - int dropped, s')))"

section \<open>The drain worker\<close>

text \<open>
  The phases of \<open>drainWorker\<close>; \<open>dw_kicked\<close> is the one-slot channel, \<open>dw_retry\<close> the armed retry timer.
  \<open>dw_kicks\<close> and \<open>dw_drains\<close> count what happened and are not part of the program's state.
\<close>

datatype dw_phase = Waiting | Debouncing | Draining bool | WorkerStopped

record drain_worker =
  dw_phase :: dw_phase
  dw_kicked :: bool
  dw_retry :: bool
  dw_kicks :: nat
  dw_drains :: nat

definition worker_init :: drain_worker where
  "worker_init = \<lparr>dw_phase = Waiting, dw_kicked = False, dw_retry = False, dw_kicks = 0, dw_drains = 0\<rparr>"

inductive drain_step :: "drain_worker \<Rightarrow> drain_worker \<Rightarrow> bool" where
  kick: "drain_step s (s\<lparr>dw_kicked := True, dw_kicks := dw_kicks s + 1\<rparr>)"
| take_kick: "dw_phase s = Waiting \<Longrightarrow> dw_kicked s \<Longrightarrow> drain_step s (s\<lparr>dw_phase := Debouncing, dw_kicked := False\<rparr>)"
| debounced: "dw_phase s = Debouncing \<Longrightarrow>
    drain_step s (s\<lparr>dw_phase := Draining False, dw_retry := False, dw_drains := dw_drains s + 1\<rparr>)"
| retry_fires: "dw_phase s = Waiting \<Longrightarrow> dw_retry s \<Longrightarrow>
    drain_step s (s\<lparr>dw_phase := Draining True, dw_retry := False, dw_drains := dw_drains s + 1\<rparr>)"
| drained: "dw_phase s = Draining isRetry \<Longrightarrow>
    drain_step s (s\<lparr>dw_phase := Waiting, dw_retry := unresolved > (0 :: int) \<and> \<not> isRetry\<rparr>)"
| stop: "dw_phase s = Waiting \<or> dw_phase s = Debouncing \<Longrightarrow> drain_step s (s\<lparr>dw_phase := WorkerStopped\<rparr>)"

section \<open>NIP-05 directories\<close>

text \<open>Members are sets: the order of a Go map is not specified.\<close>

record nip05_directory =
  nd_urls :: "string list"
  nd_members :: "string \<Rightarrow> pubkey set"

definition NewNIP05Directory :: "string list \<Rightarrow> nip05_directory" where
  "NewNIP05Directory urls = \<lparr>nd_urls = urls, nd_members = (\<lambda>_. {})\<rparr>"

text \<open>\<open>strings.ToLower\<close>; no character outside ASCII lowers to a hexadecimal digit.\<close>

definition lower_char :: "char \<Rightarrow> char" where
  "lower_char c = (let n = (of_char c :: nat) in if 65 \<le> n \<and> n \<le> 90 then char_of (n + 32) else c)"

definition directory_set :: "lib \<Rightarrow> (string \<times> string) list \<Rightarrow> pubkey set" where
  "directory_set L names = set (List.map_filter (\<lambda>(_, h). case pk_from_hex L (map lower_char h) of
     Inl _ \<Rightarrow> None | Inr pk \<Rightarrow> Some pk) names)"

definition nd_Members :: "nip05_directory \<Rightarrow> pubkey set" where
  "nd_Members d = (\<Union>url \<in> set (nd_urls d). nd_members d url)"

fun poll_loop :: "lib \<Rightarrow> (string \<Rightarrow> error + (string \<times> string) list) \<Rightarrow> string list \<Rightarrow> nip05_directory \<Rightarrow> nip05_directory" where
  "poll_loop L fetch [] d = d"
| "poll_loop L fetch (url # urls) d = (case fetch url of
     Inl _ \<Rightarrow> poll_loop L fetch urls d
   | Inr names \<Rightarrow> poll_loop L fetch urls (d\<lparr>nd_members := (nd_members d)(url := directory_set L names)\<rparr>))"

definition Poll :: "lib \<Rightarrow> (string \<Rightarrow> error + (string \<times> string) list) \<Rightarrow> nip05_directory \<Rightarrow> pubkey set \<times> nip05_directory" where
  "Poll L fetch d = (let before = nd_Members d; d' = poll_loop L fetch (nd_urls d) d in (nd_Members d' - before, d'))"

definition directory_url :: "string \<Rightarrow> string option" where
  "directory_url raw = (let entry = trim_space raw in
     if entry = [] then None
     else if has_prefix entry ''https://'' \<or> has_prefix entry ''http://'' then Some entry
     else Some (''https://'' @ entry @ ''/.well-known/nostr.json''))"

definition parseNIP05DirectoryURLs :: "string \<Rightarrow> string list" where
  "parseNIP05DirectoryURLs raw = List.map_filter directory_url (split_all CHR '','' raw)"

definition unionPubkeys :: "pubkey list list \<Rightarrow> pubkey list" where
  "unionPubkeys ls = dedup_from (\<lambda>p. p) {} (concat ls)"

section \<open>What a drain does to the queue\<close>

definition queue_keys :: "mgmt_db \<Rightarrow> string set" where
  "queue_keys m = set (ListProfileQueue m)"

lemma queue_keys_dom: "queue_keys m = dom (RBT.lookup (b_profile_queue m))"
  by (simp add: queue_keys_def ListProfileQueue_def RBT.keys_def_alt [symmetric] RBT.lookup_keys)

lemma queue_remove: "queue_keys (remove_candidate E h m) = (if pe_tx_remove E h = None then queue_keys m - {h} else queue_keys m)"
  by (auto simp: queue_keys_dom remove_candidate_def RemoveProfileCandidate_def db_update_def split: option.splits if_splits)

lemma queue_enqueue: "queue_keys (profile_Enqueue L E pk m) =
    (if pe_tx_enqueue E (pk_hex L pk) = None then insert (pk_hex L pk) (queue_keys m) else queue_keys m)"
  by (auto simp: queue_keys_dom profile_Enqueue_def EnqueueProfileCandidate_def db_update_def split: option.splits)

lemma finite_queue [simp]: "finite (queue_keys m)"
  by (simp add: queue_keys_def)

text \<open>A key that does not parse is garbage; \<open>has pk w\<close> says that a profile of \<open>pk\<close> was handed to the store.\<close>

definition accounted :: "lib \<Rightarrow> (pubkey \<Rightarrow> 'w \<Rightarrow> bool) \<Rightarrow> string set \<Rightarrow> mgmt_db \<times> 'w \<Rightarrow> bool" where
  "accounted L has K s \<longleftrightarrow> (\<forall>k \<in> K. k \<in> queue_keys (fst s) \<or> (\<exists>e. pk_from_hex L k = Inl e) \<or> (\<exists>pk. pk_hex L pk = k \<and> has pk (snd s)))"

text \<open>The store remembers the profiles it was handed.\<close>

definition store_remembers :: "'w profile_env \<Rightarrow> (pubkey \<Rightarrow> 'w \<Rightarrow> bool) \<Rightarrow> bool" where
  "store_remembers E has \<longleftrightarrow> (\<forall>ev v w. has (ev_pubkey ev) (pe_store E ev v w)) \<and>
     (\<forall>pk ev v w. has pk w \<longrightarrow> has pk (pe_store E ev v w)) \<and>
     (\<forall>pk rs as w. has pk w \<longrightarrow> has pk (snd (pe_Fetch E rs as w)))"

lemma accounted_mono:
  assumes "accounted L has K s" and "\<And>pk. has pk (snd s) \<Longrightarrow> has pk w'"
    and "\<And>k. k \<in> K \<Longrightarrow> k \<in> queue_keys (fst s) \<Longrightarrow> k \<in> queue_keys m' \<or> (\<exists>e. pk_from_hex L k = Inl e) \<or> (\<exists>pk. pk_hex L pk = k \<and> has pk w')"
  shows "accounted L has K (m', w')"
  using assms unfolding accounted_def fst_conv snd_conv by blast

lemma accounted_store:
  assumes "store_remembers E has" and "accounted L has K s"
  shows "accounted L has K (store_batch L E batch s)"
  using assms(2)
proof (induction batch arbitrary: s)
  case (Cons b batch)
  obtain ev v where b: "b = (ev, v)" by fastforce
  have "accounted L has K (remove_candidate E (pk_hex L (ev_pubkey ev)) (fst s), pe_store E ev v (snd s))"
    by (rule accounted_mono [OF Cons.prems]) (use assms(1) in \<open>auto simp: queue_remove store_remembers_def\<close>)
  from Cons.IH [OF this] b show ?case by (simp add: store_batch_def case_prod_beta)
qed (simp add: store_batch_def)

lemma accounted_fetchStore:
  assumes "store_remembers E has" and "accounted L has K s" and "fetchStore L E rs as s = (rem, s')"
  shows "accounted L has K s'"
proof -
  obtain m w where s: "s = (m, w)" by fastforce
  have "accounted L has K (m, snd (pe_Fetch E rs as w))"
    by (rule accounted_mono [OF assms(2)]) (use assms(1) s in \<open>auto simp: store_remembers_def\<close>)
  from accounted_store [OF assms(1) this] assms(3) s show ?thesis
    by (auto simp: fetchStore_def Let_def split: prod.splits)
qed

lemma accounted_authors:
  assumes "accounted L has K (m, w)"
  shows "accounted L has K (snd (batch_authors L E hs r m), w)"
  using assms
proof (induction hs arbitrary: r m)
  case (Cons h hs)
  obtain as n where r: "r = (as, n)" by fastforce
  show ?case
  proof (cases "pk_from_hex L h")
    case (Inl e)
    then have "accounted L has K (remove_candidate E h m, w)"
      by (intro accounted_mono [OF Cons.prems]) (auto simp: queue_remove)
    from Cons.IH [OF this] Inl r show ?thesis by simp
  next
    case (Inr pk)
    with Cons.IH [OF Cons.prems] r show ?thesis by simp
  qed
qed simp

lemma accounted_batch:
  assumes "store_remembers E has" and "accounted L has K s"
  shows "accounted L has K (snd (drain_batch L E as cnt s))"
proof -
  obtain rem s1 where f1: "fetchStore L E (pe_relays E) as s = (rem, s1)" by (metis surj_pair)
  obtain rem2 s2 where f2: "fetchStore L E (pe_fallbackRelays E) rem s1 = (rem2, s2)" by (metis surj_pair)
  from accounted_fetchStore [OF assms f1] have a1: "accounted L has K s1" .
  from accounted_fetchStore [OF assms(1) a1 f2] a1 f1 f2 show ?thesis
    by (cases cnt) (auto simp: drain_batch_def Let_def)
qed

lemma accounted_loop:
  assumes "store_remembers E has" and "accounted L has K s"
  shows "accounted L has K (snd (drain_loop L E queued cnt s))"
  using assms(2)
proof (induction queued arbitrary: cnt s rule: length_induct)
  case (1 queued)
  let ?b = "nat (pe_batchSize E)"
  obtain p f d where cnt: "cnt = (p, f, d)" by (metis surj_pair)
  obtain m w where s: "s = (m, w)" by fastforce
  obtain as d' m1 where ba: "batch_authors L E (take ?b queued) ([], d) m = ((as, d'), m1)" by (metis surj_pair)
  obtain p' f' m2 w2 where db: "drain_batch L E as (p, f) (m1, w) = ((p', f'), (m2, w2))" by (metis surj_pair)
  show ?case
  proof (cases "queued = [] \<or> ?b = 0")
    case True
    with 1 show ?thesis by (subst drain_loop.simps) (auto simp: Let_def)
  next
    case False
    then have less: "length (drop ?b queued) < length queued" by auto
    have a1: "accounted L has K (m1, w)"
      using accounted_authors [of L has K m w E "take ?b queued" "([], d)"] 1(2) s ba by simp
    have a2: "accounted L has K (m2, w2)" using accounted_batch [OF assms(1) a1, of as "(p, f)"] db by simp
    note IH = 1(1) [rule_format, OF less]
    have unf: "drain_loop L E queued cnt s = (if as = [] then drain_loop L E (drop ?b queued) (p, f, d') (m1, w)
        else if pe_ctx_err E w2 then ((p', f', d'), (m2, w2)) else drain_loop L E (drop ?b queued) (p', f', d') (m2, w2))"
      using False by (subst drain_loop.simps) (simp add: Let_def cnt s ba db)
    show ?thesis unfolding unf using IH [OF a1] IH [OF a2] a2 by auto
  qed
qed

lemma drain_accounts:
  assumes "store_remembers E has" and "drainOnce L E (m, w) = (n, s')"
  shows "accounted L has (queue_keys m) s'"
proof -
  have "accounted L has (queue_keys m) (m, w)" by (simp add: accounted_def)
  from accounted_loop [OF assms(1) this, of "ListProfileQueue m" "(0, 0, 0)"] this assms(2) show ?thesis
    by (auto simp: drainOnce_def Let_def split: option.splits prod.splits if_splits)
qed

text \<open>
  When the removals succeed, the relays serve only what they are asked for and every key is the hexadecimal
  form of its author, each removal is counted exactly once.
\<close>

definition serves_only_asked :: "'w profile_env \<Rightarrow> bool" where
  "serves_only_asked E \<longleftrightarrow> (\<forall>rs as w. ev_pubkey ` set (fst (pe_Fetch E rs as w)) \<subseteq> set as)"

definition canonical_keys :: "lib \<Rightarrow> string set \<Rightarrow> bool" where
  "canonical_keys L K \<longleftrightarrow> (\<forall>k \<in> K. \<forall>pk. pk_from_hex L k = Inr pk \<longrightarrow> pk_hex L pk = k)"

lemma canonical_enqueue: "lib_ok L \<Longrightarrow> canonical_keys L (queue_keys m) \<Longrightarrow> canonical_keys L (queue_keys (profile_Enqueue L E pk m))"
  by (auto simp: canonical_keys_def queue_enqueue pk_roundtrip)

lemma store_batch_queue:
  assumes "\<forall>h. pe_tx_remove E h = None"
  shows "queue_keys (fst (store_batch L E batch s)) = queue_keys (fst s) - (\<lambda>b. pk_hex L (ev_pubkey (fst b))) ` set batch"
proof (induction batch arbitrary: s)
  case (Cons b batch)
  have "store_batch L E (b # batch) s =
      store_batch L E batch (remove_candidate E (pk_hex L (ev_pubkey (fst b))) (fst s), pe_store E (fst b) (snd b) (snd s))"
    by (simp add: store_batch_def case_prod_beta)
  with Cons assms show ?case by (auto simp: queue_remove)
qed (simp add: store_batch_def)

lemma fetchStore_count:
  assumes "lib_ok L" and "\<forall>h. pe_tx_remove E h = None" and "serves_only_asked E"
    and "distinct as" and "pk_hex L ` set as \<subseteq> queue_keys (fst s)"
    and f: "fetchStore L E rs as s = (rem, s')"
  shows "length as - length rem + card (queue_keys (fst s')) = card (queue_keys (fst s))"
    and "length rem \<le> length as" and "distinct rem" and "set rem \<subseteq> set as" and "pk_hex L ` set rem \<subseteq> queue_keys (fst s')"
    and "queue_keys (fst s) - pk_hex L ` set as \<subseteq> queue_keys (fst s')"
proof -
  obtain m w where s: "s = (m, w)" by fastforce
  obtain evs w1 where evs: "pe_Fetch E rs as w = (evs, w1)" by fastforce
  define batch where "batch = verified_batch E evs w1"
  let ?S = "(\<lambda>b. ev_pubkey (fst b)) ` set batch"
  have rem: "rem = List.filter (\<lambda>pk. pk \<notin> ?S) as" and s': "s' = store_batch L E batch (m, w1)"
    using f s evs by (auto simp: fetchStore_def batch_def Let_def)
  have "ev_pubkey ` set evs \<subseteq> set as" using assms(3) evs unfolding serves_only_asked_def by (metis fst_conv)
  then have S: "?S \<subseteq> set as"
    by (fastforce simp: batch_def verified_batch_def set_map_filter_iff split: option.splits)
  have img: "(\<lambda>b. pk_hex L (ev_pubkey (fst b))) ` set batch = pk_hex L ` ?S" by auto
  have Q: "queue_keys (fst s') = queue_keys m - pk_hex L ` ?S"
    using store_batch_queue [OF assms(2), of L batch "(m, w1)"] s' by (simp add: img)
  have inj: "inj_on (pk_hex L) A" for A using assms(1) by (auto simp: inj_on_def pk_hex_inject)
  have "card (set as) = card (set rem) + card ?S"
  proof -
    have "set as = set rem \<union> ?S" "set rem \<inter> ?S = {}" using S rem by auto
    then show ?thesis using card_Un_disjoint [of "set rem" ?S] by simp
  qed
  moreover have "card (queue_keys (fst s')) + card ?S = card (queue_keys m)"
  proof -
    have "pk_hex L ` ?S \<subseteq> queue_keys m" using S assms(5) s by auto
    then have "card (queue_keys m - pk_hex L ` ?S) + card (pk_hex L ` ?S) = card (queue_keys m)"
      by (metis card_Diff_subset card_mono finite_queue finite_subset le_add_diff_inverse2)
    then show ?thesis using Q inj by (simp add: card_image)
  qed
  moreover have "length as = card (set as)" "length rem = card (set rem)"
    using assms(4) rem distinct_filter [of as] by (simp_all only: distinct_card)
  ultimately show "length as - length rem + card (queue_keys (fst s')) = card (queue_keys (fst s))" and "length rem \<le> length as"
    using s by simp_all
  show "distinct rem" "set rem \<subseteq> set as" using rem assms(4) by auto
  show "pk_hex L ` set rem \<subseteq> queue_keys (fst s')"
  proof
    fix h assume "h \<in> pk_hex L ` set rem"
    then obtain pk where pk: "h = pk_hex L pk" "pk \<in> set as" "pk \<notin> ?S" using rem by auto
    then have "h \<notin> pk_hex L ` ?S" using inj [of UNIV] by (auto dest: injD)
    with pk(1,2) assms(5) Q s show "h \<in> queue_keys (fst s')" by auto
  qed
  show "queue_keys (fst s) - pk_hex L ` set as \<subseteq> queue_keys (fst s')" using Q S s by auto
qed

lemma batch_authors_count:
  assumes "\<forall>h. pe_tx_remove E h = None" and "distinct hs" and "set hs \<subseteq> queue_keys m" and "canonical_keys L (set hs)"
    and "batch_authors L E hs (as0, d) m = ((as, d'), m')"
  shows "d' + card (queue_keys m') = d + card (queue_keys m) \<and>
    (\<exists>bs. as = as0 @ bs \<and> distinct bs \<and> pk_hex L ` set bs \<subseteq> set hs \<and> pk_hex L ` set bs \<subseteq> queue_keys m') \<and>
    queue_keys m - set hs \<subseteq> queue_keys m'"
  using assms(2-)
proof (induction hs arbitrary: as0 d m)
  case (Cons h hs)
  show ?case
  proof (cases "pk_from_hex L h")
    case (Inl e)
    let ?m = "remove_candidate E h m"
    have Q: "queue_keys ?m = queue_keys m - {h}" using assms(1) by (simp add: queue_remove)
    have "set hs \<subseteq> queue_keys ?m" "canonical_keys L (set hs)" using Cons.prems by (auto simp: Q canonical_keys_def)
    from Cons.IH [OF _ this, of as0 "Suc d"] Cons.prems Inl
    obtain bs where IH: "d' + card (queue_keys m') = Suc d + card (queue_keys ?m)" "as = as0 @ bs" "distinct bs"
      "pk_hex L ` set bs \<subseteq> set hs" "pk_hex L ` set bs \<subseteq> queue_keys m'" "queue_keys ?m - set hs \<subseteq> queue_keys m'" by auto
    have "Suc (card (queue_keys ?m)) = card (queue_keys m)"
      using Cons.prems(2) Q by (metis card_Suc_Diff1 finite_queue list.set_intros(1) subsetD)
    moreover have "pk_hex L ` set bs \<subseteq> set (h # hs)" using IH(4) by auto
    moreover have "queue_keys m - set (h # hs) \<subseteq> queue_keys m'" using IH(6) Q by auto
    ultimately show ?thesis using IH(1,2,3,5) by (intro conjI exI [of _ bs]) simp_all
  next
    case (Inr pk)
    then have pk: "pk_hex L pk = h" using Cons.prems(3) by (simp add: canonical_keys_def)
    have "set hs \<subseteq> queue_keys m" "canonical_keys L (set hs)" using Cons.prems by (auto simp: canonical_keys_def)
    from Cons.IH [OF _ this, of "as0 @ [pk]" d] Cons.prems Inr
    obtain bs where IH: "d' + card (queue_keys m') = d + card (queue_keys m)" "as = as0 @ pk # bs" "distinct bs"
      "pk_hex L ` set bs \<subseteq> set hs" "pk_hex L ` set bs \<subseteq> queue_keys m'" "queue_keys m - set hs \<subseteq> queue_keys m'" by auto
    moreover have "pk \<notin> set bs" using IH(4) pk Cons.prems(1) by auto
    moreover have "h \<in> queue_keys m'" using IH(6) Cons.prems(1,2) by auto
    ultimately show ?thesis using pk by (intro conjI exI [of _ "pk # bs"]) auto
  qed
qed simp

lemma drain_batch_count:
  assumes "lib_ok L" and "\<forall>h. pe_tx_remove E h = None" and "serves_only_asked E"
    and "distinct as" and "pk_hex L ` set as \<subseteq> queue_keys (fst s)"
    and db: "drain_batch L E as (p, f) s = ((p', f'), s')"
  shows "p' + f' + card (queue_keys (fst s')) = p + f + card (queue_keys (fst s))"
    and "queue_keys (fst s) - pk_hex L ` set as \<subseteq> queue_keys (fst s')"
proof -
  obtain rem s1 where f1: "fetchStore L E (pe_relays E) as s = (rem, s1)" by (metis surj_pair)
  obtain rem2 s2 where f2: "fetchStore L E (pe_fallbackRelays E) rem s1 = (rem2, s2)" by (metis surj_pair)
  note c1 = fetchStore_count [OF assms(1-5) f1]
  note c2 = fetchStore_count [OF assms(1-3) c1(3,5) f2]
  show "p' + f' + card (queue_keys (fst s')) = p + f + card (queue_keys (fst s))"
    using db f1 f2 c1(1,2) c2(1,2) by (auto simp: drain_batch_def Let_def split: if_splits)
  have "queue_keys (fst s) - pk_hex L ` set as \<subseteq> queue_keys (fst s2)"
    using c1(4,6) c2(6) by blast
  with c1(6) show "queue_keys (fst s) - pk_hex L ` set as \<subseteq> queue_keys (fst s')"
    using db f1 f2 by (auto simp: drain_batch_def Let_def split: if_splits)
qed

lemma drain_loop_count:
  assumes "lib_ok L" and "\<forall>h. pe_tx_remove E h = None" and "serves_only_asked E"
    and "distinct queued" and "set queued \<subseteq> queue_keys (fst s)" and "canonical_keys L (set queued)"
    and "drain_loop L E queued (p, f, d) s = ((p', f', d'), s')"
  shows "p' + f' + d' + card (queue_keys (fst s')) = p + f + d + card (queue_keys (fst s))"
  using assms(4-)
proof (induction queued arbitrary: p f d s rule: length_induct)
  case (1 queued)
  let ?b = "nat (pe_batchSize E)"
  obtain m w where s: "s = (m, w)" by fastforce
  obtain as d1 m1 where ba: "batch_authors L E (take ?b queued) ([], d) m = ((as, d1), m1)" by (metis surj_pair)
  obtain p1 f1 m2 w2 where db: "drain_batch L E as (p, f) (m1, w) = ((p1, f1), (m2, w2))" by (metis surj_pair)
  show ?case
  proof (cases "queued = [] \<or> ?b = 0")
    case True
    with 1 show ?thesis by (subst (asm) drain_loop.simps) (auto simp: Let_def)
  next
    case False
    then have less: "length (drop ?b queued) < length queued" by auto
    have sub: "set (take ?b queued) \<subseteq> queue_keys m" "canonical_keys L (set (take ?b queued))" "distinct (take ?b queued)"
      "canonical_keys L (set (drop ?b queued))" "distinct (drop ?b queued)"
      using "1.prems" s by (auto simp: canonical_keys_def dest: in_set_takeD in_set_dropD)
    from batch_authors_count [OF assms(2) sub(3,1,2) ba]
    have b: "d1 + card (queue_keys m1) = d + card (queue_keys m)" "distinct as" "pk_hex L ` set as \<subseteq> set (take ?b queued)"
      "pk_hex L ` set as \<subseteq> queue_keys m1" "queue_keys m - set (take ?b queued) \<subseteq> queue_keys m1" by auto
    have "set (take ?b queued) \<inter> set (drop ?b queued) = {}"
      using "1.prems"(1) by (metis append_take_drop_id distinct_append)
    then have rest1: "set (drop ?b queued) \<subseteq> queue_keys m1" and disj: "set (drop ?b queued) \<inter> pk_hex L ` set as = {}"
      using "1.prems"(2) b(3,5) s set_drop_subset [of ?b queued] by (auto, blast)
    note c = drain_batch_count [OF assms(1-3) b(2), of "(m1, w)" p f p1 f1 "(m2, w2)", simplified, OF b(4) db]
    have rest2: "set (drop ?b queued) \<subseteq> queue_keys m2" using rest1 disj c(2) by blast
    have unf: "drain_loop L E queued (p, f, d) s = (if as = [] then drain_loop L E (drop ?b queued) (p, f, d1) (m1, w)
        else if pe_ctx_err E w2 then ((p1, f1, d1), (m2, w2)) else drain_loop L E (drop ?b queued) (p1, f1, d1) (m2, w2))"
      using False by (subst drain_loop.simps) (simp add: Let_def s ba db)
    note IH = "1.IH" [rule_format, OF less sub(5) _ sub(4)]
    show ?thesis
    proof (cases "as = []")
      case True
      with IH [of "(m1, w)" p f d1] rest1 unf "1.prems"(4) b(1) s show ?thesis by simp
    next
      case as: False
      with IH [of "(m2, w2)" p1 f1 d1] rest2 unf "1.prems"(4) b(1) c(1) s show ?thesis
        by (auto split: if_splits)
    qed
  qed
qed

lemma length_queue: "length (ListProfileQueue m) = card (queue_keys m)"
  unfolding queue_keys_def ListProfileQueue_def by (rule distinct_card [symmetric]) (rule RBT.distinct_entries)

section \<open>Retries and directories\<close>

definition worker_budget :: "drain_worker \<Rightarrow> nat" where
  "worker_budget s = dw_drains s + (if dw_kicked s then 2 else 0) + (if dw_phase s = Debouncing then 2 else 0) +
     (if dw_phase s = Draining False \<or> dw_phase s = Waiting \<and> dw_retry s then 1 else 0)"

lemma drain_step_budget:
  "drain_step s s' \<Longrightarrow> worker_budget s \<le> 2 * dw_kicks s \<Longrightarrow> worker_budget s' \<le> 2 * dw_kicks s'"
  by (induction rule: drain_step.induct) (auto simp: worker_budget_def split: if_splits)

lemma drain_steps_budget:
  assumes "drain_step\<^sup>*\<^sup>* worker_init s"
  shows "worker_budget s \<le> 2 * dw_kicks s"
  using assms
proof (induction rule: rtranclp_induct)
  case base
  then show ?case by (simp add: worker_budget_def worker_init_def)
next
  case (step s s')
  then show ?case by (blast intro: drain_step_budget)
qed

lemma poll_loop_members:
  "nd_urls (poll_loop L fetch urls d) = nd_urls d \<and>
   nd_members (poll_loop L fetch urls d) u =
     (case fetch u of Inr names \<Rightarrow> if u \<in> set urls then directory_set L names else nd_members d u | Inl _ \<Rightarrow> nd_members d u)"
  by (induction urls arbitrary: d) (auto split: sum.splits if_splits)

section \<open>Properties\<close>

text \<open>A drain never loses a candidate: a key leaves the queue only if it is not a public key at all or if a
  profile of its author was handed to the profile store, whatever fails on the way.\<close>

theorem drain_loses_no_candidate:
  assumes "store_remembers E has" and "drainOnce L E (m, w) = (n, (m', w'))"
    and "k \<in> set (ListProfileQueue m)" and "k \<notin> set (ListProfileQueue m')"
  shows "(\<exists>e. pk_from_hex L k = Inl e) \<or> (\<exists>pk. pk_hex L pk = k \<and> has pk w')"
  using drain_accounts [OF assms(1,2)] assms(3,4) by (auto simp: accounted_def queue_keys_def)

text \<open>The number a drain reports is the number of candidates still queued, including those a used-up time
  budget kept it from reaching, so the worker arms its retry exactly when work is left.\<close>

theorem drain_reports_the_backlog:
  assumes "lib_ok L" and "\<forall>h. pe_tx_remove E h = None" and "pe_list_err E = None" and "serves_only_asked E"
    and "canonical_keys L (set (ListProfileQueue m))" and "drainOnce L E (m, w) = (n, (m', w'))"
  shows "n = int (length (ListProfileQueue m'))"
proof -
  let ?q = "ListProfileQueue m"
  obtain p f d s' where dl: "drain_loop L E ?q (0, 0, 0) (m, w) = ((p, f, d), s')" by (metis surj_pair)
  have "distinct ?q" by (simp add: ListProfileQueue_def RBT.distinct_entries)
  from drain_loop_count [OF assms(1,2,4) this _ assms(5) dl]
  have "p + f + d + card (queue_keys (fst s')) = card (queue_keys m)" by (simp add: queue_keys_def)
  with assms(3,6) dl show ?thesis
    by (cases "?q = []") (auto simp: drainOnce_def length_queue [symmetric])
qed

text \<open>However kicks, drains, retries and the shutdown interleave, the worker drains at most twice per kick:
  candidates that never resolve cannot keep it busy.\<close>

theorem retries_are_bounded:
  assumes "drain_step\<^sup>*\<^sup>* worker_init s"
  shows "dw_drains s \<le> 2 * dw_kicks s"
  using drain_steps_budget [OF assms] by (simp add: worker_budget_def split: if_splits)

text \<open>A poll keeps the members of every directory that did not answer, replaces those of the others by
  what they list now, and returns exactly the members that were in no directory before.\<close>

theorem outage_keeps_members:
  "Poll L fetch d = (added, d') \<Longrightarrow>
     (\<forall>u \<in> set (nd_urls d). nd_members d' u =
        (case fetch u of Inl _ \<Rightarrow> nd_members d u | Inr names \<Rightarrow> directory_set L names)) \<and>
     added = nd_Members d' - nd_Members d"
  using poll_loop_members [of L fetch "nd_urls d" d] by (auto simp: Poll_def Let_def split: sum.splits)

text \<open>A manager whose relay knows one of two queued authors; the world is the list of stored profiles.\<close>

definition demo_profiles :: "pubkey list profile_env" where
  "demo_profiles = \<lparr>pe_tx_enqueue = (\<lambda>_. None), pe_tx_remove = (\<lambda>_. None), pe_list_err = None,
     pe_Fetch = (\<lambda>_ as w. (if [1] \<in> set as then [demo_event 1 0 5 []\<lparr>ev_pubkey := [1]\<rparr>] else [], w)),
     pe_ParseMetadata = (\<lambda>_. Some []), pe_verify = (\<lambda>_ _ _. True), pe_store = (\<lambda>ev _ w. ev_pubkey ev # w),
     pe_ctx_err = (\<lambda>_. False), pe_relays = [''r''], pe_fallbackRelays = [], pe_batchSize = 50\<rparr>"

definition demo_queue :: mgmt_db where
  "demo_queue = profile_Enqueue demo_lib demo_profiles [2] (profile_Enqueue demo_lib demo_profiles [1] fresh_db)"

lemma demo_profiles_ok: "store_remembers demo_profiles (\<lambda>pk w. pk \<in> set w)" "serves_only_asked demo_profiles"
  by (auto simp: store_remembers_def serves_only_asked_def demo_profiles_def)

lemma demo_drain: "ListProfileQueue demo_queue = [to_hex [1], to_hex [2]]"
  "ListProfileQueue (fst (snd (drainOnce demo_lib demo_profiles (demo_queue, [])))) = [to_hex [2]]"
  by code_simp+

lemma demo_queue_canonical: "canonical_keys demo_lib (set (ListProfileQueue demo_queue))"
  using pk_roundtrip [OF demo_lib_ok, of "[1]"] pk_roundtrip [OF demo_lib_ok, of "[2]"]
  unfolding canonical_keys_def demo_drain(1) by (simp add: demo_lib_def)

lemma drain_loses_no_candidate_witness:
  "\<exists>pk. pk_hex demo_lib pk = to_hex [1] \<and> pk \<in> set (snd (snd (drainOnce demo_lib demo_profiles (demo_queue, []))))"
proof -
  obtain n m' w' where d: "drainOnce demo_lib demo_profiles (demo_queue, []) = (n, (m', w'))" by (metis surj_pair)
  have "to_hex [1] \<in> set (ListProfileQueue demo_queue)" and "to_hex [1] \<notin> set (ListProfileQueue m')"
    using demo_drain d by (simp_all add: hex_digit_def)
  from drain_loses_no_candidate [OF demo_profiles_ok(1) d this]
  have "(\<exists>e. pk_from_hex demo_lib (pk_hex demo_lib [1]) = Inl e) \<or> (\<exists>pk. pk_hex demo_lib pk = to_hex [1] \<and> pk \<in> set w')"
    by (simp add: demo_lib_def)
  then show ?thesis using d by (simp add: pk_roundtrip)
qed

lemma drain_reports_the_backlog_witness: "fst (drainOnce demo_lib demo_profiles (demo_queue, [])) = 1"
proof -
  obtain n m' w' where d: "drainOnce demo_lib demo_profiles (demo_queue, []) = (n, (m', w'))" by (metis surj_pair)
  have "n = int (length (ListProfileQueue m'))"
    by (rule drain_reports_the_backlog [OF demo_lib_ok _ _ demo_profiles_ok(2) demo_queue_canonical d]) (simp_all add: demo_profiles_def)
  then show ?thesis using demo_drain(2) d by simp
qed

text \<open>A kick, its drain that leaves work, and the retry: two drains for one kick.\<close>

lemma retries_are_bounded_witness:
  "\<exists>s :: drain_worker. dw_drains s = 2 \<and> dw_kicks s = 1 \<and> dw_drains s \<le> 2 * dw_kicks s"
proof -
  let ?s = "\<lambda>p k r d. \<lparr>dw_phase = p, dw_kicked = k, dw_retry = r, dw_kicks = 1, dw_drains = d\<rparr>"
  have "drain_step worker_init (?s Waiting True False 0)" using drain_step.kick [of worker_init] by (simp add: worker_init_def)
  moreover have "drain_step (?s Waiting True False 0) (?s Debouncing False False 0)"
    using drain_step.take_kick [of "?s Waiting True False 0"] by simp
  moreover have "drain_step (?s Debouncing False False 0) (?s (Draining False) False False 1)"
    using drain_step.debounced [of "?s Debouncing False False 0"] by simp
  moreover have "drain_step (?s (Draining False) False False 1) (?s Waiting False True 1)"
    using drain_step.drained [of "?s (Draining False) False False 1" False 1] by simp
  moreover have "drain_step (?s Waiting False True 1) (?s (Draining True) False False 2)"
    using drain_step.retry_fires [of "?s Waiting False True 1"] by (simp add: numeral_2_eq_2)
  ultimately have "drain_step\<^sup>*\<^sup>* worker_init (?s (Draining True) False False 2)"
    by (meson rtranclp.rtrancl_into_rtrancl rtranclp.rtrancl_refl)
  from retries_are_bounded [OF this]
  have "dw_drains (?s (Draining True) False False 2) = 2 \<and> dw_kicks (?s (Draining True) False False 2) = 1 \<and>
    dw_drains (?s (Draining True) False False 2) \<le> 2 * dw_kicks (?s (Draining True) False False 2)" by simp
  then show ?thesis by blast
qed

lemma outage_keeps_members_witness:
  "nd_members (snd (Poll demo_lib (\<lambda>_. Inl ''offline'') \<lparr>nd_urls = [''u''], nd_members = (\<lambda>_. {demo_pk})\<rparr>)) ''u'' = {demo_pk}"
proof -
  let ?d = "\<lparr>nd_urls = [''u''], nd_members = (\<lambda>_. {demo_pk})\<rparr>"
  obtain added d' where p: "Poll demo_lib (\<lambda>_. Inl ''offline'') ?d = (added, d')" by (metis surj_pair)
  from outage_keeps_members [OF p] p show ?thesis by simp
qed

end
