(* ===== verification/Typesense.thy ===== *)
theory Typesense
  imports Community TSWriter
begin

text \<open>
  The requests to the search engine the sources build themselves: the partial updates of \<open>content_ts.go\<close>,
  the import of \<open>structured.go\<close> and the embedding call of \<open>embedding.go\<close>. The network is the parameter
  \<open>http\<close>, a request answered by an error or a status with a body; JSON texts are values of \<open>json\<close> and
  the decoders of the answers are parameters.
\<close>

section \<open>Requests\<close>

datatype json =
    JStr string
  | JInt int
  | JBool bool
  | JStrs "string list"
  | JVec vector

type_synonym jobj = "(string \<times> json) list"

datatype http_method = GET | POST | PATCH

record http_request =
  rq_method :: http_method
  rq_url :: string
  rq_headers :: "(string \<times> string) list"
  rq_body :: jobj

type_synonym 'w http = "http_request \<Rightarrow> 'w \<Rightarrow> (error + int \<times> string) \<times> 'w"

record ts_conn =
  tc_Host :: string
  tc_ApiKey :: string
  tc_Collection :: string

section \<open>\<open>url.PathEscape\<close>\<close>

definition unreserved :: "char \<Rightarrow> bool" where
  "unreserved c \<longleftrightarrow> (let n = (of_char c :: nat) in
     48 \<le> n \<and> n \<le> 57 \<or> 65 \<le> n \<and> n \<le> 90 \<or> 97 \<le> n \<and> n \<le> 122 \<or> c \<in> set ''-_.~$&+:=@'')"

definition upper_hex :: "nat \<Rightarrow> char" where
  "upper_hex n = ''0123456789ABCDEF'' ! n"

definition escape_char :: "char \<Rightarrow> string" where
  "escape_char c = (if unreserved c then [c]
     else [CHR ''%'', upper_hex ((of_char c :: nat) div 16), upper_hex ((of_char c :: nat) mod 16)])"

definition PathEscape :: "string \<Rightarrow> string" where
  "PathEscape s = concat (map escape_char s)"

text \<open>What the server does with a path segment (\<open>url.PathUnescape\<close>).\<close>

definition upper_val :: "char \<Rightarrow> nat option" where
  "upper_val c = index_of c ''0123456789ABCDEF''"

fun PathUnescape :: "string \<Rightarrow> string option" where
  "PathUnescape [] = Some []"
| "PathUnescape (c # cs) = (if c = CHR ''%'' then
     (case cs of a # b # rest \<Rightarrow> (case (upper_val a, upper_val b, PathUnescape rest) of
         (Some x, Some y, Some r) \<Rightarrow> Some (char_of (16 * x + y) # r)
       | _ \<Rightarrow> None)
     | _ \<Rightarrow> None)
   else map_option ((#) c) (PathUnescape cs))"

section \<open>Partial updates\<close>

definition document_url :: "ts_conn \<Rightarrow> string \<Rightarrow> string" where
  "document_url c docID = tc_Host c @ ''/collections/'' @ tc_Collection c @ ''/documents/'' @ PathEscape docID"

text \<open>Building the request of a well-formed host cannot fail.\<close>

definition patchDoc :: "'w http \<Rightarrow> ts_conn \<Rightarrow> string \<Rightarrow> jobj \<Rightarrow> 'w \<Rightarrow> error option \<times> 'w" where
  "patchDoc http c docID body w =
     (case http \<lparr>rq_method = PATCH, rq_url = document_url c docID,
         rq_headers = [(''Content-Type'', ''application/json''), (''X-TYPESENSE-API-KEY'', tc_ApiKey c)], rq_body = body\<rparr> w of
       (Inl e, w') \<Rightarrow> (Some (''typesense patch: '' @ e), w')
     | (Inr (status, answer), w') \<Rightarrow>
         if status < 200 \<or> status \<ge> 300
         then (Some (''typesense patch status '' @ int_dec status @ '': '' @ take 512 answer), w')
         else (None, w'))"

definition PatchContent :: "'w http \<Rightarrow> ts_conn \<Rightarrow> string \<Rightarrow> content_entry \<Rightarrow> 'w \<Rightarrow> error option \<times> 'w" where
  "PatchContent http c docID entry w = patchDoc http c docID
     [(''content'', JStr (ce_text entry)), (''content_fetched_at'', JInt (sint (ce_fetched_at entry))),
      (''content_status'', JStr (ce_status entry))] w"

definition ClearContent :: "'w http \<Rightarrow> ts_conn \<Rightarrow> string \<Rightarrow> 'w \<Rightarrow> error option \<times> 'w" where
  "ClearContent http c docID w = patchDoc http c docID
     [(''content'', JStr []), (''content_fetched_at'', JInt 0), (''content_status'', JStr [])] w"

text \<open>The production writer with its partial updates sent as these requests; a missing list of communities is sent as
  an empty one.\<close>

definition productionWriter_PatchCommunity :: "'w http \<Rightarrow> ts_conn \<Rightarrow> string \<Rightarrow> string list \<Rightarrow> 'w \<Rightarrow> error option \<times> 'w" where
  "productionWriter_PatchCommunity http c docID communities w = patchDoc http c docID [(''community'', JStrs communities)] w"

definition http_backend :: "'w http \<Rightarrow> ts_conn \<Rightarrow> 'w ts_backend \<Rightarrow> 'w ts_backend" where
  "http_backend http c B = B\<lparr>be_PatchContent := PatchContent http c,
     be_PatchCommunity := productionWriter_PatchCommunity http c\<rparr>"

text \<open>The content and the stamp of a resource go to the one document its upsert writes.\<close>

lemma partial_updates_address:
  assumes "tsDocIDFromEvent L ev = Inr docID"
  shows "pw_Patch (productionWriter L (http_backend http c B)) ev content w = PatchContent http c docID content w"
    and "pw_PatchCommunity (productionWriter L (http_backend http c B)) docID cs w =
      patchDoc http c docID [(''community'', JStrs cs)] w"
  using assms by (simp_all add: productionWriter_def productionWriter_Patch_def http_backend_def productionWriter_PatchCommunity_def)

section \<open>Import of one document\<close>

text \<open>\<open>decode\<close> reads \<open>success\<close> and \<open>error\<close> of the answer, \<open>None\<close> when it is not such an object.\<close>

definition upsertStructuredDoc :: "'w http \<Rightarrow> (string \<Rightarrow> (bool \<times> string) option) \<Rightarrow> ts_conn \<Rightarrow> jobj \<Rightarrow> 'w \<Rightarrow> error option \<times> 'w" where
  "upsertStructuredDoc http decode c doc w =
     (case http \<lparr>rq_method = POST, rq_url = tc_Host c @ ''/collections/'' @ tc_Collection c @ ''/documents/import?action=upsert'',
         rq_headers = [(''X-TYPESENSE-API-KEY'', tc_ApiKey c), (''Content-Type'', ''text/plain'')], rq_body = doc\<rparr> w of
       (Inl e, w') \<Rightarrow> (Some (''structured upsert request: '' @ e), w')
     | (Inr (status, answer), w') \<Rightarrow>
         if status \<noteq> 200 then (Some (''structured upsert failed, status '' @ int_dec status @ '': '' @ answer), w')
         else (case decode answer of
           Some (success, err) \<Rightarrow>
             if \<not> success \<and> err \<noteq> [] then (Some (''structured upsert failed: '' @ err), w') else (None, w')
         | None \<Rightarrow> (None, w')))"

section \<open>The embedding service\<close>

record embed_client =
  ec_Endpoint :: string
  ec_BearerToken :: string

definition Embed :: "'w http \<Rightarrow> (string \<Rightarrow> error + vector list) \<Rightarrow> embed_client \<Rightarrow> string list \<Rightarrow> string \<Rightarrow> 'w \<Rightarrow>
    (error + vector list) \<times> 'w" where
  "Embed http decode c texts input w =
     (if length texts = 0 then (Inr [], w)
      else case http \<lparr>rq_method = POST, rq_url = ec_Endpoint c,
          rq_headers = [(''Content-Type'', ''application/json''), (''Authorization'', ''Bearer '' @ ec_BearerToken c)],
          rq_body = [(''texts'', JStrs texts), (''input_type'', JStr input)]\<rparr> w of
        (Inl e, w') \<Rightarrow> (Inl (''request failed: '' @ e), w')
      | (Inr (status, answer), w') \<Rightarrow>
          if status \<noteq> 200 then (Inl (''embedding service error '' @ int_dec status @ '': '' @ answer), w')
          else (case decode answer of Inl e \<Rightarrow> (Inl (''decode response: '' @ e), w') | Inr vs \<Rightarrow> (Inr vs, w')))"

section \<open>Escaping is faithful\<close>

lemma upper_val_hex: "n < 16 \<Longrightarrow> upper_val (upper_hex n) = Some n"
  by (auto simp: upper_val_def upper_hex_def less_Suc_eq numeral_eq_Suc)

lemma upper_hex_chars: "n < 16 \<Longrightarrow> upper_hex n \<in> set ''0123456789ABCDEF''"
  by (auto simp: upper_hex_def less_Suc_eq numeral_eq_Suc)

lemma unreserved_percent: "\<not> unreserved CHR ''%''"
  by (simp add: unreserved_def)

lemma of_char_byte: "(of_char c :: nat) < 256"
  by simp

lemma unescape_escape_char: "PathUnescape (escape_char c @ s) = map_option ((#) c) (PathUnescape s)"
proof (cases "unreserved c")
  case True
  then have "c \<noteq> CHR ''%''" using unreserved_percent by blast
  with True show ?thesis by (simp add: escape_char_def)
next
  case False
  have "(of_char c :: nat) div 16 < 16" using of_char_byte [of c] by (simp add: less_mult_imp_div_less)
  then have "upper_val (upper_hex ((of_char c :: nat) div 16)) = Some ((of_char c :: nat) div 16)"
    "upper_val (upper_hex ((of_char c :: nat) mod 16)) = Some ((of_char c :: nat) mod 16)"
    by (simp_all add: upper_val_hex)
  moreover have "char_of (16 * ((of_char c :: nat) div 16) + (of_char c :: nat) mod 16) = c"
    by (simp only: mult_div_mod_eq char_of_char)
  ultimately show ?thesis using False by (auto simp: escape_char_def split: option.splits)
qed

lemma unescape_escape: "PathUnescape (PathEscape s) = Some s"
  by (induction s) (simp_all add: PathEscape_def unescape_escape_char)

definition segment_char :: "char \<Rightarrow> bool" where
  "segment_char c \<longleftrightarrow> unreserved c \<or> c = CHR ''%''"

lemma escape_chars: "list_all segment_char (PathEscape s)"
proof (induction s)
  case (Cons c s)
  have "(of_char c :: nat) div 16 < 16" using of_char_byte [of c] by (simp add: less_mult_imp_div_less)
  then have "unreserved (upper_hex ((of_char c :: nat) div 16))" "unreserved (upper_hex ((of_char c :: nat) mod 16))"
    using upper_hex_chars [of "(of_char c :: nat) div 16"] upper_hex_chars [of "(of_char c :: nat) mod 16"]
    by (auto simp: unreserved_def)
  with Cons show ?case by (auto simp: PathEscape_def escape_char_def segment_char_def)
qed (simp add: PathEscape_def)

text \<open>C32. A document id survives the way into a request path and back, whatever bytes a client put into its
  identifier: the path segment contains no character that separates segments or queries, decodes to the
  id, and different documents have different addresses.\<close>

theorem document_address_roundtrip:
  "(\<exists>p. document_url c i = tc_Host c @ ''/collections/'' @ tc_Collection c @ ''/documents/'' @ p \<and>
      PathUnescape p = Some i \<and> set p \<inter> set ''/?# ;,'' = {}) \<and>
   (document_url c i = document_url c j \<longleftrightarrow> i = j)"
proof (intro conjI exI)
  show "document_url c i = tc_Host c @ ''/collections/'' @ tc_Collection c @ ''/documents/'' @ PathEscape i"
    by (simp add: document_url_def)
  show "PathUnescape (PathEscape i) = Some i" by (rule unescape_escape)
  have "\<not> segment_char x" if "x \<in> set ''/?# ;,''" for x
    using that by (auto simp: segment_char_def unreserved_def)
  then show "set (PathEscape i) \<inter> set ''/?# ;,'' = {}" using escape_chars [of i] by (auto simp: list_all_iff)
  show "document_url c i = document_url c j \<longleftrightarrow> i = j"
    unfolding document_url_def using unescape_escape by (metis append.assoc append_same_eq option.inject same_append_eq)
qed

end
