(* ===== verification/Remote.thy ===== *)
theory Remote
  imports ExpandRegistry Profiles Typesense
begin

text \<open>
  Reading from other servers: one page of a relay subscription (\<open>poolMappingSource.fetchPage\<close> of
  \<open>expand_registry.go\<close>), the latest profiles of a list of authors (\<open>poolSource\<close> of \<open>profile_manager.go\<close>)
  and the NIP-05 directory request of \<open>nip05_directory.go\<close>. The connection is a parameter; what a
  subscription delivers is the list of the messages in the order in which the read loop receives them.
\<close>

section \<open>One page of a subscription\<close>

text \<open>What the read loop receives until the context is done: the list ends when nothing else arrives before that.\<close>

datatype delivery = Deliver event | EndOfStored | EventsClosed error | ClosedBy string

fun read_page :: "string \<Rightarrow> error \<Rightarrow> delivery list \<Rightarrow> event list \<Rightarrow> error + event list" where
  "read_page url ctxErr [] out = Inl ctxErr"
| "read_page url ctxErr (Deliver ev # ds) out = read_page url ctxErr ds (out @ [ev])"
| "read_page url ctxErr (EndOfStored # ds) out = Inr out"
| "read_page url ctxErr (EventsClosed cause # ds) out = Inl (url @ '': subscription ended before EOSE: '' @ cause)"
| "read_page url ctxErr (ClosedBy reason # ds) out = Inl (url @ '': CLOSED: '' @ reason)"

text \<open>\<open>rn_EnsureRelay\<close> answers \<open>None\<close> when the context is done first.\<close>

record 'w relay_net =
  rn_EnsureRelay :: "string \<Rightarrow> 'w \<Rightarrow> (error + unit) option \<times> 'w"
  rn_Subscribe :: "string \<Rightarrow> filter \<Rightarrow> 'w \<Rightarrow> (error + delivery list) \<times> 'w"
  rn_Unsub :: "string \<Rightarrow> 'w \<Rightarrow> 'w"
  rn_ctx_err :: "'w \<Rightarrow> error"

definition fetchPage :: "'w relay_net \<Rightarrow> 'w pageFetcher" where
  "fetchPage N url f w = (case rn_EnsureRelay N url w of
     (None, w1) \<Rightarrow> (Inl (rn_ctx_err N w1), w1)
   | (Some (Inl e), w1) \<Rightarrow> (Inl (url @ '': connect: '' @ e), w1)
   | (Some (Inr _), w1) \<Rightarrow> (case rn_Subscribe N url f w1 of
       (Inl e, w2) \<Rightarrow> (Inl (url @ '': subscribe: '' @ e), w2)
     | (Inr ds, w2) \<Rightarrow> (read_page url (rn_ctx_err N w2) ds [], rn_Unsub N url w2)))"

text \<open>The source of the mapping registry. A paging that would never end is ended by the context.\<close>

definition poolMappingSource :: "'w relay_net \<Rightarrow> ('w \<Rightarrow> int) \<Rightarrow> ('w \<Rightarrow> bool) \<Rightarrow> 'w mappingSource" where
  "poolMappingSource N now expired = \<lparr>
     ms_Fetch = (\<lambda>relays f w. case pool_Fetch (fetchPage N) relays f w of None \<Rightarrow> (Inl (rn_ctx_err N w), w) | Some r \<Rightarrow> r),
     ms_now = now, ms_ctx_err = expired\<rparr>"

section \<open>The latest profiles\<close>

text \<open>\<open>replaceable relays f\<close> is the pool's \<open>FetchManyReplaceable\<close>: the values of the map it returns.\<close>

definition poolSource_Fetch :: "(string list \<Rightarrow> filter \<Rightarrow> 'w \<Rightarrow> event list \<times> 'w) \<Rightarrow> string list \<Rightarrow> pubkey list \<Rightarrow> 'w \<Rightarrow> event list \<times> 'w" where
  "poolSource_Fetch replaceable relays pubkeys w = (if length pubkeys = 0 then ([], w)
     else replaceable relays (empty_filter\<lparr>f_kinds := [0], f_authors := pubkeys\<rparr>) w)"

text \<open>A pool that returns only events of the authors it was asked for makes a source the drain can count on.\<close>

lemma poolSource_serves_only_asked:
  assumes "\<And>relays f w. ev_pubkey ` set (fst (replaceable relays f w)) \<subseteq> set (f_authors f)"
  shows "serves_only_asked (E\<lparr>pe_Fetch := poolSource_Fetch replaceable\<rparr>)"
  using assms by (fastforce simp: serves_only_asked_def poolSource_Fetch_def)

section \<open>A NIP-05 directory\<close>

definition nip05DirectoryMaxBytes :: nat where
  "nip05DirectoryMaxBytes = 8388608"

text \<open>\<open>decode\<close> reads the \<open>names\<close> object of the first JSON value in the text. A request whose URL does not parse
  fails in \<open>http\<close>.\<close>

definition fetchNIP05Directory :: "'w http \<Rightarrow> (string \<Rightarrow> error + (string \<times> string) list) \<Rightarrow> string \<Rightarrow> 'w \<Rightarrow>
    (error + (string \<times> string) list) \<times> 'w" where
  "fetchNIP05Directory http decode url w =
     (case http \<lparr>rq_method = GET, rq_url = url, rq_headers = [(''Accept'', ''application/json'')], rq_body = []\<rparr> w of
       (Inl e, w') \<Rightarrow> (Inl e, w')
     | (Inr (status, answer), w') \<Rightarrow>
         if status \<noteq> 200 then (Inl (''status '' @ int_dec status), w')
         else (case decode (take nip05DirectoryMaxBytes answer) of
           Inl e \<Rightarrow> (Inl (''decode: '' @ e), w')
         | Inr names \<Rightarrow> (Inr names, w')))"

section \<open>Only a complete page is a page\<close>

lemma read_page_Inr: "read_page url e ds out = Inr r \<longleftrightarrow> (\<exists>evs rest. ds = map Deliver evs @ EndOfStored # rest \<and> r = out @ evs)"
proof (induction url e ds out rule: read_page.induct)
  case (2 url e ev ds out)
  have "(\<exists>evs rest. Deliver ev # ds = map Deliver evs @ EndOfStored # rest \<and> r = out @ evs) \<longleftrightarrow>
      (\<exists>evs rest. ds = map Deliver evs @ EndOfStored # rest \<and> r = (out @ [ev]) @ evs)" (is "?l \<longleftrightarrow> ?r")
  proof
    assume ?l
    then obtain evs rest where l: "Deliver ev # ds = map Deliver evs @ EndOfStored # rest" "r = out @ evs" by blast
    then obtain evs' where "evs = ev # evs'" by (cases evs) auto
    with l show ?r by auto
  next
    assume ?r
    then obtain evs rest where "ds = map Deliver evs @ EndOfStored # rest" "r = (out @ [ev]) @ evs" by blast
    then show ?l by (intro exI [of _ "ev # evs"] exI [of _ rest]) simp
  qed
  with 2 show ?case by simp
next
  case (3 url e ds out)
  have "EndOfStored # ds = map Deliver evs @ EndOfStored # rest \<longleftrightarrow> evs = [] \<and> ds = rest" for evs rest
    by (cases evs) auto
  then show ?case by auto
qed (auto simp: Cons_eq_append_conv)

text \<open>
  What NIP-01 asks of a relay, and the client library of a subscription: before the end of the stored events
  is reported, the events that answer the filter have been delivered. Nothing is asked of a
  subscription that ends in another way.
\<close>

definition net_honest :: "'w relay_net \<Rightarrow> string \<Rightarrow> filter \<Rightarrow> event set \<Rightarrow> bool" where
  "net_honest N url f R \<longleftrightarrow> relay_set R \<and>
     (\<forall>until w evs rest w'. rn_Subscribe N url (f\<lparr>f_limit := int mappingPageSize, f_until := until\<rparr>) w =
        (Inr (map Deliver evs @ EndOfStored # rest), w') \<longrightarrow> serves_page R until evs)"

lemma fetchPage_honest:
  assumes "net_honest N url f R"
  shows "relay_honest (fetchPage N) url f R"
  using assms by (auto simp: relay_honest_def net_honest_def fetchPage_def read_page_Inr
      split: prod.splits option.splits sum.splits) blast

section \<open>Several relays\<close>

definition all_held :: "(string \<Rightarrow> event set) \<Rightarrow> string list \<Rightarrow> event set" where
  "all_held R urls = (\<Union>url \<in> set urls. R url)"

text \<open>\<open>ids\<close> holds exactly the events of the relays read so far.\<close>

definition merged_ids :: "event set \<Rightarrow> byID \<Rightarrow> bool" where
  "merged_ids A ids \<longleftrightarrow> distinct (map fst ids) \<and> (\<forall>i. map_of ids i \<noteq> None \<longrightarrow> i \<in> ev_id ` A) \<and>
     (\<forall>e \<in> A. map_of ids (ev_id e) = Some e)"

lemma merged_ids_page:
  assumes m: "merged_ids A ids" and r: "relay_honest fetch url f R" and inj: "inj_on ev_id (A \<union> R)"
  shows "\<exists>err ids' w'. pageRelay fetch url f ids w = Some (err, ids', w') \<and> (err = None \<longrightarrow> merged_ids (A \<union> R) ids')"
proof -
  have "page_done fetch url f R ids (pageRelay fetch url f ids w)"
    unfolding pageRelay_def by (rule page_loop_complete [OF r]) (simp add: page_inv_def)
  then obtain err ids' w' where p: "pageRelay fetch url f ids w = Some (err, ids', w')"
    and all: "err = None \<Longrightarrow> \<forall>e \<in> R. map_of ids' (ev_id e) = Some e"
    and other: "\<And>i. i \<notin> ev_id ` R \<Longrightarrow> map_of ids' i = map_of ids i"
    and dist: "distinct (map fst ids) \<Longrightarrow> distinct (map fst ids')" by (auto simp: page_done_def)
  have "merged_ids (A \<union> R) ids'" if "err = None"
  proof -
    have "map_of ids' (ev_id e) = Some e" if e: "e \<in> A \<union> R" for e
    proof (cases "ev_id e \<in> ev_id ` R")
      case True
      then have "e \<in> R" using inj e by (auto dest: inj_onD)
      with all \<open>err = None\<close> show ?thesis by blast
    next
      case False
      with e m other [OF False] show ?thesis by (auto simp: merged_ids_def)
    qed
    moreover have "i \<in> ev_id ` (A \<union> R)" if "map_of ids' i \<noteq> None" for i
      using that other [of i] m by (cases "i \<in> ev_id ` R") (auto simp: merged_ids_def image_Un)
    ultimately show ?thesis using dist m by (simp add: merged_ids_def)
  qed
  with p show ?thesis by blast
qed

lemma fetch_relays_merged:
  assumes "merged_ids A ids" and "\<forall>url \<in> set urls. relay_honest fetch url f (R url)"
    and "inj_on ev_id (A \<union> all_held R urls)"
  shows "\<exists>r w'. fetch_relays fetch urls f ids w = Some (r, w') \<and>
    (\<forall>evs. r = Inr evs \<longrightarrow> (\<exists>ids'. evs = map snd ids' \<and> merged_ids (A \<union> all_held R urls) ids'))"
  using assms
proof (induction urls arbitrary: A ids w)
  case (Cons url urls)
  have "inj_on ev_id (A \<union> R url)" by (rule inj_on_subset [OF Cons.prems(3)]) (auto simp: all_held_def)
  with merged_ids_page [OF Cons.prems(1) _ this, of fetch url f w] Cons.prems(2)
  obtain err ids' w' where p: "pageRelay fetch url f ids w = Some (err, ids', w')" "err = None \<Longrightarrow> merged_ids (A \<union> R url) ids'"
    by auto
  have u: "A \<union> R url \<union> all_held R urls = A \<union> all_held R (url # urls)" by (auto simp: all_held_def)
  show ?case
  proof (cases err)
    case None
    with Cons.IH [of "A \<union> R url" ids' w'] p Cons.prems(2,3) u show ?thesis by simp
  next
    case (Some e)
    with p show ?thesis by simp
  qed
qed (auto simp: all_held_def)

lemma merged_values:
  assumes "merged_ids A ids"
  shows "set (map snd ids) = A" and "distinct (map snd ids)"
proof -
  have dist: "distinct (map fst ids)" using assms by (simp add: merged_ids_def)
  have v: "(i, e) \<in> set ids \<longleftrightarrow> i = ev_id e \<and> e \<in> A" for i e
  proof -
    have "map_of ids i = Some e \<longleftrightarrow> i = ev_id e \<and> e \<in> A"
    proof
      assume m: "map_of ids i = Some e"
      then have "i \<in> ev_id ` A" using assms unfolding merged_ids_def by (metis option.distinct(1))
      then obtain e' where "i = ev_id e'" "e' \<in> A" by blast
      with m assms show "i = ev_id e \<and> e \<in> A" by (simp add: merged_ids_def)
    qed (use assms in \<open>simp add: merged_ids_def\<close>)
    with dist show ?thesis by simp
  qed
  have "set (map snd ids) = {e. \<exists>i. (i, e) \<in> set ids}" by force
  then show "set (map snd ids) = A" by (simp add: v)
  have "inj_on snd (set ids)" by (rule inj_onI) (auto simp: v)
  then show "distinct (map snd ids)" using dist by (simp add: distinct_map)
qed

lemma pool_Fetch_complete:
  assumes "\<forall>url \<in> set urls. net_honest N url f (R url)" and "inj_on ev_id (all_held R urls)"
  shows "\<exists>r w'. pool_Fetch (fetchPage N) urls f w = Some (r, w') \<and>
    (\<forall>evs. r = Inr evs \<longrightarrow> distinct evs \<and> set evs = all_held R urls)"
proof -
  have "merged_ids {} []" by (simp add: merged_ids_def)
  from fetch_relays_merged [OF this, of urls "fetchPage N" f R w] assms fetchPage_honest
  obtain r w' where "fetch_relays (fetchPage N) urls f [] w = Some (r, w')"
    "\<And>evs. r = Inr evs \<Longrightarrow> \<exists>ids. evs = map snd ids \<and> merged_ids (all_held R urls) ids" by fastforce
  then show ?thesis unfolding pool_Fetch_def using merged_values by blast
qed

lemma loaded_author_is_complete:
  assumes "loadAuthor L nfc (poolMappingSource N now expired) relays hexKey w = (Inr e, w')" and "pk_from_hex L hexKey = Inr pk"
    and "\<forall>url \<in> set relays. net_honest N url (empty_filter\<lparr>f_kinds := [KindMapping], f_authors := [pk]\<rparr>) (R url)"
    and "inj_on ev_id (all_held R relays)"
  shows "\<exists>evs. distinct evs \<and> set evs = all_held R relays \<and> se_mappings e = parseMappings L nfc evs"
proof -
  from pool_Fetch_complete [OF assms(3,4), of w] obtain r w1 where
    p: "pool_Fetch (fetchPage N) relays (empty_filter\<lparr>f_kinds := [KindMapping], f_authors := [pk]\<rparr>) w = Some (r, w1)"
    and c: "\<And>evs. r = Inr evs \<Longrightarrow> distinct evs \<and> set evs = all_held R relays" by blast
  let ?src = "poolMappingSource N now expired"
  have f: "ms_Fetch ?src relays (empty_filter\<lparr>f_kinds := [KindMapping], f_authors := [pk]\<rparr>) w = (r, w1)"
    by (simp add: poolMappingSource_def p)
  note l = assms(1) [unfolded loadAuthor_def assms(2) sum.case f prod.case]
  show ?thesis
  proof (cases r)
    case (Inl err)
    with l show ?thesis by simp
  next
    case (Inr evs)
    with l have "se_mappings e = parseMappings L nfc evs"
      by (auto simp: Let_def new_entry_def split: if_splits prod.splits sum.splits)
    with c [OF Inr] show ?thesis by blast
  qed
qed

section \<open>Properties\<close>

text \<open>C15. Whatever the network does, a fetch from several relays is complete or fails: it always returns, and
  when it returns events these are exactly the matching events the relays hold, each once. A connection
  that drops, a subscription the relay closes or a deadline in the middle of a page is an error, never a
  shorter answer.\<close>

theorem fetch_is_complete_or_fails:
  assumes "\<forall>url \<in> set urls. net_honest N url f (R url)" and "inj_on ev_id (\<Union>url \<in> set urls. R url)"
  shows "\<exists>r w'. pool_Fetch (fetchPage N) urls f w = Some (r, w') \<and>
    (\<forall>evs. r = Inr evs \<longrightarrow> distinct evs \<and> set evs = (\<Union>url \<in> set urls. R url))"
  using pool_Fetch_complete [OF assms(1)] assms(2) by (simp add: all_held_def)

text \<open>A relay whose first connection breaks after one of its two events; the world counts the subscriptions.\<close>

definition demo_net :: "nat relay_net" where
  "demo_net = \<lparr>rn_EnsureRelay = (\<lambda>_ n. (Some (Inr ()), n)),
     rn_Subscribe = (\<lambda>url g n. (Inr (if n = 0 then [Deliver (demo_event 1 39740 5 []), EventsClosed ''reset'']
       else map Deliver (if f_until g = 0 \<or> ts_le 5 (f_until g) then [demo_event 1 39740 5 []] else []) @ [EndOfStored]), Suc n)),
     rn_Unsub = (\<lambda>_ n. n), rn_ctx_err = (\<lambda>_. ''deadline exceeded'')\<rparr>"

lemma map_Deliver_EOSE: "map Deliver xs @ [EndOfStored] = map Deliver ys @ EndOfStored # rest \<longleftrightarrow> xs = ys \<and> rest = []"
proof (induction xs arbitrary: ys)
  case Nil
  then show ?case by (cases ys) auto
next
  case (Cons x xs)
  then show ?case by (cases ys) auto
qed

lemma demo_net_honest: "net_honest demo_net url empty_filter {demo_event 1 39740 5 []}"
proof -
  let ?e = "demo_event 1 39740 5 []"
  have e: "ev_created_at ?e = 5" by (simp add: demo_event_def)
  let ?page = "\<lambda>t. if t = 0 \<or> ts_le 5 t then [?e] else []"
  have page: "serves_page {?e} t (?page t)" for t
    by (auto simp: serves_page_def upto_ts_def e mappingPageSize_def)
  have broken: "[Deliver ?e, EventsClosed c] \<noteq> map Deliver evs @ EndOfStored # rest" for c evs rest
    by (cases evs; cases "tl evs") auto
  have set: "relay_set {?e}" by (simp add: relay_set_def e)
  have "serves_page {?e} t evs"
    if sub: "rn_Subscribe demo_net url (empty_filter\<lparr>f_limit := int mappingPageSize, f_until := t\<rparr>) n =
      (Inr (map Deliver evs @ EndOfStored # rest), n')" for t n evs rest n'
  proof (cases "n = 0")
    case True
    with sub broken show ?thesis by (simp add: demo_net_def)
  next
    case False
    with sub have "map Deliver (?page t) @ [EndOfStored] = map Deliver evs @ EndOfStored # rest" by (simp add: demo_net_def)
    then have "evs = ?page t" unfolding map_Deliver_EOSE by simp
    with page show ?thesis by simp
  qed
  with set show ?thesis unfolding net_honest_def by blast
qed

lemma fetch_is_complete_or_fails_witness:
  "fst (the (pool_Fetch (fetchPage demo_net) [''a''] empty_filter 0)) = Inl ''a: a: subscription ended before EOSE: reset'' \<and>
   (\<exists>evs w'. pool_Fetch (fetchPage demo_net) [''a'', ''b''] empty_filter 1 = Some (Inr evs, w') \<and> set evs = {demo_event 1 39740 5 []})"
proof
  show "fst (the (pool_Fetch (fetchPage demo_net) [''a''] empty_filter 0)) = Inl ''a: a: subscription ended before EOSE: reset''"
    by (simp add: pool_Fetch_def pageRelay_def page_loop.simps fetchPage_def demo_net_def)
  let ?R = "\<lambda>_ :: string. {demo_event 1 39740 5 []}"
  have h: "\<forall>url \<in> set [''a'', ''b'']. net_honest demo_net url empty_filter (?R url)" using demo_net_honest by simp
  obtain r w' where f: "pool_Fetch (fetchPage demo_net) [''a'', ''b''] empty_filter 1 = Some (r, w')"
    and c: "\<And>evs. r = Inr evs \<Longrightarrow> set evs = {demo_event 1 39740 5 []}"
    using fetch_is_complete_or_fails [OF h, of 1] by auto
  have "\<not> isl r"
    using f by (auto simp: pool_Fetch_def pageRelay_def page_loop.simps fetchPage_def demo_net_def mappingPageSize_def demo_event_def)
  with f c show "\<exists>evs w'. pool_Fetch (fetchPage demo_net) [''a'', ''b''] empty_filter 1 = Some (Inr evs, w') \<and>
      set evs = {demo_event 1 39740 5 []}" by (cases r) auto
qed

end
