(* ===== verification/ProfileLife.thy ===== *)
theory ProfileLife
  imports Profiles
begin

text \<open>
  The profile manager of \<open>profile_manager.go\<close> as a running system: the candidate queue, the drain worker
  and the directories of \<open>nip05_directory.go\<close> together with everything that feeds them, which are the
  startup scan, the periodic refresh, the directory polls and the content writes. A drain is one step: an
  enqueue that falls into it comes after it, or finds its key among those whose profile was stored.
\<close>

section \<open>The system\<close>

text \<open>\<open>ps_all\<close> and \<open>ps_fresh\<close> record the keys ever enqueued and those enqueued since the last drain began.\<close>

record 'w profile_sys =
  ps_mgmt :: mgmt_db
  ps_world :: 'w
  ps_worker :: drain_worker
  ps_directory :: nip05_directory
  ps_all :: "string set"
  ps_fresh :: "string set"

definition kick :: "drain_worker \<Rightarrow> drain_worker" where
  "kick d = d\<lparr>dw_kicked := True, dw_kicks := dw_kicks d + 1\<rparr>"

definition pm_Enqueue :: "lib \<Rightarrow> 'w profile_env \<Rightarrow> pubkey \<Rightarrow> 'w profile_sys \<Rightarrow> 'w profile_sys" where
  "pm_Enqueue L E pk s = s\<lparr>ps_mgmt := profile_Enqueue L E pk (ps_mgmt s), ps_worker := kick (ps_worker s),
     ps_all := insert (pk_hex L pk) (ps_all s), ps_fresh := insert (pk_hex L pk) (ps_fresh s)\<rparr>"

text \<open>What \<open>Init\<close> and each tick of the refresh loop do: enqueue what the scan finds, then kick.\<close>

definition pm_refresh :: "lib \<Rightarrow> 'w profile_env \<Rightarrow> (nip05_directory \<Rightarrow> 'w \<Rightarrow> pubkey list) \<Rightarrow> 'w profile_sys \<Rightarrow> 'w profile_sys" where
  "pm_refresh L E backfill s = (case fold (pm_Enqueue L E) (backfill (ps_directory s) (ps_world s)) s of
     s1 \<Rightarrow> s1\<lparr>ps_worker := kick (ps_worker s1)\<rparr>)"

definition pm_Init :: "lib \<Rightarrow> 'w profile_env \<Rightarrow> (nip05_directory \<Rightarrow> 'w \<Rightarrow> pubkey list) \<Rightarrow> nip05_directory \<Rightarrow> mgmt_db \<Rightarrow> 'w \<Rightarrow>
    'w profile_sys" where
  "pm_Init L E backfill dir m w = pm_refresh L E backfill \<lparr>ps_mgmt = m, ps_world = w, ps_worker = worker_init,
     ps_directory = dir, ps_all = set (ListProfileQueue m), ps_fresh = {}\<rparr>"

text \<open>One poll of the directories: its new members are enqueued, in the unspecified order of a Go map.\<close>

inductive directory_poll :: "lib \<Rightarrow> 'w profile_env \<Rightarrow> (string \<Rightarrow> 'w \<Rightarrow> error + (string \<times> string) list) \<Rightarrow>
    'w profile_sys \<Rightarrow> 'w profile_sys \<Rightarrow> bool" for L E fetch where
  "Poll L (\<lambda>url. fetch url (ps_world s)) (ps_directory s) = (set added, d) \<Longrightarrow>
   directory_poll L E fetch s (fold (pm_Enqueue L E) added (s\<lparr>ps_directory := d\<rparr>))"

definition drain_now :: "lib \<Rightarrow> 'w profile_env \<Rightarrow> bool \<Rightarrow> 'w profile_sys \<Rightarrow> 'w profile_sys" where
  "drain_now L E isRetry s = (case drainOnce L E (ps_mgmt s, ps_world s) of (unresolved, (m, w)) \<Rightarrow>
     s\<lparr>ps_mgmt := m, ps_world := w, ps_worker := (ps_worker s)\<lparr>dw_phase := Waiting, dw_retry := unresolved > 0 \<and> \<not> isRetry\<rparr>\<rparr>)"

fun draining :: "dw_phase \<Rightarrow> bool" where
  "draining (Draining _) \<longleftrightarrow> True"
| "draining _ \<longleftrightarrow> False"

inductive profile_step :: "lib \<Rightarrow> 'w profile_env \<Rightarrow> (nip05_directory \<Rightarrow> 'w \<Rightarrow> pubkey list) \<Rightarrow>
    (string \<Rightarrow> 'w \<Rightarrow> error + (string \<times> string) list) \<Rightarrow> 'w profile_sys \<Rightarrow> 'w profile_sys \<Rightarrow> bool"
  for L E backfill fetch where
  Write: "profile_step L E backfill fetch s (pm_Enqueue L E pk s)"
| Refresh: "profile_step L E backfill fetch s (pm_refresh L E backfill s)"
| Directory: "directory_poll L E fetch s s' \<Longrightarrow> profile_step L E backfill fetch s s'"
| Worker: "drain_step (ps_worker s) d \<Longrightarrow> \<not> draining (dw_phase (ps_worker s)) \<Longrightarrow> \<not> draining (dw_phase d) \<Longrightarrow>
    profile_step L E backfill fetch s (s\<lparr>ps_worker := d\<rparr>)"
| Begin: "drain_step (ps_worker s) d \<Longrightarrow> \<not> draining (dw_phase (ps_worker s)) \<Longrightarrow> draining (dw_phase d) \<Longrightarrow>
    profile_step L E backfill fetch s (s\<lparr>ps_worker := d, ps_fresh := {}\<rparr>)"
| Drain: "dw_phase (ps_worker s) = Draining isRetry \<Longrightarrow> profile_step L E backfill fetch s (drain_now L E isRetry s)"

definition profile_run :: "lib \<Rightarrow> 'w profile_env \<Rightarrow> (nip05_directory \<Rightarrow> 'w \<Rightarrow> pubkey list) \<Rightarrow>
    (string \<Rightarrow> 'w \<Rightarrow> error + (string \<times> string) list) \<Rightarrow> 'w profile_sys \<Rightarrow> 'w profile_sys \<Rightarrow> bool" where
  "profile_run L E backfill fetch = (profile_step L E backfill fetch)\<^sup>*\<^sup>*"

section \<open>What a step keeps\<close>

text \<open>
  Every key ever enqueued is accounted for, and a key that no drain has seen yet has one coming: the worker is
  kicked or about to drain, unless it has been stopped.
\<close>

definition life_inv :: "lib \<Rightarrow> (pubkey \<Rightarrow> 'w \<Rightarrow> bool) \<Rightarrow> 'w profile_sys \<Rightarrow> bool" where
  "life_inv L has s \<longleftrightarrow> accounted L has (ps_all s) (ps_mgmt s, ps_world s) \<and>
     (ps_fresh s = {} \<or> dw_kicked (ps_worker s) \<or> dw_phase (ps_worker s) \<in> {Debouncing, WorkerStopped})"

lemma pm_Enqueue_fields [simp]:
  "ps_world (pm_Enqueue L E pk s) = ps_world s" "ps_directory (pm_Enqueue L E pk s) = ps_directory s"
  "ps_all (pm_Enqueue L E pk s) = insert (pk_hex L pk) (ps_all s)"
  "ps_worker (pm_Enqueue L E pk s) = kick (ps_worker s)"
  by (simp_all add: pm_Enqueue_def)

lemma kick_fields [simp]: "dw_kicked (kick d)" "dw_phase (kick d) = dw_phase d"
  by (simp_all add: kick_def)

lemma life_Enqueue:
  assumes "\<forall>h. pe_tx_enqueue E h = None" and "life_inv L has s"
  shows "life_inv L has (pm_Enqueue L E pk s)"
  using assms by (auto simp: life_inv_def accounted_def pm_Enqueue_def queue_enqueue)

lemma life_Enqueue_all:
  assumes "\<forall>h. pe_tx_enqueue E h = None" and "life_inv L has s"
  shows "life_inv L has (fold (pm_Enqueue L E) pks s)"
  using assms(2) by (induction pks arbitrary: s) (simp_all add: life_Enqueue [OF assms(1)])

lemma Enqueue_all_keys: "ps_all (fold (pm_Enqueue L E) pks s) = ps_all s \<union> pk_hex L ` set pks"
  by (induction pks arbitrary: s) auto

lemma life_refresh:
  assumes "\<forall>h. pe_tx_enqueue E h = None" and "life_inv L has s"
  shows "life_inv L has (pm_refresh L E backfill s)"
  using life_Enqueue_all [OF assms, of "backfill (ps_directory s) (ps_world s)"] by (simp add: pm_refresh_def life_inv_def)

lemma drain_keeps_accounts:
  assumes "store_remembers E has" and "accounted L has K (m, w)" and "drainOnce L E (m, w) = (n, s')"
  shows "accounted L has K s'"
  using accounted_loop [OF assms(1,2), of "ListProfileQueue m" "(0, 0, 0)"] assms(2,3)
  by (auto simp: drainOnce_def Let_def split: option.splits prod.splits if_splits)

lemma worker_keeps_due:
  assumes "drain_step d d'" and "\<not> draining (dw_phase d)" and "\<not> draining (dw_phase d')"
    and "dw_kicked d \<or> dw_phase d \<in> {Debouncing, WorkerStopped}"
  shows "dw_kicked d' \<or> dw_phase d' \<in> {Debouncing, WorkerStopped}"
  using assms by (induction rule: drain_step.induct) auto

lemma life_step:
  assumes "store_remembers E has" and "\<forall>h. pe_tx_enqueue E h = None"
    and "profile_step L E backfill fetch s s'" and "life_inv L has s"
  shows "life_inv L has s'"
  using assms(3,4)
proof (induction rule: profile_step.induct)
  case (Write s pk)
  then show ?case by (rule life_Enqueue [OF assms(2)])
next
  case (Refresh s)
  then show ?case by (rule life_refresh [OF assms(2)])
next
  case (Directory s s')
  from Directory(1) obtain added d where s': "s' = fold (pm_Enqueue L E) added (s\<lparr>ps_directory := d\<rparr>)"
    by (auto elim: directory_poll.cases)
  have "life_inv L has (s\<lparr>ps_directory := d\<rparr>)" using Directory(2) by (simp add: life_inv_def)
  from life_Enqueue_all [OF assms(2) this] show ?case by (simp add: s')
next
  case (Worker s d)
  with worker_keeps_due [OF Worker(1-3)] show ?case by (auto simp: life_inv_def)
next
  case (Begin s d)
  then show ?case by (simp add: life_inv_def)
next
  case (Drain s isRetry)
  obtain n m w where d: "drainOnce L E (ps_mgmt s, ps_world s) = (n, (m, w))" by (metis surj_pair)
  with drain_keeps_accounts [OF assms(1) _ d] Drain show ?case by (auto simp: drain_now_def life_inv_def)
qed

lemma life_run:
  assumes "store_remembers E has" and "\<forall>h. pe_tx_enqueue E h = None"
    and "profile_run L E backfill fetch s s'" and "life_inv L has s"
  shows "life_inv L has s'"
  using assms(3) unfolding profile_run_def
  by induction (auto intro: life_step [OF assms(1,2)] assms(4))

lemma keys_grow:
  assumes "profile_run L E backfill fetch s s'"
  shows "ps_all s \<subseteq> ps_all s'"
  using assms unfolding profile_run_def
proof induction
  case (step y z)
  from step(2) have "ps_all y \<subseteq> ps_all z"
    by (induction rule: profile_step.induct)
      (auto simp: pm_refresh_def Enqueue_all_keys drain_now_def elim!: directory_poll.cases split: prod.split)
  with step show ?case by blast
qed simp

text \<open>Seen from the worker alone, the system runs its loop: every step is a run of \<open>drain_step\<close>.\<close>

lemma kicks_run: "drain_step\<^sup>*\<^sup>* d (ps_worker (fold (pm_Enqueue L E) pks s))" if "drain_step\<^sup>*\<^sup>* d (ps_worker s)"
  using that
proof (induction pks arbitrary: s)
  case (Cons pk pks)
  have "drain_step (ps_worker s) (kick (ps_worker s))" unfolding kick_def by (rule drain_step.kick)
  with Cons.prems have "drain_step\<^sup>*\<^sup>* d (ps_worker (pm_Enqueue L E pk s))" by (simp add: rtranclp.rtrancl_into_rtrancl)
  from Cons.IH [OF this] show ?case by simp
qed simp

lemma step_runs_worker:
  assumes "profile_step L E backfill fetch s s'"
  shows "drain_step\<^sup>*\<^sup>* (ps_worker s) (ps_worker s')"
  using assms
proof (induction rule: profile_step.induct)
  case (Write s pk)
  show ?case using kicks_run [of "ps_worker s" s L E "[pk]"] by simp
next
  case (Refresh s)
  have "drain_step d (kick d)" for d unfolding kick_def by (rule drain_step.kick)
  with kicks_run [of "ps_worker s" s L E] show ?case by (auto simp: pm_refresh_def intro: rtranclp.rtrancl_into_rtrancl)
next
  case (Directory s s')
  then show ?case by (auto elim!: directory_poll.cases intro!: kicks_run)
next
  case (Drain s isRetry)
  then show ?case by (auto simp: drain_now_def intro!: drain_step.drained split: prod.split)
qed auto

lemma system_drains_are_bounded:
  assumes "profile_run L E backfill fetch (pm_Init L E backfill dir m w) s"
  shows "dw_drains (ps_worker s) \<le> 2 * dw_kicks (ps_worker s)"
proof -
  let ?s0 = "\<lparr>ps_mgmt = m, ps_world = w, ps_worker = worker_init, ps_directory = dir, ps_all = set (ListProfileQueue m), ps_fresh = {}\<rparr>"
  have "drain_step\<^sup>*\<^sup>* worker_init (ps_worker (pm_Init L E backfill dir m w))"
    using step_runs_worker [OF Refresh, of ?s0 L E backfill] by (simp add: pm_Init_def)
  moreover have "drain_step\<^sup>*\<^sup>* (ps_worker (pm_Init L E backfill dir m w)) (ps_worker s)"
    using assms unfolding profile_run_def by induction (auto dest: step_runs_worker intro: rtranclp_trans)
  ultimately have "drain_step\<^sup>*\<^sup>* worker_init (ps_worker s)" by (rule rtranclp_trans)
  from drain_steps_budget [OF this] show ?thesis by (simp add: worker_budget_def split: if_splits)
qed

section \<open>Properties\<close>

text \<open>C31. No author is forgotten: after the startup scan and any interleaving of content writes, refreshes,
  directory polls and drains, every author that was ever enqueued, among them all the scan has found, is still
  queued or a profile of theirs was handed to the store; and when the worker waits without a kick, every
  enqueue has been followed by a drain.\<close>

theorem no_author_is_forgotten:
  assumes "lib_ok L" and "store_remembers E has" and "\<forall>h. pe_tx_enqueue E h = None"
    and "profile_run L E backfill fetch (pm_Init L E backfill dir m w) s"
  shows "(\<forall>pk. pk_hex L pk \<in> ps_all s \<longrightarrow> pk_hex L pk \<in> set (ListProfileQueue (ps_mgmt s)) \<or> has pk (ps_world s)) \<and>
    pk_hex L ` set (backfill dir w) \<subseteq> ps_all s \<and>
    (dw_phase (ps_worker s) = Waiting \<and> \<not> dw_kicked (ps_worker s) \<longrightarrow> ps_fresh s = {})"
proof -
  have "life_inv L has \<lparr>ps_mgmt = m, ps_world = w, ps_worker = worker_init, ps_directory = dir,
      ps_all = set (ListProfileQueue m), ps_fresh = {}\<rparr>"
    by (simp add: life_inv_def accounted_def queue_keys_def)
  from life_run [OF assms(2-4) life_refresh [OF assms(3) this, folded pm_Init_def]]
  have inv: "life_inv L has s" .
  then have "pk_hex L pk \<in> set (ListProfileQueue (ps_mgmt s)) \<or> has pk (ps_world s)" if "pk_hex L pk \<in> ps_all s" for pk
    using that pk_roundtrip [OF assms(1)] pk_hex_inject [OF assms(1)]
    unfolding life_inv_def accounted_def queue_keys_def by (metis Inl_Inr_False fst_conv snd_conv)
  moreover have "pk_hex L ` set (backfill dir w) \<subseteq> ps_all s"
    using keys_grow [OF assms(4)] by (auto simp: pm_Init_def pm_refresh_def Enqueue_all_keys)
  ultimately show ?thesis using inv by (auto simp: life_inv_def)
qed

text \<open>Two authors are found at startup; the first drain resolves one of them.\<close>

definition demo_life :: "pubkey list profile_sys" where
  "demo_life = pm_Init demo_lib demo_profiles (\<lambda>_ _. [[1], [2]]) (NewNIP05Directory []) fresh_db []"

definition demo_drained :: "pubkey list profile_sys" where
  "demo_drained = drain_now demo_lib demo_profiles False (demo_life\<lparr>
     ps_worker := (ps_worker demo_life)\<lparr>dw_kicked := False, dw_phase := Draining False, dw_retry := False, dw_drains := 1\<rparr>, ps_fresh := {}\<rparr>)"

lemma demo_life_run: "profile_run demo_lib demo_profiles (\<lambda>_ _. [[1], [2]]) (\<lambda>_ _. Inl ''offline'') demo_life demo_drained"
proof -
  let ?step = "profile_step demo_lib demo_profiles (\<lambda>_ _. [[1], [2]]) (\<lambda>_ _. Inl ''offline'')"
  let ?d = "ps_worker demo_life"
  have d: "dw_phase ?d = Waiting" "dw_kicked ?d" "dw_drains ?d = 0"
    by (simp_all add: demo_life_def pm_Init_def pm_refresh_def worker_init_def kick_def)
  let ?d1 = "?d\<lparr>dw_phase := Debouncing, dw_kicked := False\<rparr>"
  let ?d2 = "?d\<lparr>dw_kicked := False, dw_phase := Draining False, dw_retry := False, dw_drains := 1\<rparr>"
  have 1: "?step demo_life (demo_life\<lparr>ps_worker := ?d1\<rparr>)"
    by (rule Worker) (use drain_step.take_kick [OF d(1,2)] d in simp_all)
  have "drain_step ?d1 ?d2" using drain_step.debounced [of ?d1] d by simp
  from Begin [of "demo_life\<lparr>ps_worker := ?d1\<rparr>" ?d2] this
  have 2: "?step (demo_life\<lparr>ps_worker := ?d1\<rparr>) (demo_life\<lparr>ps_worker := ?d2, ps_fresh := {}\<rparr>)" by simp
  have 3: "?step (demo_life\<lparr>ps_worker := ?d2, ps_fresh := {}\<rparr>) demo_drained"
    unfolding demo_drained_def by (rule Drain) simp
  from 1 2 3 show ?thesis
    unfolding profile_run_def by (meson rtranclp.rtrancl_into_rtrancl rtranclp.rtrancl_refl)
qed

lemma no_author_is_forgotten_witness:
  "(to_hex [1] \<in> set (ListProfileQueue (ps_mgmt demo_drained)) \<or> [1] \<in> set (ps_world demo_drained)) \<and>
   (to_hex [2] \<in> set (ListProfileQueue (ps_mgmt demo_drained)) \<or> [2] \<in> set (ps_world demo_drained)) \<and> ps_fresh demo_drained = {}"
proof -
  have tx: "\<forall>h. pe_tx_enqueue demo_profiles h = None" by (simp add: demo_profiles_def)
  have hex: "pk_hex demo_lib = to_hex" by (simp add: demo_lib_def)
  note all = no_author_is_forgotten [OF demo_lib_ok demo_profiles_ok(1) tx demo_life_run [unfolded demo_life_def], unfolded hex]
  then have "{to_hex [1], to_hex [2]} \<subseteq> ps_all demo_drained" by simp
  moreover have "dw_phase (ps_worker demo_drained) = Waiting" "\<not> dw_kicked (ps_worker demo_drained)"
    by (simp_all add: demo_drained_def drain_now_def split: prod.split)
  ultimately show ?thesis using all by blast
qed

end
