(* ===== verification/Loops.thy ===== *)
theory Loops
  imports Allowlist ExpandRegistry Community
begin

text \<open>
  The background loops of the relay. \<open>AllowlistManager\<close>, \<open>CommunityRegistry\<close>, \<open>MappingRegistry\<close> and
  \<open>CommunityStamper\<close> each start a goroutine that waits for its ticker or for the closing of its stop channel
  and does its refresh on every tick, while the rest of the relay goes on working on the same state. The
  locale \<open>ticker_loop\<close> is their common contract: what a tick and the others keep, the loop keeps. (The
  loops of the profile manager and the directories are in \<open>ProfileLife\<close>.)
\<close>

section \<open>The loop\<close>

record 's loop =
  lp_state :: 's
  lp_running :: bool

text \<open>\<open>select\<close> may take a tick as long as the loop runs, also when the stop channel has been closed.\<close>

inductive loop_step :: "('s \<Rightarrow> 's \<Rightarrow> bool) \<Rightarrow> ('s \<Rightarrow> 's \<Rightarrow> bool) \<Rightarrow> 's loop \<Rightarrow> 's loop \<Rightarrow> bool" for tick other where
  Tick: "lp_running l \<Longrightarrow> tick (lp_state l) s' \<Longrightarrow> loop_step tick other l (l\<lparr>lp_state := s'\<rparr>)"
| Other: "other (lp_state l) s' \<Longrightarrow> loop_step tick other l (l\<lparr>lp_state := s'\<rparr>)"
| Stop: "lp_running l \<Longrightarrow> loop_step tick other l (l\<lparr>lp_running := False\<rparr>)"

inductive_cases loop_stepE: "loop_step tick other l l'"

locale ticker_loop =
  fixes tick :: "'s \<Rightarrow> 's \<Rightarrow> bool" and other :: "'s \<Rightarrow> 's \<Rightarrow> bool" and inv :: "'s \<Rightarrow> bool"
  assumes tick_keeps: "tick s s' \<Longrightarrow> inv s \<Longrightarrow> inv s'"
    and other_keeps: "other s s' \<Longrightarrow> inv s \<Longrightarrow> inv s'"
begin

lemma step_keeps: "loop_step tick other l l' \<Longrightarrow> inv (lp_state l) \<Longrightarrow> inv (lp_state l')"
  by (erule loop_stepE) (auto intro: tick_keeps other_keeps)

lemma run_keeps: "(loop_step tick other)\<^sup>*\<^sup>* l l' \<Longrightarrow> inv (lp_state l) \<Longrightarrow> inv (lp_state l')"
  by (induction rule: rtranclp_induct) (auto intro: step_keeps)

end

section \<open>The allowlists\<close>

text \<open>A tick fetches the lists again and rebuilds the merged sets; the others are the management operations.\<close>

inductive acl_tick :: "lib \<Rightarrow> json_lib \<Rightarrow> acl_state \<Rightarrow> acl_state \<Rightarrow> bool" for L J where
  "acl_tick L J (m, a) (m, rebuildMergedSets L J m (snd (refreshAllLists L query a)))"

inductive acl_other :: "lib \<Rightarrow> json_lib \<Rightarrow> acl_state \<Rightarrow> acl_state \<Rightarrow> bool" for L J where
  "acl_other L J s (snd (acl_step L J query tx op s))"

definition acl_fine :: "lib \<Rightarrow> json_lib \<Rightarrow> acl_state \<Rightarrow> bool" where
  "acl_fine L J s \<longleftrightarrow> merged_ok L s \<and> (json_ok J \<longrightarrow> persisted_ok J s)"

lemma acl_tick_is_refresh: "acl_tick L J s s' \<Longrightarrow> \<exists>query. s' = snd (acl_step L J query None OpRefresh s)"
proof (erule acl_tick.cases)
  fix m a query
  assume "s' = (m, rebuildMergedSets L J m (snd (refreshAllLists L query a)))" and "s = (m, a)"
  then have "s' = snd (acl_step L J query None OpRefresh s)"
    by (simp add: acl_step_def RefreshAllLists_def case_prod_beta)
  then show ?thesis by blast
qed

lemma acl_fine_step: "acl_fine L J s \<Longrightarrow> acl_fine L J (snd (acl_step L J query tx op s))"
  by (auto simp: acl_fine_def acl_step_merged acl_step_persisted)

interpretation acl_loop: ticker_loop "acl_tick L J" "acl_other L J" "acl_fine L J" for L J
proof unfold_locales
  show "acl_fine L J s'" if "acl_tick L J s s'" "acl_fine L J s" for s s'
    using acl_tick_is_refresh [OF that(1)] that(2) by (auto intro: acl_fine_step)
  show "acl_fine L J s'" if "acl_other L J s s'" "acl_fine L J s" for s s'
    using that by (auto elim!: acl_other.cases intro: acl_fine_step)
qed

section \<open>The communities\<close>

text \<open>A tick resolves the communities of a new scan; nothing else writes to the registry.\<close>

inductive community_tick :: "lib \<Rightarrow> resolved \<Rightarrow> resolved \<Rightarrow> bool" for L where
  "community_tick L r (refresh L answer scanned r)"

lemma refresh_grows: "dom r \<subseteq> dom (refresh L answer cs r)"
proof (induction cs arbitrary: r)
  case (Cons c cs)
  have "dom r \<subseteq> dom (refresh L answer cs (r(c \<mapsto> m)))" for m
    by (rule subset_trans [OF _ Cons]) (auto simp: dom_def)
  with Cons [of r] show ?case by (simp split: sum.split option.split)
qed simp

interpretation community_loop: ticker_loop "community_tick L" "\<lambda>_ _. False" "\<lambda>r. dom known \<subseteq> dom r" for L known
proof unfold_locales
  show "dom known \<subseteq> dom r'" if "community_tick L r r'" "dom known \<subseteq> dom r" for r r'
    using that(1) by (rule community_tick.cases) (use that(2) refresh_grows subset_trans in metis)
qed simp

section \<open>The mapping registry\<close>

text \<open>\<open>Init\<close> refreshes once, a tick again; the others are the queries, which load sources on demand.\<close>

inductive mapping_tick :: "lib \<Rightarrow> (string \<Rightarrow> string) \<Rightarrow> 'w mappingSource \<Rightarrow> MappingRegistry \<times> 'w \<Rightarrow> MappingRegistry \<times> 'w \<Rightarrow> bool"
  for L nfc src where
  "mapping_tick L nfc src s (mr_refresh L nfc src s)"

inductive mapping_other :: "lib \<Rightarrow> (string \<Rightarrow> string) \<Rightarrow> 'w mappingSource \<Rightarrow> MappingRegistry \<times> 'w \<Rightarrow> MappingRegistry \<times> 'w \<Rightarrow> bool"
  for L nfc src where
  Query: "mapping_other L nfc src s (snd (mr_Graph L nfc src trust s))"
| World: "mapping_other L nfc src (r, w) (r, w')"

interpretation mapping_loop: ticker_loop "mapping_tick L nfc src" "mapping_other L nfc src"
  "\<lambda>s. mreg_reach relays defaults (fst s)" for L nfc and src :: "'w mappingSource" and relays defaults
proof unfold_locales
  show "mreg_reach relays defaults (fst s')" if "mapping_tick L nfc src s s'" "mreg_reach relays defaults (fst s)" for s s'
    using that(1) by (rule mapping_tick.cases) (use that(2) mr_refresh_reach [of relays defaults "fst s" L nfc src "snd s"] in simp)
  show "mreg_reach relays defaults (fst s')" if "mapping_other L nfc src s s'" "mreg_reach relays defaults (fst s)" for s s'
    using that(1)
  proof cases
    case (Query trust)
    with that(2) mr_Graph_reach [of relays defaults "fst s" L nfc src trust "snd s"] show ?thesis by simp
  next
    case (World r w w')
    with that(2) show ?thesis by simp
  qed
qed

text \<open>The sweep of the stamper, started with \<open>Init\<close> and repeated on every tick.\<close>

inductive stamper_tick :: "lib \<Rightarrow> 'w stamper \<Rightarrow> 'w \<Rightarrow> 'w \<Rightarrow> bool" for L st where
  "stamper_tick L st w (reconcileAll L st w)"

section \<open>What holds at any time\<close>

text \<open>However often the loops tick and whatever runs beside them, the access lists stay those of the database and
  of the resolved lists, a resolved community stays resolved, and the mapping registry stays bounded.\<close>

lemma allowlists_survive_refreshes:
  assumes "Allowlist_Init L J query m NewAllowlistManager = (None, a)"
    and "(loop_step (acl_tick L J) (acl_other L J))\<^sup>*\<^sup>* \<lparr>lp_state = (m, a), lp_running = True\<rparr> l"
  shows "merged_ok L (lp_state l)"
  using acl_loop.run_keeps [OF assms(2)] Init_invariants [OF assms(1)] by (simp add: acl_fine_def)

lemma communities_stay_known:
  assumes "(loop_step (community_tick L) (\<lambda>_ _. False))\<^sup>*\<^sup>* l l'"
  shows "dom (lp_state l) \<subseteq> dom (lp_state l')"
  using community_loop.run_keeps [OF assms] by blast

lemma registry_loop_stays_bounded:
  assumes "(loop_step (mapping_tick L nfc src) (mapping_other L nfc src))\<^sup>*\<^sup>*
     \<lparr>lp_state = (NewMappingRegistry relays defaults, w), lp_running = True\<rparr> l"
  shows "mreg_bounded (fst (lp_state l))"
proof -
  have "mreg_reach relays defaults (fst (lp_state l))"
    by (rule mapping_loop.run_keeps [OF assms]) (simp add: mreg_reach.new)
  then show ?thesis by (rule reach_bounded)
qed

end
