(* ===== verification/Stamping.thy ===== *)
theory Stamping
  imports Community TSBuffer "HOL-Library.Multiset"
begin

text \<open>
  What the stamper of \<open>community_stamp.go\<close> leaves in the \<open>community\<close> fields of the documents: a whole sweep, many
  reconciles at the same time (every handler starts one as a goroutine), and patches that wait in the queue of the
  index. A document is named by the kind, which selects the collection, and its id there.
\<close>

section \<open>What a sweep leaves behind\<close>

text \<open>The document a share refers to, and the references of all stored shares.\<close>

definition doc_of :: "lib \<Rightarrow> shareRef \<Rightarrow> kind \<times> string" where
  "doc_of L ref = (sr_Kind ref, docIDFor L (sr_Kind ref) (sr_Pubkey ref) (sr_DTag ref))"

definition share_refs :: "lib \<Rightarrow> 'w stamper \<Rightarrow> 'w \<Rightarrow> shareRef list" where
  "share_refs L s w = List.map_filter (shareToRef L) (st_allShares s w)"

text \<open>\<open>field\<close> is the \<open>community\<close> field of every document that exists: a patch sets that of its document, creates none, and
  touches neither the shares nor the memberships nor the stored content.\<close>

definition same_view :: "'w stamper \<Rightarrow> 'w \<Rightarrow> 'w \<Rightarrow> bool" where
  "same_view s w w' \<longleftrightarrow> (\<forall>co. st_sharesFor s co w' = st_sharesFor s co w \<and> st_lookup s co w' = st_lookup s co w) \<and>
     st_isMember s w' = st_isMember s w"

definition set_field :: "kind \<times> string \<Rightarrow> string list \<Rightarrow> (kind \<times> string \<rightharpoonup> string list) \<Rightarrow> kind \<times> string \<rightharpoonup> string list" where
  "set_field d cs f = (if f d = None then f else f(d \<mapsto> cs))"

definition patches_field :: "'w stamper \<Rightarrow> ('w \<Rightarrow> kind \<times> string \<rightharpoonup> string list) \<Rightarrow> bool" where
  "patches_field s field \<longleftrightarrow> (\<forall>k i cs w. isStampKind s k \<longrightarrow>
     field (snd (st_patch s k i cs w)) = set_field (k, i) cs (field w) \<and> same_view s w (snd (st_patch s k i cs w)))"

lemma set_field_apply: "set_field d cs f e = (if e = d \<and> f d \<noteq> None then Some cs else f e)"
  by (simp add: set_field_def)

text \<open>Two spellings of the coordinate of one document do not occur.\<close>

definition one_spelling :: "lib \<Rightarrow> shareRef list \<Rightarrow> bool" where
  "one_spelling L refs \<longleftrightarrow> (\<forall>r \<in> set refs. \<forall>r' \<in> set refs. doc_of L r = doc_of L r' \<longrightarrow> sr_Coord r = sr_Coord r')"

text \<open>What the document of a coordinate has to carry.\<close>

definition due_stamps :: "lib \<Rightarrow> 'w stamper \<Rightarrow> 'w \<Rightarrow> string \<Rightarrow> string list" where
  "due_stamps L s w coord = unionSorted (case st_lookup s coord w of None \<Rightarrow> [] | Some ev \<Rightarrow> contentOwnCommunities ev)
     (deriveStamps (List.map_filter (shareToRef L) (st_sharesFor s coord w)) (st_isMember s w) coord)"

lemma same_view_refl [simp]: "same_view s w w"
  by (simp add: same_view_def)

lemma same_view_trans: "same_view s w w1 \<Longrightarrow> same_view s w1 w2 \<Longrightarrow> same_view s w w2"
  by (simp add: same_view_def)

lemma same_view_due: "same_view s w w' \<Longrightarrow> due_stamps L s w' = due_stamps L s w"
  unfolding same_view_def due_stamps_def by (intro ext) (simp only: simp_thms)

lemma first_ref_fields:
  "first_ref a cs ts = Some ref \<Longrightarrow> \<exists>k n. split3 (sr_Coord ref) = Some (k, sr_Pubkey ref, sr_DTag ref) \<and> atoi k = Some n \<and>
     sr_Kind ref = kind_of_int n"
proof (induction ts)
  case (Cons t ts)
  show ?case
  proof (cases "first_ref a cs ts = Some ref")
    case False
    with Cons.prems show ?thesis by (auto split: list.splits option.splits if_splits)
  qed (rule Cons.IH)
qed simp

lemma same_coord_same_doc:
  assumes "shareToRef L e = Some r" and "shareToRef L e' = Some r'" and "sr_Coord r = sr_Coord r'"
  shows "doc_of L r = doc_of L r'"
proof -
  from assms(1,2) obtain cs cs' where "first_ref (pk_hex L (ev_pubkey e)) cs (ev_tags e) = Some r"
    "first_ref (pk_hex L (ev_pubkey e')) cs' (ev_tags e') = Some r'"
    by (auto simp: shareToRef_def Let_def split: if_splits)
  from first_ref_fields [OF this(1)] first_ref_fields [OF this(2)] assms(3) show ?thesis by (auto simp: doc_of_def)
qed

lemma reconcile_local:
  "isStampKind s k \<Longrightarrow> st_lookup s coord w = Some ev \<Longrightarrow>
     reconcile L s coord k pk d w = snd (st_patch s k (docIDFor L k pk d) (due_stamps L s w coord) w)"
  by (simp add: reconcile_def stamp_content_def due_stamps_def Let_def)

lemma reconcile_other: "\<not> isStampKind s k \<Longrightarrow> reconcile L s coord k pk d w = w"
  by (simp add: reconcile_def)

lemma reconcile_field:
  assumes "patches_field s field" and "isStampKind s (sr_Kind ref) \<longrightarrow> st_lookup s (sr_Coord ref) w \<noteq> None"
  shows "field (reconcile L s (sr_Coord ref) (sr_Kind ref) (sr_Pubkey ref) (sr_DTag ref) w) =
      (if isStampKind s (sr_Kind ref) then set_field (doc_of L ref) (due_stamps L s w (sr_Coord ref)) (field w) else field w)"
    and "same_view s w (reconcile L s (sr_Coord ref) (sr_Kind ref) (sr_Pubkey ref) (sr_DTag ref) w)"
  using assms by (cases "isStampKind s (sr_Kind ref)"; auto simp: reconcile_local reconcile_other patches_field_def doc_of_def)+

abbreviation reconcile_ref :: "lib \<Rightarrow> 'w stamper \<Rightarrow> shareRef \<Rightarrow> 'w \<Rightarrow> 'w" where
  "reconcile_ref L s ref \<equiv> reconcile L s (sr_Coord ref) (sr_Kind ref) (sr_Pubkey ref) (sr_DTag ref)"

lemma reconcile_all_field:
  assumes "patches_field s field" and "\<forall>ref \<in> set refs. isStampKind s (sr_Kind ref) \<longrightarrow> st_lookup s (sr_Coord ref) w \<noteq> None"
  shows "field (fold (reconcile_ref L s) refs w) d =
      (case find (\<lambda>ref. isStampKind s (sr_Kind ref) \<and> doc_of L ref = d) (rev refs) of
        None \<Rightarrow> field w d | Some ref \<Rightarrow> map_option (\<lambda>_. due_stamps L s w (sr_Coord ref)) (field w d)) \<and>
    same_view s w (fold (reconcile_ref L s) refs w)"
  using assms(2)
proof (induction refs rule: rev_induct)
  case (snoc ref refs)
  let ?w = "fold (reconcile_ref L s) refs w"
  from snoc have IH: "field ?w d = (case find (\<lambda>ref. isStampKind s (sr_Kind ref) \<and> doc_of L ref = d) (rev refs) of
      None \<Rightarrow> field w d | Some ref \<Rightarrow> map_option (\<lambda>_. due_stamps L s w (sr_Coord ref)) (field w d))" and view: "same_view s w ?w" by auto
  have "isStampKind s (sr_Kind ref) \<longrightarrow> st_lookup s (sr_Coord ref) ?w \<noteq> None"
    using snoc.prems view by (simp add: same_view_def)
  note step = reconcile_field [OF assms(1) this, where L = L]
  have "same_view s w (reconcile_ref L s ref ?w)" using same_view_trans [OF view step(2)] .
  moreover have "field (reconcile_ref L s ref ?w) d = (if isStampKind s (sr_Kind ref) \<and> doc_of L ref = d
      then map_option (\<lambda>_. due_stamps L s w (sr_Coord ref)) (field ?w d) else field ?w d)"
    unfolding step(1) same_view_due [OF view] by (auto simp: set_field_apply)
  ultimately show ?case by (auto simp: IH option.map_comp comp_def split: option.splits)
qed simp

lemma set_due_stamps:
  assumes "st_lookup s coord w = Some ev"
  shows "sorted (due_stamps L s w coord)" "distinct (due_stamps L s w coord)"
    "set (due_stamps L s w coord) = set (tag_values ''h'' (ev_tags ev)) \<union>
      {c. \<exists>share \<in> set (st_sharesFor s coord w). \<exists>ref. shareToRef L share = Some ref \<and> sr_Coord ref = coord \<and>
         c \<in> set (sr_Communities ref) \<and> st_isMember s w c (sr_Author ref) (sr_Kind ref)}"
proof -
  let ?d = "deriveStamps (List.map_filter (shareToRef L) (st_sharesFor s coord w)) (st_isMember s w) coord"
  have due: "due_stamps L s w coord = unionSorted (contentOwnCommunities ev) ?d" by (simp add: due_stamps_def assms)
  have d: "?d = {c. \<exists>share \<in> set (st_sharesFor s coord w). \<exists>ref. shareToRef L share = Some ref \<and> sr_Coord ref = coord \<and>
         c \<in> set (sr_Communities ref) \<and> st_isMember s w c (sr_Author ref) (sr_Kind ref)}"
    unfolding deriveStamps_eq Bex_def set_map_filter_iff by blast
  have union: "sorted (unionSorted a ?d) \<and> distinct (unionSorted a ?d) \<and> set (unionSorted a ?d) = set a \<union> ?d" for a
    by (rule unionSorted_props [OF finite_deriveStamps])
  show "sorted (due_stamps L s w coord)" "distinct (due_stamps L s w coord)"
    unfolding due using union by blast+
  show "set (due_stamps L s w coord) = set (tag_values ''h'' (ev_tags ev)) \<union>
      {c. \<exists>share \<in> set (st_sharesFor s coord w). \<exists>ref. shareToRef L share = Some ref \<and> sr_Coord ref = coord \<and>
         c \<in> set (sr_Communities ref) \<and> st_isMember s w c (sr_Author ref) (sr_Kind ref)}"
    unfolding due union [THEN conjunct2, THEN conjunct2] set_contentOwnCommunities unfolding d ..
qed

lemma kept_refs_in: "r \<in> set (dedup_from sr_Coord {} refs) \<Longrightarrow> r \<in> set refs"
  using dedup_from_subset [of sr_Coord "{}" refs] by blast

lemma sweep_run: "reconcileAll L s w = fold (reconcile_ref L s) (dedup_from sr_Coord {} (share_refs L s w)) w"
  by (simp only: reconcileAll_def reconcile_loop_eq share_refs_def)

text \<open>After a sweep a document has what the last coordinate that names it was due, and one that no share names is unchanged.\<close>

lemma sweep_field:
  assumes "patches_field s field"
    and "\<forall>r \<in> set (share_refs L s w). isStampKind s (sr_Kind r) \<longrightarrow> st_lookup s (sr_Coord r) w \<noteq> None"
  shows "field (reconcileAll L s w) d =
      (case find (\<lambda>ref. isStampKind s (sr_Kind ref) \<and> doc_of L ref = d) (rev (dedup_from sr_Coord {} (share_refs L s w))) of
        None \<Rightarrow> field w d | Some ref \<Rightarrow> map_option (\<lambda>_. due_stamps L s w (sr_Coord ref)) (field w d))"
proof -
  have "\<forall>r \<in> set (dedup_from sr_Coord {} (share_refs L s w)). isStampKind s (sr_Kind r) \<longrightarrow> st_lookup s (sr_Coord r) w \<noteq> None"
    using assms(2) kept_refs_in by blast
  from reconcile_all_field [OF assms(1) this] show ?thesis unfolding sweep_run by blast
qed

lemma sweep_keeps_other_documents:
  assumes "patches_field s field"
    and "\<forall>r \<in> set (share_refs L s w). isStampKind s (sr_Kind r) \<longrightarrow> st_lookup s (sr_Coord r) w \<noteq> None"
    and "d \<notin> doc_of L ` set (share_refs L s w)"
  shows "field (reconcileAll L s w) d = field w d"
proof -
  have "set (dedup_from sr_Coord {} (share_refs L s w)) \<subseteq> set (share_refs L s w)" by (rule dedup_from_subset)
  with assms(3) have "find (\<lambda>ref. isStampKind s (sr_Kind ref) \<and> doc_of L ref = d) (rev (dedup_from sr_Coord {} (share_refs L s w))) = None"
    by (auto simp: find_None_iff)
  then show ?thesis by (simp add: sweep_field [OF assms(1,2)])
qed

text \<open>Of several shares of one coordinate the first is kept, and it names the same document.\<close>

lemma kept_ref:
  assumes "r \<in> set (share_refs L s w)"
  obtains r1 where "r1 \<in> set (dedup_from sr_Coord {} (share_refs L s w))" and "doc_of L r1 = doc_of L r"
proof -
  have "sr_Coord ` set (dedup_from sr_Coord {} (share_refs L s w)) = sr_Coord ` set (share_refs L s w)"
    by (simp add: dedup_from_keys)
  with assms obtain r1 where r1: "r1 \<in> set (dedup_from sr_Coord {} (share_refs L s w))" "sr_Coord r1 = sr_Coord r" by (metis image_iff)
  have "r1 \<in> set (share_refs L s w)" using kept_refs_in [OF r1(1)] .
  with assms obtain e e' where "shareToRef L e = Some r1" "shareToRef L e' = Some r"
    unfolding share_refs_def set_map_filter_iff by blast
  from same_coord_same_doc [OF this r1(2)] that [OF r1(1)] show thesis by blast
qed

lemma sweep_writes_what_is_due:
  assumes "patches_field s field"
    and "\<forall>r \<in> set (share_refs L s w). isStampKind s (sr_Kind r) \<longrightarrow> st_lookup s (sr_Coord r) w \<noteq> None"
    and "r \<in> set (share_refs L s w)" and "isStampKind s (sr_Kind r)" and "field w (doc_of L r) \<noteq> None"
  obtains r' where "r' \<in> set (share_refs L s w)" and "doc_of L r' = doc_of L r" and "isStampKind s (sr_Kind r')"
    and "field (reconcileAll L s w) (doc_of L r) = Some (due_stamps L s w (sr_Coord r'))"
proof -
  let ?P = "\<lambda>ref. isStampKind s (sr_Kind ref) \<and> doc_of L ref = doc_of L r"
  let ?refs = "dedup_from sr_Coord {} (share_refs L s w)"
  obtain r1 where r1: "r1 \<in> set ?refs" "doc_of L r1 = doc_of L r" by (rule kept_ref [OF assms(3)])
  then have "sr_Kind r1 = sr_Kind r" by (simp add: doc_of_def)
  with assms(4) r1(2) have "?P r1" by simp
  then obtain r2 where r2: "find ?P (rev ?refs) = Some r2"
    using r1(1) by (cases "find ?P (rev ?refs)") (auto simp only: find_None_iff set_rev)
  from find_Some_in [OF r2] have "r2 \<in> set ?refs" "?P r2" by simp_all
  moreover have "field (reconcileAll L s w) (doc_of L r) = Some (due_stamps L s w (sr_Coord r2))"
    using r2 assms(5) by (auto simp: sweep_field [OF assms(1,2)])
  ultimately show thesis using that kept_refs_in by blast
qed


text \<open>Documents whose only state is the \<open>community\<close> field, and the shares the relay holds.\<close>

definition demo_fields :: "event list \<Rightarrow> (kind \<times> string \<rightharpoonup> string list) stamper" where
  "demo_fields shares = \<lparr>st_isMember = (\<lambda>_ c _ _. c \<noteq> ''closed''),
     st_sharesFor = (\<lambda>co _. List.filter (\<lambda>e. co \<in> set (tag_values ''a'' (ev_tags e))) shares),
     st_allShares = (\<lambda>_. shares), st_lookup = (\<lambda>_ _. Some (demo_event 2 30142 0 [[''d'', ''x''], [''h'', ''own'']])),
     st_fetch = None, st_validate = None, st_store = None,
     st_patch = (\<lambda>k i cs w. (None, set_field (k, i) cs w)), st_stampKinds = {30142}\<rparr>"

definition demo_share :: "string \<Rightarrow> string list \<Rightarrow> event" where
  "demo_share co cs = demo_event 1 16 0 ([''a'', co] # map (\<lambda>c. [''h'', c]) cs)"

lemma demo_fields_patches: "patches_field (demo_fields shares) (\<lambda>w. w)"
  by (simp add: patches_field_def same_view_def demo_fields_def)

lemmas demo_share_simps = share_refs_def List.map_filter_def shareToRef_def shareCommunities_def share_targets_def demo_share_def
  demo_event_def split3_cut atoi_def kindTargetedPublication_def is_digit_def dec_val_def kind_of_int_def Let_def


text \<open>With two spellings the sweep loses the communities of one: the kind of an \<open>a\<close> tag may be written in several ways,
  the stamps are gathered by spelling, the document by number, and the last spelling wins.\<close>

lemma alias_share_clobbers:
  defines "s \<equiv> demo_fields [demo_share ''30142:p:x'' [''club''], demo_share ''030142:p:x'' [''guest'']]"
  shows "reconcileAll demo_lib s (\<lambda>_. Some []) (30142, ''p:x'') = Some [''guest'', ''own'']"
proof -
  have refs: "shareToRef demo_lib (demo_share ''30142:p:x'' [''club'']) = Some \<lparr>sr_Coord = ''30142:p:x'', sr_Kind = 30142,
        sr_Pubkey = ''p'', sr_DTag = ''x'', sr_Author = pk_hex demo_lib demo_pk, sr_Communities = [''club''], sr_RelayHint = []\<rparr>"
    "shareToRef demo_lib (demo_share ''030142:p:x'' [''guest'']) = Some \<lparr>sr_Coord = ''030142:p:x'', sr_Kind = 30142,
        sr_Pubkey = ''p'', sr_DTag = ''x'', sr_Author = pk_hex demo_lib demo_pk, sr_Communities = [''guest''], sr_RelayHint = []\<rparr>"
    by (simp_all add: demo_share_simps)
  have shares: "st_sharesFor s ''30142:p:x'' w = [demo_share ''30142:p:x'' [''club'']]"
    "st_sharesFor s ''030142:p:x'' w = [demo_share ''030142:p:x'' [''guest'']]" for w
    by (auto simp: s_def demo_fields_def demo_share_def demo_event_def tag_values_def image_iff)
  have F: "isStampKind s 30142" "st_lookup s co w = Some (demo_event 2 30142 0 [[''d'', ''x''], [''h'', ''own'']])"
    "st_isMember s w = (\<lambda>c _ _. c \<noteq> ''closed'')" "snd (st_patch s k i cs w) = set_field (k, i) cs w" for co w k i cs
    by (simp_all add: s_def demo_fields_def isStampKind_def)
  have id: "docIDFor demo_lib 30142 ''p'' ''x'' = ''p:x''" by (simp add: docIDFor_def demo_lib_def)
  have own: "contentOwnCommunities (demo_event 2 30142 0 [[''d'', ''x''], [''h'', ''own'']]) = [''own'']"
    by (simp add: contentOwnCommunities_def tag_values_def demo_event_def)
  have step: "reconcile demo_lib s co 30142 ''p'' ''x'' w (30142, ''p:x'') = map_option (\<lambda>_. unionSorted [''own'']
      (deriveStamps (List.map_filter (shareToRef demo_lib) (st_sharesFor s co w)) (\<lambda>c _ _. c \<noteq> ''closed'') co)) (w (30142, ''p:x''))" for co w
    by (simp add: reconcile_local [OF F(1,2)] F(4) id set_field_apply due_stamps_def F(2,3) own) (cases "w (30142, ''p:x'')"; simp)
  have all: "st_allShares s (\<lambda>_. Some []) = [demo_share ''30142:p:x'' [''club''], demo_share ''030142:p:x'' [''guest'']]"
    by (simp add: s_def demo_fields_def)
  show ?thesis
    by (simp add: reconcileAll_def all refs step shares List.map_filter_def deriveStamps_def unionSorted_def)
qed

section \<open>Many reconciles at once\<close>

text \<open>
  Handlers, deletions and the sweep start \<open>reconcile\<close> on goroutines of their own. A job is one call, cut at its accesses to
  what it shares with the others: the search for the shares, the member checks (one access here), the lookup, the fetch, the
  store and the patch.
\<close>

datatype stamp_pc = SharesNext | MembersNext "shareRef list" | LookupNext "shareRef list" "string set"
  | FetchNext "shareRef list" "string set" | StoreNext event "string set" | PatchNext event "string set" | StampDone

record stamp_job =
  sj_Coord :: string
  sj_Kind :: kind
  sj_Pubkey :: string
  sj_DTag :: string
  sj_pc :: stamp_pc

definition job_patch :: "lib \<Rightarrow> 'w stamper \<Rightarrow> stamp_job \<Rightarrow> event \<Rightarrow> string set \<Rightarrow> 'w \<Rightarrow> 'w" where
  "job_patch L s j ev desired w = snd (st_patch s (sj_Kind j) (docIDFor L (sj_Kind j) (sj_Pubkey j) (sj_DTag j))
     (unionSorted (contentOwnCommunities ev) desired) w)"

definition job_fetch :: "'w stamper \<Rightarrow> stamp_job \<Rightarrow> shareRef list \<Rightarrow> 'w \<Rightarrow> event option" where
  "job_fetch s j refs w = (case st_fetch s of
     None \<Rightarrow> None
   | Some fetch \<Rightarrow> (case fetch \<lparr>sr_Coord = sj_Coord j, sr_Kind = sj_Kind j, sr_Pubkey = sj_Pubkey j, sr_DTag = sj_DTag j,
         sr_Author = [], sr_Communities = [], sr_RelayHint = []\<rparr> (hintsFromRefs refs) w of
       None \<Rightarrow> None
     | Some ev \<Rightarrow> if (case st_validate s of None \<Rightarrow> False | Some validate \<Rightarrow> fst (validate ev)) then None else Some ev))"

definition job_step :: "lib \<Rightarrow> 'w stamper \<Rightarrow> stamp_job \<times> 'w \<Rightarrow> stamp_job \<times> 'w" where
  "job_step L s = (\<lambda>(j, w). case sj_pc j of
     SharesNext \<Rightarrow> (j\<lparr>sj_pc := if isStampKind s (sj_Kind j)
       then MembersNext (List.map_filter (shareToRef L) (st_sharesFor s (sj_Coord j) w)) else StampDone\<rparr>, w)
   | MembersNext refs \<Rightarrow> (j\<lparr>sj_pc := LookupNext refs (deriveStamps refs (st_isMember s w) (sj_Coord j))\<rparr>, w)
   | LookupNext refs desired \<Rightarrow> (j\<lparr>sj_pc := (case st_lookup s (sj_Coord j) w of
         Some ev \<Rightarrow> PatchNext ev desired
       | None \<Rightarrow> if desired = {} then StampDone else FetchNext refs desired)\<rparr>, w)
   | FetchNext refs desired \<Rightarrow> (j\<lparr>sj_pc := (case job_fetch s j refs w of
         None \<Rightarrow> StampDone | Some ev \<Rightarrow> StoreNext ev desired)\<rparr>, w)
   | StoreNext ev desired \<Rightarrow> (j\<lparr>sj_pc := PatchNext ev desired\<rparr>, case st_store s of None \<Rightarrow> w | Some store \<Rightarrow> store ev w)
   | PatchNext ev desired \<Rightarrow> (j\<lparr>sj_pc := StampDone\<rparr>, job_patch L s j ev desired w)
   | StampDone \<Rightarrow> (j, w))"

text \<open>A job that runs alone is the function.\<close>

lemma job_alone_is_reconcile:
  assumes "sj_pc j = SharesNext"
  shows "(job_step L s ^^ 6) (j, w) =
    (j\<lparr>sj_pc := StampDone\<rparr>, reconcile L s (sj_Coord j) (sj_Kind j) (sj_Pubkey j) (sj_DTag j) w)"
proof (cases "isStampKind s (sj_Kind j)")
  case False
  then show ?thesis using assms by (simp add: eval_nat_numeral job_step_def reconcile_other)
next
  case True
  define refs where "refs = List.map_filter (shareToRef L) (st_sharesFor s (sj_Coord j) w)"
  define desired where "desired = deriveStamps refs (st_isMember s w) (sj_Coord j)"
  have 3: "(job_step L s ^^ 3) (j, w) = (j\<lparr>sj_pc := (case st_lookup s (sj_Coord j) w of
      Some ev \<Rightarrow> PatchNext ev desired | None \<Rightarrow> if desired = {} then StampDone else FetchNext refs desired)\<rparr>, w)"
    using True assms by (simp add: eval_nat_numeral job_step_def refs_def desired_def split: option.split)
  have "(job_step L s ^^ 6) (j, w) = (job_step L s ^^ 3) ((job_step L s ^^ 3) (j, w))"
    by (simp flip: funpow_add [THEN fun_cong, unfolded comp_def])
  also have "\<dots> = (j\<lparr>sj_pc := StampDone\<rparr>, reconcile L s (sj_Coord j) (sj_Kind j) (sj_Pubkey j) (sj_DTag j) w)"
    unfolding 3 using True
    by (simp add: reconcile_def stamp_content_def flip: refs_def desired_def)
      (auto simp: eval_nat_numeral job_step_def job_fetch_def job_patch_def split: option.splits)
  finally show ?thesis .
qed

text \<open>Everything else that happens in the relay is a step of \<open>env\<close>.\<close>

inductive stamp_step :: "lib \<Rightarrow> 'w stamper \<Rightarrow> ('w \<Rightarrow> 'w \<Rightarrow> bool) \<Rightarrow> stamp_job list \<times> 'w \<Rightarrow> stamp_job list \<times> 'w \<Rightarrow> bool"
  for L s env where
  Change: "env w w' \<Longrightarrow> stamp_step L s env (jobs, w) (jobs, w')"
| Spawn: "sj_pc j = SharesNext \<Longrightarrow> stamp_step L s env (jobs, w) (jobs @ [j], w)"
| Work: "job_step L s (j, w) = (j', w') \<Longrightarrow> stamp_step L s env (xs @ j # ys, w) (xs @ j' # ys, w')"

inductive_cases stamp_stepE: "stamp_step L s env (jobs, w) (jobs', w')"

lemmas stamp_step_cases = stamp_stepE [consumes 1, case_names Change Spawn Work]

definition stamp_run :: "lib \<Rightarrow> 'w stamper \<Rightarrow> ('w \<Rightarrow> 'w \<Rightarrow> bool) \<Rightarrow> stamp_job list \<times> 'w \<Rightarrow> stamp_job list \<times> 'w \<Rightarrow> bool" where
  "stamp_run L s env = (stamp_step L s env)\<^sup>*\<^sup>*"

definition job_doc :: "lib \<Rightarrow> stamp_job \<Rightarrow> kind \<times> string" where
  "job_doc L j = (sj_Kind j, docIDFor L (sj_Kind j) (sj_Pubkey j) (sj_DTag j))"

text \<open>What a job has read so far, in a relay that shows all jobs what \<open>w\<close> shows.\<close>

definition job_fresh :: "lib \<Rightarrow> 'w stamper \<Rightarrow> 'w \<Rightarrow> stamp_job \<Rightarrow> bool" where
  "job_fresh L s w j \<longleftrightarrow>
     (let refs = List.map_filter (shareToRef L) (st_sharesFor s (sj_Coord j) w);
          desired = deriveStamps refs (st_isMember s w) (sj_Coord j)
      in case sj_pc j of
           SharesNext \<Rightarrow> True
         | MembersNext r \<Rightarrow> isStampKind s (sj_Kind j) \<and> r = refs
         | LookupNext r d \<Rightarrow> isStampKind s (sj_Kind j) \<and> r = refs \<and> d = desired
         | PatchNext ev d \<Rightarrow> isStampKind s (sj_Kind j) \<and> st_lookup s (sj_Coord j) w = Some ev \<and> d = desired
         | StampDone \<Rightarrow> True
         | _ \<Rightarrow> False)"

lemma job_step_fields:
  "job_step L s (j, w) = (j', w') \<Longrightarrow> sj_Coord j' = sj_Coord j \<and> sj_Kind j' = sj_Kind j \<and> job_doc L j' = job_doc L j"
  by (cases "sj_pc j") (auto simp: job_step_def job_doc_def)

lemma job_patch_due:
  assumes "st_lookup s (sj_Coord j) w = Some ev"
    and "d = deriveStamps (List.map_filter (shareToRef L) (st_sharesFor s (sj_Coord j) w)) (st_isMember s w) (sj_Coord j)"
  shows "job_patch L s j ev d w' = snd (st_patch s (sj_Kind j) (snd (job_doc L j)) (due_stamps L s w (sj_Coord j)) w')"
  using assms by (simp add: job_patch_def job_doc_def due_stamps_def)

text \<open>One step of a fresh job: it stays fresh, and only its last step writes, what is due.\<close>

lemma job_step_fresh:
  assumes "patches_field s field" and "same_view s w0 w" and "job_fresh L s w0 j"
    and "isStampKind s (sj_Kind j) \<Longrightarrow> st_lookup s (sj_Coord j) w0 \<noteq> None" and "job_step L s (j, w) = (j', w')"
  shows "same_view s w0 w' \<and> job_fresh L s w0 j' \<and>
    (if isStampKind s (sj_Kind j) \<and> sj_pc j' = StampDone \<and> sj_pc j \<noteq> StampDone
     then field w' = set_field (job_doc L j) (due_stamps L s w0 (sj_Coord j)) (field w) else w' = w)"
proof -
  note v = assms(2) [unfolded same_view_def]
  show ?thesis
  proof (cases "sj_pc j")
    case (PatchNext ev d)
    then have f: "st_lookup s (sj_Coord j) w0 = Some ev" "isStampKind s (sj_Kind j)"
      "d = deriveStamps (List.map_filter (shareToRef L) (st_sharesFor s (sj_Coord j) w0)) (st_isMember s w0) (sj_Coord j)"
      using assms(3) by (simp_all add: job_fresh_def Let_def)
    have j': "j' = j\<lparr>sj_pc := StampDone\<rparr>" and w': "w' = job_patch L s j ev d w"
      using assms(5) PatchNext by (simp_all add: job_step_def)
    note w' = w' [unfolded job_patch_due [OF f(1,3)]]
    have "same_view s w w'" "field w' = set_field (job_doc L j) (due_stamps L s w0 (sj_Coord j)) (field w)"
      using assms(1) f(2) unfolding patches_field_def w' by (simp_all add: job_doc_def)
    with same_view_trans [OF assms(2)] f(2) PatchNext j' show ?thesis by (simp add: job_fresh_def)
  qed (use assms(2-5) v in \<open>auto simp: job_step_def job_fresh_def Let_def split: if_splits option.splits\<close>)
qed

section \<open>Reconciles that no write overtakes\<close>

text \<open>The content the jobs are about is stored.\<close>

definition jobs_ok :: "lib \<Rightarrow> 'w stamper \<Rightarrow> 'w \<Rightarrow> stamp_job list \<Rightarrow> bool" where
  "jobs_ok L s w jobs \<longleftrightarrow> (\<forall>j \<in> set jobs. isStampKind s (sj_Kind j) \<longrightarrow> st_lookup s (sj_Coord j) w \<noteq> None)"

text \<open>What the patches of finished jobs make of the fields, in the order of the patches.\<close>

definition applied :: "lib \<Rightarrow> 'w stamper \<Rightarrow> 'w \<Rightarrow> stamp_job list \<Rightarrow> (kind \<times> string \<rightharpoonup> string list) \<Rightarrow> kind \<times> string \<rightharpoonup> string list" where
  "applied L s w0 = fold (\<lambda>j f. if isStampKind s (sj_Kind j) then set_field (job_doc L j) (due_stamps L s w0 (sj_Coord j)) f else f)"

definition stamps_inv where
  "stamps_inv L s field w0 jobs w \<longleftrightarrow> same_view s w0 w \<and> (\<forall>j \<in> set jobs. job_fresh L s w0 j) \<and>
     (\<exists>order. mset order = mset (List.filter (\<lambda>j. sj_pc j = StampDone) jobs) \<and> field w = applied L s w0 order (field w0))"

lemma applied_snoc:
  "applied L s w0 (order @ [j]) f = (if isStampKind s (sj_Kind j)
     then set_field (job_doc L j) (due_stamps L s w0 (sj_Coord j)) (applied L s w0 order f) else applied L s w0 order f)"
  by (simp add: applied_def)

text \<open>A document that a job names ends with what is due to one that names it, and one that none names is unchanged.\<close>

lemma applied_other:
  "\<forall>j \<in> set order. isStampKind s (sj_Kind j) \<longrightarrow> job_doc L j \<noteq> d \<Longrightarrow> applied L s w0 order f d = f d"
  by (induction order rule: rev_induct) (auto simp: applied_snoc set_field_apply, simp add: applied_def)

lemma applied_defined: "f d \<noteq> None \<Longrightarrow> applied L s w0 order f d \<noteq> None"
  by (induction order rule: rev_induct) (auto simp: applied_snoc set_field_apply, simp add: applied_def)

lemma applied_some:
  assumes "j \<in> set order" and "isStampKind s (sj_Kind j)" and "f (job_doc L j) \<noteq> None"
  shows "\<exists>i \<in> set order. isStampKind s (sj_Kind i) \<and> job_doc L i = job_doc L j \<and>
    applied L s w0 order f (job_doc L j) = Some (due_stamps L s w0 (sj_Coord i))"
  using assms(1)
proof (induction order rule: rev_induct)
  case (snoc i order)
  show ?case
  proof (cases "isStampKind s (sj_Kind i) \<and> job_doc L i = job_doc L j")
    case True
    with applied_defined [of f, OF assms(3), of L s w0 order] show ?thesis by (auto simp: applied_snoc set_field_apply)
  next
    case False
    with snoc.prems assms(2) have "j \<in> set order" by auto
    from snoc.IH [OF this] False show ?thesis by (auto simp: applied_snoc set_field_apply)
  qed
qed simp

text \<open>A step of one of the jobs.\<close>

lemma stamps_inv_work:
  assumes "patches_field s field" and "stamps_inv L s field w0 (xs @ j # ys) w" and "jobs_ok L s w0 (xs @ j # ys)"
    and work: "job_step L s (j, w) = (j', w')"
  shows "stamps_inv L s field w0 (xs @ j' # ys) w'"
proof -
  note j' = job_step_fields [OF work]
  obtain order where fresh: "same_view s w0 w" "job_fresh L s w0 j" and others: "\<forall>i \<in> set (xs @ ys). job_fresh L s w0 i"
    and order: "mset order = mset (List.filter (\<lambda>j. sj_pc j = StampDone) (xs @ j # ys))" "field w = applied L s w0 order (field w0)"
    using assms(2) by (auto simp: stamps_inv_def)
  have look: "isStampKind s (sj_Kind j) \<Longrightarrow> st_lookup s (sj_Coord j) w0 \<noteq> None" using assms(3) by (simp add: jobs_ok_def)
  note st = job_step_fresh [OF assms(1) fresh look work]
  have "\<exists>order. mset order = mset (List.filter (\<lambda>j. sj_pc j = StampDone) (xs @ j' # ys)) \<and> field w' = applied L s w0 order (field w0)"
  proof (cases "sj_pc j' = StampDone \<and> sj_pc j \<noteq> StampDone")
    case True
    then have "mset (order @ [j']) = mset (List.filter (\<lambda>j. sj_pc j = StampDone) (xs @ j' # ys))" using order(1) by simp
    moreover have "field w' = applied L s w0 (order @ [j']) (field w0)"
      using st j' True by (simp add: applied_snoc order(2) split: if_splits)
    ultimately show ?thesis by blast
  next
    case False
    moreover have "sj_pc j = StampDone \<Longrightarrow> j' = j" using work by (simp add: job_step_def)
    ultimately have "List.filter (\<lambda>j. sj_pc j = StampDone) (xs @ j' # ys) = List.filter (\<lambda>j. sj_pc j = StampDone) (xs @ j # ys)"
      by (cases "sj_pc j = StampDone") simp_all
    moreover have "w' = w" using st False by simp
    ultimately show ?thesis using order by (simp only:) blast
  qed
  with st others show ?thesis by (auto simp: stamps_inv_def)
qed

lemma stamps_inv_step:
  assumes "patches_field s field" and "stamp_step L s (\<lambda>_ _. False) (jobs, w) (jobs', w')"
    and "jobs_ok L s w0 jobs'"
  shows "jobs_ok L s w0 jobs \<and> (stamps_inv L s field w0 jobs w \<longrightarrow> stamps_inv L s field w0 jobs' w')"
  using assms(2)
proof (cases rule: stamp_step_cases)
  case (Spawn j)
  with assms(3) show ?thesis by (auto simp: jobs_ok_def stamps_inv_def job_fresh_def)
next
  case (Work j j' xs ys)
  then have "jobs_ok L s w0 jobs" using assms(3) job_step_fields [OF Work(3)] by (auto simp: jobs_ok_def)
  with stamps_inv_work [OF assms(1) _ _ Work(3)] Work(1,2) show ?thesis by blast
qed simp

lemma stamps_inv_run:
  assumes "patches_field s field" and "stamp_run L s (\<lambda>_ _. False) ([], w0) (jobs, w)" and "jobs_ok L s w0 jobs"
  shows "stamps_inv L s field w0 jobs w"
proof -
  have "jobs_ok L s w0 (fst x) \<longrightarrow> stamps_inv L s field w0 (fst x) (snd x)"
    if "stamp_run L s (\<lambda>_ _. False) ([], w0) x" for x
    using that unfolding stamp_run_def
  proof (induction rule: rtranclp_induct)
    case base
    show ?case by (simp add: stamps_inv_def applied_def)
  next
    case (step x y)
    then show ?case using stamps_inv_step [OF assms(1), of L "fst x" "snd x" "fst y" "snd y"] by auto
  qed
  with assms(2,3) show ?thesis by force
qed

text \<open>A job that takes some steps in a row, and a job that is spawned and runs to its end.\<close>

lemma run_job: "(job_step L s ^^ n) (j, w) = (j', w') \<Longrightarrow> stamp_run L s env (xs @ j # ys, w) (xs @ j' # ys, w')"
proof (induction n arbitrary: j' w')
  case (Suc n)
  obtain j1 w1 where 1: "(job_step L s ^^ n) (j, w) = (j1, w1)" by fastforce
  with Suc.prems have "job_step L s (j1, w1) = (j', w')" by simp
  from Suc.IH [OF 1] Work [OF this] show ?case unfolding stamp_run_def by (rule rtranclp.rtrancl_into_rtrancl)
qed (simp add: stamp_run_def)

abbreviation reconcile_job :: "lib \<Rightarrow> 'w stamper \<Rightarrow> stamp_job \<Rightarrow> 'w \<Rightarrow> 'w" where
  "reconcile_job L s j \<equiv> reconcile L s (sj_Coord j) (sj_Kind j) (sj_Pubkey j) (sj_DTag j)"

lemma run_trans: "stamp_run L s env x y \<Longrightarrow> stamp_run L s env y z \<Longrightarrow> stamp_run L s env x z"
  unfolding stamp_run_def by (rule rtranclp_trans)

lemma run_step: "stamp_step L s env x y \<Longrightarrow> stamp_run L s env x y"
  unfolding stamp_run_def by (rule r_into_rtranclp)

text \<open>Calls made one after another.\<close>

lemma sequential_fields:
  assumes "patches_field s field" and "jobs_ok L s w order"
  shows "field (fold (reconcile_job L s) order w) = applied L s w order (field w) \<and> same_view s w (fold (reconcile_job L s) order w)"
  using assms(2)
proof (induction order rule: rev_induct)
  case (snoc j order)
  let ?w = "fold (reconcile_job L s) order w"
  from snoc have IH: "field ?w = applied L s w order (field w)" "same_view s w ?w" by (simp_all add: jobs_ok_def)
  show ?case
  proof (cases "isStampKind s (sj_Kind j)")
    case True
    with snoc.prems IH(2) obtain ev where "st_lookup s (sj_Coord j) ?w = Some ev" by (auto simp: jobs_ok_def same_view_def)
    from reconcile_local [OF True this] have "reconcile_job L s j ?w =
        snd (st_patch s (sj_Kind j) (snd (job_doc L j)) (due_stamps L s w (sj_Coord j)) ?w)"
      by (simp add: same_view_due [OF IH(2)] job_doc_def)
    moreover have "field (snd (st_patch s (sj_Kind j) (snd (job_doc L j)) cs ?w)) = set_field (job_doc L j) cs (field ?w)"
        "same_view s ?w (snd (st_patch s (sj_Kind j) (snd (job_doc L j)) cs ?w))" for cs
      using assms(1) True by (simp_all add: patches_field_def job_doc_def)
    ultimately show ?thesis using True IH same_view_trans [OF IH(2)] by (simp add: applied_snoc)
  next
    case False
    then show ?thesis using IH by (simp add: applied_snoc reconcile_other)
  qed
qed (simp add: applied_def)

lemma run_one:
  "sj_pc j = SharesNext \<Longrightarrow> stamp_run L s env (jobs, w) (jobs @ [j\<lparr>sj_pc := StampDone\<rparr>], reconcile_job L s j w)"
  by (rule run_trans [OF run_step [OF Spawn [where jobs = jobs]] run_job [OF job_alone_is_reconcile, where xs = jobs and ys = "[]"]])


text \<open>The two jobs read before either writes.\<close>

definition demo_job :: "stamp_job" where
  "demo_job = \<lparr>sj_Coord = ''30142:p:x'', sj_Kind = 30142, sj_Pubkey = ''p'', sj_DTag = ''x'', sj_pc = SharesNext\<rparr>"

lemma mset_two:
  assumes "mset xs = mset [x, x]"
  shows "xs = [x, x]"
proof -
  have "length xs = 2" and "set xs = {x}" using mset_eq_length [OF assms] mset_eq_setD [OF assms] by simp_all
  then show ?thesis using replicate_eqI [of xs 2 x] by (simp add: numeral_2_eq_2)
qed


section \<open>Reconciles that a write overtakes\<close>

text \<open>
  A reconcile that has read before a write and patches after the reconcile of that write undoes it: nothing orders the
  goroutines, and the next sweep is what puts the field right. The world of the examples has shares, one stored version and fields.
\<close>

record demo_room =
  dr_shares :: "event list"
  dr_stored :: event
  dr_field :: "kind \<times> string \<rightharpoonup> string list"

definition demo_room_stamper :: "demo_room stamper" where
  "demo_room_stamper = \<lparr>st_isMember = (\<lambda>_ _ _ _. True),
     st_sharesFor = (\<lambda>co w. List.filter (\<lambda>e. co \<in> set (tag_values ''a'' (ev_tags e))) (dr_shares w)),
     st_allShares = dr_shares, st_lookup = (\<lambda>_ w. Some (dr_stored w)),
     st_fetch = None, st_validate = None, st_store = None,
     st_patch = (\<lambda>k i cs w. (None, w\<lparr>dr_field := set_field (k, i) cs (dr_field w)\<rparr>)), st_stampKinds = {30142}\<rparr>"

definition demo_version :: "string \<Rightarrow> event" where
  "demo_version c = demo_event 2 30142 0 [[''d'', ''x''], [''h'', c]]"

definition demo_field :: "demo_room \<Rightarrow> string list option" where
  "demo_field w = dr_field w (30142, ''p:x'')"

lemma demo_room_step:
  assumes "\<forall>e \<in> set (dr_shares w). \<exists>c. c \<noteq> [] \<and> e = demo_share ''30142:p:x'' [c]"
  shows "(job_step demo_lib demo_room_stamper ^^ 3) (demo_job, w) =
      (demo_job\<lparr>sj_pc := PatchNext (dr_stored w) {c. demo_share ''30142:p:x'' [c] \<in> set (dr_shares w)}\<rparr>, w)"
proof -
  have ref: "shareToRef demo_lib (demo_share ''30142:p:x'' [c]) = Some \<lparr>sr_Coord = ''30142:p:x'', sr_Kind = 30142, sr_Pubkey = ''p'',
      sr_DTag = ''x'', sr_Author = pk_hex demo_lib demo_pk, sr_Communities = [c], sr_RelayHint = []\<rparr>" if "c \<noteq> []" for c
    using that by (simp add: demo_share_simps)
  have inj: "demo_share co [c] = demo_share co [c'] \<longleftrightarrow> c = c'" for co c c' by (simp add: demo_share_def demo_event_def)
  have shares: "st_sharesFor demo_room_stamper ''30142:p:x'' w = dr_shares w"
    using assms by (force simp: demo_room_stamper_def demo_share_def demo_event_def tag_values_def image_iff intro!: filter_True)
  have "deriveStamps (List.map_filter (shareToRef demo_lib) (dr_shares w)) (\<lambda>_ _ _. True) ''30142:p:x'' =
      {c. demo_share ''30142:p:x'' [c] \<in> set (dr_shares w)}"
    unfolding deriveStamps_eq Bex_def set_map_filter_iff using assms ref inj by fastforce
  moreover have "isStampKind demo_room_stamper 30142" "st_isMember demo_room_stamper w = (\<lambda>_ _ _. True)"
    "st_lookup demo_room_stamper co w = Some (dr_stored w)" for co
    by (simp_all add: isStampKind_def demo_room_stamper_def)
  ultimately show ?thesis by (simp add: eval_nat_numeral job_step_def demo_job_def shares)
qed

lemma demo_room_patch:
  "\<exists>w'. (job_step demo_lib demo_room_stamper ^^ 1) (demo_job\<lparr>sj_pc := PatchNext ev d\<rparr>, w) = (demo_job\<lparr>sj_pc := StampDone\<rparr>, w') \<and>
     demo_field w' = map_option (\<lambda>_. unionSorted (contentOwnCommunities ev) d) (demo_field w) \<and>
     dr_shares w' = dr_shares w \<and> dr_stored w' = dr_stored w"
  by (auto simp: job_step_def job_patch_def demo_room_stamper_def demo_job_def demo_field_def set_field_apply docIDFor_def demo_lib_def)

text \<open>A document without stamps, a run in which a job reads, something is written, and only then the job patches.\<close>

definition demo_before :: "event list \<Rightarrow> string \<Rightarrow> demo_room" where
  "demo_before shares c = \<lparr>dr_shares = shares, dr_stored = demo_version c, dr_field = (\<lambda>_. Some [])\<rparr>"

lemma own_demo_version [simp]: "contentOwnCommunities (demo_version c) = [c]"
  by (simp add: contentOwnCommunities_def tag_values_def demo_version_def demo_event_def)

lemma overtaken_job:
  assumes "\<forall>e \<in> set (dr_shares w). \<exists>c. c \<noteq> [] \<and> e = demo_share ''30142:p:x'' [c]"
    and "stamp_run demo_lib demo_room_stamper env ([demo_job\<lparr>sj_pc := PatchNext (dr_stored w)
      {c. demo_share ''30142:p:x'' [c] \<in> set (dr_shares w)}\<rparr>], w) (j # jobs, w1)"
    and "j = demo_job\<lparr>sj_pc := PatchNext (dr_stored w) {c. demo_share ''30142:p:x'' [c] \<in> set (dr_shares w)}\<rparr>"
    and "demo_field w1 \<noteq> None"
  shows "\<exists>w'. stamp_run demo_lib demo_room_stamper env ([], w) (demo_job\<lparr>sj_pc := StampDone\<rparr> # jobs, w') \<and>
    demo_field w' = Some (unionSorted (contentOwnCommunities (dr_stored w)) {c. demo_share ''30142:p:x'' [c] \<in> set (dr_shares w)}) \<and>
    dr_shares w' = dr_shares w1 \<and> dr_stored w' = dr_stored w1"
proof -
  let ?run = "stamp_run demo_lib demo_room_stamper env"
  have "?run ([], w) ([demo_job], w)" using run_step [OF Spawn [of demo_job _ _ _ "[]"]] by (simp add: demo_job_def)
  moreover have "?run ([demo_job], w) ([j], w)"
    using run_job [OF demo_room_step [OF assms(1)], where xs = "[]" and ys = "[]"] unfolding assms(3) by simp
  ultimately have 1: "?run ([], w) (j # jobs, w1)" using run_trans [OF run_trans] assms(2) unfolding assms(3) by blast
  obtain w' where w': "(job_step demo_lib demo_room_stamper ^^ 1) (j, w1) = (demo_job\<lparr>sj_pc := StampDone\<rparr>, w')"
    "demo_field w' = map_option (\<lambda>_. unionSorted (contentOwnCommunities (dr_stored w)) {c. demo_share ''30142:p:x'' [c] \<in> set (dr_shares w)}) (demo_field w1)"
    "dr_shares w' = dr_shares w1" "dr_stored w' = dr_stored w1"
    using demo_room_patch [of "dr_stored w" "{c. demo_share ''30142:p:x'' [c] \<in> set (dr_shares w)}" w1] unfolding assms(3) by (elim exE conjE)
  have "?run (j # jobs, w1) (demo_job\<lparr>sj_pc := StampDone\<rparr> # jobs, w')"
    using run_job [OF w'(1), where xs = "[]"] by simp
  moreover obtain x where "demo_field w1 = Some x" using assms(4) by blast
  ultimately show ?thesis using run_trans [OF 1] w'(2-) by (intro exI [of _ w'] conjI) simp_all
qed

text \<open>A share arrives and is reconciled between the reads and the patch of another: its community is lost.\<close>

lemma late_patch_drops_a_share:
  "\<exists>jobs w. stamp_run demo_lib demo_room_stamper (\<lambda>w w'. \<exists>e. w' = w\<lparr>dr_shares := dr_shares w @ [e]\<rparr>)
       ([], demo_before [demo_share ''30142:p:x'' [''club'']] ''own'') (jobs, w) \<and>
     (\<forall>j \<in> set jobs. sj_pc j = StampDone) \<and>
     dr_shares w = [demo_share ''30142:p:x'' [''club''], demo_share ''30142:p:x'' [''guest'']] \<and>
     demo_field w = Some [''club'', ''own'']"
proof -
  let ?env = "\<lambda>w w'. \<exists>e. w' = w\<lparr>dr_shares := dr_shares w @ [e]\<rparr>"
  let ?run = "stamp_run demo_lib demo_room_stamper ?env"
  let ?club = "demo_share ''30142:p:x'' [''club'']" and ?guest = "demo_share ''30142:p:x'' [''guest'']"
  let ?w = "demo_before [?club] ''own''"
  let ?j = "demo_job\<lparr>sj_pc := PatchNext (dr_stored ?w) {c. demo_share ''30142:p:x'' [c] \<in> set (dr_shares ?w)}\<rparr>"
  let ?w1 = "?w\<lparr>dr_shares := [?club, ?guest]\<rparr>"
  have "?env ?w ?w1" by (simp add: demo_before_def)
  then have 1: "?run ([?j], ?w) ([?j], ?w1)" by (intro run_step Change)
  have "sj_pc demo_job = SharesNext" by (simp add: demo_job_def)
  from run_trans [OF 1 run_one [OF this]]
  have 2: "?run ([?j], ?w) (?j # [demo_job\<lparr>sj_pc := StampDone\<rparr>], reconcile_job demo_lib demo_room_stamper demo_job ?w1)"
    by simp
  let ?w2 = "reconcile_job demo_lib demo_room_stamper demo_job ?w1"
  have L: "st_lookup demo_room_stamper co w = Some (dr_stored w)" "isStampKind demo_room_stamper 30142" for co w
    by (simp_all add: demo_room_stamper_def isStampKind_def)
  have w2: "dr_shares ?w2 = [?club, ?guest]" "demo_field ?w2 \<noteq> None"
    by (simp_all add: demo_job_def reconcile_local [OF L(2,1)])
      (simp_all add: demo_room_stamper_def demo_field_def set_field_apply demo_before_def)
  from overtaken_job [OF _ 2 refl w2(2)] obtain w' where
    "?run ([], ?w) ([demo_job\<lparr>sj_pc := StampDone\<rparr>, demo_job\<lparr>sj_pc := StampDone\<rparr>], w')"
    "demo_field w' = Some (unionSorted [''own''] {c. demo_share ''30142:p:x'' [c] \<in> {?club}})" "dr_shares w' = [?club, ?guest]"
    using w2(1) by (auto simp: demo_before_def)
  moreover have "{c. demo_share ''30142:p:x'' [c] \<in> {?club}} = {''club''}" by (auto simp: demo_share_def demo_event_def)
  ultimately show ?thesis by (intro exI [of _ w'] exI conjI) (assumption, simp_all add: unionSorted_def)
qed

text \<open>The reconcile of a new version looks the content up before the write queue of the database has written it: the
  document keeps the communities of the version before.\<close>

lemma early_lookup_keeps_the_old_version:
  "\<exists>jobs w. stamp_run demo_lib demo_room_stamper (\<lambda>w w'. \<exists>ev. w' = w\<lparr>dr_stored := ev\<rparr>)
       ([], demo_before [] ''old'') (jobs, w) \<and>
     (\<forall>j \<in> set jobs. sj_pc j = StampDone) \<and> dr_stored w = demo_version ''new'' \<and> demo_field w = Some [''old'']"
proof -
  let ?run = "stamp_run demo_lib demo_room_stamper (\<lambda>w w'. \<exists>ev. w' = w\<lparr>dr_stored := ev\<rparr>)"
  let ?w = "demo_before [] ''old''"
  let ?j = "demo_job\<lparr>sj_pc := PatchNext (dr_stored ?w) {c. demo_share ''30142:p:x'' [c] \<in> set (dr_shares ?w)}\<rparr>"
  let ?w1 = "?w\<lparr>dr_stored := demo_version ''new''\<rparr>"
  have "?run ([?j], ?w) ([?j], ?w1)" by (intro run_step Change) (auto simp: demo_before_def)
  from overtaken_job [OF _ this refl] obtain w' where
    "?run ([], ?w) ([demo_job\<lparr>sj_pc := StampDone\<rparr>], w')" "demo_field w' = Some (unionSorted [''old''] {})"
    "dr_stored w' = demo_version ''new''"
    by (auto simp: demo_before_def demo_field_def)
  then show ?thesis by (intro exI [of _ w'] exI conjI) (assumption, simp_all add: unionSorted_def)
qed

section \<open>Patches in the queue of the index\<close>

text \<open>
  The stamps of resources go through \<open>QueueCommunityPatch\<close>. What counts is the field as it will be when the queue is empty: the
  worker does not change it, a queued patch sets it. \<open>com\<close> reads the field of a document in the index.
\<close>

definition queued_field :: "'d ts_config \<Rightarrow> (event \<Rightarrow> 'd \<Rightarrow> 'd) \<Rightarrow> ('d \<Rightarrow> string \<rightharpoonup> string list) \<Rightarrow> 'd ts_state \<Rightarrow> string \<rightharpoonup> string list" where
  "queued_field c up com t = com (fold (immediate c up) (ts_queue t) (flushed c up (ts_local t, ts_world t)))"

lemma queued_patch_sets_the_field:
  assumes "\<And>d cs x. com (snd (pw_PatchCommunity (tc_writer c) d cs x)) = (if com x d = None then com x else (com x)(d \<mapsto> cs))"
  shows "queued_field c up com (t\<lparr>ts_queue := ts_queue t @ [QueueCommunityPatch d cs]\<rparr>) =
    (if queued_field c up com t d = None then queued_field c up com t else (queued_field c up com t)(d \<mapsto> cs))"
  by (simp add: queued_field_def immediate_def QueueCommunityPatch_def assms)

lemma worker_keeps_the_queued_field:
  assumes "writer_ok c up" and "skip_stable c" and "tc_batchSize c \<ge> 1" and "buf_ok c (ts_local t)"
    and "ts_step c (\<lambda>_ _. False) t t'" and "ts_accepted t' = ts_accepted t" and "ts_phase t' \<noteq> Abandoned"
  shows "queued_field c up com t' = queued_field c up com t"
proof -
  have flush: "flushed c up (ts_local (flush_state c x), ts_world (flush_state c x)) = flushed c up (ts_local x, ts_world x)" for x
    by (simp add: flush_state_def flushBatch_flushed [OF assms(1)])
  have proc: "flushed c up (ts_local (process_state c k x), ts_world (process_state c k x)) =
      immediate c up k (flushed c up (ts_local x, ts_world x))" if "buf_ok c (ts_local x)" for k x
    using process_refines [OF assms(1,2) that, of k "ts_world x"]
    by (cases "process c k (ts_local x, ts_world x)") (simp add: process_state_def)
  from assms(5,4,6,7) show ?thesis
    by (induction rule: ts_step.induct) (auto simp: queued_field_def flush proc)
qed

end
