(* ===== verification/Tombstone.thy ===== *)
theory Tombstone
  imports Demo
begin

text \<open>
  \<open>tombstone.go\<close>: the gate that says whether an event may exist on the relay. \<open>BlockReason\<close>
  reads the two ban buckets, the ids deleted by their author and the coordinate tombstones;
  a tombstone is the newest \<open>created_at\<close> of a deletion request for the coordinate, stored as
  eight big-endian bytes. The locale \<open>gate_keeper\<close> states what the purge path relies on.
\<close>

unbundle bit_operations_syntax

section \<open>Big-endian timestamps\<close>

definition put_u64 :: "timestamp \<Rightarrow> bytes" where
  "put_u64 w = map (\<lambda>i. ucast (drop_bit (8 * i) w)) [7, 6, 5, 4, 3, 2, 1, 0]"

definition get_u64 :: "bytes \<Rightarrow> timestamp" where
  "get_u64 bs = foldl (\<lambda>acc b. push_bit 8 acc OR ucast b) 0 bs"

lemma get_put_u64 [simp]: "get_u64 (put_u64 w) = w"
proof (rule bit_word_eqI)
  fix n
  assume "n < LENGTH(64)"
  then have "n div 8 < 8" by simp
  then have "n div 8 \<in> {0, 1, 2, 3, 4, 5, 6, 7}" by auto
  moreover define q r where "q = n div 8" and "r = n mod 8"
  ultimately have q: "q \<in> {0, 1, 2, 3, 4, 5, 6, 7}" and r: "r < 8" and n: "n = 8 * q + r"
    by simp_all
  from q r show "bit (get_u64 (put_u64 w)) n = bit w n"
    unfolding n
    by (elim insertE emptyE) (simp_all add: get_u64_def put_u64_def bit_simps)
qed

lemma length_put_u64 [simp]: "length (put_u64 w) = 8"
  by (simp add: put_u64_def)

section \<open>Coordinates\<close>

definition eventCoord :: "lib \<Rightarrow> event \<Rightarrow> string option" where
  "eventCoord L ev =
     (if is_addressable L (ev_kind ev)
      then Some (coord_str (ev_kind ev) (pk_hex L (ev_pubkey ev)) (get_d L (ev_tags ev)))
      else if is_replaceable L (ev_kind ev)
      then Some (coord_str (ev_kind ev) (pk_hex L (ev_pubkey ev)) [])
      else None)"

text \<open>The tombstone stored under a coordinate, if the row has the right length.\<close>

definition stored_until :: "mgmt_db \<Rightarrow> string \<Rightarrow> timestamp option" where
  "stored_until m coord = (case RBT.lookup (b_deleted_coords m) coord of
     None \<Rightarrow> None
   | Some v \<Rightarrow> if length v = 8 then Some (get_u64 v) else None)"

definition MarkCoordDeleted ::
    "error option \<Rightarrow> string \<Rightarrow> timestamp \<Rightarrow> mgmt_db \<Rightarrow> error option \<times> mgmt_db" where
  "MarkCoordDeleted tx coord until =
     db_update tx (\<lambda>m. case stored_until m coord of
       Some cur \<Rightarrow> if ts_le until cur then m
         else m\<lparr>b_deleted_coords := RBT.insert coord (put_u64 until) (b_deleted_coords m)\<rparr>
     | None \<Rightarrow> m\<lparr>b_deleted_coords := RBT.insert coord (put_u64 until) (b_deleted_coords m)\<rparr>)"

definition CoordDeletedUntil :: "mgmt_db \<Rightarrow> string \<Rightarrow> timestamp \<times> bool" where
  "CoordDeletedUntil m coord = (case stored_until m coord of
     None \<Rightarrow> (0, False) | Some ts \<Rightarrow> (ts, True))"

definition BlockReason :: "lib \<Rightarrow> mgmt_db \<Rightarrow> event \<Rightarrow> string" where
  "BlockReason L m ev = (
     let idKey = id_hex L (ev_id ev) in
     if RBT.lookup (b_banned_pubkeys m) (pk_hex L (ev_pubkey ev)) \<noteq> None
     then ''pubkey is banned''
     else if RBT.lookup (b_banned_events m) idKey \<noteq> None
     then ''event is banned''
     else if RBT.lookup (b_deleted_events m) idKey \<noteq> None
     then ''blocked: event was deleted by its author''
     else case eventCoord L ev of
       None \<Rightarrow> []
     | Some coord \<Rightarrow> (case stored_until m coord of
         None \<Rightarrow> []
       | Some until \<Rightarrow> if ts_le (ev_created_at ev) until
           then ''blocked: event was deleted by its author'' else []))"

definition isBlocked :: "lib \<Rightarrow> mgmt_db \<Rightarrow> event \<Rightarrow> bool" where
  "isBlocked L m ev \<longleftrightarrow> BlockReason L m ev \<noteq> []"

section \<open>The gate as a condition on the buckets\<close>

lemma isBlocked_iff [gate_simps]:
  "isBlocked L m ev \<longleftrightarrow>
     pk_hex L (ev_pubkey ev) \<in> dom (RBT.lookup (b_banned_pubkeys m)) \<or>
     id_hex L (ev_id ev) \<in> dom (RBT.lookup (b_banned_events m)) \<or>
     id_hex L (ev_id ev) \<in> dom (RBT.lookup (b_deleted_events m)) \<or>
     (\<exists>coord until. eventCoord L ev = Some coord \<and> stored_until m coord = Some until \<and>
        ts_le (ev_created_at ev) until)"
  by (auto simp: isBlocked_def BlockReason_def Let_def split: option.splits)

lemma stored_until_mark [gate_simps]:
  "stored_until (snd (MarkCoordDeleted None coord until m)) c =
     (if c = coord
      then (case stored_until m coord of
          None \<Rightarrow> Some until
        | Some cur \<Rightarrow> if ts_le until cur then Some cur else Some until)
      else stored_until m c)"
  by (auto simp: MarkCoordDeleted_def stored_until_def split: option.splits)

lemma stored_until_fail [simp]:
  "snd (MarkCoordDeleted (Some e) coord until m) = m"
  by (simp add: MarkCoordDeleted_def)

text \<open>The other buckets are not touched.\<close>

lemma MarkCoordDeleted_frame [gate_simps]:
  "b_banned_pubkeys (snd (MarkCoordDeleted tx coord until m)) = b_banned_pubkeys m"
  "b_banned_events (snd (MarkCoordDeleted tx coord until m)) = b_banned_events m"
  "b_deleted_events (snd (MarkCoordDeleted tx coord until m)) = b_deleted_events m"
  by (cases tx; auto simp: MarkCoordDeleted_def split: option.splits)+

lemma MarkEventDeleted_frame [gate_simps]:
  "b_banned_pubkeys (snd (MarkEventDeleted tx k m)) = b_banned_pubkeys m"
  "b_banned_events (snd (MarkEventDeleted tx k m)) = b_banned_events m"
  "b_deleted_coords (snd (MarkEventDeleted tx k m)) = b_deleted_coords m"
  "b_content (snd (MarkEventDeleted tx k m)) = b_content m"
  by (cases tx; simp add: MarkEventDeleted_def)+

lemma stored_until_MarkEventDeleted [gate_simps]:
  "stored_until (snd (MarkEventDeleted tx k m)) c = stored_until m c"
  by (simp add: stored_until_def MarkEventDeleted_frame)

lemma deleted_MarkEventDeleted [gate_simps]:
  "dom (RBT.lookup (b_deleted_events (snd (MarkEventDeleted None k m)))) =
     insert k (dom (RBT.lookup (b_deleted_events m)))"
  by (auto simp: MarkEventDeleted_def)

lemma dom_deleted_mono:
  "dom (RBT.lookup (b_deleted_events m)) \<subseteq>
     dom (RBT.lookup (b_deleted_events (snd (MarkEventDeleted tx k m))))"
  by (cases tx) (auto simp: MarkEventDeleted_def)

section \<open>The contract of the gate\<close>

text \<open>
  What the purge path uses of the gate: marking an id blocks every event with the id, marking a
  coordinate blocks every version up to the request's timestamp, and neither, whatever the
  outcome of its transaction, ever unblocks an event.
\<close>

locale gate_keeper =
  fixes blocked :: "'m \<Rightarrow> event \<Rightarrow> bool"
    and coord_of :: "event \<Rightarrow> string option"
    and mark_id :: "error option \<Rightarrow> event_id \<Rightarrow> 'm \<Rightarrow> 'm"
    and mark_coord :: "error option \<Rightarrow> string \<Rightarrow> timestamp \<Rightarrow> 'm \<Rightarrow> 'm"
  assumes mark_id_blocks: "blocked (mark_id None (ev_id ev) m) ev"
    and mark_coord_blocks: "coord_of ev = Some c \<Longrightarrow> ts_le (ev_created_at ev) t \<Longrightarrow>
          blocked (mark_coord None c t m) ev"
    and mark_id_mono: "blocked m ev \<Longrightarrow> blocked (mark_id tx i m) ev"
    and mark_coord_mono: "blocked m ev \<Longrightarrow> blocked (mark_coord tx c t m) ev"
begin

lemma mark_ids_mono: "blocked m ev \<Longrightarrow> blocked (fold (\<lambda>(tx, i). mark_id tx i) xs m) ev"
  by (induction xs arbitrary: m) (auto intro: mark_id_mono)

lemma mark_coords_mono:
  "blocked m ev \<Longrightarrow> blocked (fold (\<lambda>(tx, c, t). mark_coord tx c t) xs m) ev"
  by (induction xs arbitrary: m) (auto intro: mark_coord_mono)

lemma mark_coords_block:
  assumes "(None, c, t) \<in> set xs" and "coord_of ev = Some c" and "ts_le (ev_created_at ev) t"
  shows "blocked (fold (\<lambda>(tx, c, t). mark_coord tx c t) xs m) ev"
  using assms
proof (induction xs arbitrary: m)
  case (Cons x xs)
  show ?case
  proof (cases "x = (None, c, t)")
    case True
    then show ?thesis by (auto intro: mark_coords_mono mark_coord_blocks Cons.prems)
  next
    case False
    with Cons show ?thesis by (cases x) auto
  qed
qed simp

end

lemma stored_until_mono:
  assumes "stored_until m c = Some cur" and "ts_le x cur"
  shows "\<exists>cur'. stored_until (snd (MarkCoordDeleted tx c' t m)) c = Some cur' \<and> ts_le x cur'"
  using assms by (cases tx) (auto simp: stored_until_mark)

lemma isBlocked_MarkCoordDeleted_mono:
  "isBlocked L m ev \<Longrightarrow> isBlocked L (snd (MarkCoordDeleted tx c t m)) ev"
  using stored_until_mono [of m _ _ "ev_created_at ev" tx c t]
  by (fastforce simp: isBlocked_iff MarkCoordDeleted_frame)

lemma isBlocked_MarkEventDeleted_mono:
  "isBlocked L m ev \<Longrightarrow> isBlocked L (snd (MarkEventDeleted tx k m)) ev"
  using dom_deleted_mono [of m tx k]
  by (auto simp: isBlocked_iff MarkEventDeleted_frame stored_until_MarkEventDeleted)

interpretation gate: gate_keeper
  "isBlocked L" "eventCoord L" "\<lambda>tx i m. snd (MarkEventDeleted tx (id_hex L i) m)"
  "\<lambda>tx c t m. snd (MarkCoordDeleted tx c t m)" for L
proof unfold_locales
  fix ev m c t
  show "isBlocked L (snd (MarkEventDeleted None (id_hex L (ev_id ev)) m)) ev"
    by (auto simp: isBlocked_iff MarkEventDeleted_def)
  assume "eventCoord L ev = Some c" and "ts_le (ev_created_at ev) t"
  then show "isBlocked L (snd (MarkCoordDeleted None c t m)) ev"
    by (auto simp: isBlocked_iff stored_until_mark split: option.splits)
qed (simp_all add: isBlocked_MarkCoordDeleted_mono isBlocked_MarkEventDeleted_mono)

text \<open>
  Two events have the same coordinate exactly when kind, author and identifier agree.
\<close>

lemma eventCoord_eq_iff:
  assumes "lib_ok L" and "is_addressable L (ev_kind a)" and "is_addressable L (ev_kind b)"
  shows "eventCoord L a = eventCoord L b \<longleftrightarrow>
    ev_kind a = ev_kind b \<and> ev_pubkey a = ev_pubkey b \<and> get_d L (ev_tags a) = get_d L (ev_tags b)"
  using assms by (simp add: eventCoord_def coord_str_inject pk_hex_no_colon pk_hex_inject)

section \<open>Properties\<close>

text \<open>A coordinate's tombstone only ever moves forward: after a committed mark it holds the later of
  the stored and the new timestamp, every other coordinate keeps its own, and the stored bytes
  decode to exactly that timestamp.\<close>

theorem tombstone_is_the_maximum:
  "CoordDeletedUntil (snd (MarkCoordDeleted None coord t m)) c =
     (if c = coord
      then (case CoordDeletedUntil m coord of
          (cur, found) \<Rightarrow> (if found \<and> sint t \<le> sint cur then cur else t, True))
      else CoordDeletedUntil m c)"
  by (simp add: CoordDeletedUntil_def stored_until_mark split: option.split)

text \<open>Two addressable events share a coordinate, and so a tombstone, exactly when kind, author and
  identifier agree, whatever characters the identifier holds.\<close>

theorem coordinates_identify:
  assumes "lib_ok L" and "is_addressable L (ev_kind a)" and "is_addressable L (ev_kind b)"
  shows "eventCoord L a = eventCoord L b \<longleftrightarrow>
    ev_kind a = ev_kind b \<and> ev_pubkey a = ev_pubkey b \<and> get_d L (ev_tags a) = get_d L (ev_tags b)"
  by (rule eventCoord_eq_iff [OF assms])

lemma coordinates_identify_witness:
  "eventCoord demo_lib (demo_event 1 30142 0 [[''d'', ''a:b'']]) \<noteq>
     eventCoord demo_lib (demo_event 2 30142 0 [[''d'', ''b'']])"
  using coordinates_identify [of demo_lib "demo_event 1 30142 0 [[''d'', ''a:b'']]"
      "demo_event 2 30142 0 [[''d'', ''b'']]"]
  by (simp add: demo_event_def demo_lib_ok) (simp add: demo_lib_def)

end
