(* ===== verification/Purge.thy ===== *)
theory Purge
  imports Tombstone Validate Demo
begin

text \<open>
  \<open>purge.go\<close> and \<open>coord_tombstone_backfill.go\<close>: removing an event from every store. The state is
  the relay's database and the state \<open>'w\<close> of the external stores; the outcome of each database
  transaction is an argument (\<open>tx_env\<close>) that may depend on the state of the world, and so may
  the cancellation of the context. The log lines are left out.
\<close>

section \<open>The purger\<close>

record 'w tx_env =
  te_mark_id :: "'w \<Rightarrow> string \<Rightarrow> error option"
  te_mark_coord :: "'w \<Rightarrow> string \<Rightarrow> error option"
  te_content :: "'w \<Rightarrow> string \<Rightarrow> error option"

record 'w eventPurger =
  pg_bolt :: "'w raw_store"
  pg_has_content :: bool
  pg_reg :: "'w registry"
  pg_ban_event :: "event_id \<Rightarrow> string \<Rightarrow> mgmt_db \<Rightarrow> error option \<times> mgmt_db"
  pg_queueDelete :: "(event_id \<Rightarrow> 'w \<Rightarrow> 'w) option"
  pg_beforeDelete :: "(event_id \<Rightarrow> 'w \<Rightarrow> ('w \<Rightarrow> 'w) option) option"

definition purge :: "lib \<Rightarrow> 'w tx_env \<Rightarrow> 'w eventPurger \<Rightarrow> event_id \<Rightarrow> mgmt_db \<times> 'w \<Rightarrow>
    error option \<times> mgmt_db \<times> 'w" where
  "purge L E p i = (\<lambda>(m, w).
     let w1 = snd (rs_delete (pg_bolt p) i w);
         m1 = (if pg_has_content p
               then snd (ContentStore_Delete (te_content E w1 (id_hex L i)) (id_hex L i) m) else m)
     in case deleteEverywhere (pg_reg p) i w1 of
       (err, logged, w2) \<Rightarrow>
         (err, m1, case pg_queueDelete p of None \<Rightarrow> w2 | Some q \<Rightarrow> q i w2))"

definition authorDelete :: "lib \<Rightarrow> 'w tx_env \<Rightarrow> 'w eventPurger \<Rightarrow> event_id \<Rightarrow> mgmt_db \<times> 'w \<Rightarrow>
    error option \<times> mgmt_db \<times> 'w" where
  "authorDelete L E p i = (\<lambda>(m, w).
     let after = (case pg_beforeDelete p of None \<Rightarrow> None | Some f \<Rightarrow> f i w);
         m1 = snd (MarkEventDeleted (te_mark_id E w (id_hex L i)) (id_hex L i) m)
     in case purge L E p i (m1, w) of
       (err, m2, w2) \<Rightarrow> (err, m2, case after of None \<Rightarrow> w2 | Some g \<Rightarrow> g w2))"

definition ban :: "lib \<Rightarrow> 'w tx_env \<Rightarrow> 'w eventPurger \<Rightarrow> event_id \<Rightarrow> string \<Rightarrow> mgmt_db \<times> 'w \<Rightarrow>
    error option \<times> mgmt_db \<times> 'w" where
  "ban L E p i reason = (\<lambda>(m, w). case pg_ban_event p i reason m of
     (Some e, m') \<Rightarrow> (Some e, m', w)
   | (None, m') \<Rightarrow> purge L E p i (m', w))"

section \<open>Coordinates of a deletion request\<close>

record coordRef =
  cr_raw :: string
  cr_kind :: kind
  cr_pubkey :: pubkey
  cr_d :: string

definition coord_of_tag :: "lib \<Rightarrow> event \<Rightarrow> string \<times> string \<Rightarrow> coordRef option" where
  "coord_of_tag L del = (\<lambda>(n, v).
     if n \<noteq> ''a'' then None
     else case split3 v of
       None \<Rightarrow> None
     | Some (ks, ph, ds) \<Rightarrow> (case atoi ks of
         None \<Rightarrow> None
       | Some num \<Rightarrow>
           if num < 0 then None
           else let k = kind_of_int num in
             if \<not> is_addressable L k \<and> \<not> is_replaceable L k then None
             else (case pk_from_hex L ph of
               Inl _ \<Rightarrow> None
             | Inr pk \<Rightarrow> if pk \<noteq> ev_pubkey del then None
                 else let d = (if is_replaceable L k then [] else ds)
                   in Some \<lparr>cr_raw = coord_str k (pk_hex L pk) d, cr_kind = k, cr_pubkey = pk,
                            cr_d = d\<rparr>)))"

definition sameAuthorCoords :: "lib \<Rightarrow> event \<Rightarrow> coordRef list" where
  "sameAuthorCoords L del = List.map_filter (coord_of_tag L del) (tag_pairs (ev_tags del))"

section \<open>Applying a deletion request\<close>

definition coord_filter :: "lib \<Rightarrow> coordRef \<Rightarrow> event \<Rightarrow> filter" where
  "coord_filter L c del = empty_filter\<lparr>f_kinds := [cr_kind c], f_authors := [cr_pubkey c],
     f_until := ev_created_at del,
     f_tags := (if is_addressable L (cr_kind c) then [(''d'', [cr_d c])] else [])\<rparr>"

definition is_target :: "lib \<Rightarrow> coordRef \<Rightarrow> event \<Rightarrow> event \<Rightarrow> bool" where
  "is_target L c del ev \<longleftrightarrow> ev_pubkey ev = ev_pubkey del \<and>
     ts_le (ev_created_at ev) (ev_created_at del) \<and>
     (is_addressable L (cr_kind c) \<longrightarrow> get_d L (ev_tags ev) = cr_d c)"

definition coord_targets :: "lib \<Rightarrow> 'w eventPurger \<Rightarrow> coordRef \<Rightarrow> event \<Rightarrow> 'w \<Rightarrow> event_id list" where
  "coord_targets L p c del w = (let f = coord_filter L c del in
     map ev_id (dedup_from ev_id {} (List.filter (is_target L c del)
       (rs_query (pg_bolt p) f 1000 w @ registry_fetch (pg_reg p) f 250 w))))"

fun delete_targets :: "lib \<Rightarrow> 'w tx_env \<Rightarrow> 'w eventPurger \<Rightarrow> event_id list \<Rightarrow> nat \<times> nat \<Rightarrow>
    mgmt_db \<times> 'w \<Rightarrow> (nat \<times> nat) \<times> mgmt_db \<times> 'w" where
  "delete_targets L E p [] cnt s = (cnt, s)"
| "delete_targets L E p (i # is) (purged, errs) s = (case authorDelete L E p i s of
     (Some e, s') \<Rightarrow> delete_targets L E p is (purged, Suc errs) s'
   | (None, s') \<Rightarrow> delete_targets L E p is (Suc purged, errs) s')"

fun coords_loop :: "lib \<Rightarrow> 'w tx_env \<Rightarrow> 'w eventPurger \<Rightarrow> ('w \<Rightarrow> bool) \<Rightarrow> event \<Rightarrow> coordRef list \<Rightarrow>
    nat \<times> nat \<times> nat \<Rightarrow> mgmt_db \<times> 'w \<Rightarrow> (nat \<times> nat \<times> nat) \<times> mgmt_db \<times> 'w" where
  "coords_loop L E p ctx_done del [] cnt s = (cnt, s)"
| "coords_loop L E p ctx_done del (c # cs) (tombstoned, purged, errs) (m, w) =
     (if ctx_done w then ((tombstoned, purged, errs), (m, w))
      else case MarkCoordDeleted (te_mark_coord E w (cr_raw c)) (cr_raw c) (ev_created_at del) m of
        (merr, m1) \<Rightarrow>
          let tombstoned1 = (if merr = None then Suc tombstoned else tombstoned);
              errs1 = (if merr = None then errs else Suc errs)
          in case delete_targets L E p (coord_targets L p c del w) (purged, errs1) (m1, w) of
            ((purged2, errs2), s2) \<Rightarrow>
              coords_loop L E p ctx_done del cs (tombstoned1, purged2, errs2) s2)"

definition applyCoordDeletions :: "lib \<Rightarrow> 'w tx_env \<Rightarrow> 'w eventPurger \<Rightarrow> ('w \<Rightarrow> bool) \<Rightarrow> event \<Rightarrow>
    mgmt_db \<times> 'w \<Rightarrow> (nat \<times> nat \<times> nat) \<times> mgmt_db \<times> 'w" where
  "applyCoordDeletions L E p ctx_done del s =
     (if ev_kind del \<noteq> KindDeletion then ((0, 0, 0), s)
      else coords_loop L E p ctx_done del (sameAuthorCoords L del) (0, 0, 0) s)"

section \<open>The read gate and the gated store\<close>

definition gateSeq_push :: "event list \<Rightarrow> (event \<Rightarrow> bool) \<Rightarrow> (event \<Rightarrow> 's \<Rightarrow> bool \<times> 's) \<Rightarrow> 's \<Rightarrow>
    bool \<times> 's" where
  "gateSeq_push evs blocked yield s =
     iterate evs (\<lambda>ev s. if blocked ev then (True, s) else yield ev s) s"

definition gateSeq :: "event list \<Rightarrow> (event \<Rightarrow> bool) \<Rightarrow> event list" where
  "gateSeq evs blocked = snd (gateSeq_push evs blocked collect [])"

definition gated_SaveEvent :: "'w raw_store \<Rightarrow> (event \<Rightarrow> bool) \<Rightarrow> event \<Rightarrow> 'w \<Rightarrow> error option \<times> 'w" where
  "gated_SaveEvent db blocked ev w = (if blocked ev then (None, w) else rs_save db ev w)"

lemma gateSeq_push_eq:
  "gateSeq_push evs blocked yield s = iterate (List.filter (\<lambda>ev. \<not> blocked ev) evs) yield s"
  unfolding gateSeq_push_def by (induction evs arbitrary: s) (auto split: prod.splits)

lemma gateSeq_eq: "gateSeq evs blocked = List.filter (\<lambda>ev. \<not> blocked ev) evs"
  by (simp add: gateSeq_def gateSeq_push_eq)

section \<open>The startup backfill\<close>

datatype backfill_error =
    CheckMarker error
  | CountFailed error
  | CountMismatch nat "32 word"
  | Cancelled nat nat
  | PurgeErrors nat nat
  | RecordMarker error

definition migrationCoordTombstonesV1 :: string where
  "migrationCoordTombstonesV1 = ''migration:coord_tombstones_v1''"

text \<open>The scan: \<open>Inl\<close> when cancelled before an event, otherwise the error count.\<close>

fun backfill_loop :: "lib \<Rightarrow> 'w tx_env \<Rightarrow> 'w eventPurger \<Rightarrow> ('w \<Rightarrow> bool) \<Rightarrow> nat \<Rightarrow> event list \<Rightarrow>
    nat \<Rightarrow> nat \<Rightarrow> mgmt_db \<times> 'w \<Rightarrow> (backfill_error + nat \<times> nat) \<times> mgmt_db \<times> 'w" where
  "backfill_loop L E p ctx_done n [] scanned errs s = (Inr (scanned, errs), s)"
| "backfill_loop L E p ctx_done n (ev # evs) scanned errs (m, w) =
     (if ctx_done w then (Inl (Cancelled scanned n), (m, w))
      else case applyCoordDeletions L E p ctx_done ev (m, w) of
        ((t, pu, e), s') \<Rightarrow> backfill_loop L E p ctx_done n evs (Suc scanned) (errs + e) s')"

definition backfillCoordTombstones :: "lib \<Rightarrow> 'w tx_env \<Rightarrow> 'w eventPurger \<Rightarrow> ('w \<Rightarrow> bool) \<Rightarrow> bool \<Rightarrow>
    error option \<Rightarrow> error option \<Rightarrow> mgmt_db \<times> 'w \<Rightarrow> backfill_error option \<times> mgmt_db \<times> 'w" where
  "backfillCoordTombstones L E p ctx_done force check_tx mark_tx = (\<lambda>(m, w).
     let kind5 = empty_filter\<lparr>f_kinds := [KindDeletion]\<rparr> in
     if \<not> force \<and> check_tx \<noteq> None then (map_option CheckMarker check_tx, (m, w))
     else if \<not> force \<and> MigrationDone m migrationCoordTombstonesV1 then (None, (m, w))
     else case rs_count (pg_bolt p) kind5 w of
       (_, Some e) \<Rightarrow> (Some (CountFailed e), (m, w))
     | (authoritative, None) \<Rightarrow>
         let dels = rs_query (pg_bolt p) kind5 (2 ^ 63 - 1) w in
         if word_of_nat (length dels) \<noteq> authoritative
         then (Some (CountMismatch (length dels) authoritative), (m, w))
         else case backfill_loop L E p ctx_done (length dels) dels 0 0 (m, w) of
           (Inl e, s') \<Rightarrow> (Some e, s')
         | (Inr (scanned, errs), (m', w')) \<Rightarrow>
             if errs > 0 then (Some (PurgeErrors errs scanned), (m', w'))
             else if ctx_done w' then (Some (Cancelled scanned (length dels)), (m', w'))
             else (case MarkMigrationDone mark_tx migrationCoordTombstonesV1 m' of
               (Some e, m'') \<Rightarrow> (Some (RecordMarker e), (m'', w'))
             | (None, m'') \<Rightarrow> (None, (m'', w'))))"

section \<open>Which coordinates are honoured\<close>

lemma coord_of_tag_SomeD:
  assumes "coord_of_tag L del nv = Some c"
  shows "cr_pubkey c = ev_pubkey del"
    and "is_addressable L (cr_kind c) \<or> is_replaceable L (cr_kind c)"
    and "cr_raw c = coord_str (cr_kind c) (pk_hex L (ev_pubkey del)) (cr_d c)"
    and "is_replaceable L (cr_kind c) \<Longrightarrow> cr_d c = []"
  using assms
  by (auto simp: coord_of_tag_def Let_def split: if_splits prod.splits option.splits sum.splits)

lemma sameAuthorCoordsD:
  assumes "c \<in> set (sameAuthorCoords L del)"
  shows "cr_pubkey c = ev_pubkey del"
    and "is_addressable L (cr_kind c) \<or> is_replaceable L (cr_kind c)"
    and "cr_raw c = coord_str (cr_kind c) (pk_hex L (ev_pubkey del)) (cr_d c)"
    and "is_replaceable L (cr_kind c) \<Longrightarrow> cr_d c = []"
proof -
  obtain nv where nv: "coord_of_tag L del nv = Some c"
    using assms by (auto simp: sameAuthorCoords_def set_map_filter_iff)
  show "cr_pubkey c = ev_pubkey del"
    and "is_addressable L (cr_kind c) \<or> is_replaceable L (cr_kind c)"
    and "cr_raw c = coord_str (cr_kind c) (pk_hex L (ev_pubkey del)) (cr_d c)"
    and "is_replaceable L (cr_kind c) \<Longrightarrow> cr_d c = []"
    using coord_of_tag_SomeD [OF nv] by blast+
qed

text \<open>A well-formed \<open>a\<close> tag for the author's own coordinate is honoured.\<close>

lemma sameAuthorCoordsI:
  assumes L: "lib_ok L" and a: "is_addressable L k"
    and t: "(''a'', coord_str k (pk_hex L (ev_pubkey del)) d) \<in> set (tag_pairs (ev_tags del))"
  shows "\<lparr>cr_raw = coord_str k (pk_hex L (ev_pubkey del)) d, cr_kind = k,
      cr_pubkey = ev_pubkey del, cr_d = d\<rparr> \<in> set (sameAuthorCoords L del)"
proof -
  have "\<not> is_replaceable L k" using L a by (auto simp: lib_ok_def kinds_disjoint_def)
  then have "coord_of_tag L del (''a'', coord_str k (pk_hex L (ev_pubkey del)) d) =
      Some \<lparr>cr_raw = coord_str k (pk_hex L (ev_pubkey del)) d, cr_kind = k,
            cr_pubkey = ev_pubkey del, cr_d = d\<rparr>"
    using L a by (simp add: coord_of_tag_def split3_coord_str pk_hex_no_colon pk_roundtrip Let_def)
  with t show ?thesis by (force simp: sameAuthorCoords_def set_map_filter_iff)
qed

text \<open>Every version of the coordinate has the raw string as its own coordinate.\<close>

lemma eventCoord_of_ref:
  assumes "c \<in> set (sameAuthorCoords L del)" and "lib_ok L"
    and "ev_kind ev = cr_kind c" and "ev_pubkey ev = ev_pubkey del"
    and "is_addressable L (cr_kind c) \<Longrightarrow> get_d L (ev_tags ev) = cr_d c"
  shows "eventCoord L ev = Some (cr_raw c)"
  using sameAuthorCoordsD [OF assms(1)] assms(2-)
  by (auto simp: eventCoord_def lib_ok_def kinds_disjoint_def)

section \<open>The gate is only ever closed\<close>

text \<open>
  \<open>gate_le m m'\<close>: whatever the gate of \<open>m\<close> blocks, that of \<open>m'\<close> blocks, and the tombstones have
  only grown.
\<close>

definition gate_le :: "lib \<Rightarrow> mgmt_db \<Rightarrow> mgmt_db \<Rightarrow> bool" where
  "gate_le L m m' \<longleftrightarrow> (\<forall>ev. isBlocked L m ev \<longrightarrow> isBlocked L m' ev) \<and>
     (\<forall>c x. stored_until m c = Some x \<longrightarrow> (\<exists>y. stored_until m' c = Some y \<and> ts_le x y))"

lemma gate_le_refl [simp]: "gate_le L m m"
  by (simp add: gate_le_def)

lemma gate_le_trans: "gate_le L m m' \<Longrightarrow> gate_le L m' m'' \<Longrightarrow> gate_le L m m''"
  unfolding gate_le_def by (meson order_trans)

lemma gate_le_blocked: "gate_le L m m' \<Longrightarrow> isBlocked L m ev \<Longrightarrow> isBlocked L m' ev"
  by (simp add: gate_le_def)

text \<open>\<open>tomb m c t\<close>: coordinate \<open>c\<close> is tombstoned at least up to \<open>t\<close>.\<close>

definition tomb :: "mgmt_db \<Rightarrow> string \<Rightarrow> timestamp \<Rightarrow> bool" where
  "tomb m c t \<longleftrightarrow> (case stored_until m c of None \<Rightarrow> False | Some u \<Rightarrow> ts_le t u)"

lemma tomb_iff: "tomb m c t \<longleftrightarrow> (\<exists>u. stored_until m c = Some u \<and> ts_le t u)"
  by (auto simp: tomb_def split: option.splits)

lemma tomb_mark: "tomb (snd (MarkCoordDeleted None c t m)) c t"
  by (auto simp: tomb_def stored_until_mark split: option.splits)

lemma gate_le_tomb: "gate_le L m m' \<Longrightarrow> tomb m c t \<Longrightarrow> tomb m' c t"
  unfolding gate_le_def tomb_iff by (meson order_trans)

lemma gate_le_mark_id: "gate_le L m (snd (MarkEventDeleted tx k m))"
  by (auto simp: gate_le_def isBlocked_MarkEventDeleted_mono stored_until_MarkEventDeleted)

lemma gate_le_mark_coord: "gate_le L m (snd (MarkCoordDeleted tx c t m))"
  using stored_until_mono [of m] by (auto simp: gate_le_def isBlocked_MarkCoordDeleted_mono)

lemma gate_le_content: "gate_le L m (snd (ContentStore_Delete tx k m))"
  by (cases tx) (auto simp: gate_le_def ContentStore_Delete_def isBlocked_iff stored_until_def)

lemma purge_mgmt:
  "fst (snd (purge L E p i (m, w))) = (if pg_has_content p then
     snd (ContentStore_Delete (te_content E (snd (rs_delete (pg_bolt p) i w)) (id_hex L i)) (id_hex L i) m)
     else m)"
  by (simp add: purge_def Let_def split: prod.splits)

lemma authorDelete_mgmt:
  "fst (snd (authorDelete L E p i (m, w))) = fst (snd (purge L E p i
     (snd (MarkEventDeleted (te_mark_id E w (id_hex L i)) (id_hex L i) m), w)))"
  by (simp add: authorDelete_def Let_def split: prod.splits)

section \<open>What the loops do to the database\<close>

text \<open>
  An invariant of the database is kept by a whole run when the three writes the run makes keep
  it: the mark of a coordinate of the request, the mark of an id found for one, the removal of a
  content row.
\<close>

lemma authorDelete_inv:
  assumes "\<And>tx m. P m \<Longrightarrow> P (snd (MarkEventDeleted tx (id_hex L i) m))"
    and "\<And>tx k m. P m \<Longrightarrow> P (snd (ContentStore_Delete tx k m))" and "P (fst s)"
  shows "P (fst (snd (authorDelete L E p i s)))"
  using assms by (cases s) (simp add: authorDelete_mgmt purge_mgmt)

lemma delete_targets_inv:
  assumes "\<And>tx i m. i \<in> set is \<Longrightarrow> P m \<Longrightarrow> P (snd (MarkEventDeleted tx (id_hex L i) m))"
    and "\<And>tx k m. P m \<Longrightarrow> P (snd (ContentStore_Delete tx k m))" and "P (fst s)"
  shows "P (fst (snd (delete_targets L E p is cnt s)))"
  using assms(1,3)
proof (induction "is" arbitrary: cnt s)
  case (Cons i "is")
  obtain pu er where cnt: "cnt = (pu, er)" by (cases cnt)
  obtain e s1 where d: "authorDelete L E p i s = (e, s1)" by (cases "authorDelete L E p i s")
  have "P (fst s1)"
    using authorDelete_inv [of P L i s E p] Cons.prems assms(2) d by simp
  with Cons show ?case by (cases e) (simp_all add: cnt d)
qed simp

lemma coords_loop_inv:
  assumes "\<And>tx c m. c \<in> set cs \<Longrightarrow> P m \<Longrightarrow> P (snd (MarkCoordDeleted tx (cr_raw c) (ev_created_at del) m))"
    and "\<And>tx c w i m. c \<in> set cs \<Longrightarrow> i \<in> set (coord_targets L p c del w) \<Longrightarrow> P m \<Longrightarrow>
      P (snd (MarkEventDeleted tx (id_hex L i) m))"
    and "\<And>tx k m. P m \<Longrightarrow> P (snd (ContentStore_Delete tx k m))" and "P (fst s)"
  shows "P (fst (snd (coords_loop L E p cd del cs cnt s)))"
  using assms(1,2,4)
proof (induction cs arbitrary: cnt s)
  case (Cons c cs)
  obtain m w where s: "s = (m, w)" by (cases s)
  obtain t pu er where cnt: "cnt = (t, pu, er)" by (cases cnt)
  obtain e m1 where mk: "MarkCoordDeleted (te_mark_coord E w (cr_raw c)) (cr_raw c) (ev_created_at del) m = (e, m1)"
    by (cases "MarkCoordDeleted (te_mark_coord E w (cr_raw c)) (cr_raw c) (ev_created_at del) m")
  have m1: "P m1"
    using Cons.prems(1) [of c m "te_mark_coord E w (cr_raw c)"] Cons.prems(3) mk by (simp add: s)
  obtain cnt2 s2 where dt: "delete_targets L E p (coord_targets L p c del w)
      (pu, if e = None then er else Suc er) (m1, w) = (cnt2, s2)"
    by (cases "delete_targets L E p (coord_targets L p c del w) (pu, if e = None then er else Suc er) (m1, w)")
  have s2: "P (fst s2)"
    using delete_targets_inv [of "coord_targets L p c del w" P L "(m1, w)" E p] Cons.prems(2) [of c] m1 assms(3) dt
    by (metis fst_conv list.set_intros(1) snd_conv)
  have "P (fst (snd (coords_loop L E p cd del cs n s2)))" for n
  proof (rule Cons.IH)
    show "P (snd (MarkEventDeleted tx (id_hex L i) m))"
      if "c' \<in> set cs" and "i \<in> set (coord_targets L p c' del w)" and "P m" for tx c' w i m
      using Cons.prems(2) [of c' i w m tx] that by simp
  qed (use Cons.prems(1) s2 in auto)
  with Cons.prems(3) show ?case by (auto simp: s cnt mk dt Let_def split: prod.splits)
qed simp

lemma gate_le_steps:
  "gate_le L m0 m \<Longrightarrow> gate_le L m0 (snd (MarkEventDeleted tx k m))"
  "gate_le L m0 m \<Longrightarrow> gate_le L m0 (snd (MarkCoordDeleted tx c t m))"
  "gate_le L m0 m \<Longrightarrow> gate_le L m0 (snd (ContentStore_Delete tx k m))"
  using gate_le_mark_id gate_le_mark_coord gate_le_content gate_le_trans by blast+

lemma gate_le_authorDelete: "gate_le L (fst s) (fst (snd (authorDelete L E p i s)))"
  by (rule authorDelete_inv) (auto intro: gate_le_steps)

lemma gate_le_delete_targets: "gate_le L (fst s) (fst (snd (delete_targets L E p is cnt s)))"
  by (rule delete_targets_inv) (auto intro: gate_le_steps)

lemma gate_le_coords_loop: "gate_le L (fst s) (fst (snd (coords_loop L E p cd del cs cnt s)))"
  by (rule coords_loop_inv) (auto intro: gate_le_steps)

lemma gate_le_apply: "gate_le L (fst s) (fst (snd (applyCoordDeletions L E p cd del s)))"
  by (simp add: applyCoordDeletions_def gate_le_coords_loop)

lemma authorDelete_blocks:
  assumes "te_mark_id E w (id_hex L i) = None" and "ev_id ev = i"
  shows "isBlocked L (fst (snd (authorDelete L E p i (m, w)))) ev"
proof -
  have "isBlocked L (snd (MarkEventDeleted None (id_hex L (ev_id ev)) m)) ev"
    by (rule gate.mark_id_blocks)
  then show ?thesis
    unfolding authorDelete_mgmt purge_mgmt using assms gate_le_blocked [OF gate_le_content] by simp
qed

text \<open>A run that was not cancelled tombstones every coordinate whose own transaction commits, whatever becomes of the others.\<close>

lemma coords_loop_tombstones:
  assumes "\<not> cd (snd (snd (coords_loop L E p cd del cs cnt s)))" and "\<And>w. te_mark_coord E w (cr_raw c) = None" and "c \<in> set cs"
  shows "tomb (fst (snd (coords_loop L E p cd del cs cnt s))) (cr_raw c) (ev_created_at del)"
  using assms(1,3)
proof (induction cs arbitrary: cnt s)
  case (Cons c' cs)
  obtain m w where s: "s = (m, w)" by (cases s)
  obtain t pu er where cnt: "cnt = (t, pu, er)" by (cases cnt)
  obtain e m1 where mk: "MarkCoordDeleted (te_mark_coord E w (cr_raw c')) (cr_raw c') (ev_created_at del) m = (e, m1)" by fastforce
  let ?er1 = "if e = None then er else Suc er"
  obtain pu2 er2 s2 where dt: "delete_targets L E p (coord_targets L p c' del w) (pu, ?er1) (m1, w) = ((pu2, er2), s2)"
    by (metis prod.exhaust)
  have "\<not> cd w" using Cons.prems(1) by (auto simp: s cnt)
  then have loop: "coords_loop L E p cd del (c' # cs) cnt s =
      coords_loop L E p cd del cs (if e = None then Suc t else t, pu2, er2) s2"
    by (simp add: s cnt mk dt Let_def)
  show ?case
  proof (cases "c = c'")
    case True
    then have "m1 = snd (MarkCoordDeleted None (cr_raw c') (ev_created_at del) m)" using mk assms(2) [of w] by simp
    then have "tomb m1 (cr_raw c') (ev_created_at del)" by (simp add: tomb_mark)
    moreover have "gate_le L m1 (fst s2)"
      using gate_le_delete_targets [of L "(m1, w)" E p "coord_targets L p c' del w" "(pu, ?er1)"] dt by simp
    ultimately have "tomb (fst s2) (cr_raw c') (ev_created_at del)" by (rule gate_le_tomb [rotated])
    then show ?thesis unfolding loop True by (rule gate_le_tomb [OF gate_le_coords_loop])
  next
    case False
    with Cons show ?thesis unfolding loop by simp
  qed
qed simp

text \<open>
  With failing transactions and cancellation: the error counter only grows, and a run that ends
  uncancelled with an unchanged counter has tombstoned every coordinate. A run cancelled in the
  middle stops at once, so its context is still cancelled at the end.
\<close>

lemma delete_targets_errs: "snd cnt \<le> snd (fst (delete_targets L E p is cnt s))"
proof (induction "is" arbitrary: cnt s)
  case (Cons i "is")
  obtain pu er where cnt: "cnt = (pu, er)" by (cases cnt)
  obtain e s1 where d: "authorDelete L E p i s = (e, s1)" by (cases "authorDelete L E p i s")
  from Cons [of "(Suc pu, er)" s1] Cons [of "(pu, Suc er)" s1] show ?case
    by (cases e) (simp_all add: cnt d)
qed simp

lemma coords_loop_complete:
  assumes "coords_loop L E p cd del cs (t, pu, er) s = ((t', pu', er'), s')" and "\<not> cd (snd s')"
  shows "er \<le> er' \<and> (er' = er \<longrightarrow> (\<forall>c \<in> set cs. tomb (fst s') (cr_raw c) (ev_created_at del)))"
  using assms
proof (induction cs arbitrary: t pu er s)
  case (Cons c cs)
  obtain m w where s: "s = (m, w)" by (cases s)
  obtain e m1 where mk: "MarkCoordDeleted (te_mark_coord E w (cr_raw c)) (cr_raw c) (ev_created_at del) m = (e, m1)"
    by (cases "MarkCoordDeleted (te_mark_coord E w (cr_raw c)) (cr_raw c) (ev_created_at del) m")
  let ?er1 = "if e = None then er else Suc er"
  obtain pu2 er2 s2 where dt: "delete_targets L E p (coord_targets L p c del w) (pu, ?er1) (m1, w) = ((pu2, er2), s2)"
    by (metis prod.exhaust)
  have le: "?er1 \<le> er2"
    using delete_targets_errs [of "(pu, ?er1)" L E p "coord_targets L p c del w" "(m1, w)"] dt by simp
  have ncd: "\<not> cd w" using Cons.prems by (auto simp: s split: if_splits)
  have rest: "coords_loop L E p cd del cs (if e = None then Suc t else t, pu2, er2) s2 = ((t', pu', er'), s')"
    using Cons.prems(1) ncd by (simp add: s mk dt Let_def)
  from Cons.IH [OF rest Cons.prems(2)] have ih: "er2 \<le> er'"
      "er' = er2 \<Longrightarrow> \<forall>c \<in> set cs. tomb (fst s') (cr_raw c) (ev_created_at del)" by auto
  have "tomb (fst s') (cr_raw c) (ev_created_at del)" if "er' = er"
  proof -
    have e: "e = None" using that le ih(1) by (auto split: if_splits)
    then have "m1 = snd (MarkCoordDeleted None (cr_raw c) (ev_created_at del) m)"
      using mk by (cases "te_mark_coord E w (cr_raw c)") (simp_all add: MarkCoordDeleted_def)
    then have "tomb m1 (cr_raw c) (ev_created_at del)" by (simp add: tomb_mark)
    moreover have "gate_le L m1 (fst s2)"
      using gate_le_delete_targets [of L "(m1, w)" E p "coord_targets L p c del w" "(pu, ?er1)"] dt by simp
    moreover have "gate_le L (fst s2) (fst s')"
      using gate_le_coords_loop [of L s2 E p cd del cs] rest by (metis snd_conv)
    ultimately show ?thesis using gate_le_tomb gate_le_trans by blast
  qed
  with le ih show ?case by (auto split: if_splits)
qed simp

lemma apply_complete:
  assumes "applyCoordDeletions L E p cd del s = ((t, pu, er), s')" and "\<not> cd (snd s')" and "er = 0"
    and "ev_kind del = KindDeletion" and "c \<in> set (sameAuthorCoords L del)"
  shows "tomb (fst s') (cr_raw c) (ev_created_at del)"
  using coords_loop_complete [of L E p cd del "sameAuthorCoords L del" 0 0 0 s t pu er s'] assms
  by (simp add: applyCoordDeletions_def)

section \<open>The scan of the backfill\<close>

text \<open>Every coordinate of a request of the list is tombstoned up to the request.\<close>

definition honoured :: "lib \<Rightarrow> mgmt_db \<Rightarrow> event \<Rightarrow> bool" where
  "honoured L m del \<longleftrightarrow> ev_kind del = KindDeletion \<longrightarrow>
     (\<forall>c \<in> set (sameAuthorCoords L del). tomb m (cr_raw c) (ev_created_at del))"

lemma honoured_mono: "gate_le L m m' \<Longrightarrow> honoured L m del \<Longrightarrow> honoured L m' del"
  by (auto simp: honoured_def intro: gate_le_tomb)

lemma gate_le_backfill_loop:
  "gate_le L (fst s) (fst (snd (backfill_loop L E p cd n dels sc er s)))"
proof (induction dels arbitrary: sc er s)
  case (Cons ev evs)
  obtain m w where s: "s = (m, w)" by (cases s)
  obtain t pu e s1 where a: "applyCoordDeletions L E p cd ev (m, w) = ((t, pu, e), s1)"
    by (metis prod.exhaust)
  have "gate_le L m (fst s1)" using gate_le_apply [of L "(m, w)" E p cd ev] a by simp
  with Cons.IH [of s1] show ?case by (auto simp: s a intro: gate_le_trans)
qed simp

lemma backfill_loop_complete:
  assumes "backfill_loop L E p cd n dels sc er s = (Inr (sc', er'), s')" and "\<not> cd (snd s')"
  shows "sc' = sc + length dels \<and> er \<le> er' \<and> (er' = er \<longrightarrow> (\<forall>del \<in> set dels. honoured L (fst s') del))"
  using assms
proof (induction dels arbitrary: sc er s)
  case (Cons ev evs)
  obtain m w where s: "s = (m, w)" by (cases s)
  obtain t pu e s1 where a: "applyCoordDeletions L E p cd ev (m, w) = ((t, pu, e), s1)"
    by (metis prod.exhaust)
  have rest: "backfill_loop L E p cd n evs (Suc sc) (er + e) s1 = (Inr (sc', er'), s')"
    using Cons.prems(1) by (simp add: s a split: if_splits)
  from Cons.IH [OF this Cons.prems(2)] have ih: "sc' = Suc sc + length evs" "er + e \<le> er'"
    "er' = er + e \<Longrightarrow> \<forall>del \<in> set evs. honoured L (fst s') del" by auto
  have "honoured L (fst s') ev" if "er' = er"
  proof -
    have "e = 0" using that ih(2) by simp
    moreover have "\<not> cd (snd s1)"
    proof (cases evs)
      case Nil
      with rest Cons.prems(2) show ?thesis by simp
    next
      case (Cons x xs)
      with rest show ?thesis by (cases s1) (auto split: if_splits)
    qed
    ultimately have "honoured L (fst s1) ev"
      using apply_complete [OF a] by (simp add: honoured_def)
    moreover have "gate_le L (fst s1) (fst s')"
      using gate_le_backfill_loop [of L s1 E p cd n evs "Suc sc" "er + e"] rest by simp
    ultimately show ?thesis by (rule honoured_mono [rotated])
  qed
  with ih show ?case by auto
qed simp

text \<open>The scan leaves the migration markers alone.\<close>

lemma migrations_frame [gate_simps]:
  "b_migrations (snd (MarkEventDeleted tx k m)) = b_migrations m"
  "b_migrations (snd (MarkCoordDeleted tx c t m)) = b_migrations m"
  "b_migrations (snd (ContentStore_Delete tx k m)) = b_migrations m"
  by (cases tx; simp add: MarkEventDeleted_def MarkCoordDeleted_def ContentStore_Delete_def split: option.split)+

lemma apply_migrations:
  "b_migrations (fst (snd (applyCoordDeletions L E p cd del s))) = b_migrations (fst s)"
  unfolding applyCoordDeletions_def
  using coords_loop_inv [of "sameAuthorCoords L del" "\<lambda>m. b_migrations m = b_migrations (fst s)"
      del L p s E cd "(0, 0, 0)"]
  by (simp add: migrations_frame)

lemma backfill_loop_migrations:
  "b_migrations (fst (snd (backfill_loop L E p cd n dels sc er s))) = b_migrations (fst s)"
proof (induction dels arbitrary: sc er s)
  case (Cons ev evs)
  then show ?case
    using apply_migrations [of L E p cd ev s] by (cases s) (auto split: prod.splits)
qed simp

text \<open>Without cancellation and failures the scan runs to its end without an error.\<close>

definition stores_work :: "'w tx_env \<Rightarrow> 'w eventPurger \<Rightarrow> bool" where
  "stores_work E p \<longleftrightarrow> (\<forall>w raw. te_mark_coord E w raw = None) \<and>
     (\<forall>i w. fst (deleteEverywhere (pg_reg p) i w) = None)"

lemma authorDelete_ok: "stores_work E p \<Longrightarrow> fst (authorDelete L E p i s) = None"
  by (cases s) (auto simp: stores_work_def authorDelete_def purge_def Let_def split: prod.splits
      dest!: arg_cong [of _ _ fst])

lemma delete_targets_ok:
  "stores_work E p \<Longrightarrow> snd (fst (delete_targets L E p is cnt s)) = snd cnt"
proof (induction "is" arbitrary: cnt s)
  case (Cons i "is")
  obtain pu er where cnt: "cnt = (pu, er)" by (cases cnt)
  from Cons authorDelete_ok [of E p L i s] show ?case
    by (auto simp: cnt split: prod.splits option.splits)
qed simp

lemma coords_loop_ok:
  "stores_work E p \<Longrightarrow> snd (snd (fst (coords_loop L E p cd del cs cnt s))) = snd (snd cnt)"
proof (induction cs arbitrary: cnt s)
  case (Cons c cs)
  obtain m w where s: "s = (m, w)" by (cases s)
  obtain t pu er where cnt: "cnt = (t, pu, er)" by (cases cnt)
  obtain m1 where mk: "MarkCoordDeleted None (cr_raw c) (ev_created_at del) m = (None, m1)"
    by (simp add: MarkCoordDeleted_def)
  have tx: "te_mark_coord E w (cr_raw c) = None" using Cons.prems by (simp add: stores_work_def)
  from Cons delete_targets_ok [of E p L "coord_targets L p c del w" "(pu, er)" "(m1, w)"]
  show ?case by (auto simp: s cnt tx mk split: prod.splits)
qed simp

lemma backfill_loop_ok:
  assumes "stores_work E p"
  shows "fst (backfill_loop L E p (\<lambda>_. False) n dels sc er s) = Inr (sc + length dels, er)"
proof (induction dels arbitrary: sc er s)
  case (Cons ev evs)
  obtain m w where s: "s = (m, w)" by (cases s)
  have e: "snd (snd (fst (applyCoordDeletions L E p (\<lambda>_. False) ev (m, w)))) = 0"
    using coords_loop_ok [OF assms] by (simp add: applyCoordDeletions_def)
  obtain t pu s1 where "applyCoordDeletions L E p (\<lambda>_. False) ev (m, w) = ((t, pu, 0), s1)"
    using e by (metis prod.collapse)
  with Cons show ?case by (simp add: s)
qed simp

section \<open>What a request may block\<close>

text \<open>
  \<open>blocked_by L p del ev\<close>: the reasons a request has for blocking an event: one of its
  coordinates, up to its timestamp, or the id of a stored event of its author.
\<close>

definition blocked_by :: "lib \<Rightarrow> 'w eventPurger \<Rightarrow> event \<Rightarrow> event \<Rightarrow> bool" where
  "blocked_by L p del ev \<longleftrightarrow>
     (\<exists>c \<in> set (sameAuthorCoords L del). eventCoord L ev = Some (cr_raw c) \<and>
        ts_le (ev_created_at ev) (ev_created_at del)) \<or>
     (\<exists>c \<in> set (sameAuthorCoords L del). \<exists>w. \<exists>t \<in> set (rs_query (pg_bolt p) (coord_filter L c del) 1000 w) \<union>
        set (registry_fetch (pg_reg p) (coord_filter L c del) 250 w).
        is_target L c del t \<and> id_hex L (ev_id ev) = id_hex L (ev_id t))"

lemma coord_targetsD:
  assumes "i \<in> set (coord_targets L p c del w)"
  shows "\<exists>t \<in> set (rs_query (pg_bolt p) (coord_filter L c del) 1000 w) \<union>
    set (registry_fetch (pg_reg p) (coord_filter L c del) 250 w). is_target L c del t \<and> ev_id t = i"
  using assms dedup_from_subset by (fastforce simp: coord_targets_def Let_def)

lemma blocked_after_mark_coord:
  assumes "isBlocked L (snd (MarkCoordDeleted tx c t m)) ev"
  shows "isBlocked L m ev \<or> eventCoord L ev = Some c \<and> ts_le (ev_created_at ev) t"
  using assms
  by (cases tx) (auto simp: isBlocked_iff MarkCoordDeleted_frame stored_until_mark
      split: if_splits option.splits)

lemma blocked_after_mark_id:
  assumes "isBlocked L (snd (MarkEventDeleted tx k m)) ev"
  shows "isBlocked L m ev \<or> id_hex L (ev_id ev) = k"
  using assms
  by (cases tx) (auto simp: isBlocked_iff MarkEventDeleted_def stored_until_def split: if_splits)

lemma blocked_after_content:
  "isBlocked L (snd (ContentStore_Delete tx k m)) ev = isBlocked L m ev"
  by (cases tx) (auto simp: ContentStore_Delete_def isBlocked_iff stored_until_def)

lemma apply_blocks_only:
  assumes "isBlocked L (fst (snd (applyCoordDeletions L E p cd del s))) ev"
  shows "isBlocked L (fst s) ev \<or> blocked_by L p del ev"
proof (cases "ev_kind del = KindDeletion")
  case True
  let ?P = "\<lambda>m. isBlocked L m ev \<longrightarrow> isBlocked L (fst s) ev \<or> blocked_by L p del ev"
  have "?P (fst (snd (coords_loop L E p cd del (sameAuthorCoords L del) (0, 0, 0) s)))"
  proof (rule coords_loop_inv)
    fix tx c m
    assume "c \<in> set (sameAuthorCoords L del)" and "?P m"
    then show "?P (snd (MarkCoordDeleted tx (cr_raw c) (ev_created_at del) m))"
      using blocked_after_mark_coord [of L tx "cr_raw c" "ev_created_at del" m ev]
      unfolding blocked_by_def by blast
  next
    fix tx c w i m
    assume "c \<in> set (sameAuthorCoords L del)" and "i \<in> set (coord_targets L p c del w)" and "?P m"
    then show "?P (snd (MarkEventDeleted tx (id_hex L i) m))"
      using blocked_after_mark_id coord_targetsD unfolding blocked_by_def by fast
  qed (auto simp: blocked_after_content)
  then show ?thesis using assms True by (simp add: applyCoordDeletions_def)
next
  case False
  then show ?thesis using assms by (simp add: applyCoordDeletions_def)
qed

text \<open>
  What the relay may rely on in its stores: they return events of the kinds that were asked for, and the id of an
  event is the hash of its content, so an event they return with the id of \<open>ev\<close> is \<open>ev\<close>.
\<close>

definition serves_genuine :: "'w eventPurger \<Rightarrow> event \<Rightarrow> bool" where
  "serves_genuine p ev \<longleftrightarrow> (\<forall>f n w. \<forall>t \<in> set (rs_query (pg_bolt p) f n w) \<union> set (registry_fetch (pg_reg p) f n w).
     (f_kinds f \<noteq> [] \<longrightarrow> ev_kind t \<in> set (f_kinds f)) \<and> (ev_id t = ev_id ev \<longrightarrow> t = ev))"

lemma blocked_by_coordinate:
  assumes "lib_ok L" and "serves_genuine p ev" and "blocked_by L p del ev"
  shows "\<exists>c \<in> set (sameAuthorCoords L del). eventCoord L ev = Some (cr_raw c) \<and> ts_le (ev_created_at ev) (ev_created_at del)"
  using assms(3) unfolding blocked_by_def
proof (elim disjE bexE exE conjE)
  fix c w t
  assume c: "c \<in> set (sameAuthorCoords L del)" and t: "is_target L c del t" and "id_hex L (ev_id ev) = id_hex L (ev_id t)"
    and served: "t \<in> set (rs_query (pg_bolt p) (coord_filter L c del) 1000 w) \<union> set (registry_fetch (pg_reg p) (coord_filter L c del) 250 w)"
  then have "ev_id t = ev_id ev" using assms(1) by (simp add: id_hex_inject)
  moreover obtain n where "t \<in> set (rs_query (pg_bolt p) (coord_filter L c del) n w) \<union> set (registry_fetch (pg_reg p) (coord_filter L c del) n w)"
    using served by blast
  from assms(2) [unfolded serves_genuine_def, rule_format, OF this] have "ev_kind t = cr_kind c \<and> (ev_id t = ev_id ev \<longrightarrow> t = ev)"
    by (simp add: coord_filter_def)
  ultimately have "t = ev" "ev_kind ev = cr_kind c" by auto
  moreover from this have "eventCoord L ev = Some (cr_raw c)"
    using t by (intro eventCoord_of_ref [OF c assms(1)]) (auto simp: is_target_def)
  ultimately show ?thesis using c t by (auto simp: is_target_def)
qed blast

lemma coordinate_of_author:
  assumes "lib_ok L" and "c \<in> set (sameAuthorCoords L del)" and "eventCoord L ev = Some (cr_raw c)"
  shows "ev_pubkey ev = ev_pubkey del"
proof -
  obtain d where "cr_raw c = coord_str (ev_kind ev) (pk_hex L (ev_pubkey ev)) d"
    using assms(3) by (metis eventCoord_def option.distinct(1) option.inject)
  then have "pk_hex L (ev_pubkey ev) = pk_hex L (ev_pubkey del)"
    using sameAuthorCoordsD(3) [OF assms(2)] assms(1) by (simp add: coord_str_inject pk_hex_no_colon)
  with assms(1) show ?thesis by (simp add: pk_hex_inject)
qed

section \<open>The backfill as a whole\<close>

definition kind5 :: filter where
  "kind5 = empty_filter\<lparr>f_kinds := [KindDeletion]\<rparr>"

lemma MarkMigrationDone_None:
  "MarkMigrationDone tx k m = (None, m') \<Longrightarrow> MigrationDone m' k \<and> gate_le L m m'"
  by (cases tx) (auto simp: MarkMigrationDone_def db_update_def MigrationDone_def gate_le_def
      isBlocked_iff stored_until_def)

lemma MarkMigrationDone_Some: "MarkMigrationDone tx k m = (Some e, m') \<Longrightarrow> m' = m"
  by (cases tx) (auto simp: MarkMigrationDone_def db_update_def)

lemma backfill_success:
  assumes "backfillCoordTombstones L E p cd force ct mt (m, w) = (None, m', w')"
    and "force \<or> \<not> MigrationDone m migrationCoordTombstonesV1"
  shows "MigrationDone m' migrationCoordTombstonesV1 \<and>
    (\<forall>del \<in> set (rs_query (pg_bolt p) kind5 (2 ^ 63 - 1) w). honoured L m' del) \<and>
    rs_count (pg_bolt p) kind5 w =
      (word_of_nat (length (rs_query (pg_bolt p) kind5 (2 ^ 63 - 1) w)), None)"
proof -
  let ?dels = "rs_query (pg_bolt p) kind5 (2 ^ 63 - 1) w"
  obtain a ce where c: "rs_count (pg_bolt p) kind5 w = (a, ce)" by (cases "rs_count (pg_bolt p) kind5 w")
  obtain r m1 w1 where l: "backfill_loop L E p cd (length ?dels) ?dels 0 0 (m, w) = (r, m1, w1)"
    by (metis prod.exhaust)
  have ce: "ce = None" "word_of_nat (length ?dels) = a"
    using assms c unfolding backfillCoordTombstones_def kind5_def [symmetric]
    by (auto simp: Let_def split: option.splits if_splits)
  obtain sc where r: "r = Inr (sc, 0)" "\<not> cd w1" and mk: "MarkMigrationDone mt migrationCoordTombstonesV1 m1 = (None, m')"
    using assms c ce l unfolding backfillCoordTombstones_def kind5_def [symmetric]
    by (auto simp: Let_def split: option.splits if_splits sum.splits prod.splits)
  have "\<forall>del \<in> set ?dels. honoured L m1 del"
    using backfill_loop_complete [of L E p cd "length ?dels" ?dels 0 0 "(m, w)" sc 0 "(m1, w1)"] l r by simp
  with MarkMigrationDone_None [OF mk, of L] c ce show ?thesis by (auto intro: honoured_mono)
qed

lemma backfill_completes_aux:
  assumes "stores_work E p" and "force \<or> \<not> MigrationDone m migrationCoordTombstonesV1"
    and "rs_count (pg_bolt p) kind5 w =
      (word_of_nat (length (rs_query (pg_bolt p) kind5 (2 ^ 63 - 1) w)), None)"
  shows "fst (backfillCoordTombstones L E p (\<lambda>_. False) force None None (m, w)) = None"
proof -
  let ?dels = "rs_query (pg_bolt p) kind5 (2 ^ 63 - 1) w"
  obtain m1 w1 where "backfill_loop L E p (\<lambda>_. False) (length ?dels) ?dels 0 0 (m, w) =
      (Inr (length ?dels, 0), m1, w1)"
    using backfill_loop_ok [OF assms(1), of L "length ?dels" ?dels 0 0 "(m, w)"] by (metis add_0 prod.collapse)
  then show ?thesis using assms(2,3)
    by (auto simp: backfillCoordTombstones_def kind5_def [symmetric] Let_def MarkMigrationDone_def)
qed

lemma backfill_failure:
  assumes "backfillCoordTombstones L E p cd force ct mt (m, w) = (Some e, m', w')"
  shows "b_migrations m' = b_migrations m"
  using assms backfill_loop_migrations [of L E p cd _ _ 0 0 "(m, w)"]
  unfolding backfillCoordTombstones_def
  by (auto simp: Let_def split: option.splits if_splits sum.splits prod.splits
      dest!: MarkMigrationDone_Some) (metis fst_conv snd_conv)+

section \<open>Removal from every collection\<close>

text \<open>A view is a query of one store. \<open>gone view i w\<close>: no query through it returns the id.\<close>

type_synonym 'w view = "filter \<Rightarrow> int \<Rightarrow> 'w \<Rightarrow> event list"

definition gone :: "'w view \<Rightarrow> event_id \<Rightarrow> 'w \<Rightarrow> bool" where
  "gone view i w \<longleftrightarrow> (\<forall>f n. \<forall>ev \<in> set (view f n w). ev_id ev \<noteq> i)"

lemma gone_delete_loop:
  assumes "\<forall>ct \<in> set cts. \<forall>w. gone v i w \<longrightarrow> gone v i (snd (ct_deleteID ct i w))" and "gone v i w"
  shows "gone v i (snd (snd (delete_loop i cts fe lg w)))"
  using assms by (induction cts arbitrary: fe lg w) (auto split: prod.splits option.splits; force)+

lemma delete_loop_gone:
  assumes "\<forall>ct \<in> set cts. \<forall>w. gone v i w \<longrightarrow> gone v i (snd (ct_deleteID ct i w))"
    and "fst (delete_loop i cts None lg w) = None"
    and "ct \<in> set cts" and "\<forall>w. fst (ct_deleteID ct i w) = None \<longrightarrow> gone v i (snd (ct_deleteID ct i w))"
  shows "gone v i (snd (snd (delete_loop i cts None lg w)))"
  using assms(1-3)
proof (induction cts arbitrary: w)
  case (Cons c cts)
  obtain e w1 where d: "ct_deleteID c i w = (e, w1)" by (cases "ct_deleteID c i w")
  with Cons.prems have e: "e = None" using delete_loop_first [of i cts] by (cases e) auto
  show ?case
  proof (cases "ct \<in> set cts")
    case True
    with Cons d e show ?thesis by simp
  next
    case False
    with Cons.prems(3) have "gone v i w1" using assms(4) d e by (metis fst_conv set_ConsD snd_conv)
    with Cons.prems(1) gone_delete_loop [of cts v i w1] d e show ?thesis by simp
  qed
qed simp

text \<open>
  The views behind the registry: each is emptied of the id by the delete of the event database or by that of a
  collection, and nothing else the deletion does brings the id back.
\<close>

lemma author_delete_clears:
  assumes reg: "pg_reg p = newRegistry types"
    and fetch: "\<And>ct f n w ev. ct \<in> set types \<Longrightarrow> ev \<in> set (ct_fetch ct f n w) \<Longrightarrow> \<exists>v \<in> V. \<exists>f n. ev \<in> set (v f n w)"
    and clear: "\<And>v. v \<in> V \<Longrightarrow> (\<forall>w. fst (rs_delete (pg_bolt p) i w) = None \<longrightarrow> gone v i (snd (rs_delete (pg_bolt p) i w))) \<or>
      (\<exists>ct \<in> set types. \<forall>w. fst (ct_deleteID ct i w) = None \<longrightarrow> gone v i (snd (ct_deleteID ct i w)))"
    and keep: "\<And>v w. v \<in> V \<Longrightarrow> gone v i w \<Longrightarrow> (\<forall>ct \<in> set types. gone v i (snd (ct_deleteID ct i w))) \<and>
      (\<forall>q. pg_queueDelete p = Some q \<longrightarrow> gone v i (q i w)) \<and> (\<forall>h g w0. pg_beforeDelete p = Some h \<longrightarrow> h i w0 = Some g \<longrightarrow> gone v i (g w))"
    and del: "authorDelete L E p i s = (None, m', w')" and bolt: "fst (rs_delete (pg_bolt p) i (snd s)) = None"
  shows "\<forall>ev \<in> set (registry_fetch (pg_reg p) f n w'). ev_id ev \<noteq> i"
proof -
  obtain m w where s: "s = (m, w)" by (cases s)
  let ?w1 = "snd (rs_delete (pg_bolt p) i w)"
  obtain r lg w2 where d: "delete_loop i types None [] ?w1 = (r, lg, w2)" by (metis prod.exhaust)
  let ?w3 = "case pg_queueDelete p of None \<Rightarrow> w2 | Some q \<Rightarrow> q i w2"
  have r: "r = None" and w': "w' = (case (case pg_beforeDelete p of None \<Rightarrow> None | Some h \<Rightarrow> h i w) of None \<Rightarrow> ?w3 | Some g \<Rightarrow> g ?w3)"
    using del d reg by (auto simp: s authorDelete_def purge_def Let_def deleteEverywhere_def split: prod.splits)
  have "gone v i w'" if v: "v \<in> V" for v
  proof -
    have kept: "\<forall>ct \<in> set types. \<forall>w. gone v i w \<longrightarrow> gone v i (snd (ct_deleteID ct i w))" using keep [OF v] by blast
    have callback: "gone v i (g w)" if "gone v i w" "pg_beforeDelete p = Some h" "h i w0 = Some g" for h g w w0
      using keep [OF v that(1)] that(2,3) by blast
    have "gone v i w2"
      using clear [OF v]
    proof
      assume "\<forall>w. fst (rs_delete (pg_bolt p) i w) = None \<longrightarrow> gone v i (snd (rs_delete (pg_bolt p) i w))"
      with bolt s have "gone v i ?w1" by simp
      with gone_delete_loop [OF kept, of ?w1 None "[]"] d show ?thesis by simp
    next
      assume "\<exists>ct \<in> set types. \<forall>w. fst (ct_deleteID ct i w) = None \<longrightarrow> gone v i (snd (ct_deleteID ct i w))"
      with delete_loop_gone [OF kept, of "[]" ?w1] d r show ?thesis by auto
    qed
    then have "gone v i ?w3" using keep [OF v] by (auto split: option.split)
    then show ?thesis unfolding w' by (auto split: option.split intro: callback)
  qed
  moreover have "\<exists>v \<in> V. \<exists>f n. ev \<in> set (v f n w')" if ev: "ev \<in> set (fanout (newRegistry types) f n w')" for ev
  proof -
    obtain j where j: "j \<in> set (selected (newRegistry types) f)" and "ev \<in> set (ct_fetch (types ! j) f n w')"
      using ev by (auto simp: fanout_def)
    with fetch [OF nth_mem [OF selected_range [OF j]]] show ?thesis by blast
  qed
  ultimately show ?thesis unfolding reg using registry_fetch_subset [of "newRegistry types" f n w'] by (fastforce simp: gone_def)
qed

section \<open>Properties\<close>

subsection \<open>A store for the worked examples\<close>

text \<open>A store that is the list of its events.\<close>

definition demo_store :: "event list raw_store" where
  "demo_store = \<lparr>
     rs_query = (\<lambda>f n w. List.filter (\<lambda>ev. f_kinds f = [] \<or> ev_kind ev \<in> set (f_kinds f)) w),
     rs_count = (\<lambda>f w. (word_of_nat (length (List.filter (\<lambda>ev. f_kinds f = [] \<or> ev_kind ev \<in> set (f_kinds f)) w)), None)),
     rs_save = (\<lambda>ev w. (None, w @ [ev])),
     rs_replace = (\<lambda>ev w. (None, w @ [ev])),
     rs_delete = (\<lambda>i w. (None, List.filter (\<lambda>ev. ev_id ev \<noteq> i) w))\<rparr>"

definition demo_type :: "event list content_type" where
  "demo_type = \<lparr>ct_kinds = [30142], ct_validate = (\<lambda>_. (False, [])), ct_store = (\<lambda>ev w. w @ [ev]),
     ct_fetch = (\<lambda>f n w. w), ct_count = (\<lambda>f w. (word_of_nat (length w), None)),
     ct_deleteID = (\<lambda>i w. (None, List.filter (\<lambda>ev. ev_id ev \<noteq> i) w)), ct_chunked = False\<rparr>"

definition demo_purger :: "event list eventPurger" where
  "demo_purger = \<lparr>pg_bolt = demo_store, pg_has_content = True, pg_reg = newRegistry [demo_type],
     pg_ban_event = (\<lambda>i r m. (None, m)), pg_queueDelete = None, pg_beforeDelete = None\<rparr>"

definition demo_tx :: "event list tx_env" where
  "demo_tx = \<lparr>te_mark_id = (\<lambda>_ _. None), te_mark_coord = (\<lambda>_ _. None), te_content = (\<lambda>_ _. None)\<rparr>"

lemma demo_purger_works: "stores_work demo_tx demo_purger"
  by (simp add: stores_work_def demo_tx_def demo_purger_def deleteEverywhere_def newRegistry_def demo_type_def)

subsection \<open>Deletion requests\<close>

lemma apply_blocks_versions:
  assumes "lib_ok L" and "ev_kind del = KindDeletion" and "is_addressable L k"
    and "(''a'', coord_str k (pk_hex L (ev_pubkey del)) d) \<in> set (tag_pairs (ev_tags del))"
    and "\<not> ctx_done (snd (snd (applyCoordDeletions L E p ctx_done del s)))"
    and "\<forall>w. te_mark_coord E w (coord_str k (pk_hex L (ev_pubkey del)) d) = None"
    and "ev_kind ev = k" and "ev_pubkey ev = ev_pubkey del" and "get_d L (ev_tags ev) = d"
    and "ts_le (ev_created_at ev) (ev_created_at del)"
  shows "isBlocked L (fst (snd (applyCoordDeletions L E p ctx_done del s))) ev"
proof -
  let ?raw = "coord_str k (pk_hex L (ev_pubkey del)) d"
  let ?m = "fst (snd (applyCoordDeletions L E p ctx_done del s))"
  have "tomb ?m ?raw (ev_created_at del)"
    using coords_loop_tombstones [OF _ _ sameAuthorCoordsI [OF assms(1,3,4)], where cd = ctx_done and E = E and p = p and cnt = "(0, 0, 0)" and s = s] assms(2,5,6)
    by (simp add: applyCoordDeletions_def)
  moreover have "eventCoord L ev = Some ?raw" using assms by (simp add: eventCoord_def)
  ultimately show ?thesis
    using assms(10) by (auto simp: isBlocked_iff tomb_iff intro: order_trans)
qed

text \<open>C5. A deletion request that names an addressable coordinate of its own author is honoured: after
  an uncancelled run whose tombstone transactions commit, the gate blocks every version of the
  coordinate up to the request's timestamp, whatever the stores answered in between.\<close>

theorem deletion_blocks_every_version:
  assumes "lib_ok L" and "ev_kind del = KindDeletion" and "is_addressable L k"
    and "(''a'', coord_str k (pk_hex L (ev_pubkey del)) d) \<in> set (tag_pairs (ev_tags del))"
    and "\<forall>w. \<not> ctx_done w" and "\<forall>w raw. te_mark_coord E w raw = None"
    and "ev_kind ev = k" and "ev_pubkey ev = ev_pubkey del" and "get_d L (ev_tags ev) = d"
    and "ts_le (ev_created_at ev) (ev_created_at del)"
  shows "isBlocked L (fst (snd (applyCoordDeletions L E p ctx_done del s))) ev"
  by (rule apply_blocks_versions [OF assms(1-4) _ _ assms(7-10)]) (simp_all add: assms(5,6))

lemma deletion_blocks_every_version_witness:
  "isBlocked demo_lib (fst (snd (applyCoordDeletions demo_lib demo_tx demo_purger (\<lambda>_. False)
     (demo_event 9 KindDeletion 100 [[''a'', coord_str 30142 (to_hex demo_pk) ''x'']])
     (fresh_db, [demo_event 1 30142 50 [[''d'', ''x'']]]))))
   (demo_event 1 30142 50 [[''d'', ''x'']])"
  by (rule deletion_blocks_every_version [where k = 30142 and d = "''x''"])
    (simp_all add: demo_lib_ok demo_lib_def [THEN arg_cong, of is_addressable]
      demo_lib_def [THEN arg_cong, of pk_hex] demo_lib_def [THEN arg_cong, of get_d]
      demo_event_def demo_tx_def tag_pairs_def tag_pair_def)

text \<open>C6. A deletion request blocks nobody else's events, and of its author's only what it names: an event that the gate lets
  through before the request and blocks after it is a version, not newer than the request, of a coordinate that
  the request names and that belongs to its author, whatever failed on the way.\<close>

theorem deletion_blocks_only_own_events:
  assumes "lib_ok L" and "serves_genuine p ev"
    and "isBlocked L (fst (snd (applyCoordDeletions L E p ctx_done del s))) ev" and "\<not> isBlocked L (fst s) ev"
  shows "ev_pubkey ev = ev_pubkey del \<and> ts_le (ev_created_at ev) (ev_created_at del) \<and>
    (\<exists>c \<in> set (sameAuthorCoords L del). eventCoord L ev = Some (cr_raw c))"
proof -
  have "blocked_by L p del ev" using apply_blocks_only [OF assms(3)] assms(4) by blast
  from blocked_by_coordinate [OF assms(1,2) this] obtain c where
    "c \<in> set (sameAuthorCoords L del)" "eventCoord L ev = Some (cr_raw c)" "ts_le (ev_created_at ev) (ev_created_at del)" by blast
  with coordinate_of_author [OF assms(1)] show ?thesis by blast
qed

text \<open>A store that holds one event or nothing, and the request that names it.\<close>

definition demo_target :: event where
  "demo_target = demo_event 1 30142 50 [[''d'', ''x'']]"

definition demo_held :: "filter \<Rightarrow> int \<Rightarrow> bool \<Rightarrow> event list" where
  "demo_held f n w = (if w \<and> (f_kinds f = [] \<or> 30142 \<in> set (f_kinds f)) then [demo_target] else [])"

definition demo_holder :: "bool eventPurger" where
  "demo_holder = \<lparr>
     pg_bolt = \<lparr>rs_query = demo_held, rs_count = (\<lambda>f w. (0, None)), rs_save = (\<lambda>_ w. (None, w)), rs_replace = (\<lambda>_ w. (None, w)),
       rs_delete = (\<lambda>i w. (None, w \<and> i \<noteq> [1]))\<rparr>,
     pg_has_content = True,
     pg_reg = newRegistry [\<lparr>ct_kinds = [30142], ct_validate = (\<lambda>_. (False, [])), ct_store = (\<lambda>_ w. w), ct_fetch = demo_held,
       ct_count = (\<lambda>f w. (0, None)), ct_deleteID = (\<lambda>i w. (None, w \<and> i \<noteq> [1])), ct_chunked = False\<rparr>],
     pg_ban_event = (\<lambda>i r m. (None, m)), pg_queueDelete = Some (\<lambda>_ w. w), pg_beforeDelete = Some (\<lambda>_ _. None)\<rparr>"

lemma demo_holder_genuine: "serves_genuine demo_holder demo_target"
proof -
  have held: "t = demo_target \<and> (f_kinds f \<noteq> [] \<longrightarrow> ev_kind t \<in> set (f_kinds f))" if "t \<in> set (demo_held f n w)" for t f n w
    using that by (auto simp: demo_held_def demo_target_def demo_event_def split: if_splits)
  have "set (fanout (pg_reg demo_holder) f n w) \<subseteq> set (demo_held f n w)" for f n w
  proof
    fix ev
    assume "ev \<in> set (fanout (pg_reg demo_holder) f n w)"
    then obtain j where "j \<in> set (selected (pg_reg demo_holder) f)" and "ev \<in> set (ct_fetch (rg_types (pg_reg demo_holder) ! j) f n w)"
      by (auto simp: fanout_def)
    moreover from this have "j = 0" using selected_range by (fastforce simp: demo_holder_def)
    ultimately show "ev \<in> set (demo_held f n w)" by (simp add: demo_holder_def)
  qed
  then have reg: "set (registry_fetch (pg_reg demo_holder) f n w) \<subseteq> set (demo_held f n w)" for f n w
    using registry_fetch_subset by (rule subset_trans [rotated])
  show ?thesis
    unfolding serves_genuine_def
  proof (intro allI ballI)
    fix f n w t
    assume "t \<in> set (rs_query (pg_bolt demo_holder) f n w) \<union> set (registry_fetch (pg_reg demo_holder) f n w)"
    with reg [of f n w] have "t \<in> set (demo_held f n w)" by (auto simp: demo_holder_def)
    from held [OF this] show "(f_kinds f \<noteq> [] \<longrightarrow> ev_kind t \<in> set (f_kinds f)) \<and> (ev_id t = ev_id demo_target \<longrightarrow> t = demo_target)" by blast
  qed
qed

lemma deletion_blocks_only_own_events_witness:
  "\<exists>c \<in> set (sameAuthorCoords demo_lib (demo_event 9 KindDeletion 100 [[''a'', coord_str 30142 (to_hex demo_pk) ''x'']])).
     eventCoord demo_lib demo_target = Some (cr_raw c)"
proof -
  let ?del = "demo_event 9 KindDeletion 100 [[''a'', coord_str 30142 (to_hex demo_pk) ''x'']]"
  have "isBlocked demo_lib (fst (snd (applyCoordDeletions demo_lib \<lparr>te_mark_id = \<lambda>_ _. None, te_mark_coord = \<lambda>_ _. None,
      te_content = \<lambda>_ _. None\<rparr> demo_holder (\<lambda>_. False) ?del (fresh_db, True)))) demo_target"
    by (rule apply_blocks_versions [where k = 30142 and d = "''x''"])
      (simp_all add: demo_lib_ok demo_lib_def [THEN arg_cong, of is_addressable]
        demo_lib_def [THEN arg_cong, of pk_hex] demo_lib_def [THEN arg_cong, of get_d]
        demo_event_def demo_target_def demo_tx_def tag_pairs_def tag_pair_def)
  moreover have "\<not> isBlocked demo_lib (fst (fresh_db, True)) demo_target"
    by (simp add: isBlocked_iff stored_until_def)
  ultimately show ?thesis using deletion_blocks_only_own_events [OF demo_lib_ok demo_holder_genuine] by blast
qed

text \<open>C7. The startup backfill records its marker only after a complete scan: when the marker is there afterwards and was
  not before, or when it reports success and was not skipped, then it reports success, the marker is set, the store's
  count agrees with the number of requests it read, and every coordinate of every request is tombstoned up to
  the request's timestamp, however cancellation and failing transactions interfered. A run that reports an
  error leaves all markers as they were.\<close>

theorem backfill_marks_only_complete_scans:
  assumes "backfillCoordTombstones L E p ctx_done force check_tx mark_tx (m, w) = (err, m', w')"
  shows "(\<not> MigrationDone m migrationCoordTombstonesV1 \<and> MigrationDone m' migrationCoordTombstonesV1 \<or>
      err = None \<and> (force \<or> \<not> MigrationDone m migrationCoordTombstonesV1) \<longrightarrow>
      err = None \<and> MigrationDone m' migrationCoordTombstonesV1 \<and>
      (\<forall>del \<in> set (rs_query (pg_bolt p) kind5 (2 ^ 63 - 1) w). honoured L m' del) \<and>
      rs_count (pg_bolt p) kind5 w = (word_of_nat (length (rs_query (pg_bolt p) kind5 (2 ^ 63 - 1) w)), None)) \<and>
    (err \<noteq> None \<longrightarrow> b_migrations m' = b_migrations m)"
proof (cases err)
  case None
  then show ?thesis using backfill_success [OF assms [unfolded None]] by blast
next
  case (Some e)
  from backfill_failure [OF assms [unfolded Some]] have "b_migrations m' = b_migrations m" .
  with Some show ?thesis by (auto simp: MigrationDone_def)
qed

lemma backfill_marks_only_complete_scans_witness:
  "honoured demo_lib (fst (snd (backfillCoordTombstones demo_lib demo_tx demo_purger (\<lambda>_. False) False None
     None (fresh_db, [demo_event 9 KindDeletion 100 [[''a'', coord_str 30142 (to_hex demo_pk) ''x'']]]))))
     (demo_event 9 KindDeletion 100 [[''a'', coord_str 30142 (to_hex demo_pk) ''x'']])"
proof -
  let ?w = "[demo_event 9 KindDeletion 100 [[''a'', coord_str 30142 (to_hex demo_pk) ''x'']]]"
  have nd: "\<not> MigrationDone fresh_db migrationCoordTombstonesV1"
    by (simp add: MigrationDone_def)
  have "fst (backfillCoordTombstones demo_lib demo_tx demo_purger (\<lambda>_. False) False None None
      (fresh_db, ?w)) = None"
    using backfill_completes_aux [OF demo_purger_works disjI2 [OF nd]] by (simp add: demo_purger_def demo_store_def)
  then obtain m' w' where r: "backfillCoordTombstones demo_lib demo_tx demo_purger (\<lambda>_. False) False None None
      (fresh_db, ?w) = (None, m', w')" by (metis prod.collapse)
  from backfill_marks_only_complete_scans [OF r] nd
  have "\<forall>del \<in> set (rs_query (pg_bolt demo_purger) kind5 (2 ^ 63 - 1) ?w). honoured demo_lib m' del" by blast
  then show ?thesis unfolding r by (simp add: demo_purger_def demo_store_def kind5_def demo_event_def)
qed

text \<open>The startup backfill terminates with success and a recorded marker whenever nothing fails: no
  cancellation, committing transactions, collections that delete, a count that agrees.\<close>

theorem backfill_completes:
  assumes "stores_work E p" and "force \<or> \<not> MigrationDone m migrationCoordTombstonesV1"
    and "rs_count (pg_bolt p) kind5 w =
      (word_of_nat (length (rs_query (pg_bolt p) kind5 (2 ^ 63 - 1) w)), None)"
  shows "\<exists>m' w'. backfillCoordTombstones L E p (\<lambda>_. False) force None None (m, w) = (None, m', w') \<and>
    MigrationDone m' migrationCoordTombstonesV1"
proof -
  obtain m' w' where "backfillCoordTombstones L E p (\<lambda>_. False) force None None (m, w) = (None, m', w')"
    using backfill_completes_aux [OF assms] by (metis prod.collapse)
  with backfill_success [OF this assms(2)] show ?thesis by blast
qed

lemma backfill_completes_witness:
  "\<exists>m' w'. backfillCoordTombstones demo_lib demo_tx demo_purger (\<lambda>_. False) True None None
     (fresh_db, [demo_event 9 KindDeletion 100 []]) = (None, m', w') \<and>
     MigrationDone m' migrationCoordTombstonesV1"
  by (rule backfill_completes [OF demo_purger_works]) (simp_all add: demo_purger_def demo_store_def)

text \<open>A failed backfill is retried at the next start: when it reports any error, the migration
  markers are as they were.\<close>

theorem backfill_failure_keeps_marker:
  assumes "fst (backfillCoordTombstones L E p ctx_done force check_tx mark_tx s) \<noteq> None"
  shows "MigrationDone (fst (snd (backfillCoordTombstones L E p ctx_done force check_tx mark_tx s))) k =
    MigrationDone (fst s) k"
proof -
  obtain m w where s: "s = (m, w)" by (cases s)
  obtain e m' w' where "backfillCoordTombstones L E p ctx_done force check_tx mark_tx (m, w) = (Some e, m', w')"
    using assms unfolding s by (metis option.exhaust prod.collapse)
  with backfill_failure [OF this] show ?thesis by (simp add: s MigrationDone_def)
qed

lemma backfill_failure_keeps_marker_witness:
  "MigrationDone (fst (snd (backfillCoordTombstones demo_lib demo_tx demo_purger (\<lambda>_. True) True None None
     (fresh_db, [])))) migrationCoordTombstonesV1 = MigrationDone fresh_db migrationCoordTombstonesV1"
  using backfill_failure_keeps_marker [of demo_lib demo_tx demo_purger "\<lambda>_. True" True None None
      "(fresh_db, [])" migrationCoordTombstonesV1]
  by (simp add: backfillCoordTombstones_def demo_purger_def demo_store_def)

end
