(* ===== verification/Query.thy ===== *)
theory Query
  imports Expand Purge
begin

text \<open>
  \<open>calendar_rerank.go\<close>, \<open>query_budget.go\<close>, \<open>calendarFetch\<close> of \<open>calendar.go\<close> and the query side of
  \<open>main.go\<close>: how a stored query is answered. The calendar and semantic packages of the relay library are
  the parameters \<open>cal_lib\<close> and \<open>chunk_rerank\<close>; a sequence of events is the list it would push.
\<close>

section \<open>The calendar library\<close>

record calendarFilter =
  cf_Unsatisfiable :: bool
  cf_Geohashes :: "string list"
  cf_StartAfter :: "64 word"
  cf_StartBefore :: "64 word"
  cf_EndAfter :: "64 word"
  cf_EndBefore :: "64 word"

text \<open>\<open>cl_Times\<close> is the start and the end \<open>nip52.ParseCalendarEvent\<close> finds, as Unix seconds, \<open>None\<close> for Go's zero time.\<close>

record cal_lib =
  cl_HasCalendarKinds :: "filter \<Rightarrow> bool"
  cl_ExtractCalendarFilter :: "filter \<Rightarrow> calendarFilter"
  cl_RemoveCalendarTags :: "filter \<Rightarrow> filter"
  cl_HasCalendarParams :: "calendarFilter \<Rightarrow> bool"
  cl_IsCalendarEventKind :: "kind \<Rightarrow> bool"
  cl_Times :: "event \<Rightarrow> 64 word option \<times> 64 word option"

type_synonym fetchFunc = "filter \<Rightarrow> int \<Rightarrow> event list"

text \<open>\<open>semantic.ChunkRerankQuery\<close>, with its searcher and signing key fixed.\<close>

type_synonym chunk_rerank = "filter \<Rightarrow> fetchFunc \<Rightarrow> int \<Rightarrow> event list"

definition KindSearchSnippet :: kind where "KindSearchSnippet = 21142"

section \<open>The calendar window\<close>

definition inCalendarWindow :: "cal_lib \<Rightarrow> event \<Rightarrow> calendarFilter \<Rightarrow> bool" where
  "inCalendarWindow C ev cf = (case cl_Times C ev of (tstart, tend) \<Rightarrow>
     if sint (cf_StartAfter cf) > 0 \<and> (case tstart of None \<Rightarrow> True | Some s \<Rightarrow> sint s < sint (cf_StartAfter cf)) then False
     else if sint (cf_StartBefore cf) > 0 \<and> (case tstart of None \<Rightarrow> True | Some s \<Rightarrow> sint s > sint (cf_StartBefore cf)) then False
     else if sint (cf_EndAfter cf) > 0 \<and> (case tend of None \<Rightarrow> True | Some e \<Rightarrow> sint e < sint (cf_EndAfter cf)) then False
     else if sint (cf_EndBefore cf) > 0 \<and> (case tend of None \<Rightarrow> True | Some e \<Rightarrow> sint e > sint (cf_EndBefore cf)) then False
     else True)"

text \<open>One turn of the loop; its variables are \<open>n\<close>, \<open>keptParent\<close> and \<open>done\<close> (here \<open>fin\<close>).\<close>

definition window_body :: "cal_lib \<Rightarrow> calendarFilter \<Rightarrow> int \<Rightarrow> (event \<Rightarrow> 's \<Rightarrow> bool \<times> 's) \<Rightarrow> event \<Rightarrow> (int \<times> bool \<times> bool) \<times> 's \<Rightarrow>
    bool \<times> ((int \<times> bool \<times> bool) \<times> 's)" where
  "window_body C cf limit yield ev = (\<lambda>((n, keptParent, fin), s).
     if ev_kind ev = KindSearchSnippet then
       (if keptParent then (case yield ev s of
            (False, s') \<Rightarrow> (False, ((n, keptParent, fin), s'))
          | (True, s') \<Rightarrow> (\<not> fin, ((n, keptParent, fin), s')))
        else (\<not> fin, ((n, keptParent, fin), s)))
     else if fin then (False, ((n, keptParent, fin), s))
     else let keep = (\<not> cl_IsCalendarEventKind C (ev_kind ev) \<or> inCalendarWindow C ev cf) in
       if \<not> keep then (True, ((n, keep, fin), s))
       else (case yield ev s of
          (False, s') \<Rightarrow> (False, ((n, keep, fin), s'))
        | (True, s') \<Rightarrow> (True, ((n + 1, keep, limit > 0 \<and> n + 1 \<ge> limit), s'))))"

definition windowCalendar_push :: "cal_lib \<Rightarrow> event list \<Rightarrow> calendarFilter \<Rightarrow> int \<Rightarrow> (event \<Rightarrow> 's \<Rightarrow> bool \<times> 's) \<Rightarrow> 's \<Rightarrow> bool \<times> 's" where
  "windowCalendar_push C evs cf limit yield s =
     (case iterate evs (window_body C cf limit yield) ((0, False, False), s) of (go, (_, s')) \<Rightarrow> (go, s'))"

definition windowCalendar :: "cal_lib \<Rightarrow> event list \<Rightarrow> calendarFilter \<Rightarrow> int \<Rightarrow> event list" where
  "windowCalendar C evs cf limit = snd (windowCalendar_push C evs cf limit collect [])"

definition calendarRerankQuery :: "cal_lib \<Rightarrow> chunk_rerank \<Rightarrow> filter \<Rightarrow> fetchFunc \<Rightarrow> int \<Rightarrow> event list" where
  "calendarRerankQuery C rerank f fetch maxLimit = (
     if \<not> cl_HasCalendarKinds C f then rerank f fetch maxLimit
     else let cf = cl_ExtractCalendarFilter C f in
       if cf_Unsatisfiable cf then []
       else if length (cf_Geohashes cf) > 0 then fetch f maxLimit
       else if cf_StartAfter cf = 0 \<and> cf_StartBefore cf = 0 \<and> cf_EndAfter cf = 0 \<and> cf_EndBefore cf = 0 then
         rerank f fetch maxLimit
       else
         let limit = (if f_limit f \<le> 0 \<or> f_limit f > maxLimit then maxLimit else f_limit f);
             stripped = (cl_RemoveCalendarTags C f)\<lparr>f_limit := 0\<rparr>
         in windowCalendar C (rerank stripped fetch maxLimit) cf limit)"

definition calendarFetch :: "cal_lib \<Rightarrow> fetchFunc \<Rightarrow> fetchFunc \<Rightarrow> fetchFunc" where
  "calendarFetch C boltFetch tsFetch f maxLimit = (
     let cf = cl_ExtractCalendarFilter C f in
     if cf_Unsatisfiable cf then []
     else
       let hasCalParams = (cl_HasCalendarParams C cf \<and> cl_HasCalendarKinds C f);
           hasSearch = (f_search f \<noteq> []);
           hasGeo = (length (cf_Geohashes cf) > 0)
       in if hasCalParams \<and> (\<not> hasSearch \<or> hasGeo) then boltFetch f maxLimit else tsFetch f maxLimit)"

section \<open>The fetch budget\<close>

text \<open>
  The clock is the parameter \<open>expires\<close>: \<open>Some k\<close> when the timer wins the selection that follows the \<open>k\<close>-th
  event, \<open>None\<close> when the sequence ends first.
\<close>

definition DefaultQueryFetchBudget :: int where "DefaultQueryFetchBudget = 20 * 1000000000"

fun bounded_loop :: "event list \<Rightarrow> nat option \<Rightarrow> (event \<Rightarrow> 's \<Rightarrow> bool \<times> 's) \<Rightarrow> 's \<Rightarrow> bool \<times> 's" where
  "bounded_loop evs (Some 0) yield s = (True, s)"
| "bounded_loop [] expires yield s = (True, s)"
| "bounded_loop (ev # evs) expires yield s = (case yield ev s of
     (False, s') \<Rightarrow> (False, s')
   | (True, s') \<Rightarrow> bounded_loop evs (map_option (\<lambda>k. k - 1) expires) yield s')"

definition boundedSeq_push :: "nat option \<Rightarrow> event list \<Rightarrow> int \<Rightarrow> (event \<Rightarrow> 's \<Rightarrow> bool \<times> 's) \<Rightarrow> 's \<Rightarrow> bool \<times> 's" where
  "boundedSeq_push expires evs budget yield s = (if budget \<le> 0 then iterate evs yield s else bounded_loop evs expires yield s)"

definition boundedSeq :: "nat option \<Rightarrow> event list \<Rightarrow> int \<Rightarrow> event list" where
  "boundedSeq expires evs budget = snd (boundedSeq_push expires evs budget collect [])"

text \<open>\<open>timeout\<close> is \<open>Some text\<close>, the printed budget, when the timer fires before the count is there.\<close>

definition boundedCount :: "string option \<Rightarrow> (filter \<Rightarrow> 32 word \<times> error option) \<Rightarrow> int \<Rightarrow> filter \<Rightarrow> 32 word \<times> error option" where
  "boundedCount timeout fn budget f = (if budget \<le> 0 then fn f
     else case timeout of
       None \<Rightarrow> fn f
     | Some d \<Rightarrow> (0, Some (''count timed out after '' @ d)))"

section \<open>Answering a query\<close>

record 'w query_env =
  qe_decode :: nip19_decode
  qe_search :: search_lib
  qe_cal :: cal_lib
  qe_rerank :: chunk_rerank
  qe_graphs :: "'w graphProvider option"
  qe_reg :: "'w registry"
  qe_budget :: int

definition QueryStored :: "lib \<Rightarrow> 'w query_env \<Rightarrow> bool \<Rightarrow> nat option \<Rightarrow> filter \<Rightarrow> mgmt_db \<Rightarrow> 'w \<Rightarrow> event list \<times> 'w" where
  "QueryStored L Q negentropy expires f m w =
     (case (if \<not> negentropy then expandConceptFilters L (qe_decode Q) f (qe_graphs Q) w else (f, w)) of
       (f', w') \<Rightarrow>
         let maxLimit = (if negentropy then 250 * 20 else 250);
             fetch = (\<lambda>g n. registry_fetch (qe_reg Q) g n w');
             results = (if rerankOwns (qe_search Q) (qe_reg Q) f'
               then calendarRerankQuery (qe_cal Q) (qe_rerank Q) f' fetch maxLimit
               else fetch f' maxLimit);
             gated = gateSeq results (isBlocked L m)
         in (boundedSeq expires gated (qe_budget Q), w'))"

definition relay_Count :: "lib \<Rightarrow> 'w query_env \<Rightarrow> string option \<Rightarrow> filter \<Rightarrow> 'w \<Rightarrow> (32 word \<times> error option) \<times> 'w" where
  "relay_Count L Q timeout f w = (case expandConceptFilters L (qe_decode Q) f (qe_graphs Q) w of
     (f', w') \<Rightarrow> (boundedCount timeout (\<lambda>g. registry_count (qe_reg Q) g w') (qe_budget Q) f', w'))"

section \<open>The budget keeps a prefix\<close>

lemma bounded_loop_eq:
  "bounded_loop evs expires yield s = iterate (case expires of None \<Rightarrow> evs | Some k \<Rightarrow> take k evs) yield s"
proof (induction evs arbitrary: expires s)
  case Nil
  then show ?case by (cases expires; cases "the expires") auto
next
  case (Cons ev evs)
  show ?case
  proof (cases expires)
    case None
    with Cons [of None] show ?thesis by (auto split: prod.splits bool.splits)
  next
    case (Some k)
    with Cons [of "Some (k - 1)"] show ?thesis by (cases k) (auto split: prod.splits bool.splits)
  qed
qed

lemma boundedSeq_eq: "boundedSeq expires evs budget =
    (if budget \<le> 0 then evs else case expires of None \<Rightarrow> evs | Some k \<Rightarrow> take k evs)"
  by (simp add: boundedSeq_def boundedSeq_push_def bounded_loop_eq)

lemma boundedSeq_subset: "set (boundedSeq expires evs budget) \<subseteq> set evs"
  by (auto simp: boundedSeq_eq dest: in_set_takeD split: option.splits if_splits)

section \<open>The window of a reranked sequence\<close>

text \<open>A reranked sequence as the rerank path builds it: every event with the snippet that follows it, if any.\<close>

type_synonym ranked = "event \<times> event option"

definition ranked_ok :: "ranked list \<Rightarrow> bool" where
  "ranked_ok rs \<longleftrightarrow> list_all (\<lambda>(p, sn). ev_kind p \<noteq> KindSearchSnippet \<and>
     (case sn of None \<Rightarrow> True | Some e \<Rightarrow> ev_kind e = KindSearchSnippet)) rs"

definition interleave :: "ranked list \<Rightarrow> event list" where
  "interleave rs = concat (map (\<lambda>(p, sn). p # (case sn of None \<Rightarrow> [] | Some e \<Rightarrow> [e])) rs)"

definition in_window :: "cal_lib \<Rightarrow> calendarFilter \<Rightarrow> event \<Rightarrow> bool" where
  "in_window C cf p \<longleftrightarrow> (cl_IsCalendarEventKind C (ev_kind p) \<longrightarrow> inCalendarWindow C p cf)"

text \<open>The reference: the ranked events inside the window, at most \<open>limit\<close> of them, each with its snippet.\<close>

definition window_spec :: "cal_lib \<Rightarrow> calendarFilter \<Rightarrow> int \<Rightarrow> ranked list \<Rightarrow> event list" where
  "window_spec C cf limit rs = (let ks = List.filter (\<lambda>r. in_window C cf (fst r)) rs
     in interleave (if limit > 0 then take (nat limit) ks else ks))"

lemma interleave_simps [simp]:
  "interleave [] = []"
  "interleave ((p, None) # rs) = p # interleave rs"
  "interleave ((p, Some e) # rs) = p # e # interleave rs"
  by (simp_all add: interleave_def)

lemma ranked_ok_simps [simp]:
  "ranked_ok []"
  "ranked_ok ((p, None) # rs) \<longleftrightarrow> ev_kind p \<noteq> KindSearchSnippet \<and> ranked_ok rs"
  "ranked_ok ((p, Some e) # rs) \<longleftrightarrow> ev_kind p \<noteq> KindSearchSnippet \<and> ev_kind e = KindSearchSnippet \<and> ranked_ok rs"
  by (auto simp: ranked_ok_def)

lemma window_parent:
  assumes "ev_kind p \<noteq> KindSearchSnippet"
  shows "window_body C cf limit collect p ((n, kept, False), acc) =
    (True, if in_window C cf p then ((n + 1, True, limit > 0 \<and> n + 1 \<ge> limit), acc @ [p]) else ((n, False, False), acc))"
    and "window_body C cf limit collect p ((n, kept, True), acc) = (False, ((n, kept, True), acc))"
  using assms by (auto simp: window_body_def in_window_def collect_def)

lemma window_snippet:
  assumes "ev_kind e = KindSearchSnippet"
  shows "window_body C cf limit collect e ((n, kept, fin), acc) =
    (\<not> fin, ((n, kept, fin), if kept then acc @ [e] else acc))"
  using assms by (simp add: window_body_def collect_def)

text \<open>After the last event only its own snippet may still come.\<close>

lemma window_finished:
  assumes "ranked_ok rs"
  shows "snd (snd (iterate (interleave rs) (window_body C cf limit collect) ((n, kept, True), acc))) = acc"
proof (cases rs)
  case (Cons r rs')
  obtain p sn where "r = (p, sn)" by fastforce
  with Cons assms show ?thesis by (cases sn) (simp_all add: window_parent)
qed simp

lemma window_running:
  assumes "ranked_ok rs" and "limit > 0 \<Longrightarrow> n < limit" and "0 \<le> n"
  shows "snd (snd (iterate (interleave rs) (window_body C cf limit collect) ((n, kept, False), acc))) =
    acc @ (let ks = List.filter (\<lambda>r. in_window C cf (fst r)) rs
      in interleave (if limit > 0 then take (nat (limit - n)) ks else ks))"
  using assms
proof (induction rs arbitrary: n kept acc)
  case (Cons r rs)
  obtain p sn where r: "r = (p, sn)" by fastforce
  have nat: "nat (limit - n) = Suc (nat (limit - (n + 1)))" if "limit > 0" using Cons.prems(2) that by simp
  have ok: "ranked_ok rs" using Cons.prems(1) r by (cases sn) auto
  note fin = window_finished [OF ok, of C cf limit "n + 1" True]
  note step = window_parent window_snippet
  show ?case
  proof (cases "in_window C cf p")
    case False
    with Cons.IH [OF ok Cons.prems(2,3)] Cons.prems(1) r show ?thesis
      by (cases sn) (simp_all add: step)
  next
    case True
    show ?thesis
    proof (cases "limit > 0 \<and> n + 1 \<ge> limit")
      case False
      then have "limit > 0 \<Longrightarrow> n + 1 < limit" by simp
      from Cons.IH [OF ok this, of True] Cons.prems r True False nat show ?thesis
        by (cases sn; cases "limit > 0") (simp_all add: step Let_def)
    next
      case last: True
      then have "nat (limit - (n + 1)) = 0" by simp
      with Cons.prems(1) r True nat last fin show ?thesis
        by (cases sn) (simp_all add: step Let_def)
    qed
  qed
qed simp

text \<open>C30. The window pass over a reranked sequence gives exactly the ranked events inside the requested
  window, in rank order and at most as many as the limit, each followed by its own snippet and no other.\<close>

theorem window_is_filtered_ranking:
  assumes "ranked_ok rs"
  shows "windowCalendar C (interleave rs) cf limit = window_spec C cf limit rs"
  using window_running [OF assms, where n = 0 and kept = False and acc = "[]" and C = C and cf = cf and limit = limit]
  by (simp add: windowCalendar_def windowCalendar_push_def window_spec_def case_prod_beta Let_def)

section \<open>Worked example\<close>

text \<open>Calendar events start at their creation time; three are ranked with snippets, the window opens at 150 and one
  event is asked for.\<close>

definition demo_calendar :: cal_lib where
  "demo_calendar = \<lparr>cl_HasCalendarKinds = (\<lambda>_. True),
     cl_ExtractCalendarFilter = (\<lambda>_. \<lparr>cf_Unsatisfiable = False, cf_Geohashes = [], cf_StartAfter = 150, cf_StartBefore = 0,
       cf_EndAfter = 0, cf_EndBefore = 0\<rparr>),
     cl_RemoveCalendarTags = (\<lambda>f. f), cl_HasCalendarParams = (\<lambda>_. True), cl_IsCalendarEventKind = (\<lambda>k. k = 31923),
     cl_Times = (\<lambda>ev. (Some (ev_created_at ev), None))\<rparr>"

definition demo_ranking :: "ranked list" where
  "demo_ranking = [(demo_event 1 31923 100 [], Some (demo_event 2 21142 0 [])),
     (demo_event 3 31923 200 [], Some (demo_event 4 21142 0 [])), (demo_event 5 31923 300 [], Some (demo_event 6 21142 0 []))]"

lemma window_is_filtered_ranking_witness:
  "windowCalendar demo_calendar (interleave demo_ranking) (cl_ExtractCalendarFilter demo_calendar empty_filter) 1 =
     [demo_event 3 31923 200 [], demo_event 4 21142 0 []]"
proof -
  have "ranked_ok demo_ranking" by (simp add: demo_ranking_def demo_event_def KindSearchSnippet_def)
  from window_is_filtered_ranking [OF this, of demo_calendar "cl_ExtractCalendarFilter demo_calendar empty_filter" 1]
  show ?thesis
    by (simp add: window_spec_def demo_ranking_def demo_calendar_def demo_event_def in_window_def inCalendarWindow_def)
qed

end
