(* ===== verification/RelayPolicy.thy ===== *)
theory RelayPolicy
  imports Query Profiles Allowlist BoltBuffer
begin

text \<open>
  The hooks \<open>main.go\<close> installs on the relay: accepting, storing and deleting events, read access, the
  administrators and the relay information. The administrator set and the event-database queue belong to
  the world \<open>'w\<close>; a goroutine a hook starts is returned as a task.
\<close>

section \<open>Environment\<close>

record 'w admin_set =
  as_IsAdmin :: "pubkey \<Rightarrow> 'w \<Rightarrow> bool"
  as_IsStatic :: "pubkey \<Rightarrow> 'w \<Rightarrow> bool"
  as_IsAllowed :: "pubkey \<Rightarrow> string \<Rightarrow> 'w \<Rightarrow> bool"
  as_Grant :: "pubkey \<Rightarrow> string list \<Rightarrow> 'w \<Rightarrow> 'w"
  as_Revoke :: "pubkey \<Rightarrow> string list \<Rightarrow> 'w \<Rightarrow> 'w"
  as_AddAdmin :: "string \<Rightarrow> string list \<Rightarrow> 'w \<Rightarrow> error option \<times> 'w"
  as_RemoveAdmin :: "string \<Rightarrow> string list \<Rightarrow> 'w \<Rightarrow> error option \<times> 'w"

text \<open>\<open>en_stampKinds\<close> is \<open>None\<close> without a stamper; \<open>en_boltQueue\<close> answers whether the event was enqueued.\<close>

record 'w relay_env =
  en_reg :: "'w registry"
  en_purger :: "'w eventPurger"
  en_tx :: "'w tx_env"
  en_ctx_done :: "'w \<Rightarrow> bool"
  en_boltQueue :: "event \<Rightarrow> bool \<Rightarrow> 'w \<Rightarrow> bool \<times> 'w"
  en_profiles :: "'w profile_env option"
  en_stampKinds :: "kind set option"
  en_admins :: "'w admin_set"

datatype stamp_task =
    ReconcileShare event
  | Reconcile string kind string string

section \<open>Accepting an event\<close>

definition OnEvent :: "lib \<Rightarrow> 'w relay_env \<Rightarrow> acl \<Rightarrow> mgmt_db \<Rightarrow> 'w \<Rightarrow> event \<Rightarrow> bool \<times> string" where
  "OnEvent L E a m w ev = (
     let reason = BlockReason L m ev in
     if reason \<noteq> [] then (True, reason)
     else if IsWriteRestricted a \<and> \<not> as_IsAdmin (en_admins E) (ev_pubkey ev) w \<and> \<not> IsWriteAllowed a (pk_hex L (ev_pubkey ev))
     then (True, ''restricted: pubkey not on write allowlist'')
     else registry_validate (en_reg E) ev)"

section \<open>Storing an event\<close>

definition enqueue_profile :: "lib \<Rightarrow> 'w relay_env \<Rightarrow> pubkey \<Rightarrow> mgmt_db \<Rightarrow> mgmt_db" where
  "enqueue_profile L E pk m = (case en_profiles E of None \<Rightarrow> m | Some P \<Rightarrow> profile_Enqueue L P pk m)"

text \<open>The stamper's triggers, the same after a store and after a replacement.\<close>

definition stamp_triggers :: "lib \<Rightarrow> 'w relay_env \<Rightarrow> event \<Rightarrow> mgmt_db \<Rightarrow> stamp_task list \<times> mgmt_db" where
  "stamp_triggers L E ev m = (case en_stampKinds E of
     None \<Rightarrow> ([], m)
   | Some kinds \<Rightarrow>
       if ev_kind ev = 16 \<or> ev_kind ev = 30222 then ([ReconcileShare ev], enqueueShareCommunities L (en_profiles E) ev m)
       else if ev_kind ev \<in> kinds then
         (case contentCoord L ev of
           None \<Rightarrow> ([], m)
         | Some (coord, k, pk, d) \<Rightarrow> ([Reconcile coord k pk d], m))
       else ([], m))"

definition StoreEvent :: "lib \<Rightarrow> 'w relay_env \<Rightarrow> event \<Rightarrow> mgmt_db \<times> 'w \<Rightarrow> (error option \<times> stamp_task list) \<times> mgmt_db \<times> 'w" where
  "StoreEvent L E ev s = (case s of (m, w) \<Rightarrow> (case en_boltQueue E ev False w of
     (False, w1) \<Rightarrow> ((Some ''error: relay is shutting down, please retry'', []), m, w1)
   | (True, w1) \<Rightarrow>
       let w2 = registry_store (en_reg E) ev w1;
           s3 = (if ev_kind ev = KindDeletion
             then snd (applyCoordDeletions L (en_tx E) (en_purger E) (en_ctx_done E) ev (m, w2)) else (m, w2));
           m4 = enqueue_profile L E (ev_pubkey ev) (fst s3)
       in (case stamp_triggers L E ev m4 of (tasks, m5) \<Rightarrow> ((None, tasks), m5, snd s3))))"

definition ReplaceEvent :: "lib \<Rightarrow> 'w relay_env \<Rightarrow> event \<Rightarrow> mgmt_db \<times> 'w \<Rightarrow> (error option \<times> stamp_task list) \<times> mgmt_db \<times> 'w" where
  "ReplaceEvent L E ev s = (case s of (m, w) \<Rightarrow> (case en_boltQueue E ev True w of
     (False, w1) \<Rightarrow> ((Some ''error: relay is shutting down, please retry'', []), m, w1)
   | (True, w1) \<Rightarrow>
       let w2 = registry_store (en_reg E) ev w1;
           m4 = enqueue_profile L E (ev_pubkey ev) m
       in (case stamp_triggers L E ev m4 of (tasks, m5) \<Rightarrow> ((None, tasks), m5, w2))))"

section \<open>Deleting\<close>

definition AllowDeleting :: "event \<Rightarrow> event \<Rightarrow> bool" where
  "AllowDeleting target deletion \<longleftrightarrow> ev_kind target \<noteq> KindDeletion \<and> ev_pubkey target = ev_pubkey deletion"

text \<open>\<open>beforeDelete\<close>: the share an id stands for, whose content is stamped anew after the deletion.\<close>

definition beforeDelete :: "lib \<Rightarrow> 'w relay_env \<Rightarrow> event_id \<Rightarrow> 'w \<Rightarrow> stamp_task option" where
  "beforeDelete L E i w = (case en_stampKinds E of
     None \<Rightarrow> None
   | Some _ \<Rightarrow> fold (\<lambda>ev r. if ev_kind ev = 16 \<or> ev_kind ev = 30222
         then (case shareToRef L ev of None \<Rightarrow> r | Some ref \<Rightarrow> Some (Reconcile (sr_Coord ref) (sr_Kind ref) (sr_Pubkey ref) (sr_DTag ref)))
         else r)
       (rs_query (pg_bolt (en_purger E)) (empty_filter\<lparr>f_ids := [i], f_limit := 1\<rparr>) 1 w) None)"

section \<open>Reading\<close>

text \<open>The caller of a request: the relay itself, or a connection with its authenticated key.\<close>

datatype caller = InternalCall | Client "pubkey option"

definition checkReadAccess :: "lib \<Rightarrow> 'w relay_env \<Rightarrow> acl \<Rightarrow> 'w \<Rightarrow> caller \<Rightarrow> bool \<times> string" where
  "checkReadAccess L E a w c =
     (if \<not> IsReadRestricted a then (False, [])
      else case c of
        InternalCall \<Rightarrow> (False, [])
      | Client None \<Rightarrow> (True, ''auth-required: authentication required to read'')
      | Client (Some pk) \<Rightarrow>
          if as_IsAdmin (en_admins E) pk w then (False, [])
          else if \<not> IsReadAllowed a (pk_hex L pk) then (True, ''restricted: pubkey not on read allowlist'')
          else (False, []))"

definition PreventBroadcast :: "lib \<Rightarrow> 'w relay_env \<Rightarrow> acl \<Rightarrow> 'w \<Rightarrow> pubkey list \<Rightarrow> bool" where
  "PreventBroadcast L E a w authed =
     (if \<not> IsReadRestricted a then False
      else \<not> list_ex (\<lambda>pk. as_IsAdmin (en_admins E) pk w \<or> IsReadAllowed a (pk_hex L pk)) authed)"

text \<open>
  The relay information is passed by value but points to one shared limitation document: \<open>limit\<close> is the
  \<open>AuthRequired\<close> of that document, \<open>None\<close> without one. The result is what the client sees and what the
  shared document holds afterwards.
\<close>

definition OverwriteRelayInformation :: "acl \<Rightarrow> bool option \<Rightarrow> bool option \<times> bool option" where
  "OverwriteRelayInformation a limit =
     (if IsReadRestricted a then (case limit of None \<Rightarrow> (Some True, None) | Some _ \<Rightarrow> (Some True, Some True))
      else (limit, limit))"

section \<open>Administrators\<close>

definition OnAPICall :: "'w relay_env \<Rightarrow> 'w \<Rightarrow> pubkey option \<Rightarrow> string \<Rightarrow> bool \<times> string" where
  "OnAPICall E w authed method = (case authed of
     None \<Rightarrow> (True, ''not authenticated'')
   | Some pk \<Rightarrow> if \<not> as_IsAllowed (en_admins E) pk method w then (True, ''not authorized'') else (False, []))"

definition GrantAdmin :: "lib \<Rightarrow> 'w admin_set \<Rightarrow> pubkey \<Rightarrow> string list \<Rightarrow> 'w \<Rightarrow> error option \<times> 'w" where
  "GrantAdmin L A pk methods w = (case as_AddAdmin A (pk_hex L pk) methods w of
     (Some e, w') \<Rightarrow> (Some e, w')
   | (None, w') \<Rightarrow> (None, as_Grant A pk methods w'))"

definition RevokeAdmin :: "lib \<Rightarrow> 'w admin_set \<Rightarrow> pubkey \<Rightarrow> string list \<Rightarrow> 'w \<Rightarrow> error option \<times> 'w" where
  "RevokeAdmin L A pk methods w =
     (if as_IsStatic A pk w then (Some ''cannot revoke env-configured admin'', w)
      else case as_RemoveAdmin A (pk_hex L pk) methods w of
        (Some e, w') \<Rightarrow> (Some e, w')
      | (None, w') \<Rightarrow> (None, as_Revoke A pk methods w'))"

section \<open>The gate on every path\<close>

lemma served_not_blocked: "ev \<in> set (fst (QueryStored L Q neg expires f m w)) \<Longrightarrow> \<not> isBlocked L m ev"
  using boundedSeq_subset by (fastforce simp: QueryStored_def Let_def gateSeq_eq split: prod.splits)

lemma blocked_rejected: "isBlocked L m ev \<Longrightarrow> fst (OnEvent L E a m w ev)"
  by (simp add: OnEvent_def isBlocked_def)

lemma profile_Enqueue_gate: "isBlocked L (profile_Enqueue L P pk m) ev = isBlocked L m ev"
  by (simp add: isBlocked_iff stored_until_def profile_Enqueue_def EnqueueProfileCandidate_def db_update_def split: option.split)

lemma enqueue_profile_gate: "isBlocked L (enqueue_profile L E pk m) ev = isBlocked L m ev"
  by (simp add: enqueue_profile_def profile_Enqueue_gate split: option.split)

lemma enqueueShareCommunities_gate: "isBlocked L (enqueueShareCommunities L P s m) ev = isBlocked L m ev"
proof -
  have "isBlocked L (fold (\<lambda>h m. case pk_from_hex L h of Inl _ \<Rightarrow> m | Inr pk \<Rightarrow> profile_Enqueue L p pk m) hs m) ev = isBlocked L m ev"
    for p :: "'a profile_env" and hs
    by (induction hs arbitrary: m) (auto simp: profile_Enqueue_gate split: sum.split)
  then show ?thesis by (simp add: enqueueShareCommunities_def split: option.split)
qed

lemma stamp_triggers_gate: "isBlocked L (snd (stamp_triggers L E s m)) ev = isBlocked L m ev"
  by (simp add: stamp_triggers_def enqueueShareCommunities_gate split: option.split prod.split)

lemma StoreEvent_deletion:
  assumes "StoreEvent L E del (m, w) = ((None, tasks), (m', w'))" and "ev_kind del = KindDeletion"
  obtains s where "w' = snd (snd (applyCoordDeletions L (en_tx E) (en_purger E) (en_ctx_done E) del s))"
    and "\<And>ev. isBlocked L m' ev = isBlocked L (fst (snd (applyCoordDeletions L (en_tx E) (en_purger E) (en_ctx_done E) del s))) ev"
proof -
  obtain ok w1 where q: "en_boltQueue E del False w = (ok, w1)" by fastforce
  let ?s = "(m, registry_store (en_reg E) del w1)"
  let ?a = "snd (applyCoordDeletions L (en_tx E) (en_purger E) (en_ctx_done E) del ?s)"
  have "m' = snd (stamp_triggers L E del (enqueue_profile L E (ev_pubkey del) (fst ?a)))" "w' = snd ?a"
    using assms(1,2) q by (cases ok; auto simp: StoreEvent_def Let_def split: prod.splits)+
  then show thesis by (intro that [of ?s]) (simp_all add: stamp_triggers_gate enqueue_profile_gate)
qed

section \<open>Properties\<close>

text \<open>An event is accepted exactly when the gate does not block it, its author may write, and the
  validator of its registered kind accepts it.\<close>

theorem write_policy_is_exact:
  "fst (OnEvent L E a m w ev) = False \<longleftrightarrow>
     \<not> isBlocked L m ev \<and>
     (IsWriteRestricted a = False \<or> as_IsAdmin (en_admins E) (ev_pubkey ev) w \<or> IsWriteAllowed a (pk_hex L (ev_pubkey ev))) \<and>
     (case rg_byKind (en_reg E) (ev_kind ev) of
        None \<Rightarrow> False | Some i \<Rightarrow> fst (ct_validate (rg_types (en_reg E) ! i) ev) = False)"
  by (auto simp: OnEvent_def isBlocked_def Let_def registry_validate_def split: option.splits)

text \<open>C26. Once the tombstone of a coordinate is recorded, the deletion request is final: when it was acknowledged, the
  transaction of the coordinate committed and the request's context was still alive at the end, no version of the
  coordinate up to the request's time is accepted or served again, whichever stores failed to delete what they
  hold, whatever became of the other coordinates and however a query is answered.\<close>

theorem recorded_deletion_is_final:
  assumes "lib_ok L" and "ev_kind del = KindDeletion" and "is_addressable L k"
    and "(''a'', coord_str k (pk_hex L (ev_pubkey del)) d) \<in> set (tag_pairs (ev_tags del))"
    and "StoreEvent L E del (m, w) = ((None, tasks), (m', w'))" and "\<not> en_ctx_done E w'"
    and "\<forall>w. te_mark_coord (en_tx E) w (coord_str k (pk_hex L (ev_pubkey del)) d) = None"
    and "ev_kind ev = k" and "ev_pubkey ev = ev_pubkey del" and "get_d L (ev_tags ev) = d"
    and "ts_le (ev_created_at ev) (ev_created_at del)"
  shows "fst (OnEvent L E a m' w2 ev) \<and> ev \<notin> set (fst (QueryStored L Q neg expires f m' w2))"
proof -
  obtain s where "w' = snd (snd (applyCoordDeletions L (en_tx E) (en_purger E) (en_ctx_done E) del s))"
    and blocked: "\<And>ev. isBlocked L m' ev = isBlocked L (fst (snd (applyCoordDeletions L (en_tx E) (en_purger E) (en_ctx_done E) del s))) ev"
    using StoreEvent_deletion [OF assms(5,2)] by blast
  with assms(6) have "isBlocked L m' ev"
    unfolding blocked by (intro apply_blocks_versions [OF assms(1-4) _ assms(7-11)]) simp
  then show ?thesis by (auto dest: served_not_blocked intro: blocked_rejected)
qed

text \<open>The ban operation of the management store: a ban that succeeds is recorded.\<close>

definition ban_records :: "lib \<Rightarrow> 'w eventPurger \<Rightarrow> bool" where
  "ban_records L p \<longleftrightarrow> (\<forall>i r m m'. pg_ban_event p i r m = (None, m') \<longrightarrow> id_hex L i \<in> dom (RBT.lookup (b_banned_events m')))"

text \<open>C27. Once a ban is recorded the event is neither served nor accepted again, even when the removal from the
  stores fails and the operation reports that error.\<close>

theorem banned_event_is_never_served:
  assumes "ban_records L p" and "pg_ban_event p i reason m = (None, m1)"
    and "ban L T p i reason (m, w) = (r, (m', w'))" and "ev_id ev = i"
  shows "ev \<notin> set (fst (QueryStored L Q neg expires f m' w2)) \<and> fst (OnEvent L E a m' w2 ev)"
proof -
  have "id_hex L i \<in> dom (RBT.lookup (b_banned_events m1))" using assms(1,2) by (simp add: ban_records_def)
  then have "isBlocked L m1 ev" using assms(4) by (simp add: isBlocked_iff)
  moreover have "m' = fst (snd (purge L T p i (m1, w)))" using assms(2,3) by (simp add: ban_def)
  ultimately have "isBlocked L m' ev"
    using gate_le_blocked [OF gate_le_content] by (simp add: purge_mgmt)
  then show ?thesis by (auto dest: served_not_blocked intro: blocked_rejected)
qed

text \<open>Stored events and live broadcasts follow the same read policy: a connection is refused a request
  exactly when events are not broadcast to it.\<close>

theorem broadcast_follows_read_policy:
  "fst (checkReadAccess L E a w (Client None)) = PreventBroadcast L E a w [] \<and>
   fst (checkReadAccess L E a w (Client (Some pk))) = PreventBroadcast L E a w [pk]"
  by (simp add: checkReadAccess_def PreventBroadcast_def)

text \<open>The limitation document is shared: once a client asked for the relay information while reading was
  restricted, the relay keeps announcing \<open>auth_required\<close> after the restriction is lifted.\<close>

lemma auth_required_sticks:
  assumes "IsReadRestricted a" and "\<not> IsReadRestricted a'" and "limit = Some False"
  shows "fst (OverwriteRelayInformation a' (snd (OverwriteRelayInformation a limit))) = Some True"
  using assms by (simp add: OverwriteRelayInformation_def)

section \<open>Worked examples\<close>

text \<open>A relay whose stores are one list of events, and a query of it as a negentropy session sends it.\<close>

definition demo_admins :: "event list admin_set" where
  "demo_admins = \<lparr>as_IsAdmin = (\<lambda>_ _. False), as_IsStatic = (\<lambda>_ _. False), as_IsAllowed = (\<lambda>_ _ _. False),
     as_Grant = (\<lambda>_ _ w. w), as_Revoke = (\<lambda>_ _ w. w), as_AddAdmin = (\<lambda>_ _ w. (None, w)), as_RemoveAdmin = (\<lambda>_ _ w. (None, w))\<rparr>"

definition demo_relay :: "event list relay_env" where
  "demo_relay = \<lparr>en_reg = newRegistry [demo_type], en_purger = demo_purger, en_tx = demo_tx, en_ctx_done = (\<lambda>_. False),
     en_boltQueue = (\<lambda>ev _ w. (True, ev # w)), en_profiles = None, en_stampKinds = None, en_admins = demo_admins\<rparr>"

definition demo_query_env :: "event list query_env" where
  "demo_query_env = \<lparr>qe_decode = (\<lambda>_. Inl []), qe_search = \<lparr>raw_terms = (\<lambda>_. []), field_filters = (\<lambda>_. [])\<rparr>,
     qe_cal = \<lparr>cl_HasCalendarKinds = (\<lambda>_. False),
       cl_ExtractCalendarFilter = (\<lambda>_. \<lparr>cf_Unsatisfiable = False, cf_Geohashes = [], cf_StartAfter = 0, cf_StartBefore = 0,
         cf_EndAfter = 0, cf_EndBefore = 0\<rparr>),
       cl_RemoveCalendarTags = (\<lambda>f. f), cl_HasCalendarParams = (\<lambda>_. False), cl_IsCalendarEventKind = (\<lambda>_. False),
       cl_Times = (\<lambda>_. (None, None))\<rparr>,
     qe_rerank = (\<lambda>_ _ _. []), qe_graphs = None, qe_reg = newRegistry [demo_type], qe_budget = 0\<rparr>"

definition demo_deletion :: event where
  "demo_deletion = demo_event 9 KindDeletion 100 [[''a'', coord_str 30142 (to_hex demo_pk) ''x'']]"

lemma recorded_deletion_is_final_witness:
  "demo_event 1 30142 50 [[''d'', ''x'']] \<notin> set (fst (QueryStored demo_lib demo_query_env True None empty_filter
     (fst (snd (StoreEvent demo_lib demo_relay demo_deletion (fresh_db, [])))) [demo_event 1 30142 50 [[''d'', ''x'']]]))"
proof -
  let ?e = "demo_event 1 30142 50 [[''d'', ''x'']]"
  obtain r tasks m' w' where st: "StoreEvent demo_lib demo_relay demo_deletion (fresh_db, []) = ((r, tasks), (m', w'))"
    by (metis surj_pair)
  then have "r = None" by (auto simp: StoreEvent_def demo_relay_def Let_def split: prod.splits)
  with st have st: "StoreEvent demo_lib demo_relay demo_deletion (fresh_db, []) = ((None, tasks), (m', w'))" by simp
  have "fst (OnEvent demo_lib demo_relay NewAllowlistManager m' [?e] ?e) \<and>
      ?e \<notin> set (fst (QueryStored demo_lib demo_query_env True None empty_filter m' [?e]))"
    by (rule recorded_deletion_is_final [where k = 30142 and d = "''x''", OF demo_lib_ok _ _ _ st])
      (simp_all add: demo_lib_def demo_deletion_def demo_event_def demo_relay_def demo_tx_def)
  with st show ?thesis by simp
qed

text \<open>The acknowledgement says nothing of the tombstone: when the transactions fail and no store holds a version, the client
  gets its OK all the same, and the database is the one before the request.\<close>

lemma failed_tombstones_record_nothing:
  assumes "\<And>w c. te_mark_coord E w c \<noteq> None" and "\<And>c w. coord_targets L p c del w = []"
  shows "snd (coords_loop L E p cd del cs cnt (m, w)) = (m, w)"
proof (induction cs arbitrary: cnt)
  case (Cons c cs)
  obtain e where "te_mark_coord E w (cr_raw c) = Some e" using assms(1) by blast
  with Cons assms(2) show ?case by (cases cnt) (simp add: MarkCoordDeleted_def Let_def)
qed simp

lemma failed_tombstone_is_acknowledged:
  assumes "en_boltQueue E del False w = (True, w1)" and "ev_kind del = KindDeletion"
    and "\<And>w c. te_mark_coord (en_tx E) w c \<noteq> None" and "\<And>c w. coord_targets L (en_purger E) c del w = []"
    and "en_profiles E = None" and "en_stampKinds E = None"
  shows "StoreEvent L E del (m, w) = ((None, []), m, registry_store (en_reg E) del w1)"
  using assms failed_tombstones_record_nothing [of "en_tx E" L "en_purger E" del "en_ctx_done E"]
  by (simp add: StoreEvent_def Let_def applyCoordDeletions_def enqueue_profile_def stamp_triggers_def)

definition demo_banner :: "event list eventPurger" where
  "demo_banner = demo_purger\<lparr>pg_ban_event := \<lambda>i r m. (None, m\<lparr>b_banned_events := RBT.insert (id_hex demo_lib i) [] (b_banned_events m)\<rparr>)\<rparr>"

lemma banned_event_is_never_served_witness:
  "demo_event 1 30142 50 [] \<notin> set (fst (QueryStored demo_lib demo_query_env True None empty_filter
     (fst (snd (ban demo_lib demo_tx demo_banner [1] [] (fresh_db, [demo_event 1 30142 50 []])))) [demo_event 1 30142 50 []]))"
proof -
  let ?e = "demo_event 1 30142 50 []"
  have rec: "ban_records demo_lib demo_banner" by (auto simp: ban_records_def demo_banner_def)
  obtain r m' w' where b: "ban demo_lib demo_tx demo_banner [1] [] (fresh_db, [?e]) = (r, (m', w'))" by (metis surj_pair)
  have "pg_ban_event demo_banner [1] [] fresh_db = (None, snd (pg_ban_event demo_banner [1] [] fresh_db))"
    by (simp add: demo_banner_def)
  from banned_event_is_never_served [OF rec this b, of ?e demo_query_env True None empty_filter "[?e]" demo_relay NewAllowlistManager]
  have "?e \<notin> set (fst (QueryStored demo_lib demo_query_env True None empty_filter m' [?e]))" by (simp add: demo_event_def)
  with b show ?thesis by simp
qed

end
