(* ===== verification/Reindex.thy ===== *)
theory Reindex
  imports Community Expand Purge TSBuffer
begin

text \<open>
  \<open>reindex.go\<close>, \<open>ensureContentFields\<close> of \<open>main.go\<close>: rebuilding the search index from the event database.
  The database walk is the list of its events; the search index, the version filter
  \<open>typesense30142.AddressDedup\<close> (whose state is \<open>'d\<close>) and the stamp replay are parameters that act on the
  world \<open>'w\<close>. Counters are integers, the walk and the content replay run one after the other as in the
  background task.
\<close>

section \<open>Collaborators and status\<close>

record ('w, 'd) reindex_env =
  rx_Query :: "filter \<Rightarrow> int \<Rightarrow> 'w \<Rightarrow> event list"
  rx_DefaultSchema :: schema
  rx_Recreate :: "schema \<Rightarrow> 'w \<Rightarrow> error option \<times> 'w"
  rx_BatchUpsert :: "event list \<Rightarrow> 'w \<Rightarrow> (int \<times> error list) \<times> 'w"
  rx_PatchContent :: "string \<Rightarrow> content_entry \<Rightarrow> 'w \<Rightarrow> error option \<times> 'w"
  rx_NewDedup :: 'd
  rx_Keep :: "string \<Rightarrow> event \<Rightarrow> 'd \<Rightarrow> bool \<times> 'd"
  rx_afterRun :: "('w \<Rightarrow> 'w) option"

record 'w structuredReindexTarget =
  sr_kinds :: "kind list"
  sr_recreate :: "'w \<Rightarrow> error option \<times> 'w"
  sr_reproject :: "event \<Rightarrow> 'w \<Rightarrow> error option \<times> 'w"
  sr_after :: "('w \<Rightarrow> (int \<times> int) \<times> 'w) option"

record ReindexStatus =
  rs_Running :: bool
  rs_Total :: int
  rs_Indexed :: int
  rs_Superseded :: int
  rs_Errors :: int
  rs_ContentPatched :: int
  rs_ContentOrphaned :: int
  rs_Error :: string

definition fresh_status :: "bool \<Rightarrow> ReindexStatus" where
  "fresh_status running = \<lparr>rs_Running = running, rs_Total = 0, rs_Indexed = 0, rs_Superseded = 0, rs_Errors = 0,
     rs_ContentPatched = 0, rs_ContentOrphaned = 0, rs_Error = []\<rparr>"

definition reindexMaxEvents :: int where "reindexMaxEvents = 10000000"
definition reindexBatchSize :: nat where "reindexBatchSize = 100"

text \<open>\<open>Start\<close>: at most one reindex at a time; the counters restart from zero.\<close>

definition reindex_Start :: "ReindexStatus \<Rightarrow> error option \<times> ReindexStatus" where
  "reindex_Start s = (if rs_Running s then (Some ''reindex already in progress'', s) else (None, fresh_status True))"

section \<open>Schema fields\<close>

definition ensureContentFields :: "schema \<Rightarrow> schema" where
  "ensureContentFields sch = (
     let have = set (map fd_name (sch_fields sch));
         add = (\<lambda>n t. if n \<in> have then [] else [(plain_field n t)\<lparr>fd_optional := True\<rparr>])
     in sch\<lparr>sch_fields := sch_fields sch @ add ''content'' ''string'' @ add ''content_fetched_at'' ''int64'' @
          add ''content_status'' ''string''\<rparr>)"

section \<open>Document keys\<close>

definition ambDedupKey :: "lib \<Rightarrow> event \<Rightarrow> string option" where
  "ambDedupKey L ev = (case tag_values ''d'' (ev_tags ev) of
     [] \<Rightarrow> None
   | d # _ \<Rightarrow> Some (gen_doc_id L (pk_hex L (ev_pubkey ev)) d))"

definition structuredDedupKey :: "lib \<Rightarrow> event \<Rightarrow> string option" where
  "structuredDedupKey L ev = (if \<not> is_addressable L (ev_kind ev) then None
     else Some (docIDFor L (ev_kind ev) (pk_hex L (ev_pubkey ev)) (get_d L (ev_tags ev))))"

record walkedEvent =
  wk_createdAt :: timestamp
  wk_docID :: string

definition recordWalked :: "lib \<Rightarrow> event \<Rightarrow> walkedEvent \<times> error option" where
  "recordWalked L ev = (case tsDocIDFromEvent L ev of
     Inl e \<Rightarrow> (\<lparr>wk_createdAt = ev_created_at ev, wk_docID = []\<rparr>, Some e)
   | Inr d \<Rightarrow> (\<lparr>wk_createdAt = ev_created_at ev, wk_docID = d\<rparr>, None))"

section \<open>The walk\<close>

type_synonym walked = "string \<Rightarrow> walkedEvent option"

definition flush_batch :: "('w, 'd) reindex_env \<Rightarrow> event list \<Rightarrow> ReindexStatus \<times> 'w \<Rightarrow> ReindexStatus \<times> 'w" where
  "flush_batch E batch s = (case s of (st, w) \<Rightarrow> (case rx_BatchUpsert E batch w of ((indexed, errs), w') \<Rightarrow>
     (st\<lparr>rs_Indexed := rs_Indexed st + indexed, rs_Errors := rs_Errors st + int (length errs)\<rparr>, w')))"

text \<open>Whether the version filter lets the event through; an event without a key is not resolved.\<close>

definition dedup_keep :: "(string \<Rightarrow> event \<Rightarrow> 'd \<Rightarrow> bool \<times> 'd) \<Rightarrow> string option \<Rightarrow> event \<Rightarrow> 'd \<Rightarrow> bool \<times> 'd" where
  "dedup_keep keep key ev d = (case key of None \<Rightarrow> (True, d) | Some k \<Rightarrow> keep k ev d)"

fun walk :: "lib \<Rightarrow> ('w, 'd) reindex_env \<Rightarrow> mgmt_db \<Rightarrow> event list \<Rightarrow> walked \<Rightarrow> 'd \<Rightarrow> event list \<Rightarrow> ReindexStatus \<times> 'w \<Rightarrow>
    walked \<times> event list \<times> ReindexStatus \<times> 'w" where
  "walk L E m [] wk d batch s = (wk, batch, s)"
| "walk L E m (ev # evs) wk d batch (st, w) =
     (if isBlocked L m ev then walk L E m evs wk d batch (st, w)
      else
        let st1 = st\<lparr>rs_Total := rs_Total st + 1\<rparr>;
            wk1 = wk(id_hex L (ev_id ev) \<mapsto> fst (recordWalked L ev))
        in case dedup_keep (rx_Keep E) (ambDedupKey L ev) ev d of
          (False, d1) \<Rightarrow> walk L E m evs wk1 d1 batch (st1\<lparr>rs_Superseded := rs_Superseded st1 + 1\<rparr>, w)
        | (True, d1) \<Rightarrow>
            let batch1 = batch @ [ev] in
            if length batch1 \<ge> reindexBatchSize then walk L E m evs wk1 d1 [] (flush_batch E batch1 (st1, w))
            else walk L E m evs wk1 d1 batch1 (st1, w))"

text \<open>The whole pass over the resources, with the last, smaller batch.\<close>

definition amb_pass :: "lib \<Rightarrow> ('w, 'd) reindex_env \<Rightarrow> mgmt_db \<Rightarrow> ReindexStatus \<times> 'w \<Rightarrow> walked \<times> ReindexStatus \<times> 'w" where
  "amb_pass L E m s = (case walk L E m (rx_Query E (empty_filter\<lparr>f_kinds := [30142]\<rparr>) reindexMaxEvents (snd s)) (\<lambda>_. None)
       (rx_NewDedup E) [] s of
     (wk, batch, s2) \<Rightarrow> (wk, if length batch > 0 then flush_batch E batch s2 else s2))"

section \<open>Content replay\<close>

type_synonym liveContent = "string \<times> content_entry"

text \<open>A row whose event was not walked reads as Go's zero \<open>walkedEvent\<close>.\<close>

definition walked_at :: "walked \<Rightarrow> string \<Rightarrow> walkedEvent" where
  "walked_at wk i = (case wk i of None \<Rightarrow> \<lparr>wk_createdAt = 0, wk_docID = []\<rparr> | Some e \<Rightarrow> e)"

definition cmp_compare :: "'a :: linorder \<Rightarrow> 'a \<Rightarrow> int" where
  "cmp_compare a b = (if a < b then - 1 else if a = b then 0 else 1)"

definition replay_cmp :: "walked \<Rightarrow> liveContent \<Rightarrow> liveContent \<Rightarrow> int" where
  "replay_cmp wk a b = (
     let c = cmp_compare (sint (wk_createdAt (walked_at wk (fst a)))) (sint (wk_createdAt (walked_at wk (fst b))))
     in if c \<noteq> 0 then c else cmp_compare (fst b) (fst a))"

text \<open>\<open>slices.SortFunc\<close>, as insertion by the comparison function.\<close>

fun insert_func :: "('a \<Rightarrow> 'a \<Rightarrow> int) \<Rightarrow> 'a \<Rightarrow> 'a list \<Rightarrow> 'a list" where
  "insert_func c x [] = [x]"
| "insert_func c x (y # ys) = (if c x y \<le> 0 then x # y # ys else y # insert_func c x ys)"

definition sort_func :: "('a \<Rightarrow> 'a \<Rightarrow> int) \<Rightarrow> 'a list \<Rightarrow> 'a list" where
  "sort_func c xs = foldr (insert_func c) xs []"

definition orderContentReplay :: "liveContent list \<Rightarrow> walked \<Rightarrow> liveContent list" where
  "orderContentReplay rows wk = sort_func (replay_cmp wk) rows"

fun replay_loop :: "liveContent list \<Rightarrow> walked \<Rightarrow> (string \<Rightarrow> content_entry \<Rightarrow> 'w \<Rightarrow> error option \<times> 'w) \<Rightarrow>
    (int \<times> int) \<times> 'w \<Rightarrow> (int \<times> int) \<times> 'w" where
  "replay_loop [] wk patch s = s"
| "replay_loop (row # rows) wk patch ((patched, errs), w) = (
     let docID = wk_docID (walked_at wk (fst row)) in
     if docID = [] then replay_loop rows wk patch ((patched, errs + 1), w)
     else case patch docID (snd row) w of
       (Some _, w') \<Rightarrow> replay_loop rows wk patch ((patched, errs + 1), w')
     | (None, w') \<Rightarrow> replay_loop rows wk patch ((patched + 1, errs), w'))"

definition replayContent :: "liveContent list \<Rightarrow> walked \<Rightarrow> (string \<Rightarrow> content_entry \<Rightarrow> 'w \<Rightarrow> error option \<times> 'w) \<Rightarrow> 'w \<Rightarrow>
    (int \<times> int) \<times> 'w" where
  "replayContent rows wk patch w = replay_loop (orderContentReplay rows wk) wk patch ((0, 0), w)"

definition classifyOrphans :: "string list \<Rightarrow> (string \<Rightarrow> kind option) \<Rightarrow> string list" where
  "classifyOrphans candidates kindOf = List.filter (\<lambda>i. kindOf i = None) candidates"

definition kind_in_db :: "lib \<Rightarrow> ('w, 'd) reindex_env \<Rightarrow> 'w \<Rightarrow> string \<Rightarrow> kind option" where
  "kind_in_db L E w idHex = (case id_from_hex L idHex of
     Inl _ \<Rightarrow> None
   | Inr i \<Rightarrow> (case rx_Query E (empty_filter\<lparr>f_ids := [i], f_limit := 1\<rparr>) 1 w of
       [] \<Rightarrow> None
     | e # _ \<Rightarrow> Some (ev_kind e)))"

text \<open>Deleting the orphans; \<open>txs\<close> gives the outcome of each transaction.\<close>

fun delete_orphans :: "(string \<Rightarrow> error option) \<Rightarrow> string list \<Rightarrow> ReindexStatus \<times> mgmt_db \<Rightarrow> ReindexStatus \<times> mgmt_db" where
  "delete_orphans txs [] s = s"
| "delete_orphans txs (i # is) (st, m) = (case ContentStore_Delete (txs i) i m of
     (Some _, m') \<Rightarrow> delete_orphans txs is (st, m')
   | (None, m') \<Rightarrow> delete_orphans txs is (st\<lparr>rs_ContentOrphaned := rs_ContentOrphaned st + 1\<rparr>, m'))"

section \<open>Structured collections\<close>

fun reindexStructuredEvents :: "lib \<Rightarrow> (string \<Rightarrow> event \<Rightarrow> 'd \<Rightarrow> bool \<times> 'd) \<Rightarrow> (event \<Rightarrow> 'w \<Rightarrow> error option \<times> 'w) \<Rightarrow> event list \<Rightarrow> 'd \<Rightarrow>
    (int \<times> int \<times> int \<times> int) \<times> 'w \<Rightarrow> (int \<times> int \<times> int \<times> int) \<times> 'w" where
  "reindexStructuredEvents L keep reproject [] d s = s"
| "reindexStructuredEvents L keep reproject (ev # evs) d ((tot, indexed, superseded, errs), w) =
     (case dedup_keep keep (structuredDedupKey L ev) ev d of
       (False, d1) \<Rightarrow> reindexStructuredEvents L keep reproject evs d1 ((tot + 1, indexed, superseded + 1, errs), w)
     | (True, d1) \<Rightarrow> (case reproject ev w of
         (Some _, w') \<Rightarrow> reindexStructuredEvents L keep reproject evs d1 ((tot + 1, indexed, superseded, errs + 1), w')
       | (None, w') \<Rightarrow> reindexStructuredEvents L keep reproject evs d1 ((tot + 1, indexed + 1, superseded, errs), w')))"

definition reindexStructured :: "lib \<Rightarrow> ('w, 'd) reindex_env \<Rightarrow> mgmt_db \<Rightarrow> 'w structuredReindexTarget \<Rightarrow> ReindexStatus \<times> 'w \<Rightarrow>
    ReindexStatus \<times> 'w" where
  "reindexStructured L E m t s = (case s of (st, w) \<Rightarrow> (case sr_recreate t w of
     (Some _, w1) \<Rightarrow> (st\<lparr>rs_Errors := rs_Errors st + 1\<rparr>, w1)
   | (None, w1) \<Rightarrow> (case reindexStructuredEvents L (rx_Keep E) (sr_reproject t)
         (gateSeq (rx_Query E (empty_filter\<lparr>f_kinds := sr_kinds t\<rparr>) reindexMaxEvents w1) (isBlocked L m))
         (rx_NewDedup E) ((0, 0, 0, 0), w1) of
       ((tot, indexed, superseded, errs), w2) \<Rightarrow>
         let st1 = st\<lparr>rs_Total := rs_Total st + tot, rs_Indexed := rs_Indexed st + indexed,
               rs_Superseded := rs_Superseded st + superseded, rs_Errors := rs_Errors st + errs\<rparr>
         in case sr_after t of
           None \<Rightarrow> (st1, w2)
         | Some aft \<Rightarrow> (case aft w2 of ((patched, errs'), w3) \<Rightarrow>
             (st1\<lparr>rs_ContentPatched := rs_ContentPatched st1 + patched, rs_Errors := rs_Errors st1 + errs'\<rparr>, w3)))))"

section \<open>A run\<close>

definition runAfter :: "('w, 'd) reindex_env \<Rightarrow> 'w \<Rightarrow> 'w" where
  "runAfter E w = (case rx_afterRun E of None \<Rightarrow> w | Some f \<Rightarrow> f w)"

text \<open>Orphan candidates and live rows, in key order.\<close>

definition split_rows :: "walked \<Rightarrow> (string \<times> content_entry) list \<Rightarrow> string list \<times> liveContent list" where
  "split_rows wk rows = (map fst (List.filter (\<lambda>(i, _). wk i = None) rows), List.filter (\<lambda>(i, _). wk i \<noteq> None) rows)"

definition reindex_content :: "lib \<Rightarrow> json_lib \<Rightarrow> ('w, 'd) reindex_env \<Rightarrow> (string \<Rightarrow> error option) \<Rightarrow> walked \<Rightarrow>
    ReindexStatus \<times> mgmt_db \<times> 'w \<Rightarrow> ReindexStatus \<times> mgmt_db \<times> 'w" where
  "reindex_content L J E txs wk s = (case s of (st, m, w) \<Rightarrow>
     (case split_rows wk (content_rows J m) of (candidates, live) \<Rightarrow>
       (case delete_orphans txs (classifyOrphans candidates (kind_in_db L E w)) (st, m) of (st1, m1) \<Rightarrow>
         (case replayContent live wk (rx_PatchContent E) w of ((patched, errs), w1) \<Rightarrow>
           (st1\<lparr>rs_ContentPatched := rs_ContentPatched st1 + patched, rs_Errors := rs_Errors st1 + errs\<rparr>, m1, w1)))))"

definition reindex_run :: "lib \<Rightarrow> json_lib \<Rightarrow> ('w, 'd) reindex_env \<Rightarrow> 'w structuredReindexTarget list \<Rightarrow> (string \<Rightarrow> error option) \<Rightarrow>
    ReindexStatus \<times> mgmt_db \<times> 'w \<Rightarrow> ReindexStatus \<times> mgmt_db \<times> 'w" where
  "reindex_run L J E tgts txs s = (case s of (st, m, w) \<Rightarrow>
     (case LoadSchema J m of
       (_, Some e) \<Rightarrow> (st\<lparr>rs_Error := ''failed to load schema: '' @ e, rs_Running := False\<rparr>, m, w)
     | (sch, None) \<Rightarrow>
         let schema = ensureConceptsField (ensureContentFields (case sch of None \<Rightarrow> rx_DefaultSchema E | Some x \<Rightarrow> x)) in
         case rx_Recreate E schema w of
           (Some e, w1) \<Rightarrow> (st\<lparr>rs_Error := ''failed to recreate collection: '' @ e, rs_Running := False\<rparr>, m, w1)
         | (None, w1) \<Rightarrow>
             (case amb_pass L E m (st, w1) of (wk, st3, w3) \<Rightarrow>
               (case reindex_content L J E txs wk (st3, m, w3) of (st4, m4, w4) \<Rightarrow>
                 (case fold (reindexStructured L E m4) tgts (st4, w4) of (st5, w5) \<Rightarrow>
                   (st5\<lparr>rs_Running := False\<rparr>, m4, runAfter E w5))))))"

definition GetStatus :: "ReindexStatus \<Rightarrow> ReindexStatus" where
  "GetStatus st = st"

section \<open>Which versions are written\<close>

text \<open>The contract of the version filter: it remembers the best version of every key and lets an event
  through exactly when no version of its key is known or it supersedes the best one.\<close>

definition dedup_ok :: "lib \<Rightarrow> ('w, 'd) reindex_env \<Rightarrow> ('d \<Rightarrow> string \<Rightarrow> event option) \<Rightarrow> bool" where
  "dedup_ok L E best \<longleftrightarrow> best (rx_NewDedup E) = (\<lambda>_. None) \<and>
     (\<forall>k ev d. fst (rx_Keep E k ev d) = (case best d k of None \<Rightarrow> True | Some p \<Rightarrow> supersedes L ev p) \<and>
        best (snd (rx_Keep E k ev d)) = (if fst (rx_Keep E k ev d) then (best d)(k \<mapsto> ev) else best d))"

fun kept :: "(string \<Rightarrow> event \<Rightarrow> 'd \<Rightarrow> bool \<times> 'd) \<Rightarrow> (event \<Rightarrow> string option) \<Rightarrow> event list \<Rightarrow> 'd \<Rightarrow> event list" where
  "kept keep key [] d = []"
| "kept keep key (ev # evs) d = (case dedup_keep keep (key ev) ev d of
     (False, d1) \<Rightarrow> kept keep key evs d1
   | (True, d1) \<Rightarrow> ev # kept keep key evs d1)"

lemma kept_subset: "set (kept keep key evs d) \<subseteq> set evs"
  by (induction evs arbitrary: d) (auto split: prod.splits bool.splits)

text \<open>The last event let through with a key, or what was best before.\<close>

definition last_of :: "(event \<Rightarrow> string option) \<Rightarrow> string \<Rightarrow> event list \<Rightarrow> event option \<Rightarrow> event option" where
  "last_of key k evs r = fold (\<lambda>ev r. if key ev = Some k then Some ev else r) evs r"

lemma last_of_simps [simp]:
  "last_of key k [] r = r"
  "last_of key k (ev # evs) r = last_of key k evs (if key ev = Some k then Some ev else r)"
  "last_of key k (xs @ ys) r = last_of key k ys (last_of key k xs r)"
  by (simp_all add: last_of_def)

lemma last_of_Some: "last_of key k evs r = Some e \<Longrightarrow> e \<in> set evs \<and> key e = Some k \<or> r = Some e"
  by (induction evs arbitrary: r) (auto split: if_splits)

lemma kept_winner:
  assumes "dedup_ok L E best"
  shows "(best d k \<noteq> None \<or> Some k \<in> key ` set evs \<longrightarrow> last_of key k (kept (rx_Keep E) key evs d) (best d k) \<noteq> None) \<and>
    (\<forall>e. last_of key k (kept (rx_Keep E) key evs d) (best d k) = Some e \<longrightarrow>
      (\<forall>p. best d k = Some p \<longrightarrow> \<not> supersedes L p e) \<and>
      (\<forall>ev \<in> set evs. key ev = Some k \<longrightarrow> \<not> supersedes L ev e))"
proof (induction evs arbitrary: d)
  case Nil
  then show ?case by (simp add: supersedes_irrefl)
next
  case (Cons ev evs)
  obtain go d1 where step: "dedup_keep (rx_Keep E) (key ev) ev d = (go, d1)" by fastforce
  have K: "fst (rx_Keep E k' ev d) = (case best d k' of None \<Rightarrow> True | Some p \<Rightarrow> supersedes L ev p)"
    "best (snd (rx_Keep E k' ev d)) = (if fst (rx_Keep E k' ev d) then (best d)(k' \<mapsto> ev) else best d)" for k'
    using assms by (auto simp: dedup_ok_def)
  show ?case
  proof (cases "key ev = Some k")
    case False
    then have "best d1 k = best d k"
    proof (cases "key ev")
      case (Some k')
      then have "d1 = snd (rx_Keep E k' ev d)" using step by (simp add: dedup_keep_def)
      with False Some K(2) [of k'] show ?thesis by simp
    qed (use step in \<open>simp add: dedup_keep_def\<close>)
    with False Cons.IH [of d1] step show ?thesis by (cases go) auto
  next
    case True
    then have go: "go = (case best d k of None \<Rightarrow> True | Some p \<Rightarrow> supersedes L ev p)"
      and d1: "best d1 k = (if go then Some ev else best d k)"
      using step K [of k] by (auto simp: dedup_keep_def)
    note IH = Cons.IH [of d1]
    show ?thesis
    proof (cases go)
      case g: True
      have "\<not> supersedes L p e" if "best d k = Some p" "\<not> supersedes L ev e" for p e
      proof -
        have "supersedes L ev p" using go g that(1) by simp
        with that(2) show ?thesis using supersedes_trans by blast
      qed
      with g d1 True step IH show ?thesis by auto
    next
      case g: False
      with go obtain p where p: "best d k = Some p" "\<not> supersedes L ev p" by (auto split: option.splits)
      have "\<not> supersedes L ev e" if "\<not> supersedes L p e" for e
        using not_supersedes_trans p(2) that by blast
      with g d1 True step IH p show ?thesis by auto
    qed
  qed
qed

definition unblocked :: "lib \<Rightarrow> mgmt_db \<Rightarrow> event list \<Rightarrow> event list" where
  "unblocked L m evs = List.filter (\<lambda>ev. \<not> isBlocked L m ev) evs"

definition upserts :: "('w, 'd) reindex_env \<Rightarrow> event list list \<Rightarrow> 'w \<Rightarrow> 'w" where
  "upserts E batches w = fold (\<lambda>b w. snd (rx_BatchUpsert E b w)) batches w"

lemma flush_batch_world: "snd (flush_batch E b (st, w)) = snd (rx_BatchUpsert E b w)"
  by (simp add: flush_batch_def split: prod.split)

lemma walk_batches:
  assumes "walk L E m evs wk d batch (st, w) = (wk', batch', st', w')" and "length batch < reindexBatchSize"
  shows "\<exists>batches. batch @ kept (rx_Keep E) (ambDedupKey L) (unblocked L m evs) d = concat batches @ batch' \<and>
    w' = upserts E batches w \<and> (\<forall>b \<in> set batches. length b = reindexBatchSize) \<and> length batch' < reindexBatchSize"
  using assms
proof (induction evs arbitrary: wk d batch st w)
  case Nil
  then show ?case by (intro exI [of _ "[]"]) (simp add: unblocked_def upserts_def)
next
  case (Cons ev evs)
  show ?case
  proof (cases "isBlocked L m ev")
    case True
    with Cons show ?thesis by (simp add: unblocked_def)
  next
    case nb: False
    obtain go d1 where step: "dedup_keep (rx_Keep E) (ambDedupKey L ev) ev d = (go, d1)" by fastforce
    show ?thesis
    proof (cases go)
      case False
      with Cons nb step show ?thesis by (simp add: unblocked_def Let_def)
    next
      case go: True
      let ?b = "batch @ [ev]"
      show ?thesis
      proof (cases "length ?b \<ge> reindexBatchSize")
        case True
        obtain st1 w1 where f: "flush_batch E ?b (st\<lparr>rs_Total := rs_Total st + 1\<rparr>, w) = (st1, w1)" by fastforce
        then have w1: "w1 = snd (rx_BatchUpsert E ?b w)" by (metis flush_batch_world snd_conv)
        have "length ([] :: event list) < reindexBatchSize" by (simp add: reindexBatchSize_def)
        with Cons.IH [of _ d1 "[]" st1 w1] Cons.prems(1) nb step go True f
        obtain batches where "kept (rx_Keep E) (ambDedupKey L) (unblocked L m evs) d1 = concat batches @ batch'"
          "w' = upserts E batches w1" "\<forall>b \<in> set batches. length b = reindexBatchSize" "length batch' < reindexBatchSize"
          by (auto simp: Let_def)
        moreover have "length ?b = reindexBatchSize" using True Cons.prems(2) by simp
        ultimately show ?thesis using nb step go w1
          by (intro exI [of _ "?b # batches"]) (simp add: unblocked_def upserts_def)
      next
        case False
        with Cons.IH [of _ d1 ?b] Cons.prems nb step go show ?thesis by (auto simp: unblocked_def Let_def)
      qed
    qed
  qed
qed

lemma walk_walked:
  assumes "walk L E m evs wk d batch s = (wk', batch', s')" and "distinct (map (\<lambda>ev. id_hex L (ev_id ev)) evs)"
  shows "wk' i = (case find (\<lambda>ev. \<not> isBlocked L m ev \<and> id_hex L (ev_id ev) = i) evs of
     Some ev \<Rightarrow> Some (fst (recordWalked L ev)) | None \<Rightarrow> wk i)"
  using assms
proof (induction evs arbitrary: wk d batch s)
  case (Cons ev evs)
  obtain st w where s: "s = (st, w)" by fastforce
  show ?case
  proof (cases "isBlocked L m ev")
    case True
    with Cons s show ?thesis by simp
  next
    case False
    let ?wk = "wk(id_hex L (ev_id ev) \<mapsto> fst (recordWalked L ev))"
    obtain d1 b1 s1 where next': "walk L E m evs ?wk d1 b1 s1 = (wk', batch', s')"
      using Cons.prems(1) False s by (auto simp: Let_def split: prod.splits bool.splits if_splits)
    from Cons.IH [OF next'] Cons.prems(2) have IH: "wk' i = (case find (\<lambda>ev. \<not> isBlocked L m ev \<and> id_hex L (ev_id ev) = i) evs of
       Some ev \<Rightarrow> Some (fst (recordWalked L ev)) | None \<Rightarrow> ?wk i)" by simp
    show ?thesis
    proof (cases "id_hex L (ev_id ev) = i")
      case True
      then have "find (\<lambda>ev. \<not> isBlocked L m ev \<and> id_hex L (ev_id ev) = i) evs = None"
      proof -
        have "i \<notin> (\<lambda>ev. id_hex L (ev_id ev)) ` set evs" using Cons.prems(2) True by auto
        then show ?thesis by (auto simp: find_None_iff image_iff)
      qed
      with IH True False show ?thesis by simp
    next
      case neq: False
      with IH False show ?thesis by (auto split: option.split)
    qed
  qed
qed simp

text \<open>The contract of the search index: a batch is upserted document by document, in order, each event
  onto the document of its key; patching content leaves the projected event alone.\<close>

definition index_upserts :: "lib \<Rightarrow> ('w, 'd) reindex_env \<Rightarrow> ('w \<Rightarrow> string \<Rightarrow> event option) \<Rightarrow> bool" where
  "index_upserts L E doc \<longleftrightarrow> (\<forall>batch w k. doc (snd (rx_BatchUpsert E batch w)) k = last_of (ambDedupKey L) k batch (doc w k))"

lemma upserts_doc: "index_upserts L E doc \<Longrightarrow> doc (upserts E batches w) k = last_of (ambDedupKey L) k (concat batches) (doc w k)"
  by (induction batches arbitrary: w) (simp_all add: upserts_def index_upserts_def)

lemma last_of_any: "last_of key k evs None \<noteq> None \<Longrightarrow> last_of key k evs r = last_of key k evs None"
proof (induction evs arbitrary: r)
  case (Cons ev evs)
  then show ?case by (cases "key ev = Some k") auto
qed simp

section \<open>Which content is left\<close>

lemma cmp_compare_le: "cmp_compare a b \<le> 0 \<longleftrightarrow> a \<le> b"
  by (auto simp: cmp_compare_def)

lemma cmp_compare_0 [simp]: "cmp_compare a b = 0 \<longleftrightarrow> a = b"
  by (simp add: cmp_compare_def)

lemma replay_cmp_le: "replay_cmp wk a b \<le> 0 \<longleftrightarrow>
    sint (wk_createdAt (walked_at wk (fst a))) < sint (wk_createdAt (walked_at wk (fst b))) \<or>
    sint (wk_createdAt (walked_at wk (fst a))) = sint (wk_createdAt (walked_at wk (fst b))) \<and> fst b \<le> fst a"
  by (auto simp: replay_cmp_def Let_def cmp_compare_le)

lemma set_insert_func [simp]: "set (insert_func c x ys) = insert x (set ys)"
  by (induction ys) auto

lemma set_sort_func [simp]: "set (sort_func c xs) = set xs"
  by (induction xs) (simp_all add: sort_func_def)

lemma sorted_insert_func:
  assumes "\<And>x y. c x y \<le> 0 \<or> c y x \<le> 0" and "\<And>x y z. c x y \<le> 0 \<Longrightarrow> c y z \<le> 0 \<Longrightarrow> c x z \<le> 0"
    and "sorted_wrt (\<lambda>a b. c a b \<le> 0) ys"
  shows "sorted_wrt (\<lambda>a b. c a b \<le> 0) (insert_func c x ys)"
  using assms(3)
proof (induction ys)
  case (Cons y ys)
  show ?case
  proof (cases "c x y \<le> 0")
    case True
    with Cons.prems assms(2) show ?thesis by auto
  next
    case False
    with assms(1) have "c y x \<le> 0" by blast
    with False Cons show ?thesis by auto
  qed
qed simp

lemma sorted_replay: "sorted_wrt (\<lambda>a b. replay_cmp wk a b \<le> 0) (orderContentReplay rows wk)"
proof -
  have "replay_cmp wk x y \<le> 0 \<or> replay_cmp wk y x \<le> 0" for x y by (auto simp: replay_cmp_le)
  moreover have "replay_cmp wk x y \<le> 0 \<Longrightarrow> replay_cmp wk y z \<le> 0 \<Longrightarrow> replay_cmp wk x z \<le> 0" for x y z
    by (auto simp: replay_cmp_le)
  ultimately have "sorted_wrt (\<lambda>a b. replay_cmp wk a b \<le> 0) (sort_func (replay_cmp wk) rows)"
    by (induction rows) (simp_all add: sort_func_def sorted_insert_func)
  then show ?thesis by (simp add: orderContentReplay_def)
qed

text \<open>The contract of the content patch: it succeeds, sets the text of its document and leaves the
  projected events alone.\<close>

definition content_patches :: "('w, 'd) reindex_env \<Rightarrow> ('w \<Rightarrow> string \<Rightarrow> event option) \<Rightarrow> ('w \<Rightarrow> string \<Rightarrow> content_entry option) \<Rightarrow> bool" where
  "content_patches E doc text \<longleftrightarrow> (\<forall>d c w. fst (rx_PatchContent E d c w) = None \<and>
     text (snd (rx_PatchContent E d c w)) = (text w)(d \<mapsto> c) \<and> doc (snd (rx_PatchContent E d c w)) = doc w)"

definition row_doc :: "walked \<Rightarrow> liveContent \<Rightarrow> string" where
  "row_doc wk row = wk_docID (walked_at wk (fst row))"

lemma replay_loop_text:
  assumes "content_patches E doc text" and "k \<noteq> []"
  shows "text (snd (replay_loop rows wk (rx_PatchContent E) (n, w))) k =
    (case find (\<lambda>row. row_doc wk row = k) (rev rows) of Some row \<Rightarrow> Some (snd row) | None \<Rightarrow> text w k)"
    and "doc (snd (replay_loop rows wk (rx_PatchContent E) (n, w))) = doc w"
proof -
  have "text (snd (replay_loop rows wk (rx_PatchContent E) (n, w))) k =
      (case find (\<lambda>row. row_doc wk row = k) (rev rows) of Some row \<Rightarrow> Some (snd row) | None \<Rightarrow> text w k) \<and>
    doc (snd (replay_loop rows wk (rx_PatchContent E) (n, w))) = doc w"
  proof (induction rows arbitrary: n w)
    case (Cons row rows)
    obtain p q where n: "n = (p, q)" by fastforce
    have find_snoc: "find P (xs @ [x]) = (case find P xs of Some y \<Rightarrow> Some y | None \<Rightarrow> if P x then Some x else None)" for P xs and x :: liveContent
      by (induction xs) auto
    show ?case
    proof (cases "row_doc wk row = []")
      case True
      with Cons [of "(p, q + 1)" w] assms(2) n show ?thesis
        by (simp add: row_doc_def Let_def find_snoc split: option.split)
    next
      case False
      obtain w1 where w1: "rx_PatchContent E (row_doc wk row) (snd row) w = (None, w1)"
        "text w1 = (text w)(row_doc wk row \<mapsto> snd row)" "doc w1 = doc w"
        using assms(1) unfolding content_patches_def by (metis surj_pair fst_conv snd_conv)
      with False Cons [of "(p + 1, q)" w1] n show ?thesis
        by (simp add: row_doc_def Let_def find_snoc split: option.split)
    qed
  qed simp
  then show "text (snd (replay_loop rows wk (rx_PatchContent E) (n, w))) k =
      (case find (\<lambda>row. row_doc wk row = k) (rev rows) of Some row \<Rightarrow> Some (snd row) | None \<Rightarrow> text w k)"
    and "doc (snd (replay_loop rows wk (rx_PatchContent E) (n, w))) = doc w" by blast+
qed

lemma find_rev_last: "x \<in> set xs \<Longrightarrow> P x \<Longrightarrow> \<forall>y \<in> set xs. P y \<longrightarrow> y \<noteq> x \<longrightarrow> R y x \<and> \<not> R x y \<Longrightarrow> sorted_wrt R xs \<Longrightarrow>
    find P (rev xs) = Some x"
proof (induction xs rule: rev_induct)
  case (snoc z zs)
  show ?case
  proof (cases "P z")
    case True
    have "z = x"
    proof (rule ccontr)
      assume "z \<noteq> x"
      with snoc.prems True have "R z x \<and> \<not> R x z" "x \<in> set zs" by auto
      with snoc.prems(4) show False by (auto simp: sorted_wrt_append)
    qed
    with True show ?thesis by simp
  next
    case False
    with snoc show ?thesis by (auto simp: sorted_wrt_append)
  qed
qed simp

section \<open>Properties\<close>

lemma amb_pass_doc:
  assumes "dedup_ok L E best" and "index_upserts L E doc" and pass: "amb_pass L E m (st, w) = (wk, st', w')"
  shows "doc w' k = last_of (ambDedupKey L) k (kept (rx_Keep E) (ambDedupKey L)
     (unblocked L m (rx_Query E (empty_filter\<lparr>f_kinds := [30142]\<rparr>) reindexMaxEvents w)) (rx_NewDedup E)) (doc w k)"
proof -
  let ?evs = "rx_Query E (empty_filter\<lparr>f_kinds := [30142]\<rparr>) reindexMaxEvents w"
  obtain batch st2 w2 where walk: "walk L E m ?evs (\<lambda>_. None) (rx_NewDedup E) [] (st, w) = (wk, batch, st2, w2)"
    using pass by (auto simp: amb_pass_def split: prod.splits)
  obtain batches where b: "kept (rx_Keep E) (ambDedupKey L) (unblocked L m ?evs) (rx_NewDedup E) = concat batches @ batch"
    "w2 = upserts E batches w"
    using walk_batches [OF walk] by (auto simp: reindexBatchSize_def)
  have "w' = (if batch = [] then w2 else snd (rx_BatchUpsert E batch w2))"
    using pass walk flush_batch_world [of E batch st2 w2] by (auto simp: amb_pass_def split: if_splits prod.splits)
  then have "w' = upserts E (batches @ (if batch = [] then [] else [batch])) w" using b(2) by (simp add: upserts_def)
  with upserts_doc [OF assms(2)] b(1) show ?thesis by (cases "batch = []") simp_all
qed

lemma amb_pass_winner:
  assumes "dedup_ok L E best" and "index_upserts L E doc" and "amb_pass L E m (st, w) = (wk, st', w')"
    and "ev \<in> set (unblocked L m (rx_Query E (empty_filter\<lparr>f_kinds := [30142]\<rparr>) reindexMaxEvents w))"
    and "ambDedupKey L ev = Some k"
  shows "\<exists>e \<in> set (unblocked L m (rx_Query E (empty_filter\<lparr>f_kinds := [30142]\<rparr>) reindexMaxEvents w)).
    doc w' k = Some e \<and> ambDedupKey L e = Some k \<and>
    (\<forall>ev' \<in> set (unblocked L m (rx_Query E (empty_filter\<lparr>f_kinds := [30142]\<rparr>) reindexMaxEvents w)).
       ambDedupKey L ev' = Some k \<longrightarrow> \<not> supersedes L ev' e)"
proof -
  let ?evs = "unblocked L m (rx_Query E (empty_filter\<lparr>f_kinds := [30142]\<rparr>) reindexMaxEvents w)"
  let ?K = "kept (rx_Keep E) (ambDedupKey L) ?evs (rx_NewDedup E)"
  have b0: "best (rx_NewDedup E) k = None" using assms(1) by (simp add: dedup_ok_def)
  note W = kept_winner [OF assms(1), where k = k and key = "ambDedupKey L" and evs = ?evs and d = "rx_NewDedup E", unfolded b0]
  have "Some k \<in> ambDedupKey L ` set ?evs" using assms(4,5) by force
  with W obtain e where e: "last_of (ambDedupKey L) k ?K None = Some e" by blast
  then have "doc w' k = Some e" using amb_pass_doc [OF assms(1-3)] last_of_any [of "ambDedupKey L" k ?K] by simp
  moreover have "e \<in> set ?evs" "ambDedupKey L e = Some k"
    using last_of_Some [OF e] kept_subset [of "rx_Keep E" "ambDedupKey L" ?evs] by auto
  ultimately show ?thesis using W e by blast
qed

text \<open>A reindex leaves the right version of every resource in the index: for every address of which the
  database holds a version that is not blocked, the document of the address is projected from such a
  version, and none of the others supersedes it.\<close>

theorem reindex_projects_the_winner:
  assumes "dedup_ok L E best" and "index_upserts L E doc" and "amb_pass L E m (st, w) = (wk, st', w')"
    and "ev \<in> set (unblocked L m (rx_Query E (empty_filter\<lparr>f_kinds := [30142]\<rparr>) reindexMaxEvents w))"
    and "ambDedupKey L ev = Some k"
  shows "\<exists>e \<in> set (unblocked L m (rx_Query E (empty_filter\<lparr>f_kinds := [30142]\<rparr>) reindexMaxEvents w)).
    doc w' k = Some e \<and> ambDedupKey L e = Some k \<and>
    (\<forall>ev' \<in> set (unblocked L m (rx_Query E (empty_filter\<lparr>f_kinds := [30142]\<rparr>) reindexMaxEvents w)).
       ambDedupKey L ev' = Some k \<longrightarrow> \<not> supersedes L ev' e)"
  using amb_pass_winner [OF assms] .

lemma map_filter_distinct:
  assumes "\<And>x y. g x = Some y \<Longrightarrow> h y = h' x"
  shows "distinct (map h' xs) \<Longrightarrow> distinct (map h (List.map_filter g xs))"
proof (induction xs)
  case (Cons x xs)
  show ?case
  proof (cases "g x")
    case None
    with Cons show ?thesis by (simp add: List.map_filter_def)
  next
    case (Some y)
    have "h y \<notin> h ` set (List.map_filter g xs)"
    proof
      assume "h y \<in> h ` set (List.map_filter g xs)"
      then obtain z where z: "z \<in> set (List.map_filter g xs)" "h y = h z" by blast
      then obtain x' where "x' \<in> set xs" "g x' = Some z" by (auto simp: set_map_filter_iff)
      with assms [OF Some] assms [of x' z] z Cons.prems show False by (metis distinct.simps(2) image_eqI list.set_map list.simps(9))
    qed
    moreover have "List.map_filter g (x # xs) = y # List.map_filter g xs" using Some by (simp add: List.map_filter_def)
    ultimately show ?thesis using Cons by simp
  qed
qed (simp add: List.map_filter_def)

lemma content_rows_distinct: "distinct (map fst (content_rows J m))"
  unfolding content_rows_def
  by (rule map_filter_distinct [where h' = fst]) (auto simp: RBT.distinct_entries split: prod.splits option.splits)

text \<open>\<open>Tags.Find\<close> of the library: the first tag of two or more elements with the name.\<close>

definition tags_find_ok :: "lib \<Rightarrow> bool" where
  "tags_find_ok L \<longleftrightarrow> (\<forall>ts n. tags_find L ts n = find (\<lambda>t. length t \<ge> 2 \<and> hd t = n) ts)"

lemma docID_is_key:
  assumes "tags_find_ok L" and "tsDocIDFromEvent L ev = Inr d"
  shows "ambDedupKey L ev = Some d"
proof -
  have "find (\<lambda>t. length t \<ge> 2 \<and> hd t = n) ts = Some t \<Longrightarrow> (\<exists>v us. t = n # v # us \<and> tag_values n ts = v # us') \<or>
      (\<exists>v us vs. t = n # v # us \<and> tag_values n ts = v # vs)" for ts n t us'
  proof (induction ts)
    case (Cons t' ts)
    then show ?case by (cases t' rule: list.exhaust; cases "tl t'") (auto simp: tag_values_def split: if_splits)
  qed simp
  with assms show ?thesis
    by (force simp: tsDocIDFromEvent_def ambDedupKey_def tags_find_ok_def split: option.splits list.splits if_splits)
qed

lemma find_filter: "find P (List.filter Q xs) = find (\<lambda>x. Q x \<and> P x) xs"
  by (induction xs) auto

lemma amb_pass_walked:
  assumes "amb_pass L E m (st, w) = (wk, st', w')"
    and "distinct (map (\<lambda>ev. id_hex L (ev_id ev)) (rx_Query E (empty_filter\<lparr>f_kinds := [30142]\<rparr>) reindexMaxEvents w))"
  shows "wk i = map_option (\<lambda>ev. fst (recordWalked L ev))
    (find (\<lambda>ev. id_hex L (ev_id ev) = i) (unblocked L m (rx_Query E (empty_filter\<lparr>f_kinds := [30142]\<rparr>) reindexMaxEvents w)))"
proof -
  let ?evs = "rx_Query E (empty_filter\<lparr>f_kinds := [30142]\<rparr>) reindexMaxEvents w"
  obtain batch s2 where "walk L E m ?evs (\<lambda>_. None) (rx_NewDedup E) [] (st, w) = (wk, batch, s2)"
    using assms(1) by (auto simp: amb_pass_def split: prod.splits)
  from walk_walked [OF this assms(2)] show ?thesis
    by (simp add: unblocked_def find_filter split: option.split)
qed

text \<open>The facts the replay rests on: ids identify the walked events, the walk knows each of them, and of all
  versions of an address only the winner is superseded by none.\<close>

abbreviation distinct_ids :: "lib \<Rightarrow> event list \<Rightarrow> bool" where
  "distinct_ids L evs \<equiv> distinct (map (\<lambda>ev. id_hex L (ev_id ev)) evs)"

lemma same_event:
  "distinct_ids L U \<Longrightarrow> ev \<in> set U \<Longrightarrow> e \<in> set U \<Longrightarrow> id_hex L (ev_id ev) = id_hex L (ev_id e) \<Longrightarrow> ev = e"
  by (auto dest: inj_onD simp: distinct_map)

lemma winner_unique:
  assumes "lib_ok L" and "distinct_ids L U" and "e \<in> set U" and "\<forall>ev \<in> set U. ambDedupKey L ev = Some k \<longrightarrow> \<not> supersedes L ev e"
    and "ev \<in> set U" and "ambDedupKey L ev = Some k" and "\<not> supersedes L e ev"
  shows "ev = e"
  using supersedes_linear [OF assms(1) _ assms(7)] same_event [OF assms(2,5,3)] assms(4-6) by metis

definition walks :: "lib \<Rightarrow> event list \<Rightarrow> walked \<Rightarrow> bool" where
  "walks L U wk \<longleftrightarrow> (\<forall>i. wk i = map_option (\<lambda>ev. fst (recordWalked L ev)) (find (\<lambda>ev. id_hex L (ev_id ev) = i) U))"

lemma walks_at:
  assumes "walks L U wk" and "distinct_ids L U" and "ev \<in> set U"
  shows "walked_at wk (id_hex L (ev_id ev)) = fst (recordWalked L ev)"
proof -
  have "find (\<lambda>x. id_hex L (ev_id x) = id_hex L (ev_id ev)) U \<noteq> None" using assms(3) by (simp only: find_None_iff) blast
  then obtain f where f: "find (\<lambda>x. id_hex L (ev_id x) = id_hex L (ev_id ev)) U = Some f" by blast
  with find_Some_in [OF f] same_event [OF assms(2) _ assms(3)] have "f = ev" by blast
  with f assms(1) show ?thesis by (simp add: walked_at_def walks_def)
qed

lemma walks_Some:
  assumes "walks L U wk" and "wk i \<noteq> None"
  obtains ev where "ev \<in> set U" and "id_hex L (ev_id ev) = i"
  using assms find_Some_in unfolding walks_def by (metis (mono_tags, lifting) option.map_disc_iff option.exhaust)

text \<open>The row of the winner is patched after every other row of the same document.\<close>

lemma winner_row_last:
  assumes "tags_find_ok L" and W: "walks L U wk" and D: "distinct_ids L U"
    and e: "e \<in> set U" and only: "\<And>ev. ev \<in> set U \<Longrightarrow> ambDedupKey L ev = Some k \<Longrightarrow> \<not> supersedes L e ev \<Longrightarrow> ev = e" and "k \<noteq> []"
    and row: "(id_hex L (ev_id e), entry) \<in> set (content_rows J m)"
    and r: "r \<in> set (orderContentReplay (snd (split_rows wk (content_rows J m))) wk)" "row_doc wk r = k" "r \<noteq> (id_hex L (ev_id e), entry)"
  shows "replay_cmp wk r (id_hex L (ev_id e), entry) \<le> 0 \<and> \<not> replay_cmp wk (id_hex L (ev_id e), entry) r \<le> 0"
proof -
  obtain i c where ic: "r = (i, c)" by fastforce
  from r(1) have "wk i \<noteq> None" and rows: "(i, c) \<in> set (content_rows J m)"
    by (auto simp: ic split_rows_def orderContentReplay_def)
  then obtain ev where ev: "ev \<in> set U" "id_hex L (ev_id ev) = i" using walks_Some [OF W] by blast
  have "i \<noteq> id_hex L (ev_id e)" using content_rows_distinct [of J m] rows row r(3) by (metis eq_key_imp_eq_value ic)
  with ev(2) have ne: "ev \<noteq> e" by blast
  note at = walks_at [OF W D ev(1)] walks_at [OF W D e]
  have "tsDocIDFromEvent L ev = Inr k"
    using r(2) at(1) ev(2) assms(6) by (auto simp: ic row_doc_def recordWalked_def split: sum.splits)
  then have "supersedes L e ev" using only [OF ev(1)] docID_is_key [OF assms(1)] ne by blast
  moreover have "wk_createdAt (walked_at wk i) = ev_created_at ev" "wk_createdAt (walked_at wk (id_hex L (ev_id e))) = ev_created_at e"
    using at ev(2) by (auto simp: recordWalked_def split: sum.split)
  ultimately show ?thesis using ev(2) by (auto simp: replay_cmp_le ic supersedes_def)
qed

text \<open>C9. After a reindex the full text of a document belongs to the version the document shows: if the version
  that no other unblocked version of its address supersedes has a content row, the document is
  projected from that version and carries the text of that row.\<close>

theorem reindex_text_belongs_to_the_winner:
  assumes "lib_ok L" and "tags_find_ok L" and "dedup_ok L E best" and "index_upserts L E doc" and "content_patches E doc text"
    and evs: "evs = rx_Query E (empty_filter\<lparr>f_kinds := [30142]\<rparr>) reindexMaxEvents w"
    and "distinct (map (\<lambda>ev. id_hex L (ev_id ev)) evs)"
    and e: "e \<in> set (unblocked L m evs)" and "tsDocIDFromEvent L e = Inr k" and "k \<noteq> []"
    and win: "\<forall>ev \<in> set (unblocked L m evs). ambDedupKey L ev = Some k \<longrightarrow> \<not> supersedes L ev e"
    and row: "(id_hex L (ev_id e), entry) \<in> set (content_rows J m)"
    and pass: "amb_pass L E m (st, w) = (wk, st1, w1)"
    and replay: "reindex_content L J E txs wk (st1, m, w1) = (st2, m2, w2)"
  shows "doc w2 k = Some e \<and> text w2 k = Some entry"
proof -
  let ?U = "unblocked L m evs"
  let ?rows = "orderContentReplay (snd (split_rows wk (content_rows J m))) wk"
  let ?row = "(id_hex L (ev_id e), entry)"
  have key: "ambDedupKey L e = Some k" by (rule docID_is_key [OF assms(2,9)])
  have D: "distinct_ids L ?U" using assms(7) by (simp add: unblocked_def distinct_map_filter)
  note unique = winner_unique [OF assms(1) D e win]
  have W: "walks L ?U wk" using amb_pass_walked [OF pass] assms(6,7) unfolding walks_def by blast
  obtain e' where e': "e' \<in> set ?U" "doc w1 k = Some e'" "ambDedupKey L e' = Some k"
    "\<forall>ev \<in> set ?U. ambDedupKey L ev = Some k \<longrightarrow> \<not> supersedes L ev e'"
    using amb_pass_winner [OF assms(3,4) pass e [unfolded evs] key] unfolding evs by blast
  with unique e key have doc1: "doc w1 k = Some e" by blast
  obtain n where w2: "snd (replay_loop ?rows wk (rx_PatchContent E) ((0, 0), w1)) = w2"
    using replay by (auto simp: reindex_content_def replayContent_def split: prod.splits)
  have live: "?row \<in> set ?rows"
    using row e W by (auto simp: split_rows_def orderContentReplay_def walks_def find_None_iff)
  have rowdoc: "row_doc wk ?row = k" using walks_at [OF W D e] assms(9) by (simp add: row_doc_def recordWalked_def)
  have "find (\<lambda>r. row_doc wk r = k) (rev ?rows) = Some ?row"
    by (rule find_rev_last [where R = "\<lambda>a b. replay_cmp wk a b \<le> 0"])
      (use live rowdoc winner_row_last [OF assms(2) W D e unique assms(10) row] sorted_replay in blast)+
  with replay_loop_text [OF assms(5,10), of ?rows wk "(0, 0)" w1] w2 doc1 show ?thesis by simp
qed

text \<open>A small index: the projected event and the content of every document, and a version filter that
  remembers the best event of every key.\<close>

type_synonym demo_world = "(string \<Rightarrow> event option) \<times> (string \<Rightarrow> content_entry option)"

definition demo_keep :: "string \<Rightarrow> event \<Rightarrow> (string \<Rightarrow> event option) \<Rightarrow> bool \<times> (string \<Rightarrow> event option)" where
  "demo_keep k ev d = (if (case d k of None \<Rightarrow> True | Some p \<Rightarrow> supersedes demo_lib ev p) then (True, d(k \<mapsto> ev)) else (False, d))"

definition demo_versions :: "event list" where
  "demo_versions = [demo_event 2 30142 9 [[''d'', ''x'']], demo_event 1 30142 5 [[''d'', ''x'']]]"

definition demo_reindex :: "(demo_world, string \<Rightarrow> event option) reindex_env" where
  "demo_reindex = \<lparr>rx_Query = (\<lambda>_ _ _. demo_versions),
     rx_DefaultSchema = \<lparr>sch_name = [], sch_sort = [], sch_fields = []\<rparr>,
     rx_Recreate = (\<lambda>_ w. (None, (\<lambda>_. None, \<lambda>_. None))),
     rx_BatchUpsert = (\<lambda>b w. ((int (length b), []), (\<lambda>k. last_of (ambDedupKey demo_lib) k b (fst w k), snd w))),
     rx_PatchContent = (\<lambda>d c w. (None, (fst w, (snd w)(d \<mapsto> c)))),
     rx_NewDedup = (\<lambda>_. None), rx_Keep = demo_keep, rx_afterRun = None\<rparr>"

lemma demo_reindex_ok:
  "dedup_ok demo_lib demo_reindex (\<lambda>d. d)" "index_upserts demo_lib demo_reindex fst"
  "content_patches demo_reindex fst snd"
  by (simp_all add: dedup_ok_def index_upserts_def content_patches_def demo_reindex_def demo_keep_def)

lemma demo_versions_unblocked: "unblocked demo_lib (fresh_db\<lparr>b_content := b\<rparr>) demo_versions = demo_versions"
  by (simp add: unblocked_def demo_versions_def isBlocked_iff stored_until_def)

lemma demo_doc_key: "tsDocIDFromEvent demo_lib (demo_event i 30142 t [[''d'', ''x'']]) = Inr (to_hex demo_pk @ '':x'')"
  by (simp add: tsDocIDFromEvent_def demo_event_def demo_lib_def)

lemma demo_tags_find: "tags_find_ok demo_lib"
proof -
  have "first_tag n ts = find (\<lambda>t. length t \<ge> 2 \<and> hd t = n) ts" for n ts
  proof (induction ts)
    case (Cons t ts)
    then show ?case by (cases t) auto
  qed simp
  then show ?thesis by (simp add: tags_find_ok_def demo_lib_def)
qed

lemma demo_query: "rx_Query demo_reindex f n w = demo_versions"
  by (simp add: demo_reindex_def)

lemma reindex_projects_the_winner_witness:
  "fst (snd (snd (amb_pass demo_lib demo_reindex fresh_db (fresh_status True, (\<lambda>_. None, \<lambda>_. None))))) (to_hex demo_pk @ '':x'') =
     Some (demo_event 2 30142 9 [[''d'', ''x'']])"
proof -
  let ?e1 = "demo_event 1 30142 5 [[''d'', ''x'']]" and ?e2 = "demo_event 2 30142 9 [[''d'', ''x'']]"
  let ?k = "to_hex demo_pk @ '':x''" and ?w = "(\<lambda>_. None, \<lambda>_. None) :: demo_world"
  obtain wk st' w' where pass: "amb_pass demo_lib demo_reindex fresh_db (fresh_status True, ?w) = (wk, st', w')"
    by (metis surj_pair)
  have U: "unblocked demo_lib fresh_db (rx_Query demo_reindex f n w) = [?e2, ?e1]" for f n w
  proof -
    have "fresh_db\<lparr>b_content := RBT.empty\<rparr> = fresh_db"
      by (simp add: fresh_db_def ManagementStore_Init_def create_if_missing_def)
    with demo_versions_unblocked [of RBT.empty] have "unblocked demo_lib fresh_db demo_versions = demo_versions" by simp
    then show ?thesis by (simp add: demo_query) (simp add: demo_versions_def)
  qed
  have k: "ambDedupKey demo_lib ?e2 = Some ?k" by (rule docID_is_key [OF demo_tags_find demo_doc_key])
  from reindex_projects_the_winner [OF demo_reindex_ok(1,2) pass, of ?e2 ?k, unfolded U] k
  obtain e where e: "e = ?e2 \<or> e = ?e1" "fst w' ?k = Some e" "\<not> supersedes demo_lib ?e2 e" by auto
  have "supersedes demo_lib ?e2 ?e1" by (simp add: supersedes_def demo_event_def)
  with e pass show ?thesis by auto
qed

lemma reindex_text_belongs_to_the_winner_witness:
  "\<exists>w2. fst (w2 :: demo_world) (to_hex demo_pk @ '':x'') = Some (demo_event 2 30142 9 [[''d'', ''x'']]) \<and>
     snd w2 (to_hex demo_pk @ '':x'') = Some (empty_entry\<lparr>ce_text := ''new''\<rparr>)"
proof -
  let ?e1 = "demo_event 1 30142 5 [[''d'', ''x'']]" and ?e2 = "demo_event 2 30142 9 [[''d'', ''x'']]"
  let ?k = "to_hex demo_pk @ '':x''" and ?w = "(\<lambda>_. None, \<lambda>_. None) :: demo_world"
  let ?c = "empty_entry\<lparr>ce_text := ''new''\<rparr>"
  let ?m = "fresh_db\<lparr>b_content := RBT.insert (to_hex [2]) (j_content demo_json ?c) RBT.empty\<rparr>"
  obtain wk st1 w1 where pass: "amb_pass demo_lib demo_reindex ?m (fresh_status True, ?w) = (wk, st1, w1)"
    by (metis surj_pair)
  obtain st2 m2 w2 where replay: "reindex_content demo_lib demo_json demo_reindex (\<lambda>_. None) wk (st1, ?m, w1) = (st2, m2, w2)"
    by (metis surj_pair)
  have U: "unblocked demo_lib ?m demo_versions = [?e2, ?e1]"
    by (simp add: demo_versions_unblocked) (simp add: demo_versions_def)
  have "RBT.lookup (b_content ?m) (to_hex [2]) = Some (j_content demo_json ?c)" by simp
  then have "(to_hex [2], j_content demo_json ?c) \<in> set (RBT.entries (b_content ?m))" by (simp only: rbt_entries_iff)
  moreover have "uj_content demo_json (j_content demo_json ?c) = (None, ?c)" using demo_json_ok by (simp add: json_ok_def)
  ultimately have row: "(id_hex demo_lib (ev_id ?e2), ?c) \<in> set (content_rows demo_json ?m)"
    by (force simp: content_rows_def set_map_filter_iff demo_event_def demo_lib_def)
  have dist: "distinct (map (\<lambda>ev. id_hex demo_lib (ev_id ev)) demo_versions)"
    by (simp add: demo_versions_def demo_event_def demo_lib_def hex_digit_def)
  have win: "\<forall>ev \<in> set (unblocked demo_lib ?m demo_versions). ambDedupKey demo_lib ev = Some ?k \<longrightarrow> \<not> supersedes demo_lib ev ?e2"
    unfolding U by (simp add: supersedes_def demo_event_def)
  have "fst w2 ?k = Some ?e2 \<and> snd w2 ?k = Some ?c"
    by (rule reindex_text_belongs_to_the_winner [OF demo_lib_ok demo_tags_find demo_reindex_ok demo_query [symmetric] dist _
          demo_doc_key _ win row pass replay]) (simp_all only: U, simp_all)
  then show ?thesis by blast
qed

end
