(* ===== verification/Documents.thy ===== *)
theory Documents
  imports Typesense Query Profiles Reindex
begin

text \<open>
  The search documents of the structured collections: the envelope, the store and the reprojection of
  \<open>structured.go\<close>, and the projections and schemas of \<open>longform.go\<close>, \<open>wiki.go\<close>, \<open>calendar.go\<close>,
  \<open>shares.go\<close>, \<open>transferkiosk.go\<close>, \<open>publications.go\<close> and \<open>profiles.go\<close>; the advertised search
  extensions of \<open>search_extensions.go\<close>. A document is a record with the fields of the source's struct and
  \<open>json_x\<close> its JSON object, with \<open>omitempty\<close> as the source's field tags have it; the JSON text of an event and
  the profile parser are parameters.
\<close>

section \<open>The envelope\<close>

type_synonym marshal_event = "event \<Rightarrow> error + string"

record structuredEnvelope =
  en_EventID :: string
  en_EventKind :: int
  en_EventPubKey :: string
  en_EventCreatedAt :: "64 word"
  en_EventRaw :: string
  en_Community :: "string list"

definition newStructuredEnvelope :: "lib \<Rightarrow> marshal_event \<Rightarrow> event \<Rightarrow> error + structuredEnvelope" where
  "newStructuredEnvelope L mj ev = (case mj ev of
     Inl e \<Rightarrow> Inl (''marshal raw event: '' @ e)
   | Inr raw \<Rightarrow> Inr \<lparr>en_EventID = id_hex L (ev_id ev), en_EventKind = uint (ev_kind ev),
       en_EventPubKey = pk_hex L (ev_pubkey ev), en_EventCreatedAt = ev_created_at ev, en_EventRaw = raw,
       en_Community = tag_values ''h'' (ev_tags ev)\<rparr>)"

definition opt_str :: "string \<Rightarrow> string \<Rightarrow> jobj" where
  "opt_str n v = (if v = [] then [] else [(n, JStr v)])"

definition opt_strs :: "string \<Rightarrow> string list \<Rightarrow> jobj" where
  "opt_strs n v = (if v = [] then [] else [(n, JStrs v)])"

definition opt_int :: "string \<Rightarrow> 64 word \<Rightarrow> jobj" where
  "opt_int n v = (if v = 0 then [] else [(n, JInt (sint v))])"

definition opt_vec :: "string \<Rightarrow> vector \<Rightarrow> jobj" where
  "opt_vec n v = (if v = [] then [] else [(n, JVec v)])"

definition json_envelope :: "structuredEnvelope \<Rightarrow> jobj" where
  "json_envelope e = [(''eventID'', JStr (en_EventID e)), (''eventKind'', JInt (en_EventKind e)),
     (''eventPubKey'', JStr (en_EventPubKey e)), (''eventCreatedAt'', JInt (sint (en_EventCreatedAt e))),
     (''eventRaw'', JStr (en_EventRaw e))] @ opt_strs ''community'' (en_Community e)"

definition with_envelope :: "structuredEnvelope \<Rightarrow> jobj \<Rightarrow> jobj" where
  "with_envelope e members = members @ json_envelope e"

definition fld :: "string \<Rightarrow> string \<Rightarrow> bool \<Rightarrow> bool \<Rightarrow> ts_field" where
  "fld n t facet opt = \<lparr>fd_name = n, fd_type = t, fd_facet = facet, fd_optional = opt, fd_num_dim = 0, fd_vec_metric = []\<rparr>"

definition embedding_field :: ts_field where
  "embedding_field = \<lparr>fd_name = ''embedding'', fd_type = ''float[]'', fd_facet = False, fd_optional = True,
     fd_num_dim = 768, fd_vec_metric = ''cosine''\<rparr>"

definition structuredEnvelopeFields :: "ts_field list" where
  "structuredEnvelopeFields = [fld ''eventID'' ''string'' False False, fld ''eventKind'' ''int32'' True False,
     fld ''eventPubKey'' ''string'' True False, fld ''eventCreatedAt'' ''int64'' False False,
     fld ''eventRaw'' ''string'' False True, fld ''community'' ''string[]'' True True]"

definition mk_schema :: "string \<Rightarrow> ts_field list \<Rightarrow> schema" where
  "mk_schema name fs = \<lparr>sch_name = name, sch_sort = ''eventCreatedAt'', sch_fields = fs @ structuredEnvelopeFields\<rparr>"

definition missing_d :: "string \<Rightarrow> lib \<Rightarrow> event \<Rightarrow> error" where
  "missing_d label L ev = label @ '' '' @ id_hex L (ev_id ev) @ '' missing required 'd' tag''"

definition passage :: "string list \<Rightarrow> string" where
  "passage ss = join '' '' (nonempty ss)"

section \<open>Long-form articles\<close>

record LongformDocument =
  lf_ID :: string
  lf_D :: string
  lf_Title :: string
  lf_Summary :: string
  lf_Content :: string
  lf_PublishedAt :: "64 word"
  lf_Topics :: "string list"
  lf_Image :: string
  lf_Embedding :: vector
  lf_env :: structuredEnvelope

definition longform_tag :: "string \<times> string \<Rightarrow> LongformDocument \<Rightarrow> LongformDocument" where
  "longform_tag = (\<lambda>(n, v) doc.
     if n = ''title'' then doc\<lparr>lf_Title := v\<rparr>
     else if n = ''summary'' then doc\<lparr>lf_Summary := v\<rparr>
     else if n = ''image'' then doc\<lparr>lf_Image := v\<rparr>
     else if n = ''published_at'' then
       (case atoi v of None \<Rightarrow> doc | Some t \<Rightarrow> doc\<lparr>lf_PublishedAt := word_of_int t\<rparr>)
     else if n = ''t'' then doc\<lparr>lf_Topics := lf_Topics doc @ [v]\<rparr>
     else doc)"

definition nostrToLongform :: "lib \<Rightarrow> marshal_event \<Rightarrow> event \<Rightarrow> error + LongformDocument" where
  "nostrToLongform L mj ev = (let dTag = get_d L (ev_tags ev) in
     if dTag = [] then Inl (missing_d ''longform event'' L ev)
     else case newStructuredEnvelope L mj ev of
       Inl e \<Rightarrow> Inl e
     | Inr env \<Rightarrow> Inr (fold longform_tag (tag_pairs (ev_tags ev))
         \<lparr>lf_ID = gen_doc_id L (pk_hex L (ev_pubkey ev)) dTag, lf_D = dTag, lf_Title = [], lf_Summary = [],
          lf_Content = ev_content ev, lf_PublishedAt = 0, lf_Topics = [], lf_Image = [], lf_Embedding = [], lf_env = env\<rparr>))"

definition longform_EmbedText :: "LongformDocument \<Rightarrow> string" where
  "longform_EmbedText d = passage [lf_Title d, lf_Summary d, lf_Content d]"

definition json_longform :: "LongformDocument \<Rightarrow> jobj" where
  "json_longform d = with_envelope (lf_env d) ([(''id'', JStr (lf_ID d)), (''d'', JStr (lf_D d)), (''title'', JStr (lf_Title d))] @
     opt_str ''summary'' (lf_Summary d) @ opt_str ''content'' (lf_Content d) @ opt_int ''published_at'' (lf_PublishedAt d) @
     opt_strs ''t'' (lf_Topics d) @ opt_str ''image'' (lf_Image d) @ opt_vec ''embedding'' (lf_Embedding d))"

definition longformSchema :: "string \<Rightarrow> schema" where
  "longformSchema name = mk_schema name [fld ''id'' ''string'' False False, fld ''d'' ''string'' False False,
     fld ''title'' ''string'' False False, fld ''summary'' ''string'' False True, fld ''content'' ''string'' False True,
     fld ''published_at'' ''int64'' True True, fld ''t'' ''string[]'' True True, fld ''image'' ''string'' False True,
     embedding_field]"

section \<open>Wiki articles\<close>

record WikiDocument =
  wd_ID :: string
  wd_D :: string
  wd_Title :: string
  wd_Summary :: string
  wd_Content :: string
  wd_Embedding :: vector
  wd_env :: structuredEnvelope

definition wiki_tag :: "string \<times> string \<Rightarrow> WikiDocument \<Rightarrow> WikiDocument" where
  "wiki_tag = (\<lambda>(n, v) doc.
     if n = ''title'' then doc\<lparr>wd_Title := v\<rparr>
     else if n = ''summary'' then doc\<lparr>wd_Summary := v\<rparr>
     else doc)"

definition nostrToWiki :: "lib \<Rightarrow> marshal_event \<Rightarrow> event \<Rightarrow> error + WikiDocument" where
  "nostrToWiki L mj ev = (let dTag = get_d L (ev_tags ev) in
     if dTag = [] then Inl (missing_d ''wiki event'' L ev)
     else case newStructuredEnvelope L mj ev of
       Inl e \<Rightarrow> Inl e
     | Inr env \<Rightarrow> Inr (fold wiki_tag (tag_pairs (ev_tags ev))
         \<lparr>wd_ID = gen_doc_id L (pk_hex L (ev_pubkey ev)) dTag, wd_D = dTag, wd_Title = [], wd_Summary = [],
          wd_Content = ev_content ev, wd_Embedding = [], wd_env = env\<rparr>))"

definition wiki_EmbedText :: "WikiDocument \<Rightarrow> string" where
  "wiki_EmbedText d = passage [wd_Title d, wd_Summary d, wd_Content d]"

definition json_wiki :: "WikiDocument \<Rightarrow> jobj" where
  "json_wiki d = with_envelope (wd_env d) ([(''id'', JStr (wd_ID d)), (''d'', JStr (wd_D d))] @ opt_str ''title'' (wd_Title d) @
     opt_str ''summary'' (wd_Summary d) @ opt_str ''content'' (wd_Content d) @ opt_vec ''embedding'' (wd_Embedding d))"

definition wikiSchema :: "string \<Rightarrow> schema" where
  "wikiSchema name = mk_schema name [fld ''id'' ''string'' False False, fld ''d'' ''string'' False False,
     fld ''title'' ''string'' False True, fld ''summary'' ''string'' False True, fld ''content'' ''string'' False True,
     embedding_field]"

section \<open>Calendar events\<close>

text \<open>What \<open>nip52.ParseCalendarEvent\<close> reads; \<open>None\<close> is Go's zero time.\<close>

record calendar_event =
  ce_Title :: string
  ce_Start :: "64 word option"
  ce_End :: "64 word option"
  ce_Locations :: "string list"
  ce_Geohashes :: "string list"

type_synonym parse_calendar = "event \<Rightarrow> calendar_event"

text \<open>The concept slots are a function from the Typesense field.\<close>

record CalendarDocument =
  cd_ID :: string
  cd_D :: string
  cd_Title :: string
  cd_Summary :: string
  cd_Content :: string
  cd_Location :: string
  cd_Start :: "64 word"
  cd_End :: "64 word"
  cd_Geohash :: string
  cd_Status :: string
  cd_Keywords :: "string list"
  cd_ConceptIDs :: "string \<Rightarrow> string list"
  cd_Embedding :: vector
  cd_env :: structuredEnvelope

definition calendarConceptIDFacets :: "(string \<times> string) list" where
  "calendarConceptIDFacets = [(''about'', ''aboutId''), (''audience'', ''audienceId''), (''educationalLevel'', ''educationalLevelId'')]"

definition calendarTagFields :: "(string \<times> string) list" where
  "calendarTagFields = map (\<lambda>(facet, field). (facet @ '':id'', field)) calendarConceptIDFacets"

definition add_slot :: "string \<Rightarrow> string \<Rightarrow> (string \<Rightarrow> string list) \<Rightarrow> (string \<Rightarrow> string list)" where
  "add_slot field v slots = slots(field := slots field @ [v])"

definition calendar_tag :: "string \<times> string \<Rightarrow> CalendarDocument \<Rightarrow> CalendarDocument" where
  "calendar_tag = (\<lambda>(n, v) doc.
     if n = ''title'' then (if cd_Title doc = [] then doc\<lparr>cd_Title := v\<rparr> else doc)
     else if n = ''summary'' then doc\<lparr>cd_Summary := v\<rparr>
     else if n = ''status'' then doc\<lparr>cd_Status := v\<rparr>
     else if n = ''t'' then doc\<lparr>cd_Keywords := cd_Keywords doc @ [v]\<rparr>
     else case cut_suffix n '':id'' of
       None \<Rightarrow> doc
     | Some facet \<Rightarrow> (case map_of calendarConceptIDFacets facet of
         None \<Rightarrow> doc
       | Some field \<Rightarrow> doc\<lparr>cd_ConceptIDs := add_slot field v (cd_ConceptIDs doc)\<rparr>))"

definition fill_times :: "calendar_event \<Rightarrow> CalendarDocument \<Rightarrow> CalendarDocument" where
  "fill_times cal doc = doc\<lparr>cd_Title := ce_Title cal,
     cd_Start := (case ce_Start cal of None \<Rightarrow> cd_Start doc | Some t \<Rightarrow> t),
     cd_End := (case ce_End cal of None \<Rightarrow> cd_End doc | Some t \<Rightarrow> t),
     cd_Location := (case ce_Locations cal of [] \<Rightarrow> cd_Location doc | l # _ \<Rightarrow> l),
     cd_Geohash := (case ce_Geohashes cal of [] \<Rightarrow> cd_Geohash doc | g # _ \<Rightarrow> g)\<rparr>"

definition nostrToCalendar :: "lib \<Rightarrow> marshal_event \<Rightarrow> cal_lib \<Rightarrow> parse_calendar \<Rightarrow> event \<Rightarrow> error + CalendarDocument" where
  "nostrToCalendar L mj C parse ev = (let dTag = get_d L (ev_tags ev) in
     if dTag = [] then Inl (missing_d ''calendar event'' L ev)
     else case newStructuredEnvelope L mj ev of
       Inl e \<Rightarrow> Inl e
     | Inr env \<Rightarrow>
         let doc = \<lparr>cd_ID = docIDFor L (ev_kind ev) (pk_hex L (ev_pubkey ev)) dTag, cd_D = dTag, cd_Title = [],
               cd_Summary = [], cd_Content = ev_content ev, cd_Location = [], cd_Start = 0, cd_End = 0, cd_Geohash = [],
               cd_Status = [], cd_Keywords = [], cd_ConceptIDs = (\<lambda>_. []), cd_Embedding = [], cd_env = env\<rparr>;
             doc1 = (if cl_IsCalendarEventKind C (ev_kind ev) then fill_times (parse ev) doc else doc)
         in Inr (fold calendar_tag (tag_pairs (ev_tags ev)) doc1))"

definition calendar_EmbedText :: "CalendarDocument \<Rightarrow> string" where
  "calendar_EmbedText d = passage [cd_Title d, cd_Summary d, cd_Location d, cd_Content d]"

definition json_calendar :: "CalendarDocument \<Rightarrow> jobj" where
  "json_calendar d = with_envelope (cd_env d) ([(''id'', JStr (cd_ID d)), (''d'', JStr (cd_D d))] @ opt_str ''title'' (cd_Title d) @
     opt_str ''summary'' (cd_Summary d) @ opt_str ''content'' (cd_Content d) @ opt_str ''location'' (cd_Location d) @
     opt_int ''start'' (cd_Start d) @ opt_int ''end'' (cd_End d) @ opt_str ''geohash'' (cd_Geohash d) @
     opt_str ''status'' (cd_Status d) @ opt_strs ''keywords'' (cd_Keywords d) @
     concat (map (\<lambda>(_, field). opt_strs field (cd_ConceptIDs d field)) calendarConceptIDFacets) @
     opt_vec ''embedding'' (cd_Embedding d))"

definition calendarSchema :: "string \<Rightarrow> schema" where
  "calendarSchema name = mk_schema name ([fld ''id'' ''string'' False False, fld ''d'' ''string'' False False,
     fld ''title'' ''string'' False True, fld ''summary'' ''string'' False True, fld ''content'' ''string'' False True,
     fld ''location'' ''string'' False True, fld ''start'' ''int64'' True True, fld ''end'' ''int64'' True True,
     fld ''geohash'' ''string'' True True, fld ''status'' ''string'' True True, fld ''keywords'' ''string[]'' True True,
     embedding_field] @ map (\<lambda>(_, field). fld field ''string[]'' True True) calendarConceptIDFacets)"

section \<open>Community shares\<close>

record ShareDocument =
  sd_ID :: string
  sd_D :: string
  sd_RefE :: "string list"
  sd_RefA :: "string list"
  sd_RefKind :: string
  sd_env :: structuredEnvelope

definition share_tag :: "string \<times> string \<Rightarrow> ShareDocument \<Rightarrow> ShareDocument" where
  "share_tag = (\<lambda>(n, v) doc.
     if n = ''e'' then doc\<lparr>sd_RefE := sd_RefE doc @ [v]\<rparr>
     else if n = ''a'' then doc\<lparr>sd_RefA := sd_RefA doc @ [v]\<rparr>
     else if n = ''k'' then doc\<lparr>sd_RefKind := v\<rparr>
     else doc)"

definition nostrToShare :: "lib \<Rightarrow> marshal_event \<Rightarrow> event \<Rightarrow> error + ShareDocument" where
  "nostrToShare L mj ev = (case newStructuredEnvelope L mj ev of
     Inl e \<Rightarrow> Inl e
   | Inr env0 \<Rightarrow>
       let env = env0\<lparr>en_Community := shareCommunities ev\<rparr>;
           dTag = get_d L (ev_tags ev);
           build = (\<lambda>i. Inr (fold share_tag (tag_pairs (ev_tags ev))
             \<lparr>sd_ID = i, sd_D = dTag, sd_RefE = [], sd_RefA = [], sd_RefKind = [], sd_env = env\<rparr>))
       in if ev_kind ev = kindTargetedPublication then
            (if dTag = [] then Inl (missing_d ''targeted publication'' L ev)
             else build (gen_doc_id L (pk_hex L (ev_pubkey ev)) dTag))
          else build (id_hex L (ev_id ev)))"

definition json_share :: "ShareDocument \<Rightarrow> jobj" where
  "json_share d = with_envelope (sd_env d) ([(''id'', JStr (sd_ID d))] @ opt_str ''d'' (sd_D d) @ opt_strs ''refE'' (sd_RefE d) @
     opt_strs ''refA'' (sd_RefA d) @ opt_str ''refKind'' (sd_RefKind d))"

definition sharesSchema :: "string \<Rightarrow> schema" where
  "sharesSchema name = mk_schema name [fld ''id'' ''string'' False False, fld ''d'' ''string'' True True,
     fld ''refE'' ''string[]'' True True, fld ''refA'' ''string[]'' True True, fld ''refKind'' ''string'' True True]"

definition sharesTagFields :: "(string \<times> string) list" where
  "sharesTagFields = [(''a'', ''refA''), (''e'', ''refE''), (''k'', ''refKind'')]"

section \<open>Transferkiosk projects and measures\<close>

text \<open>The label and concept slots are functions from the Typesense field.\<close>

record TransferkioskDocument =
  tk_ID :: string
  tk_D :: string
  tk_Type :: string
  tk_Name :: string
  tk_Description :: string
  tk_SearchText :: string
  tk_Content :: string
  tk_PartOf :: "string list"
  tk_Labels :: "string \<Rightarrow> string list"
  tk_ConceptIDs :: "string \<Rightarrow> string list"
  tk_Status :: string
  tk_FunderName :: string
  tk_FunderProgram :: string
  tk_HostName :: string
  tk_HostBundesland :: string
  tk_StartDate :: string
  tk_EndDate :: string
  tk_Embedding :: vector
  tk_env :: structuredEnvelope

definition tkLabelFacets :: "string list" where
  "tkLabelFacets = [''about'', ''audience'', ''activity'', ''actionField'', ''actionScope'', ''studyModel'', ''objective'', ''transferability'']"

definition tkConceptIDFacets :: "(string \<times> string) list" where
  "tkConceptIDFacets = [(''about'', ''aboutId''), (''audience'', ''audienceId''), (''activity'', ''activityId''),
     (''actionField'', ''actionFieldId''), (''actionScope'', ''actionScopeId''), (''studyModel'', ''studyModelId''),
     (''objective'', ''objectiveId''), (''transferability'', ''transferabilityId''),
     (''ext:tk:fachbezug'', ''extTkFachbezugId''), (''ext:tk:projectCyclePhase'', ''extTkProjectCyclePhaseId''),
     (''ext:tk:evaluationMethod'', ''extTkEvaluationMethodId''), (''ext:tk:qualityDevelopment'', ''extTkQualityDevelopmentId'')]"

definition transferkioskTagFields :: "(string \<times> string) list" where
  "transferkioskTagFields = map (\<lambda>(facet, field). (facet @ '':id'', field)) tkConceptIDFacets"

definition tkNarrativeTags :: "string list" where
  "tkNarrativeTags = [''summary'', ''challenge'', ''approach'', ''context'', ''prerequisite'', ''procedure'', ''outcome'',
     ''learnings'', ''recommendation'', ''tips'']"

definition is_part_marker :: "tag \<Rightarrow> bool" where
  "is_part_marker t \<longleftrightarrow> (case t of _ # _ # _ # m # _ \<Rightarrow> m = ''isPartOf'' \<or> m = ''isOutputOf'' | _ \<Rightarrow> False)"

text \<open>One turn of the loop over the tags, on the document, the labels and the narrative texts.\<close>

definition tk_field :: "string \<Rightarrow> string \<Rightarrow> tag \<Rightarrow> TransferkioskDocument \<Rightarrow> TransferkioskDocument" where
  "tk_field n v t doc = (
     if n = ''type'' then doc\<lparr>tk_Type := v\<rparr>
     else if n = ''name'' then doc\<lparr>tk_Name := v\<rparr>
     else if n = ''description'' then doc\<lparr>tk_Description := v\<rparr>
     else if n = ''status'' then doc\<lparr>tk_Status := v\<rparr>
     else if n = ''funder:name'' then doc\<lparr>tk_FunderName := v\<rparr>
     else if n = ''funder:program:name'' then doc\<lparr>tk_FunderProgram := v\<rparr>
     else if n = ''host:name'' then doc\<lparr>tk_HostName := v\<rparr>
     else if n = ''host:location:name'' then doc\<lparr>tk_HostBundesland := v\<rparr>
     else if n = ''startDate'' then doc\<lparr>tk_StartDate := v\<rparr>
     else if n = ''endDate'' then doc\<lparr>tk_EndDate := v\<rparr>
     else if n = ''a'' then (if is_part_marker t then doc\<lparr>tk_PartOf := tk_PartOf doc @ [v]\<rparr> else doc)
     else doc)"

definition tk_tag :: "tag \<Rightarrow> TransferkioskDocument \<times> string list \<times> string list \<Rightarrow> TransferkioskDocument \<times> string list \<times> string list" where
  "tk_tag t = (\<lambda>(doc, labels, narrative). case tag_pair t of
     None \<Rightarrow> (doc, labels, narrative)
   | Some (n, v) \<Rightarrow> (case cut_suffix n '':prefLabel:de'' of
       Some facet \<Rightarrow>
         ((if facet \<in> set tkLabelFacets then doc\<lparr>tk_Labels := add_slot facet v (tk_Labels doc)\<rparr> else doc), labels @ [v], narrative)
     | None \<Rightarrow> (case cut_suffix n '':id'' of
         Some facet \<Rightarrow> (case map_of tkConceptIDFacets facet of
             None \<Rightarrow> (doc, labels, narrative)
           | Some field \<Rightarrow> (doc\<lparr>tk_ConceptIDs := add_slot field v (tk_ConceptIDs doc)\<rparr>, labels, narrative))
       | None \<Rightarrow>
           if n \<in> set tkNarrativeTags then (doc, labels, narrative @ [v])
           else (tk_field n v t doc, labels, narrative))))"

definition nostrToTransferkiosk :: "lib \<Rightarrow> marshal_event \<Rightarrow> event \<Rightarrow> error + TransferkioskDocument" where
  "nostrToTransferkiosk L mj ev = (let dTag = get_d L (ev_tags ev) in
     if dTag = [] then Inl (missing_d ''transferkiosk event'' L ev)
     else case newStructuredEnvelope L mj ev of
       Inl e \<Rightarrow> Inl e
     | Inr env \<Rightarrow> (case fold tk_tag (ev_tags ev)
         (\<lparr>tk_ID = docIDFor L (ev_kind ev) (pk_hex L (ev_pubkey ev)) dTag, tk_D = dTag, tk_Type = [], tk_Name = [],
           tk_Description = [], tk_SearchText = [], tk_Content = ev_content ev, tk_PartOf = [], tk_Labels = (\<lambda>_. []),
           tk_ConceptIDs = (\<lambda>_. []), tk_Status = [], tk_FunderName = [], tk_FunderProgram = [], tk_HostName = [],
           tk_HostBundesland = [], tk_StartDate = [], tk_EndDate = [], tk_Embedding = [], tk_env = env\<rparr>, [], []) of
         (doc, labels, narrative) \<Rightarrow>
           Inr (doc\<lparr>tk_SearchText := join '' '' ((if tk_Description doc \<noteq> [] then [tk_Description doc] else []) @ narrative @ labels)\<rparr>)))"

definition transferkiosk_EmbedText :: "TransferkioskDocument \<Rightarrow> string" where
  "transferkiosk_EmbedText d = (case nonempty [tk_SearchText d, tk_Content d, tk_Name d] of [] \<Rightarrow> [] | s # _ \<Rightarrow> s)"

definition json_transferkiosk :: "TransferkioskDocument \<Rightarrow> jobj" where
  "json_transferkiosk d = with_envelope (tk_env d) ([(''id'', JStr (tk_ID d)), (''d'', JStr (tk_D d)), (''type'', JStr (tk_Type d)), (''name'', JStr (tk_Name d))] @
     opt_str ''description'' (tk_Description d) @ opt_str ''searchText'' (tk_SearchText d) @ opt_str ''content'' (tk_Content d) @
     opt_strs ''partOf'' (tk_PartOf d) @ concat (map (\<lambda>facet. opt_strs facet (tk_Labels d facet)) tkLabelFacets) @
     concat (map (\<lambda>(_, field). opt_strs field (tk_ConceptIDs d field)) tkConceptIDFacets) @
     opt_str ''status'' (tk_Status d) @ opt_str ''funderName'' (tk_FunderName d) @ opt_str ''funderProgram'' (tk_FunderProgram d) @
     opt_str ''hostName'' (tk_HostName d) @ opt_str ''hostBundesland'' (tk_HostBundesland d) @
     opt_str ''startDate'' (tk_StartDate d) @ opt_str ''endDate'' (tk_EndDate d) @ opt_vec ''embedding'' (tk_Embedding d))"

definition transferkioskSchema :: "string \<Rightarrow> schema" where
  "transferkioskSchema name = (let str = (\<lambda>n facet. fld n ''string'' facet True); strArr = (\<lambda>n. fld n ''string[]'' True True) in
     mk_schema name ([fld ''id'' ''string'' False False, fld ''d'' ''string'' False False, fld ''type'' ''string'' True False,
       fld ''name'' ''string'' False False, str ''description'' False, str ''searchText'' False, str ''content'' False, strArr ''partOf'',
       strArr ''about'', strArr ''audience'', strArr ''activity'', strArr ''actionField'', strArr ''actionScope'',
       strArr ''studyModel'', strArr ''objective'', strArr ''transferability'',
       str ''status'' True, str ''funderName'' True, str ''funderProgram'' True, str ''hostName'' True, str ''hostBundesland'' True,
       str ''startDate'' True, str ''endDate'' True, embedding_field] @ map (\<lambda>(_, field). strArr field) tkConceptIDFacets))"

section \<open>Publications\<close>

record PublicationDocument =
  pd_ID :: string
  pd_D :: string
  pd_Type :: string
  pd_Title :: string
  pd_Summary :: string
  pd_SearchText :: string
  pd_Content :: string
  pd_Author :: "string list"
  pd_CreatorName :: "string list"
  pd_Doi :: string
  pd_Source :: string
  pd_PublishedOn :: string
  pd_PublishedBy :: string
  pd_Image :: string
  pd_Keywords :: "string list"
  pd_About :: "string list"
  pd_InLanguage :: string
  pd_License :: string
  pd_EncodingURL :: string
  pd_Sections :: "string list"
  pd_PartOf :: "string list"
  pd_Embedding :: vector
  pd_env :: structuredEnvelope

definition is_hex_char :: "char \<Rightarrow> bool" where
  "is_hex_char c \<longleftrightarrow> c \<in> set ''0123456789abcdefABCDEF''"

definition isHex64 :: "string \<Rightarrow> bool" where
  "isHex64 s \<longleftrightarrow> length s = 64 \<and> list_all is_hex_char s"

definition marker :: "tag \<Rightarrow> string" where
  "marker t = (case t of _ # _ # _ # m # _ \<Rightarrow> m | _ \<Rightarrow> [])"

definition pub_field :: "string \<Rightarrow> string \<Rightarrow> tag \<Rightarrow> PublicationDocument \<Rightarrow> PublicationDocument" where
  "pub_field n v t doc = (
     if n = ''type'' then doc\<lparr>pd_Type := v\<rparr>
     else if n = ''title'' then doc\<lparr>pd_Title := v\<rparr>
     else if n = ''summary'' then doc\<lparr>pd_Summary := v\<rparr>
     else if n = ''author'' then doc\<lparr>pd_Author := pd_Author doc @ [v]\<rparr>
     else if n = ''creator:name'' then doc\<lparr>pd_CreatorName := pd_CreatorName doc @ [v]\<rparr>
     else if n = ''i'' then (case cut_prefix v ''doi:'' of
         Some doi \<Rightarrow> if pd_Doi doc = [] then doc\<lparr>pd_Doi := doi\<rparr> else doc
       | None \<Rightarrow> doc)
     else if n = ''source'' then doc\<lparr>pd_Source := v\<rparr>
     else if n = ''published_on'' then doc\<lparr>pd_PublishedOn := v\<rparr>
     else if n = ''published_by'' then doc\<lparr>pd_PublishedBy := v\<rparr>
     else if n = ''image'' then doc\<lparr>pd_Image := v\<rparr>
     else if n = ''t'' then doc\<lparr>pd_Keywords := pd_Keywords doc @ [v]\<rparr>
     else if n = ''about:id'' then doc\<lparr>pd_About := pd_About doc @ [v]\<rparr>
     else if n = ''inLanguage'' then doc\<lparr>pd_InLanguage := v\<rparr>
     else if n = ''license:id'' then doc\<lparr>pd_License := v\<rparr>
     else if n = ''encoding:contentUrl'' then doc\<lparr>pd_EncodingURL := v\<rparr>
     else if n = ''a'' then
       (let m = marker t in
        if m = ''isPartOf'' \<or> m = ''isOutputOf'' then doc\<lparr>pd_PartOf := pd_PartOf doc @ [v]\<rparr>
        else if m = [] \<or> isHex64 m then doc\<lparr>pd_Sections := pd_Sections doc @ [v]\<rparr>
        else doc)
     else doc)"

text \<open>The tags whose value is folded into the search text.\<close>

definition pub_folds :: "string \<Rightarrow> bool" where
  "pub_folds n \<longleftrightarrow> n \<in> {''author'', ''creator:name'', ''creator:affiliation:name'', ''editor:name'', ''published_by'', ''t''}"

definition pub_tag :: "tag \<Rightarrow> PublicationDocument \<times> string list \<Rightarrow> PublicationDocument \<times> string list" where
  "pub_tag t = (\<lambda>(doc, folded). case tag_pair t of
     None \<Rightarrow> (doc, folded)
   | Some (n, v) \<Rightarrow>
       if has_prefix n ''about:prefLabel:'' then (doc, folded @ [v])
       else (pub_field n v t doc, if pub_folds n then folded @ [v] else folded))"

definition nostrToPublication :: "lib \<Rightarrow> marshal_event \<Rightarrow> event \<Rightarrow> error + PublicationDocument" where
  "nostrToPublication L mj ev = (let dTag = get_d L (ev_tags ev) in
     if dTag = [] then Inl (missing_d ''publication event'' L ev)
     else case newStructuredEnvelope L mj ev of
       Inl e \<Rightarrow> Inl e
     | Inr env \<Rightarrow> (case fold pub_tag (ev_tags ev)
         (\<lparr>pd_ID = docIDFor L (ev_kind ev) (pk_hex L (ev_pubkey ev)) dTag, pd_D = dTag, pd_Type = [], pd_Title = [],
           pd_Summary = [], pd_SearchText = [], pd_Content = ev_content ev, pd_Author = [], pd_CreatorName = [],
           pd_Doi = [], pd_Source = [], pd_PublishedOn = [], pd_PublishedBy = [], pd_Image = [], pd_Keywords = [],
           pd_About = [], pd_InLanguage = [], pd_License = [], pd_EncodingURL = [], pd_Sections = [], pd_PartOf = [],
           pd_Embedding = [], pd_env = env\<rparr>, []) of
         (doc, folded) \<Rightarrow> Inr (doc\<lparr>pd_SearchText := join '' '' folded\<rparr>)))"

definition publication_EmbedText :: "PublicationDocument \<Rightarrow> string" where
  "publication_EmbedText d = passage [pd_Title d, pd_Summary d, pd_SearchText d, pd_Content d]"

definition json_publication :: "PublicationDocument \<Rightarrow> jobj" where
  "json_publication d = with_envelope (pd_env d) ([(''id'', JStr (pd_ID d)), (''d'', JStr (pd_D d))] @ opt_str ''type'' (pd_Type d) @
     [(''title'', JStr (pd_Title d))] @ opt_str ''summary'' (pd_Summary d) @ opt_str ''searchText'' (pd_SearchText d) @
     opt_str ''content'' (pd_Content d) @ opt_strs ''author'' (pd_Author d) @ opt_strs ''creatorName'' (pd_CreatorName d) @
     opt_str ''doi'' (pd_Doi d) @ opt_str ''source'' (pd_Source d) @ opt_str ''published_on'' (pd_PublishedOn d) @
     opt_str ''published_by'' (pd_PublishedBy d) @ opt_str ''image'' (pd_Image d) @ opt_strs ''keywords'' (pd_Keywords d) @
     opt_strs ''about'' (pd_About d) @ opt_str ''inLanguage'' (pd_InLanguage d) @ opt_str ''license'' (pd_License d) @
     opt_str ''encodingUrl'' (pd_EncodingURL d) @ opt_strs ''sections'' (pd_Sections d) @ opt_strs ''partOf'' (pd_PartOf d) @
     opt_vec ''embedding'' (pd_Embedding d))"

definition publicationsSchema :: "string \<Rightarrow> schema" where
  "publicationsSchema name = (let str = (\<lambda>n facet. fld n ''string'' facet True); strArr = (\<lambda>n. fld n ''string[]'' True True) in
     mk_schema name [fld ''id'' ''string'' False False, fld ''d'' ''string'' False False, str ''type'' True,
       fld ''title'' ''string'' False False, str ''summary'' False, str ''searchText'' False, str ''content'' False,
       strArr ''author'', strArr ''creatorName'', str ''doi'' True, str ''source'' False, str ''published_on'' True,
       str ''published_by'' True, str ''image'' False, strArr ''keywords'', strArr ''about'', str ''inLanguage'' True,
       str ''license'' True, str ''encodingUrl'' False, strArr ''sections'', strArr ''partOf'',
       fld ''content_fetched_at'' ''int64'' False True, str ''content_status'' False, embedding_field])"

text \<open>The fulltext of a publication; \<open>tx\<close> is the outcome of the database transaction.\<close>

definition setPublicationContent :: "lib \<Rightarrow> json_lib \<Rightarrow> 'w http \<Rightarrow> ts_conn \<Rightarrow> error option \<Rightarrow> event \<Rightarrow> content_entry \<Rightarrow>
    mgmt_db \<times> 'w \<Rightarrow> error option \<times> mgmt_db \<times> 'w" where
  "setPublicationContent L J http c tx ev entry s = (case s of (m, w) \<Rightarrow>
     (case ContentStore_Put J tx (id_hex L (ev_id ev)) entry m of
       (Some e, m') \<Rightarrow> (Some (''content store put: '' @ e), m', w)
     | (None, m') \<Rightarrow> (case PatchContent http c (docIDFor L (ev_kind ev) (pk_hex L (ev_pubkey ev)) (get_d L (ev_tags ev))) entry w of
         (r, w') \<Rightarrow> (r, m', w'))))"

definition clearPublicationContent :: "lib \<Rightarrow> 'w http \<Rightarrow> ts_conn \<Rightarrow> error option \<Rightarrow> event \<Rightarrow>
    mgmt_db \<times> 'w \<Rightarrow> error option \<times> mgmt_db \<times> 'w" where
  "clearPublicationContent L http c tx ev s = (case s of (m, w) \<Rightarrow>
     (case ContentStore_Delete tx (id_hex L (ev_id ev)) m of
       (Some e, m') \<Rightarrow> (Some (''content store delete: '' @ e), m', w)
     | (None, m') \<Rightarrow> (case ClearContent http c (docIDFor L (ev_kind ev) (pk_hex L (ev_pubkey ev)) (get_d L (ev_tags ev))) w of
         (r, w') \<Rightarrow> (r, m', w'))))"

section \<open>Profiles\<close>

record profile_metadata =
  pm_Name :: string
  pm_DisplayName :: string
  pm_About :: string
  pm_NIP05 :: string

record ProfileDocument =
  pr_ID :: string
  pr_Name :: string
  pr_DisplayName :: string
  pr_About :: string
  pr_NIP05 :: string
  pr_NIP05Verified :: bool
  pr_env :: structuredEnvelope

definition nostrToProfile :: "lib \<Rightarrow> marshal_event \<Rightarrow> (event \<Rightarrow> error + profile_metadata) \<Rightarrow> event \<Rightarrow> error + ProfileDocument" where
  "nostrToProfile L mj parse ev = (case parse ev of
     Inl e \<Rightarrow> Inl (''parse kind-0 metadata: '' @ e)
   | Inr meta \<Rightarrow> (case newStructuredEnvelope L mj ev of
       Inl e \<Rightarrow> Inl e
     | Inr env \<Rightarrow> Inr \<lparr>pr_ID = pk_hex L (ev_pubkey ev), pr_Name = pm_Name meta, pr_DisplayName = pm_DisplayName meta,
         pr_About = pm_About meta, pr_NIP05 = pm_NIP05 meta, pr_NIP05Verified = False, pr_env = env\<rparr>))"

definition profileProjector :: "lib \<Rightarrow> marshal_event \<Rightarrow> (event \<Rightarrow> error + profile_metadata) \<Rightarrow> bool \<Rightarrow> event \<Rightarrow> error + ProfileDocument" where
  "profileProjector L mj parse verified ev = (case nostrToProfile L mj parse ev of
     Inl e \<Rightarrow> Inl e | Inr doc \<Rightarrow> Inr (doc\<lparr>pr_NIP05Verified := verified\<rparr>))"

definition json_profile :: "ProfileDocument \<Rightarrow> jobj" where
  "json_profile d = with_envelope (pr_env d) ([(''id'', JStr (pr_ID d))] @ opt_str ''name'' (pr_Name d) @ opt_str ''display_name'' (pr_DisplayName d) @
     opt_str ''about'' (pr_About d) @ opt_str ''nip05'' (pr_NIP05 d) @ [(''nip05_verified'', JBool (pr_NIP05Verified d))])"

definition profileSchema :: "string \<Rightarrow> schema" where
  "profileSchema name = mk_schema name [fld ''id'' ''string'' False False, fld ''name'' ''string'' False True,
     fld ''display_name'' ''string'' False True, fld ''about'' ''string'' False True, fld ''nip05'' ''string'' False True,
     fld ''nip05_verified'' ''bool'' False True]"

section \<open>Storing a document\<close>

text \<open>A kind of document: its JSON and, where it carries a vector, the passage and the slot of the vector.\<close>

record 'd doc_kind =
  dk_json :: "'d \<Rightarrow> jobj"
  dk_embeddable :: "(('d \<Rightarrow> string) \<times> (vector \<Rightarrow> 'd \<Rightarrow> 'd)) option"

definition longform_kind :: "LongformDocument doc_kind" where
  "longform_kind = \<lparr>dk_json = json_longform, dk_embeddable = Some (longform_EmbedText, \<lambda>v d. d\<lparr>lf_Embedding := v\<rparr>)\<rparr>"
definition wiki_kind :: "WikiDocument doc_kind" where
  "wiki_kind = \<lparr>dk_json = json_wiki, dk_embeddable = Some (wiki_EmbedText, \<lambda>v d. d\<lparr>wd_Embedding := v\<rparr>)\<rparr>"
definition calendar_kind :: "CalendarDocument doc_kind" where
  "calendar_kind = \<lparr>dk_json = json_calendar, dk_embeddable = Some (calendar_EmbedText, \<lambda>v d. d\<lparr>cd_Embedding := v\<rparr>)\<rparr>"
definition transferkiosk_kind :: "TransferkioskDocument doc_kind" where
  "transferkiosk_kind = \<lparr>dk_json = json_transferkiosk, dk_embeddable = Some (transferkiosk_EmbedText, \<lambda>v d. d\<lparr>tk_Embedding := v\<rparr>)\<rparr>"
definition publication_kind :: "PublicationDocument doc_kind" where
  "publication_kind = \<lparr>dk_json = json_publication, dk_embeddable = Some (publication_EmbedText, \<lambda>v d. d\<lparr>pd_Embedding := v\<rparr>)\<rparr>"
definition share_kind :: "ShareDocument doc_kind" where
  "share_kind = \<lparr>dk_json = json_share, dk_embeddable = None\<rparr>"
definition profile_kind :: "ProfileDocument doc_kind" where
  "profile_kind = \<lparr>dk_json = json_profile, dk_embeddable = None\<rparr>"

record 'w structured_backend =
  sb_http :: "'w http"
  sb_decode :: "string \<Rightarrow> (bool \<times> string) option"
  sb_conn :: ts_conn
  sb_Embedder :: "(string list \<Rightarrow> 'w \<Rightarrow> (error + vector list) \<times> 'w) option"

definition embedAndAttach :: "'w structured_backend \<Rightarrow> 'd doc_kind \<Rightarrow> 'd \<Rightarrow> 'w \<Rightarrow> (error option \<times> 'd) \<times> 'w" where
  "embedAndAttach B K doc w = (case sb_Embedder B of
     None \<Rightarrow> ((None, doc), w)
   | Some embedder \<Rightarrow> (case dk_embeddable K of
       None \<Rightarrow> ((None, doc), w)
     | Some (text_of, setv) \<Rightarrow>
         let text = text_of doc;
             text' = (if length text > EmbedMaxLength then take EmbedMaxLength text else text)
         in case embedder [text'] w of
           (Inl e, w') \<Rightarrow> ((Some e, doc), w')
         | (Inr vecs, w') \<Rightarrow> ((None, case vecs of [] \<Rightarrow> doc | v # _ \<Rightarrow> setv v doc), w')))"

definition reprojectStructured :: "'w structured_backend \<Rightarrow> 'd doc_kind \<Rightarrow> (event \<Rightarrow> error + 'd) \<Rightarrow> event \<Rightarrow> 'w \<Rightarrow> error option \<times> 'w" where
  "reprojectStructured B K project ev w = (case project ev of
     Inl e \<Rightarrow> (Some (''project: '' @ e), w)
   | Inr doc \<Rightarrow> (case embedAndAttach B K doc w of
       ((_, doc'), w1) \<Rightarrow> (case upsertStructuredDoc (sb_http B) (sb_decode B) (sb_conn B) (dk_json K doc') w1 of
         (Some e, w2) \<Rightarrow> (Some (''upsert: '' @ e), w2)
       | (None, w2) \<Rightarrow> (None, w2))))"

definition storeStructured :: "bool \<Rightarrow> 'w structured_backend option \<Rightarrow> 'd doc_kind \<Rightarrow> (event \<Rightarrow> error + 'd) \<Rightarrow> event \<Rightarrow> 'w \<Rightarrow> 'w" where
  "storeStructured enabled ts K project ev w = (case ts of
     None \<Rightarrow> w
   | Some B \<Rightarrow> if \<not> enabled then w else snd (reprojectStructured B K project ev w))"

definition storeLongform :: "lib \<Rightarrow> marshal_event \<Rightarrow> bool \<Rightarrow> 'w structured_backend option \<Rightarrow> event \<Rightarrow> 'w \<Rightarrow> 'w" where
  "storeLongform L mj enabled ts ev = storeStructured enabled ts longform_kind (nostrToLongform L mj) ev"
definition storeWiki :: "lib \<Rightarrow> marshal_event \<Rightarrow> bool \<Rightarrow> 'w structured_backend option \<Rightarrow> event \<Rightarrow> 'w \<Rightarrow> 'w" where
  "storeWiki L mj enabled ts ev = storeStructured enabled ts wiki_kind (nostrToWiki L mj) ev"
definition storeCalendar :: "lib \<Rightarrow> marshal_event \<Rightarrow> cal_lib \<Rightarrow> parse_calendar \<Rightarrow> bool \<Rightarrow> 'w structured_backend option \<Rightarrow> event \<Rightarrow> 'w \<Rightarrow> 'w" where
  "storeCalendar L mj C parse enabled ts ev = storeStructured enabled ts calendar_kind (nostrToCalendar L mj C parse) ev"
definition storeShare :: "lib \<Rightarrow> marshal_event \<Rightarrow> bool \<Rightarrow> 'w structured_backend option \<Rightarrow> event \<Rightarrow> 'w \<Rightarrow> 'w" where
  "storeShare L mj enabled ts ev = storeStructured enabled ts share_kind (nostrToShare L mj) ev"
definition storeTransferkiosk :: "lib \<Rightarrow> marshal_event \<Rightarrow> bool \<Rightarrow> 'w structured_backend option \<Rightarrow> event \<Rightarrow> 'w \<Rightarrow> 'w" where
  "storeTransferkiosk L mj enabled ts ev = storeStructured enabled ts transferkiosk_kind (nostrToTransferkiosk L mj) ev"
definition storePublication :: "lib \<Rightarrow> marshal_event \<Rightarrow> bool \<Rightarrow> 'w structured_backend option \<Rightarrow> event \<Rightarrow> 'w \<Rightarrow> 'w" where
  "storePublication L mj enabled ts ev = storeStructured enabled ts publication_kind (nostrToPublication L mj) ev"
definition storeProfile :: "lib \<Rightarrow> marshal_event \<Rightarrow> (event \<Rightarrow> error + profile_metadata) \<Rightarrow> bool \<Rightarrow> 'w structured_backend option \<Rightarrow>
    event \<Rightarrow> bool \<Rightarrow> 'w \<Rightarrow> 'w" where
  "storeProfile L mj parse enabled ts ev verified = storeStructured enabled ts profile_kind (profileProjector L mj parse verified) ev"

section \<open>Advertised search extensions\<close>

definition searchPayloadFields :: "string list" where
  "searchPayloadFields = [''content'', ''content_fetched_at'', ''eventContent'', ''eventRaw'', ''eventSignature'']"

fun extension_fields :: "ts_field list \<Rightarrow> string set \<Rightarrow> string list" where
  "extension_fields [] seen = []"
| "extension_fields (f # fs) seen =
     (if fd_type f = ''float[]'' \<or> fd_name f \<in> set searchPayloadFields \<or> fd_name f \<in> seen then extension_fields fs seen
      else fd_name f # extension_fields fs (insert (fd_name f) seen))"

definition nip50SearchExtensions :: "schema list \<Rightarrow> string list" where
  "nip50SearchExtensions schemas = ''sort'' # sort (extension_fields (concat (map sch_fields schemas)) {})"

text \<open>The part of the relay information the extensions are published in.\<close>

record relay_info =
  ri_Limitation :: "(bool \<times> string list) option"
  ri_Nip50 :: "string list"

definition advertiseSearchExtensions :: "relay_info \<Rightarrow> string list \<Rightarrow> relay_info" where
  "advertiseSearchExtensions info exts = (
     let auth = (case ri_Limitation info of None \<Rightarrow> False | Some (a, _) \<Rightarrow> a)
     in info\<lparr>ri_Limitation := Some (auth, exts), ri_Nip50 := map (\<lambda>e. ''ext '' @ e) exts\<rparr>)"

section \<open>Documents fit their schemas\<close>

definition has_type :: "json \<Rightarrow> string \<Rightarrow> bool" where
  "has_type v t = (case v of
     JStr _ \<Rightarrow> t = ''string''
   | JStrs _ \<Rightarrow> t = ''string[]''
   | JBool _ \<Rightarrow> t = ''bool''
   | JVec _ \<Rightarrow> t = ''float[]''
   | JInt i \<Rightarrow> t = ''int64'' \<and> - (2 ^ 63) \<le> i \<and> i < 2 ^ 63 \<or> t = ''int32'' \<and> - (2 ^ 31) \<le> i \<and> i < 2 ^ 31)"

definition declared :: "ts_field list \<Rightarrow> string \<times> json \<Rightarrow> bool" where
  "declared fs = (\<lambda>(n, v). case find (\<lambda>f. fd_name f = n) fs of None \<Rightarrow> False | Some f \<Rightarrow> has_type v (fd_type f))"

text \<open>Every member of the object is declared with a fitting type and every required field is there.\<close>

definition conforms :: "schema \<Rightarrow> jobj \<Rightarrow> bool" where
  "conforms sch obj \<longleftrightarrow> list_all (declared (sch_fields sch)) obj \<and>
     list_all (\<lambda>f. fd_optional f \<or> fd_name f \<in> set (map fst obj)) (sch_fields sch)"

lemma opt_all [simp]:
  "list_all P (opt_str n s) \<longleftrightarrow> s = [] \<or> P (n, JStr s)"
  "list_all P (opt_strs n ss) \<longleftrightarrow> ss = [] \<or> P (n, JStrs ss)"
  "list_all P (opt_int n i) \<longleftrightarrow> i = 0 \<or> P (n, JInt (sint i))"
  "list_all P (opt_vec n v) \<longleftrightarrow> v = [] \<or> P (n, JVec v)"
  by (simp_all add: opt_str_def opt_strs_def opt_int_def opt_vec_def)

lemma has_type_simps [simp]:
  "has_type (JStr s) t \<longleftrightarrow> t = ''string''" "has_type (JStrs ss) t \<longleftrightarrow> t = ''string[]''"
  "has_type (JBool b) t \<longleftrightarrow> t = ''bool''" "has_type (JVec v) t \<longleftrightarrow> t = ''float[]''"
  by (simp_all add: has_type_def)

lemma has_type_int64 [simp]: "has_type (JInt (sint (w :: 64 word))) ''int64''"
  using sint_greater_eq [of w] sint_less [of w] by (simp add: has_type_def)

lemma has_type_kind: "has_type (JInt (uint (k :: 16 word))) ''int32''"
proof -
  have "uint k < 65536" using uint_bounded [of k] by simp
  moreover have "- 2147483648 \<le> uint k" by (rule order.trans [OF _ uint_ge_0]) simp
  ultimately show ?thesis by (simp add: has_type_def)
qed

definition env_ok :: "structuredEnvelope \<Rightarrow> bool" where
  "env_ok e \<longleftrightarrow> has_type (JInt (en_EventKind e)) ''int32''"

lemma new_env_ok: "newStructuredEnvelope L mj ev = Inr env \<Longrightarrow> env_ok env"
  by (auto simp: newStructuredEnvelope_def env_ok_def has_type_kind split: sum.splits)

text \<open>The members of the envelope are declared when the fields before it do not hide them.\<close>

definition envelope_free :: "ts_field list \<Rightarrow> bool" where
  "envelope_free fs \<longleftrightarrow> list_all (\<lambda>f. fd_name f \<notin> set (map fd_name structuredEnvelopeFields)) fs"

lemma find_append_absent: "list_all (\<lambda>f. fd_name f \<noteq> n) fs \<Longrightarrow> find (\<lambda>f. fd_name f = n) (fs @ gs) = find (\<lambda>f. fd_name f = n) gs"
  by (induction fs) auto

lemma envelope_declared:
  assumes "envelope_free fs" and "env_ok e"
  shows "list_all (declared (fs @ structuredEnvelopeFields)) (json_envelope e)"
proof -
  have absent: "list_all (\<lambda>f. fd_name f \<noteq> n) fs" if "n \<in> set (map fd_name structuredEnvelopeFields)" for n
    using assms(1) that by (auto simp: envelope_free_def list_all_iff)
  have "declared (fs @ structuredEnvelopeFields) (n, v) \<longleftrightarrow> declared structuredEnvelopeFields (n, v)"
    if "n \<in> set (map fd_name structuredEnvelopeFields)" for n v
    by (simp add: declared_def find_append_absent [OF absent [OF that]])
  moreover have "list_all (declared structuredEnvelopeFields) (json_envelope e)"
    using assms(2) by (simp add: json_envelope_def declared_def structuredEnvelopeFields_def fld_def env_ok_def)
  ultimately show ?thesis
    by (simp add: json_envelope_def structuredEnvelopeFields_def fld_def)
qed

lemma declared_Cons: "declared (f # fs) (n, v) \<longleftrightarrow> (if fd_name f = n then has_type v (fd_type f) else declared fs (n, v))"
  by (simp add: declared_def)

lemma conforms_document:
  assumes "envelope_free fs" and "env_ok e" and "list_all (declared (fs @ structuredEnvelopeFields)) xs"
    and "list_all (\<lambda>f. fd_optional f \<or> fd_name f \<in> set (map fst xs)) fs"
  shows "conforms (mk_schema name fs) (with_envelope e xs)"
proof -
  have "list_all (\<lambda>f. fd_optional f \<or> fd_name f \<in> set (map fst (xs @ json_envelope e))) structuredEnvelopeFields"
    by (simp add: structuredEnvelopeFields_def fld_def json_envelope_def)
  with assms envelope_declared [OF assms(1,2)] show ?thesis
    by (auto simp: conforms_def mk_schema_def with_envelope_def list_all_iff)
qed

lemmas schema_simps = envelope_free_def structuredEnvelopeFields_def fld_def embedding_field_def declared_Cons

lemma conforms_longform: "env_ok (lf_env d) \<Longrightarrow> conforms (longformSchema name) (json_longform d)"
  unfolding longformSchema_def json_longform_def by (rule conforms_document) (simp_all add: schema_simps)

lemma conforms_wiki: "env_ok (wd_env d) \<Longrightarrow> conforms (wikiSchema name) (json_wiki d)"
  unfolding wikiSchema_def json_wiki_def by (rule conforms_document) (simp_all add: schema_simps)

lemma conforms_calendar: "env_ok (cd_env d) \<Longrightarrow> conforms (calendarSchema name) (json_calendar d)"
  unfolding calendarSchema_def json_calendar_def
  by (rule conforms_document) (simp_all add: schema_simps calendarConceptIDFacets_def)

lemma conforms_share: "env_ok (sd_env d) \<Longrightarrow> conforms (sharesSchema name) (json_share d)"
  unfolding sharesSchema_def json_share_def by (rule conforms_document) (simp_all add: schema_simps)

lemma conforms_transferkiosk: "env_ok (tk_env d) \<Longrightarrow> conforms (transferkioskSchema name) (json_transferkiosk d)"
  unfolding transferkioskSchema_def json_transferkiosk_def Let_def
  by (rule conforms_document) (simp_all add: schema_simps tkConceptIDFacets_def tkLabelFacets_def)

lemma conforms_publication: "env_ok (pd_env d) \<Longrightarrow> conforms (publicationsSchema name) (json_publication d)"
  unfolding publicationsSchema_def json_publication_def Let_def
  by (rule conforms_document) (simp_all add: schema_simps)

lemma conforms_profile: "env_ok (pr_env d) \<Longrightarrow> conforms (profileSchema name) (json_profile d)"
  unfolding profileSchema_def json_profile_def by (rule conforms_document) (simp_all add: schema_simps)

section \<open>What the tag loops keep\<close>

lemma longform_loop [simp]: "lf_env (fold longform_tag ps d) = lf_env d" "lf_ID (fold longform_tag ps d) = lf_ID d"
  by (induction ps arbitrary: d) (auto simp: longform_tag_def split: option.splits prod.splits)

lemma wiki_loop [simp]: "wd_env (fold wiki_tag ps d) = wd_env d" "wd_ID (fold wiki_tag ps d) = wd_ID d"
  by (induction ps arbitrary: d) (auto simp: wiki_tag_def split: prod.splits)

lemma calendar_loop [simp]: "cd_env (fold calendar_tag ps d) = cd_env d" "cd_ID (fold calendar_tag ps d) = cd_ID d"
  by (induction ps arbitrary: d) (auto simp: calendar_tag_def split: option.splits prod.splits)

lemma share_loop [simp]: "sd_env (fold share_tag ps d) = sd_env d" "sd_ID (fold share_tag ps d) = sd_ID d"
  by (induction ps arbitrary: d) (auto simp: share_tag_def split: prod.splits)

lemma tk_field_keeps [simp]: "tk_env (tk_field n v t d) = tk_env d" "tk_ID (tk_field n v t d) = tk_ID d"
  by (simp_all add: tk_field_def)

lemma tk_loop [simp]:
  "tk_env (fst (fold tk_tag ts s)) = tk_env (fst s)" "tk_ID (fst (fold tk_tag ts s)) = tk_ID (fst s)"
  by (induction ts arbitrary: s) (auto simp: tk_tag_def split: option.splits prod.splits)

lemma pub_field_keeps [simp]: "pd_env (pub_field n v t d) = pd_env d" "pd_ID (pub_field n v t d) = pd_ID d"
  by (auto simp: pub_field_def Let_def split: option.splits)

lemma pub_loop [simp]:
  "pd_env (fst (fold pub_tag ts s)) = pd_env (fst s)" "pd_ID (fst (fold pub_tag ts s)) = pd_ID (fst s)"
  by (induction ts arbitrary: s) (auto simp: pub_tag_def split: option.splits prod.splits)

lemma nostrToLongform_Inr: "nostrToLongform L mj ev = Inr d \<Longrightarrow>
    env_ok (lf_env d) \<and> lf_ID d = gen_doc_id L (pk_hex L (ev_pubkey ev)) (get_d L (ev_tags ev))"
  by (auto simp: nostrToLongform_def Let_def new_env_ok split: if_splits sum.splits)

lemma nostrToWiki_Inr: "nostrToWiki L mj ev = Inr d \<Longrightarrow>
    env_ok (wd_env d) \<and> wd_ID d = gen_doc_id L (pk_hex L (ev_pubkey ev)) (get_d L (ev_tags ev))"
  by (auto simp: nostrToWiki_def Let_def new_env_ok split: if_splits sum.splits)

lemma nostrToCalendar_Inr: "nostrToCalendar L mj C parse ev = Inr d \<Longrightarrow>
    env_ok (cd_env d) \<and> cd_ID d = docIDFor L (ev_kind ev) (pk_hex L (ev_pubkey ev)) (get_d L (ev_tags ev))"
  by (auto simp: nostrToCalendar_def Let_def new_env_ok fill_times_def split: if_splits sum.splits)

lemma nostrToShare_Inr: "nostrToShare L mj ev = Inr d \<Longrightarrow>
    env_ok (sd_env d) \<and> sd_ID d = (if ev_kind ev = kindTargetedPublication
      then gen_doc_id L (pk_hex L (ev_pubkey ev)) (get_d L (ev_tags ev)) else id_hex L (ev_id ev))"
  by (auto simp: nostrToShare_def Let_def env_ok_def dest!: new_env_ok split: if_splits sum.splits)

lemma nostrToTransferkiosk_Inr: "nostrToTransferkiosk L mj ev = Inr d \<Longrightarrow>
    env_ok (tk_env d) \<and> tk_ID d = docIDFor L (ev_kind ev) (pk_hex L (ev_pubkey ev)) (get_d L (ev_tags ev))"
  by (auto simp: nostrToTransferkiosk_def Let_def new_env_ok case_prod_beta split: if_splits sum.splits)

lemma nostrToPublication_Inr: "nostrToPublication L mj ev = Inr d \<Longrightarrow>
    env_ok (pd_env d) \<and> pd_ID d = docIDFor L (ev_kind ev) (pk_hex L (ev_pubkey ev)) (get_d L (ev_tags ev))"
  by (auto simp: nostrToPublication_def Let_def new_env_ok case_prod_beta split: if_splits sum.splits)

lemma profileProjector_Inr: "profileProjector L mj parse v ev = Inr d \<Longrightarrow>
    env_ok (pr_env d) \<and> pr_ID d = pk_hex L (ev_pubkey ev)"
  by (auto simp: profileProjector_def nostrToProfile_def new_env_ok split: sum.splits)

section \<open>Properties\<close>

text \<open>C33. Whatever tags an event carries, each document a projection builds from it, with or without a vector,
  fits the schema of its collection: every member is declared there with its type and range, and every
  required field is present.\<close>

theorem documents_fit_their_schema:
  "(case nostrToLongform L mj ev of Inl _ \<Rightarrow> True | Inr d \<Rightarrow> conforms (longformSchema n) (json_longform (d\<lparr>lf_Embedding := v\<rparr>))) \<and>
   (case nostrToWiki L mj ev of Inl _ \<Rightarrow> True | Inr d \<Rightarrow> conforms (wikiSchema n) (json_wiki (d\<lparr>wd_Embedding := v\<rparr>))) \<and>
   (case nostrToCalendar L mj C parse ev of Inl _ \<Rightarrow> True | Inr d \<Rightarrow> conforms (calendarSchema n) (json_calendar (d\<lparr>cd_Embedding := v\<rparr>))) \<and>
   (case nostrToShare L mj ev of Inl _ \<Rightarrow> True | Inr d \<Rightarrow> conforms (sharesSchema n) (json_share d)) \<and>
   (case nostrToTransferkiosk L mj ev of Inl _ \<Rightarrow> True
    | Inr d \<Rightarrow> conforms (transferkioskSchema n) (json_transferkiosk (d\<lparr>tk_Embedding := v\<rparr>))) \<and>
   (case nostrToPublication L mj ev of Inl _ \<Rightarrow> True
    | Inr d \<Rightarrow> conforms (publicationsSchema n) (json_publication (d\<lparr>pd_Embedding := v\<rparr>))) \<and>
   (case profileProjector L mj meta verified ev of Inl _ \<Rightarrow> True | Inr d \<Rightarrow> conforms (profileSchema n) (json_profile d))"
  by (auto split: sum.split
      intro!: conforms_longform conforms_wiki conforms_calendar conforms_share conforms_transferkiosk conforms_publication conforms_profile
      dest: nostrToLongform_Inr nostrToWiki_Inr nostrToCalendar_Inr nostrToShare_Inr nostrToTransferkiosk_Inr
        nostrToPublication_Inr profileProjector_Inr)

text \<open>NIP-01: the addressable kinds.\<close>

definition addressable_range :: "lib \<Rightarrow> bool" where
  "addressable_range L \<longleftrightarrow> (\<forall>k. is_addressable L k \<longleftrightarrow> 30000 \<le> k \<and> k < 40000)"

lemma dedup_key_docID:
  "addressable_range L \<Longrightarrow> 30000 \<le> ev_kind ev \<Longrightarrow> ev_kind ev < 40000 \<Longrightarrow>
    structuredDedupKey L ev = Some (docIDFor L (ev_kind ev) (pk_hex L (ev_pubkey ev)) (get_d L (ev_tags ev)))"
  by (simp add: structuredDedupKey_def addressable_range_def)

text \<open>C34. The key a reindex resolves the versions of an event by is the id of the document its projection
  writes, for every structured collection; a repost, which is not addressable, is its own document.\<close>

theorem dedup_key_is_document_id:
  assumes "addressable_range L"
  shows "(ev_kind ev = 30023 \<and> nostrToLongform L mj ev = Inr d1 \<longrightarrow> structuredDedupKey L ev = Some (lf_ID d1)) \<and>
   (ev_kind ev = 30818 \<and> nostrToWiki L mj ev = Inr d2 \<longrightarrow> structuredDedupKey L ev = Some (wd_ID d2)) \<and>
   (ev_kind ev \<in> {31922, 31923, 31924, 31925} \<and> nostrToCalendar L mj C parse ev = Inr d3 \<longrightarrow> structuredDedupKey L ev = Some (cd_ID d3)) \<and>
   (ev_kind ev \<in> {30143, 30144} \<and> nostrToTransferkiosk L mj ev = Inr d4 \<longrightarrow> structuredDedupKey L ev = Some (tk_ID d4)) \<and>
   (ev_kind ev \<in> {30040, 30041} \<and> nostrToPublication L mj ev = Inr d5 \<longrightarrow> structuredDedupKey L ev = Some (pd_ID d5)) \<and>
   (ev_kind ev = 30222 \<and> nostrToShare L mj ev = Inr d6 \<longrightarrow> structuredDedupKey L ev = Some (sd_ID d6)) \<and>
   (ev_kind ev = 16 \<and> nostrToShare L mj ev = Inr d6 \<longrightarrow> structuredDedupKey L ev = None \<and> sd_ID d6 = id_hex L (ev_id ev))"
proof -
  have share: "structuredDedupKey L ev = None" if "ev_kind ev = 16"
    using assms that by (simp add: structuredDedupKey_def addressable_range_def)
  show ?thesis
    using dedup_key_docID [OF assms, of ev] share
    by (auto simp: docIDFor_def kindTargetedPublication_def dest!: nostrToLongform_Inr nostrToWiki_Inr nostrToCalendar_Inr
        nostrToShare_Inr nostrToTransferkiosk_Inr nostrToPublication_Inr)
qed

lemma publication_projects: "get_d L (ev_tags ev) \<noteq> [] \<Longrightarrow> mj ev = Inr raw \<Longrightarrow> \<exists>d. nostrToPublication L mj ev = Inr d"
  by (simp add: nostrToPublication_def newStructuredEnvelope_def case_prod_beta Let_def)

lemma dedup_key_is_document_id_witness:
  "structuredDedupKey demo_lib (demo_event 1 30040 5 [[''d'', ''x'']]) = Some (''30040:'' @ to_hex demo_pk @ '':x'')"
proof -
  let ?e = "demo_event 1 30040 5 [[''d'', ''x'']]"
  have range: "addressable_range demo_lib" by (simp add: addressable_range_def demo_lib_def)
  have "get_d demo_lib (ev_tags ?e) \<noteq> []" by (simp add: demo_event_def demo_lib_def)
  from publication_projects [OF this, of "\<lambda>_. Inr []" "[]"]
  obtain d where d: "nostrToPublication demo_lib (\<lambda>_. Inr []) ?e = Inr d" by auto
  have i: "pd_ID d = ''30040:'' @ to_hex demo_pk @ '':x''"
  proof -
    have "dec 30040 = ''30040''" by (simp add: dec.simps digit_def) code_simp
    then show ?thesis using nostrToPublication_Inr [OF d] by (simp add: docIDFor_def demo_event_def demo_lib_def)
  qed
  have "ev_kind ?e \<in> {30040, 30041}" by (simp add: demo_event_def)
  with dedup_key_is_document_id [OF range, of ?e "\<lambda>_. Inr []"] d i show ?thesis by auto
qed

text \<open>A targeted publication with an empty identifier passes the write policy, which asks for the tag only, but
  has no document: it is stored and never found through its collection.\<close>

lemma empty_identifier_share_is_not_indexed:
  "\<exists>ev. ev_kind ev = 30222 \<and> \<not> fst (validateShare ev) \<and> (\<forall>mj. \<exists>e. nostrToShare demo_lib mj ev = Inl e)"
proof (intro exI conjI allI)
  let ?e = "demo_event 1 30222 5 [[''h'', ''c''], [''e'', ''x''], [''d'', []]]"
  show "ev_kind ?e = 30222" by (simp add: demo_event_def)
  show "\<not> fst (validateShare ?e)"
    by (simp add: validateShare_def shareCommunities_def demo_event_def kindTargetedPublication_def share_targets_def)
  have "get_d demo_lib (ev_tags ?e) = []" by (simp add: demo_event_def demo_lib_def)
  then show "nostrToShare demo_lib mj ?e = Inl (case nostrToShare demo_lib mj ?e of Inl e \<Rightarrow> e)" for mj
    by (auto simp: nostrToShare_def Let_def kindTargetedPublication_def demo_event_def split: sum.split)
qed

end
