(* ===== verification/Wiring.thy ===== *)
theory Wiring
  imports Stamping RelayPolicy Documents
begin

text \<open>
  How \<open>main.go\<close> puts the relay together: the feature flags, the content types behind the registry, the targets of
  a reindex, the closures of the profile manager and of the community stamper, and the server loop of
  \<open>server.go\<close>. A backend exists exactly when its flag is on, so the flags decide which registrations there are.
\<close>

section \<open>Configuration\<close>

record relay_flags =
  fl_longform :: bool
  fl_wiki :: bool
  fl_calendar :: bool
  fl_profiles :: bool
  fl_shares :: bool
  fl_transferkiosk :: bool
  fl_publications :: bool

definition flags_of_env :: "(string \<Rightarrow> string) \<Rightarrow> relay_flags" where
  "flags_of_env getenv = \<lparr>fl_longform = getenv ''LONGFORM_ENABLED'' = ''true'', fl_wiki = getenv ''WIKI_ENABLED'' = ''true'',
     fl_calendar = getenv ''CALENDAR_ENABLED'' = ''true'', fl_profiles = getenv ''PROFILES_ENABLED'' = ''true'',
     fl_shares = getenv ''COMMUNITY_SHARES_ENABLED'' = ''true'', fl_transferkiosk = getenv ''TRANSFERKIOSK_ENABLED'' = ''true'',
     fl_publications = getenv ''PUBLICATIONS_ENABLED'' = ''true''\<rparr>"

definition on :: "bool \<Rightarrow> 'a list \<Rightarrow> 'a list" where
  "on b xs = (if b then xs else [])"

lemma on_simps [simp]: "on True xs = xs" "on False xs = []" "on b [] = []"
  by (simp_all add: on_def)

lemma on_ops:
  "map f (on b xs) = on b (map f xs)" "concat (on b xss) = on b (concat xss)"
  "List.filter p (on b xs) = on b (List.filter p xs)"
  by (simp_all add: on_def)

definition retentionKinds :: "relay_flags \<Rightarrow> kind list list" where
  "retentionKinds F = [[5], [30142]] @ on (fl_longform F) [[30023]] @ on (fl_wiki F) [[30818]] @
     on (fl_calendar F) [[31922], [31923], [31924], [31925]] @ on (fl_shares F) [[16], [30222]] @
     on (fl_transferkiosk F) [[30143], [30144]] @ on (fl_publications F) [[30040], [30041]]"

text \<open>The operator and the listed administrators; \<open>operator\<close> is \<open>None\<close> for an absent, malformed or zero key.\<close>

definition staticAdmins :: "lib \<Rightarrow> pubkey option \<Rightarrow> string \<Rightarrow> pubkey list" where
  "staticAdmins L operator raw = (case operator of None \<Rightarrow> [] | Some pk \<Rightarrow> [pk]) @
     (if raw = [] then [] else List.map_filter (\<lambda>h. case pk_from_hex L (trim_space h) of Inl _ \<Rightarrow> None | Inr pk \<Rightarrow> Some pk)
       (split_all CHR '','' raw))"

definition effectiveSchema :: "json_lib \<Rightarrow> schema \<Rightarrow> mgmt_db \<Rightarrow> schema" where
  "effectiveSchema J defaultSchema m = ensureConceptsField (ensureContentFields
     (case fst (LoadSchema J m) of None \<Rightarrow> defaultSchema | Some custom \<Rightarrow> custom))"

text \<open>A list of relays: the default without a value, otherwise the trimmed entries that are not empty.\<close>

definition relay_list :: "string list \<Rightarrow> string option \<Rightarrow> string list" where
  "relay_list dflt raw = (case raw of
     None \<Rightarrow> dflt
   | Some s \<Rightarrow> List.filter (\<lambda>r. r \<noteq> []) (map trim_space (split_all CHR '','' s)))"

definition nonempty_env :: "string \<Rightarrow> string option" where
  "nonempty_env s = (if s = [] then None else Some s)"

definition profileRelays :: "(string \<Rightarrow> string) \<Rightarrow> string list" where
  "profileRelays getenv = relay_list [''wss://relay.edufeed.org''] (nonempty_env (getenv ''PROFILE_RELAYS''))"

definition fallbackRelays :: "(string \<Rightarrow> string option) \<Rightarrow> string list" where
  "fallbackRelays lookupenv = relay_list [''wss://purplepag.es'', ''wss://relay.damus.io'', ''wss://relay.nostr.band'']
     (lookupenv ''PROFILE_FALLBACK_RELAYS'')"

definition communityRelays :: "(string \<Rightarrow> string) \<Rightarrow> string list" where
  "communityRelays getenv = relay_list [''wss://relay.edufeed.org''] (nonempty_env (getenv ''COMMUNITY_RELAYS''))"

text \<open>The budget in nanoseconds; the product is taken in 64 bits.\<close>

definition queryFetchBudget :: "(string \<Rightarrow> string) \<Rightarrow> int" where
  "queryFetchBudget getenv = (let ms = getenv ''QUERY_FETCH_TIMEOUT_MS'' in
     if ms = [] then DefaultQueryFetchBudget
     else case atoi ms of
       None \<Rightarrow> DefaultQueryFetchBudget
     | Some n \<Rightarrow> if n \<ge> 0 then sint (word_of_int n * 1000000 :: 64 word) else DefaultQueryFetchBudget)"

section \<open>Backends\<close>

text \<open>What the relay uses of a search backend, and of the calendar index.\<close>

record 'w collection =
  co_QueryEvents :: "filter \<Rightarrow> int \<Rightarrow> 'w \<Rightarrow> event list"
  co_CountEvents :: "filter \<Rightarrow> 'w \<Rightarrow> 32 word \<times> error option"
  co_DeleteEvent :: "event_id \<Rightarrow> 'w \<Rightarrow> error option \<times> 'w"
  co_RecreateCollection :: "'w \<Rightarrow> error option \<times> 'w"
  co_backend :: "'w structured_backend"

record 'w calendar_index =
  ci_IndexEvent :: "event \<Rightarrow> 'w \<Rightarrow> error option \<times> 'w"
  ci_RemoveEvent :: "event_id \<Rightarrow> 'w \<Rightarrow> error option \<times> 'w"
  ci_QueryEvents :: "filter \<Rightarrow> int \<Rightarrow> 'w \<Rightarrow> event list"

record 'w backends =
  be_amb :: "'w collection"
  be_longform :: "'w collection"
  be_wiki :: "'w collection"
  be_calendar :: "'w collection"
  be_profiles :: "'w collection"
  be_shares :: "'w collection"
  be_transferkiosk :: "'w collection"
  be_publications :: "'w collection"
  be_index :: "'w calendar_index"
  be_bolt :: "'w raw_store"
  be_tsQueue :: "event \<Rightarrow> 'w \<Rightarrow> 'w"
  be_tsQueueCommunityPatch :: "string \<Rightarrow> string list \<Rightarrow> 'w \<Rightarrow> 'w"

record doc_lib =
  dl_marshal :: marshal_event
  dl_cal :: cal_lib
  dl_parseCalendar :: parse_calendar
  dl_parseMetadata :: "event \<Rightarrow> error + profile_metadata"

section \<open>Content types\<close>

text \<open>The registration of a collection with a synchronous store.\<close>

definition stored_type :: "kind list \<Rightarrow> (event \<Rightarrow> bool \<times> string) \<Rightarrow> (event \<Rightarrow> 'w \<Rightarrow> 'w) \<Rightarrow> 'w collection \<Rightarrow> bool \<Rightarrow> 'w content_type" where
  "stored_type ks validate store c chunked = \<lparr>ct_kinds = ks, ct_validate = validate, ct_store = store,
     ct_fetch = co_QueryEvents c, ct_count = co_CountEvents c, ct_deleteID = co_DeleteEvent c, ct_chunked = chunked\<rparr>"

definition calendar_type :: "lib \<Rightarrow> doc_lib \<Rightarrow> 'w calendar_index \<Rightarrow> 'w collection \<Rightarrow> 'w content_type" where
  "calendar_type L D ix c = \<lparr>ct_kinds = [31922, 31923, 31924, 31925], ct_validate = validateCalendar L,
     ct_store = (\<lambda>ev w.
       let w1 = (if cl_IsCalendarEventKind (dl_cal D) (ev_kind ev) then snd (ci_IndexEvent ix ev w) else w)
       in storeCalendar L (dl_marshal D) (dl_cal D) (dl_parseCalendar D) True (Some (co_backend c)) ev w1),
     ct_fetch = (\<lambda>f maxLimit w. calendarFetch (dl_cal D) (\<lambda>f n. ci_QueryEvents ix f n w) (\<lambda>f n. co_QueryEvents c f n w) f maxLimit),
     ct_count = co_CountEvents c,
     ct_deleteID = (\<lambda>i w. co_DeleteEvent c i (snd (ci_RemoveEvent ix i w))),
     ct_chunked = True\<rparr>"

definition contentTypes :: "lib \<Rightarrow> doc_lib \<Rightarrow> relay_flags \<Rightarrow> 'w backends \<Rightarrow> 'w content_type list" where
  "contentTypes L D F B =
     [stored_type [30142] (validateAMB L) (be_tsQueue B) (be_amb B) True] @
     on (fl_longform F) [stored_type [30023] (validateLongform L)
       (storeLongform L (dl_marshal D) True (Some (co_backend (be_longform B)))) (be_longform B) True] @
     on (fl_wiki F) [stored_type [30818] (validateWiki L)
       (storeWiki L (dl_marshal D) True (Some (co_backend (be_wiki B)))) (be_wiki B) True] @
     on (fl_calendar F) [calendar_type L D (be_index B) (be_calendar B)] @
     on (fl_profiles F) [stored_type [0] (\<lambda>_. (True, ''kind not accepted'')) (\<lambda>_ w. w) (be_profiles B) False] @
     on (fl_shares F) [stored_type [16, 30222] validateShare
       (storeShare L (dl_marshal D) True (Some (co_backend (be_shares B)))) (be_shares B) False] @
     on (fl_transferkiosk F) [stored_type [30143, 30144] (validateTransferkiosk L)
       (storeTransferkiosk L (dl_marshal D) True (Some (co_backend (be_transferkiosk B)))) (be_transferkiosk B) True] @
     on (fl_publications F) [stored_type [30040, 30041] (validatePublication L)
       (storePublication L (dl_marshal D) True (Some (co_backend (be_publications B)))) (be_publications B) True]"

definition relay_registry :: "lib \<Rightarrow> doc_lib \<Rightarrow> relay_flags \<Rightarrow> 'w backends \<Rightarrow> 'w registry" where
  "relay_registry L D F B = (
     let types = contentTypes L D F B;
         servedKinds = (\<lambda>k. list_ex (\<lambda>ct. k \<in> set (ct_kinds ct)) types)
     in newRegistry (types @ [deletionContentType (be_bolt B) (validateDeletion L servedKinds)]))"

definition profileContentKinds :: "'w registry \<Rightarrow> kind list" where
  "profileContentKinds reg = List.filter (\<lambda>k. k \<noteq> 0 \<and> k \<noteq> KindDeletion) (registry_kinds reg)"

definition communityKinds :: "'w registry \<Rightarrow> kind list" where
  "communityKinds reg = [16, 30222] @ profileContentKinds reg"

section \<open>Reindex targets\<close>

text \<open>The full text of publications, replayed onto the rebuilt documents.\<close>

fun publication_replay :: "lib \<Rightarrow> 'w raw_store \<Rightarrow> 'w structured_backend \<Rightarrow> (string \<times> content_entry) list \<Rightarrow> int \<times> int \<Rightarrow> 'w \<Rightarrow>
    (int \<times> int) \<times> 'w" where
  "publication_replay L db B [] cnt w = (cnt, w)"
| "publication_replay L db B ((rid, entry) # rows) (patched, errs) w = (case id_from_hex L rid of
     Inl _ \<Rightarrow> publication_replay L db B rows (patched, errs) w
   | Inr i \<Rightarrow> (case fold (\<lambda>e _. Some e) (rs_query db (empty_filter\<lparr>f_ids := [i], f_limit := 1\<rparr>) 1 w) None of
       None \<Rightarrow> publication_replay L db B rows (patched, errs) w
     | Some ev \<Rightarrow>
         if ev_kind ev \<noteq> 30040 then publication_replay L db B rows (patched, errs) w
         else (case PatchContent (sb_http B) (sb_conn B) (docIDFor L (ev_kind ev) (pk_hex L (ev_pubkey ev)) (get_d L (ev_tags ev))) entry w of
           (Some _, w') \<Rightarrow> publication_replay L db B rows (patched, errs + 1) w'
         | (None, w') \<Rightarrow> publication_replay L db B rows (patched + 1, errs) w')))"

definition reindex_target :: "kind list \<Rightarrow> 'w collection \<Rightarrow> (event \<Rightarrow> 'w \<Rightarrow> error option \<times> 'w) \<Rightarrow> 'w structuredReindexTarget" where
  "reindex_target ks c reproject = \<lparr>sr_kinds = ks, sr_recreate = co_RecreateCollection c, sr_reproject = reproject, sr_after = None\<rparr>"

text \<open>\<open>m\<close> is the database when the last target has been rebuilt.\<close>

definition structuredTargets :: "lib \<Rightarrow> json_lib \<Rightarrow> doc_lib \<Rightarrow> relay_flags \<Rightarrow> 'w backends \<Rightarrow> mgmt_db \<Rightarrow> 'w structuredReindexTarget list" where
  "structuredTargets L J D F B m =
     on (fl_longform F) [reindex_target [30023] (be_longform B)
       (reprojectStructured (co_backend (be_longform B)) longform_kind (nostrToLongform L (dl_marshal D)))] @
     on (fl_wiki F) [reindex_target [30818] (be_wiki B)
       (reprojectStructured (co_backend (be_wiki B)) wiki_kind (nostrToWiki L (dl_marshal D)))] @
     on (fl_calendar F) [reindex_target [31922, 31923, 31924, 31925] (be_calendar B) (\<lambda>ev w.
       let rep = reprojectStructured (co_backend (be_calendar B)) calendar_kind
             (nostrToCalendar L (dl_marshal D) (dl_cal D) (dl_parseCalendar D)) ev
       in if cl_IsCalendarEventKind (dl_cal D) (ev_kind ev) then
            (case ci_IndexEvent (be_index B) ev w of (Some e, w1) \<Rightarrow> (Some e, w1) | (None, w1) \<Rightarrow> rep w1)
          else rep w)] @
     on (fl_shares F) [reindex_target [16, 30222] (be_shares B)
       (reprojectStructured (co_backend (be_shares B)) share_kind (nostrToShare L (dl_marshal D)))] @
     on (fl_transferkiosk F) [reindex_target [30143, 30144] (be_transferkiosk B)
       (reprojectStructured (co_backend (be_transferkiosk B)) transferkiosk_kind (nostrToTransferkiosk L (dl_marshal D)))] @
     on (fl_publications F) [(reindex_target [30040, 30041] (be_publications B)
       (reprojectStructured (co_backend (be_publications B)) publication_kind (nostrToPublication L (dl_marshal D))))
         \<lparr>sr_after := Some (publication_replay L (be_bolt B) (co_backend (be_publications B)) (content_rows J m) (0, 0))\<rparr>]"

section \<open>The profile manager's closures\<close>

definition store_profile :: "lib \<Rightarrow> doc_lib \<Rightarrow> mgmt_db \<Rightarrow> 'w backends \<Rightarrow> event \<Rightarrow> bool \<Rightarrow> 'w \<Rightarrow> 'w" where
  "store_profile L D m B ev nip05Verified w = (if isBlocked L m ev then w
     else storeProfile L (dl_marshal D) (dl_parseMetadata D) True (Some (co_backend (be_profiles B))) ev nip05Verified w)"

text \<open>\<open>members\<close> is the list the directory returns, without one \<open>None\<close>.\<close>

definition profile_backfill :: "lib \<Rightarrow> 'w registry \<Rightarrow> 'w backends \<Rightarrow> pubkey list option \<Rightarrow> 'w \<Rightarrow> pubkey list" where
  "profile_backfill L reg B members w = (
     let candidates = backfillProfileCandidates L (rs_query (be_bolt B)) (profileContentKinds reg) (communityKinds reg) 1000000 w
     in case members of None \<Rightarrow> candidates | Some ms \<Rightarrow> unionPubkeys [candidates, ms])"

section \<open>The stamper's closures\<close>

text \<open>
  The backend that holds the documents of a kind. \<open>stampTargets\<close> is the table filled once the shares are on;
  \<open>relay_stampTargets\<close> is what the relay has: without the shares there is no stamper and no table.
\<close>

definition stampTargets :: "relay_flags \<Rightarrow> 'w backends \<Rightarrow> (kind \<times> 'w collection) list" where
  "stampTargets F B = [(30142, be_amb B)] @ on (fl_longform F) [(30023, be_longform B)] @ on (fl_wiki F) [(30818, be_wiki B)] @
     on (fl_calendar F) (map (\<lambda>k. (k, be_calendar B)) [31922, 31923, 31924, 31925]) @
     on (fl_transferkiosk F) (map (\<lambda>k. (k, be_transferkiosk B)) [30143, 30144]) @
     on (fl_publications F) (map (\<lambda>k. (k, be_publications B)) [30040, 30041])"

definition relay_stampTargets :: "relay_flags \<Rightarrow> 'w backends \<Rightarrow> (kind \<times> 'w collection) list option" where
  "relay_stampTargets F B = (if fl_shares F then Some (stampTargets F B) else None)"

definition relay_stampKinds :: "relay_flags \<Rightarrow> 'w backends \<Rightarrow> kind set option" where
  "relay_stampKinds F B = map_option (\<lambda>ts. set (map fst ts)) (relay_stampTargets F B)"

lemma no_shares_no_stamps:
  assumes "\<not> fl_shares F" and "en_stampKinds E = relay_stampKinds F B"
  shows "stamp_triggers L E ev m = ([], m)" "beforeDelete L E i w = None"
  using assms by (simp_all add: relay_stampKinds_def relay_stampTargets_def stamp_triggers_def beforeDelete_def)

definition coord_filter :: "kind \<Rightarrow> pubkey \<Rightarrow> string \<Rightarrow> filter" where
  "coord_filter k pk d = empty_filter\<lparr>f_kinds := [k], f_authors := [pk], f_tags := [(''d'', [d])], f_limit := 1\<rparr>"

definition stamp_lookup :: "lib \<Rightarrow> 'w raw_store \<Rightarrow> string \<Rightarrow> 'w \<Rightarrow> event option" where
  "stamp_lookup L db coord w = (case split_n 3 CHR '':'' coord of
     [a, b, c] \<Rightarrow> (case (atoi a, pk_from_hex L b) of
       (Some kn, Inr pk) \<Rightarrow> (case rs_query db (coord_filter (kind_of_int kn) pk c) 1 w of [] \<Rightarrow> None | ev # _ \<Rightarrow> Some ev)
     | _ \<Rightarrow> None)
   | _ \<Rightarrow> None)"

definition stamp_fetch :: "lib \<Rightarrow> (string list \<Rightarrow> filter \<Rightarrow> 'w \<Rightarrow> event option) \<Rightarrow> string list \<Rightarrow> shareRef \<Rightarrow> string list \<Rightarrow> 'w \<Rightarrow> event option" where
  "stamp_fetch L pool stampRelays ref hints w = (case pk_from_hex L (sr_Pubkey ref) of
     Inl _ \<Rightarrow> None
   | Inr pk \<Rightarrow> pool (if length hints > 0 then hints @ stampRelays else stampRelays) (coord_filter (sr_Kind ref) pk (sr_DTag ref)) w)"

text \<open>The stamper runs on the management database and the world of the relay.\<close>

definition stamp_store :: "lib \<Rightarrow> 'w relay_env \<Rightarrow> event \<Rightarrow> mgmt_db \<times> 'w \<Rightarrow> mgmt_db \<times> 'w" where
  "stamp_store L E ev s = (case s of (m, w) \<Rightarrow>
     if isBlocked L m ev then (m, w)
     else (enqueue_profile L E (ev_pubkey ev) m, registry_store (en_reg E) ev (snd (en_boltQueue E ev False w))))"

definition stamp_patch :: "relay_flags \<Rightarrow> 'w backends \<Rightarrow> kind \<Rightarrow> string \<Rightarrow> string list \<Rightarrow> mgmt_db \<times> 'w \<Rightarrow> error option \<times> mgmt_db \<times> 'w" where
  "stamp_patch F B k docID communities s = (case s of (m, w) \<Rightarrow> (case map_of (stampTargets F B) k of
     None \<Rightarrow> (None, m, w)
   | Some c \<Rightarrow>
       if k = 30142 then (None, m, be_tsQueueCommunityPatch B docID communities w)
       else (case patchDoc (sb_http (co_backend c)) (sb_conn (co_backend c)) docID [(''community'', JStrs communities)] w of
         (r, w') \<Rightarrow> (r, m, w'))))"

text \<open>\<open>search\<close> is the raw filter search over the shares, \<open>members\<close> the state of the community registry.\<close>

definition relay_stamper :: "lib \<Rightarrow> relay_flags \<Rightarrow> 'w backends \<Rightarrow> 'w relay_env \<Rightarrow> ('w \<Rightarrow> resolved) \<Rightarrow> (string \<Rightarrow> nat \<Rightarrow> 'w \<Rightarrow> error + event list) \<Rightarrow>
    (string list \<Rightarrow> filter \<Rightarrow> 'w \<Rightarrow> event option) \<Rightarrow> string list \<Rightarrow> (mgmt_db \<times> 'w) stamper" where
  "relay_stamper L F B E members search pool stampRelays = \<lparr>
     st_isMember = (\<lambda>s. IsMember (members (snd s))),
     st_sharesFor = (\<lambda>coord s. case search (''refA:=`'' @ coord @ ''`'') 250 (snd s) of Inl _ \<Rightarrow> [] | Inr evs \<Rightarrow> evs),
     st_allShares = (\<lambda>s. rs_query (be_bolt B) (empty_filter\<lparr>f_kinds := [16, 30222]\<rparr>) 1000000 (snd s)),
     st_lookup = (\<lambda>coord s. stamp_lookup L (be_bolt B) coord (snd s)),
     st_fetch = Some (\<lambda>ref hints s. stamp_fetch L pool stampRelays ref hints (snd s)),
     st_validate = Some (registry_validate (en_reg E)),
     st_store = Some (stamp_store L E),
     st_patch = stamp_patch F B,
     st_stampKinds = set (map fst (stampTargets F B))\<rparr>"

text \<open>A failed search over the shares is taken for an answer without shares: the document loses every stamp that is
  not its own, until the next sweep.\<close>

lemma failed_search_strips_stamps:
  assumes "search (''refA:=`'' @ coord @ ''`'') 250 w = Inl e" and "k \<in> fst ` set (stampTargets F B)"
    and "stamp_lookup L (be_bolt B) coord w = Some ev"
  shows "\<exists>cs. reconcile L (relay_stamper L F B E members search pool relays) coord k pk d (m, w) =
      snd (stamp_patch F B k (docIDFor L k pk d) cs (m, w)) \<and> set cs = set (tag_values ''h'' (ev_tags ev))"
proof -
  let ?s = "relay_stamper L F B E members search pool relays"
  have s: "isStampKind ?s k" "st_lookup ?s coord (m, w) = Some ev" "st_sharesFor ?s coord (m, w) = []"
    "st_patch ?s = stamp_patch F B"
    using assms by (simp_all add: isStampKind_def relay_stamper_def)
  have "set (due_stamps L ?s (m, w) coord) = set (tag_values ''h'' (ev_tags ev))"
    using set_due_stamps(3) [OF s(2)] s(3) by simp
  then show ?thesis using reconcile_local [OF s(1,2)] s(4) by auto
qed

text \<open>What the stamper needs of the index and the database: the patches of the buffer and of the collections set the field
  of the document, and neither changes an answer of the share search, the database or the community registry.\<close>

definition stamp_index_ok :: "relay_flags \<Rightarrow> 'w backends \<Rightarrow> ('w \<Rightarrow> resolved) \<Rightarrow> (string \<Rightarrow> nat \<Rightarrow> 'w \<Rightarrow> error + event list) \<Rightarrow>
    ('w \<Rightarrow> kind \<times> string \<rightharpoonup> string list) \<Rightarrow> bool" where
  "stamp_index_ok F B members search field \<longleftrightarrow> (\<forall>k c i cs m w. map_of (stampTargets F B) k = Some c \<longrightarrow>
     (let w' = snd (snd (stamp_patch F B k i cs (m, w))) in
       field w' = set_field (k, i) cs (field w) \<and> members w' = members w \<and> (\<forall>q n. search q n w' = search q n w) \<and>
       (\<forall>f n. rs_query (be_bolt B) f n w' = rs_query (be_bolt B) f n w)))"

lemma relay_stamper_patches_field:
  assumes "stamp_index_ok F B members search field"
  shows "patches_field (relay_stamper L F B E members search pool relays) (field \<circ> snd)"
proof -
  have "stamp_lookup L (be_bolt B) co w' = stamp_lookup L (be_bolt B) co w"
    if "\<forall>f n. rs_query (be_bolt B) f n w' = rs_query (be_bolt B) f n w" for co w w'
    unfolding stamp_lookup_def that [rule_format] ..
  moreover have "\<exists>c. map_of (stampTargets F B) k = Some c" if "k \<in> fst ` set (stampTargets F B)" for k
    using that by (metis map_of_eq_None_iff not_None_eq)
  ultimately show ?thesis using assms
    by (fastforce simp: patches_field_def isStampKind_def relay_stamper_def same_view_def stamp_index_ok_def Let_def)
qed

section \<open>Removing an event\<close>

text \<open>The purger of \<open>main.go\<close>: the content store always exists, \<open>queueDelete\<close> is that of the index buffer and \<open>go\<close>
  starts a reconcile in a goroutine of its own.\<close>

definition relay_purger :: "lib \<Rightarrow> doc_lib \<Rightarrow> relay_flags \<Rightarrow> 'w backends \<Rightarrow> 'w relay_env \<Rightarrow>
    (event_id \<Rightarrow> string \<Rightarrow> mgmt_db \<Rightarrow> error option \<times> mgmt_db) \<Rightarrow> (event_id \<Rightarrow> 'w \<Rightarrow> 'w) \<Rightarrow> (stamp_task \<Rightarrow> 'w \<Rightarrow> 'w) \<Rightarrow> 'w eventPurger" where
  "relay_purger L D F B E banEvent queueDelete go = \<lparr>pg_bolt = be_bolt B, pg_has_content = True, pg_reg = relay_registry L D F B,
     pg_ban_event = banEvent, pg_queueDelete = Some queueDelete,
     pg_beforeDelete = Some (\<lambda>i w. map_option go (beforeDelete L E i w))\<rparr>"

definition relay_collections :: "relay_flags \<Rightarrow> 'w backends \<Rightarrow> 'w collection list" where
  "relay_collections F B = [be_amb B] @ on (fl_longform F) [be_longform B] @ on (fl_wiki F) [be_wiki B] @
     on (fl_calendar F) [be_calendar B] @ on (fl_profiles F) [be_profiles B] @ on (fl_shares F) [be_shares B] @
     on (fl_transferkiosk F) [be_transferkiosk B] @ on (fl_publications F) [be_publications B]"

definition relay_views :: "relay_flags \<Rightarrow> 'w backends \<Rightarrow> 'w view set" where
  "relay_views F B = insert (rs_query (be_bolt B)) (co_QueryEvents ` set (relay_collections F B))"

text \<open>
  What the stores promise of a deletion: one that reports no error removes the id from its own store, none brings an id
  back anywhere, and the calendar store answers with events of the event database, on top of which it is built.
\<close>

definition deletions_ok :: "relay_flags \<Rightarrow> 'w backends \<Rightarrow> bool" where
  "deletions_ok F B \<longleftrightarrow>
     (\<forall>i w. fst (rs_delete (be_bolt B) i w) = None \<longrightarrow> gone (rs_query (be_bolt B)) i (snd (rs_delete (be_bolt B) i w))) \<and>
     (\<forall>c \<in> set (relay_collections F B). \<forall>i w. fst (co_DeleteEvent c i w) = None \<longrightarrow> gone (co_QueryEvents c) i (snd (co_DeleteEvent c i w))) \<and>
     (\<forall>v \<in> relay_views F B. \<forall>i w. gone v i w \<longrightarrow> gone v i (snd (ci_RemoveEvent (be_index B) i w)) \<and>
       (\<forall>c \<in> set (relay_collections F B). gone v i (snd (co_DeleteEvent c i w)))) \<and>
     (\<forall>f n w. \<forall>ev \<in> set (ci_QueryEvents (be_index B) f n w). \<exists>f n. ev \<in> set (rs_query (be_bolt B) f n w))"

text \<open>Handing a delete to the buffer's queue and starting a goroutine change no store by themselves.\<close>

definition only_started :: "relay_flags \<Rightarrow> 'w backends \<Rightarrow> ('w \<Rightarrow> 'w) \<Rightarrow> bool" where
  "only_started F B step \<longleftrightarrow> (\<forall>v \<in> relay_views F B. \<forall>f n w. v f n (step w) = v f n w)"

lemma only_started_gone: "only_started F B step \<Longrightarrow> v \<in> relay_views F B \<Longrightarrow> gone v i w \<Longrightarrow> gone v i (step w)"
  unfolding only_started_def gone_def by metis

text \<open>The registered types: each but the last reads and deletes in a collection, the calendar also in its index.\<close>

lemma set_on:
  "x \<in> set (on b xs) \<longleftrightarrow> b \<and> x \<in> set xs"
  "(\<exists>x \<in> set (on b xs). P x) \<longleftrightarrow> b \<and> (\<exists>x \<in> set xs. P x)"
  by (cases b; simp)+

definition collection_closures :: "'w collection \<Rightarrow> 'w content_type \<Rightarrow> bool" where
  "collection_closures c ct \<longleftrightarrow> ct_fetch ct = co_QueryEvents c \<and> ct_deleteID ct = co_DeleteEvent c"

lemma stored_type_closures: "collection_closures c (stored_type ks validate store c chunked)"
  by (simp add: collection_closures_def stored_type_def)

lemma content_type_closures:
  assumes "ct \<in> set (contentTypes L D F B)"
  shows "(\<exists>c \<in> set (relay_collections F B). collection_closures c ct) \<or>
    be_calendar B \<in> set (relay_collections F B) \<and> ct = calendar_type L D (be_index B) (be_calendar B)"
  using assms unfolding contentTypes_def relay_collections_def set_append Un_iff bex_Un set_on
  by (elim disjE conjE) (simp_all only: list.set ball_simps bex_simps singleton_iff insert_iff empty_iff stored_type_closures simp_thms)

lemma relay_types: "\<exists>val. rg_types (relay_registry L D F B) = contentTypes L D F B @ [deletionContentType (be_bolt B) val]"
  by (auto simp: relay_registry_def Let_def)

lemma relay_type_cases:
  assumes "ct \<in> set (rg_types (relay_registry L D F B))"
  obtains (collection) c where "c \<in> set (relay_collections F B)" and "collection_closures c ct"
  | (calendar) "be_calendar B \<in> set (relay_collections F B)" and "ct = calendar_type L D (be_index B) (be_calendar B)"
  | (deletion) val where "ct = deletionContentType (be_bolt B) val"
proof -
  obtain val where "rg_types (relay_registry L D F B) = contentTypes L D F B @ [deletionContentType (be_bolt B) val]"
    using relay_types by blast
  with assms have "ct \<in> set (contentTypes L D F B) \<or> ct = deletionContentType (be_bolt B) val" by auto
  then show thesis using content_type_closures [of ct L D F B] that by blast
qed

lemma relay_type_reads_views:
  assumes "deletions_ok F B" and "ct \<in> set (rg_types (relay_registry L D F B))" and "ev \<in> set (ct_fetch ct f n w)"
  shows "\<exists>v \<in> relay_views F B. \<exists>f n. ev \<in> set (v f n w)"
  using assms(2)
proof (cases rule: relay_type_cases)
  case (collection c)
  with assms(3) show ?thesis by (auto simp: relay_views_def collection_closures_def)
next
  case calendar
  then have "ev \<in> set (ci_QueryEvents (be_index B) f n w) \<or> ev \<in> set (co_QueryEvents (be_calendar B) f n w)"
    using assms(3) by (auto simp: calendar_type_def calendarFetch_def Let_def split: if_splits)
  then show ?thesis
  proof
    assume "ev \<in> set (ci_QueryEvents (be_index B) f n w)"
    then have "\<exists>f n. ev \<in> set (rs_query (be_bolt B) f n w)" using assms(1) by (simp add: deletions_ok_def)
    then show ?thesis by (simp add: relay_views_def)
  next
    assume "ev \<in> set (co_QueryEvents (be_calendar B) f n w)"
    moreover have "co_QueryEvents (be_calendar B) \<in> relay_views F B" using calendar(1) by (simp add: relay_views_def)
    ultimately show ?thesis by metis
  qed
next
  case deletion
  with assms(3) show ?thesis by (auto simp: relay_views_def deletionContentType_def)
qed

lemma relay_type_keeps_gone:
  assumes "deletions_ok F B" and "ct \<in> set (rg_types (relay_registry L D F B))" and "v \<in> relay_views F B" and "gone v i w"
  shows "gone v i (snd (ct_deleteID ct i w))"
proof -
  note keep = assms(1) [unfolded deletions_ok_def, THEN conjunct2, THEN conjunct2, THEN conjunct1, rule_format, OF assms(3)]
  from assms(2) show ?thesis
    by (cases rule: relay_type_cases)
      (simp_all add: collection_closures_def calendar_type_def deletionContentType_def keep assms(4))
qed

lemma relay_collection_has_type:
  assumes "c \<in> set (relay_collections F B)"
  shows "\<exists>ct \<in> set (contentTypes L D F B). collection_closures c ct \<or> c = be_calendar B \<and> ct = calendar_type L D (be_index B) c"
  using assms unfolding contentTypes_def relay_collections_def set_append Un_iff bex_Un set_on
  by (elim disjE conjE) (simp_all only: list.set ball_simps bex_simps singleton_iff insert_iff empty_iff stored_type_closures simp_thms)

text \<open>Each view is emptied of the id by a delete that reports no error: the database's own or that of a registered type.\<close>

lemma relay_view_cleared:
  assumes "deletions_ok F B" and "v \<in> relay_views F B"
  shows "(\<forall>w. fst (rs_delete (be_bolt B) i w) = None \<longrightarrow> gone v i (snd (rs_delete (be_bolt B) i w))) \<or>
    (\<exists>ct \<in> set (rg_types (relay_registry L D F B)). \<forall>w. fst (ct_deleteID ct i w) = None \<longrightarrow> gone v i (snd (ct_deleteID ct i w)))"
proof (cases "v = rs_query (be_bolt B)")
  case True
  with assms(1) show ?thesis by (simp add: deletions_ok_def)
next
  case False
  with assms(2) obtain c where c: "c \<in> set (relay_collections F B)" "v = co_QueryEvents c" by (auto simp: relay_views_def)
  then have del: "gone v i (snd (co_DeleteEvent c i w))" if "fst (co_DeleteEvent c i w) = None" for w
    using assms(1) that by (simp add: deletions_ok_def)
  from relay_collection_has_type [OF c(1), of L D] obtain ct where
    ct: "ct \<in> set (contentTypes L D F B)" "collection_closures c ct \<or> c = be_calendar B \<and> ct = calendar_type L D (be_index B) c" by blast
  have "ct \<in> set (rg_types (relay_registry L D F B))" using ct(1) relay_types [of L D F B] by auto
  moreover have "\<forall>w. fst (ct_deleteID ct i w) = None \<longrightarrow> gone v i (snd (ct_deleteID ct i w))"
    using ct(2) del by (auto simp: collection_closures_def calendar_type_def)
  ultimately show ?thesis by blast
qed

section \<open>The server loop\<close>

text \<open>
  \<open>runServer\<close> of \<open>server.go\<close>: the goroutine with the listener, the channel of its error and the main
  goroutine, which waits for the error or a signal, shuts the server down and waits for the listener to stop.
\<close>

datatype server_phase = Selecting | ShuttingDown | Joining | Returned "error option"

record server =
  sv_phase :: server_phase
  sv_listening :: bool
  sv_errCh :: "error option option"
  sv_signalled :: bool

definition server_init :: server where
  "server_init = \<lparr>sv_phase = Selecting, sv_listening = True, sv_errCh = None, sv_signalled = False\<rparr>"

text \<open>\<open>closed\<close> is \<open>http.ErrServerClosed\<close>; \<open>err\<close> is what \<open>ListenAndServe\<close> returned.\<close>

definition listen_result :: "error \<Rightarrow> error option \<Rightarrow> error option" where
  "listen_result closed err = (case err of None \<Rightarrow> None | Some e \<Rightarrow> if e \<noteq> closed then Some e else None)"

inductive server_step :: "error \<Rightarrow> server \<Rightarrow> server \<Rightarrow> bool" for closed where
  listener_stops: "sv_listening s \<Longrightarrow> server_step closed s (s\<lparr>sv_listening := False, sv_errCh := Some (listen_result closed err)\<rparr>)"
| signal: "server_step closed s (s\<lparr>sv_signalled := True\<rparr>)"
| listen_error: "sv_phase s = Selecting \<Longrightarrow> sv_errCh s = Some r \<Longrightarrow> server_step closed s (s\<lparr>sv_phase := Returned r, sv_errCh := None\<rparr>)"
| signal_received: "sv_phase s = Selecting \<Longrightarrow> sv_signalled s \<Longrightarrow> server_step closed s (s\<lparr>sv_phase := ShuttingDown\<rparr>)"
| shutdown_returns: "sv_phase s = ShuttingDown \<Longrightarrow> server_step closed s (s\<lparr>sv_phase := Joining\<rparr>)"
| joined: "sv_phase s = Joining \<Longrightarrow> sv_errCh s = Some r \<Longrightarrow> server_step closed s (s\<lparr>sv_phase := Returned None, sv_errCh := None\<rparr>)"

text \<open>A value in the channel was put there by the listener as it stopped.\<close>

definition server_ok :: "server \<Rightarrow> bool" where
  "server_ok s \<longleftrightarrow> (sv_listening s \<longrightarrow> sv_errCh s = None \<and> (\<forall>r. sv_phase s \<noteq> Returned r))"

lemma server_ok_step: "server_step closed s s' \<Longrightarrow> server_ok s \<Longrightarrow> server_ok s'"
  by (induction rule: server_step.induct) (auto simp: server_ok_def)

lemma server_ok_reach: "(server_step closed)\<^sup>*\<^sup>* server_init s \<Longrightarrow> server_ok s"
proof (induction rule: rtranclp_induct)
  case base
  show ?case by (simp add: server_ok_def server_init_def)
next
  case (step y z)
  then show ?case by (blast intro: server_ok_step)
qed

text \<open>The buffers are drained after \<open>runServer\<close> has returned: by then no request is accepted any more.\<close>

lemma server_returns_after_the_listener:
  assumes "(server_step closed)\<^sup>*\<^sup>* server_init s" and "sv_phase s = Returned r"
  shows "\<not> sv_listening s"
  using server_ok_reach [OF assms(1)] assms(2) by (auto simp: server_ok_def)

section \<open>What the registrations have in common\<close>

lemma registered_kinds: "registry_kinds (relay_registry L D F B) =
    [30142] @ on (fl_longform F) [30023] @ on (fl_wiki F) [30818] @ on (fl_calendar F) [31922, 31923, 31924, 31925] @
    on (fl_profiles F) [0] @ on (fl_shares F) [16, 30222] @ on (fl_transferkiosk F) [30143, 30144] @
    on (fl_publications F) [30040, 30041] @ [KindDeletion]"
  by (simp add: relay_registry_def registry_kinds_def newRegistry_def contentTypes_def stored_type_def calendar_type_def
      deletionContentType_def on_ops Let_def)

lemma target_kinds: "concat (map sr_kinds (structuredTargets L J D F B m)) =
    on (fl_longform F) [30023] @ on (fl_wiki F) [30818] @ on (fl_calendar F) [31922, 31923, 31924, 31925] @
    on (fl_shares F) [16, 30222] @ on (fl_transferkiosk F) [30143, 30144] @ on (fl_publications F) [30040, 30041]"
  by (simp add: structuredTargets_def reindex_target_def on_ops)

lemma stamped_kinds: "map fst (stampTargets F B) =
    [30142] @ on (fl_longform F) [30023] @ on (fl_wiki F) [30818] @ on (fl_calendar F) [31922, 31923, 31924, 31925] @
    on (fl_transferkiosk F) [30143, 30144] @ on (fl_publications F) [30040, 30041]"
  by (simp add: stampTargets_def on_ops)

lemma retained_kinds: "concat (retentionKinds F) =
    [5, 30142] @ on (fl_longform F) [30023] @ on (fl_wiki F) [30818] @ on (fl_calendar F) [31922, 31923, 31924, 31925] @
    on (fl_shares F) [16, 30222] @ on (fl_transferkiosk F) [30143, 30144] @ on (fl_publications F) [30040, 30041]"
  by (simp add: retentionKinds_def on_ops)

lemma set_minus_filter: "set xs - A = set (List.filter (\<lambda>x. x \<notin> A) xs)"
  by auto

lemma distinct_kinds: "distinct (registry_kinds (relay_registry L D F B))"
  unfolding registered_kinds KindDeletion_def
  by (cases "fl_longform F"; cases "fl_wiki F"; cases "fl_calendar F"; cases "fl_profiles F"; cases "fl_shares F";
      cases "fl_transferkiosk F"; cases "fl_publications F"; simp)

lemma no_client_profiles: "fst (registry_validate (relay_registry L D F B) (ev\<lparr>ev_kind := 0\<rparr>))"
proof (cases "rg_byKind (relay_registry L D F B) 0")
  case None
  then show ?thesis by (simp add: registry_validate_def)
next
  case (Some i)
  let ?types = "rg_types (relay_registry L D F B)"
  have "i < length ?types \<and> 0 \<in> set (ct_kinds (?types ! i))"
    using byKind_Some Some unfolding relay_registry_def Let_def by (metis rg_types_new)
  moreover have "fst (ct_validate ct e)" if "ct \<in> set ?types" "0 \<in> set (ct_kinds ct)" for ct e
    using that by (auto simp: relay_registry_def newRegistry_def contentTypes_def stored_type_def calendar_type_def
        deletionContentType_def on_def KindDeletion_def Let_def split: if_splits)
  ultimately show ?thesis using Some by (simp add: registry_validate_def)
qed

section \<open>Properties\<close>

text \<open>C37. Whatever features are switched on, the parts of the relay agree on the kinds: every kind is registered once;
  the retention list of the relay information names exactly the registered kinds except the profiles; profiles are
  never accepted from a client; exactly the content kinds can be stamped with communities; and a reindex rebuilds every
  collection but that of the resources, which has a pass of its own.\<close>

theorem features_are_wired_consistently:
  "distinct (registry_kinds (relay_registry L D F B)) \<and>
   set (concat (retentionKinds F)) = set (registry_kinds (relay_registry L D F B)) - {0} \<and>
   fst (registry_validate (relay_registry L D F B) (ev\<lparr>ev_kind := 0\<rparr>)) \<and>
   set (map fst (stampTargets F B)) = set (registry_kinds (relay_registry L D F B)) - {0, KindDeletion, 16, 30222} \<and>
   distinct (concat (map sr_kinds (structuredTargets L J D F B m))) \<and>
   set (concat (map sr_kinds (structuredTargets L J D F B m))) =
     set (registry_kinds (relay_registry L D F B)) - {0, KindDeletion, 30142}"
proof (intro conjI)
  show "distinct (registry_kinds (relay_registry L D F B))" by (rule distinct_kinds)
  show "fst (registry_validate (relay_registry L D F B) (ev\<lparr>ev_kind := 0\<rparr>))" by (rule no_client_profiles)
  show "set (concat (retentionKinds F)) = set (registry_kinds (relay_registry L D F B)) - {0}"
    unfolding retained_kinds registered_kinds set_minus_filter filter_append on_ops by (auto simp: KindDeletion_def)
  show "set (map fst (stampTargets F B)) = set (registry_kinds (relay_registry L D F B)) - {0, KindDeletion, 16, 30222}"
    unfolding stamped_kinds registered_kinds set_minus_filter filter_append on_ops by (simp add: KindDeletion_def)
  show "distinct (concat (map sr_kinds (structuredTargets L J D F B m)))"
    unfolding target_kinds
    by (cases "fl_longform F"; cases "fl_wiki F"; cases "fl_calendar F"; cases "fl_shares F"; cases "fl_transferkiosk F";
        cases "fl_publications F"; simp)
  show "set (concat (map sr_kinds (structuredTargets L J D F B m))) =
     set (registry_kinds (relay_registry L D F B)) - {0, KindDeletion, 30142}"
    unfolding target_kinds registered_kinds set_minus_filter filter_append on_ops by (simp add: KindDeletion_def)
qed

text \<open>C8. When the relay deletes an event for its author and neither the event database nor a collection reports an
  error, no query of the relay's registry returns the event afterwards, whatever features are on, and whether or not
  the deleted event was a share whose content is stamped anew.\<close>

theorem author_delete_clears_the_relay:
  assumes "deletions_ok F B" and "only_started F B (queueDelete i)" and "\<forall>t. only_started F B (go t)"
    and "authorDelete L T (relay_purger L D F B E banEvent queueDelete go) i (m, w) = (None, m', w')"
    and "fst (rs_delete (be_bolt B) i w) = None"
  shows "\<forall>ev \<in> set (registry_fetch (relay_registry L D F B) f n w'). ev_id ev \<noteq> i"
proof -
  let ?p = "relay_purger L D F B E banEvent queueDelete go"
  let ?types = "rg_types (relay_registry L D F B)"
  note reg = relay_purger_def [of L D F B E banEvent queueDelete go]
  have "\<forall>ev \<in> set (registry_fetch (pg_reg ?p) f n w'). ev_id ev \<noteq> i"
  proof (rule author_delete_clears [where types = ?types and V = "relay_views F B", OF _ _ _ _ assms(4)])
    show "pg_reg ?p = newRegistry ?types" by (simp add: reg relay_registry_def Let_def)
    show "\<exists>v \<in> relay_views F B. \<exists>f n. ev \<in> set (v f n w)" if "ct \<in> set ?types" "ev \<in> set (ct_fetch ct f n w)" for ct f n w ev
      using relay_type_reads_views [OF assms(1) that] .
    show "(\<forall>w. fst (rs_delete (pg_bolt ?p) i w) = None \<longrightarrow> gone v i (snd (rs_delete (pg_bolt ?p) i w))) \<or>
        (\<exists>ct \<in> set ?types. \<forall>w. fst (ct_deleteID ct i w) = None \<longrightarrow> gone v i (snd (ct_deleteID ct i w)))" if "v \<in> relay_views F B" for v
      using relay_view_cleared [OF assms(1) that, of i L D] by (simp add: reg)
    show "(\<forall>ct \<in> set ?types. gone v i (snd (ct_deleteID ct i w))) \<and> (\<forall>q. pg_queueDelete ?p = Some q \<longrightarrow> gone v i (q i w)) \<and>
        (\<forall>h g w0. pg_beforeDelete ?p = Some h \<longrightarrow> h i w0 = Some g \<longrightarrow> gone v i (g w))" if "v \<in> relay_views F B" "gone v i w" for v w
      using relay_type_keeps_gone [OF assms(1) _ that] only_started_gone [OF _ that] assms(2,3) by (auto simp: reg)
    show "fst (rs_delete (pg_bolt ?p) i (snd (m, w))) = None" using assms(5) by (simp add: reg)
  qed
  then show ?thesis by (simp add: reg)
qed

text \<open>C40. Every event a structured collection accepts is indexed: when the event can be marshalled, the projection of
  its kind yields a document. The one exception are targeted publications whose identifier tag is empty.\<close>

theorem accepted_events_are_indexed:
  assumes "dl_marshal D ev = Inr raw"
  shows "(\<not> fst (validateLongform L ev) \<longrightarrow> (\<exists>doc. nostrToLongform L (dl_marshal D) ev = Inr doc)) \<and>
    (\<not> fst (validateWiki L ev) \<longrightarrow> (\<exists>doc. nostrToWiki L (dl_marshal D) ev = Inr doc)) \<and>
    (ev_kind ev \<in> {31922, 31923, 31924, 31925} \<and> \<not> fst (validateCalendar L ev) \<longrightarrow>
      (\<exists>doc. nostrToCalendar L (dl_marshal D) (dl_cal D) (dl_parseCalendar D) ev = Inr doc)) \<and>
    (\<not> fst (validateTransferkiosk L ev) \<longrightarrow> (\<exists>doc. nostrToTransferkiosk L (dl_marshal D) ev = Inr doc)) \<and>
    (\<not> fst (validatePublication L ev) \<longrightarrow> (\<exists>doc. nostrToPublication L (dl_marshal D) ev = Inr doc)) \<and>
    ((\<exists>doc. nostrToShare L (dl_marshal D) ev = Inr doc) \<longleftrightarrow>
      ev_kind ev \<noteq> kindTargetedPublication \<or> get_d L (ev_tags ev) \<noteq> [])"
proof -
  obtain env where "newStructuredEnvelope L (dl_marshal D) ev = Inr env" using assms by (simp add: newStructuredEnvelope_def)
  then show ?thesis
    by (auto simp: validateLongform_def validateWiki_def validateCalendar_def validateTransferkiosk_def validatePublication_def
        nostrToLongform_def nostrToWiki_def nostrToCalendar_def nostrToTransferkiosk_def nostrToPublication_def nostrToShare_def
        Let_def split: prod.split)
qed

section \<open>Worked example\<close>

definition demo_docs :: doc_lib where
  "demo_docs = \<lparr>dl_marshal = (\<lambda>_. Inr ''raw''), dl_cal = demo_calendar,
     dl_parseCalendar = (\<lambda>_. \<lparr>ce_Title = [], ce_Start = None, ce_End = None, ce_Locations = [], ce_Geohashes = []\<rparr>),
     dl_parseMetadata = (\<lambda>_. Inl ''no metadata'')\<rparr>"

lemma accepted_events_are_indexed_witness:
  "\<exists>doc. nostrToWiki demo_lib (dl_marshal demo_docs) (demo_event 1 30818 10 [[''d'', ''x'']]) = Inr doc"
proof -
  have "dl_marshal demo_docs (demo_event 1 30818 10 [[''d'', ''x'']]) = Inr ''raw''" by (simp add: demo_docs_def)
  moreover have "\<not> fst (validateWiki demo_lib (demo_event 1 30818 10 [[''d'', ''x'']]))"
    by (simp add: validateWiki_def demo_lib_def demo_event_def)
  ultimately show ?thesis using accepted_events_are_indexed by blast
qed

text \<open>Two stores, the event database and one index behind every collection, and the goroutines started so far. The
  calendar's own index refuses every removal.\<close>

type_synonym demo_world = "event list \<times> event list \<times> stamp_task list"

definition demo_db :: "demo_world raw_store" where
  "demo_db = \<lparr>rs_query = (\<lambda>f n w. List.filter (\<lambda>ev. f_ids f = [] \<or> ev_id ev \<in> set (f_ids f)) (fst w)),
     rs_count = (\<lambda>f w. (0, None)), rs_save = (\<lambda>ev w. (None, apfst ((#) ev) w)), rs_replace = (\<lambda>ev w. (None, apfst ((#) ev) w)),
     rs_delete = (\<lambda>i w. (None, apfst (List.filter (\<lambda>ev. ev_id ev \<noteq> i)) w))\<rparr>"

definition demo_collection :: "demo_world collection" where
  "demo_collection = \<lparr>co_QueryEvents = (\<lambda>f n w. fst (snd w)), co_CountEvents = (\<lambda>f w. (0, None)),
     co_DeleteEvent = (\<lambda>i w. (None, apsnd (apfst (List.filter (\<lambda>ev. ev_id ev \<noteq> i))) w)),
     co_RecreateCollection = (\<lambda>w. (None, apsnd (apfst (\<lambda>_. [])) w)),
     co_backend = \<lparr>sb_http = (\<lambda>_ w. (Inl ''offline'', w)), sb_decode = (\<lambda>_. None),
       sb_conn = \<lparr>tc_Host = ''http://search'', tc_ApiKey = ''key'', tc_Collection = ''demo''\<rparr>, sb_Embedder = None\<rparr>\<rparr>"

definition demo_backends :: "demo_world backends" where
  "demo_backends = \<lparr>be_amb = demo_collection, be_longform = demo_collection, be_wiki = demo_collection,
     be_calendar = demo_collection, be_profiles = demo_collection, be_shares = demo_collection,
     be_transferkiosk = demo_collection, be_publications = demo_collection,
     be_index = \<lparr>ci_IndexEvent = (\<lambda>_ w. (None, w)), ci_RemoveEvent = (\<lambda>_ w. (Some ''locked'', w)), ci_QueryEvents = (\<lambda>f n w. fst w)\<rparr>,
     be_bolt = demo_db, be_tsQueue = (\<lambda>ev w. w), be_tsQueueCommunityPatch = (\<lambda>_ _ w. w)\<rparr>"

definition all_on :: relay_flags where
  "all_on = \<lparr>fl_longform = True, fl_wiki = True, fl_calendar = True, fl_profiles = True, fl_shares = True,
     fl_transferkiosk = True, fl_publications = True\<rparr>"

lemma demo_collections: "c \<in> set (relay_collections F demo_backends) \<Longrightarrow> c = demo_collection"
  by (auto simp: relay_collections_def demo_backends_def on_def split: if_splits)

lemma demo_views:
  assumes "v \<in> relay_views F demo_backends"
  shows "v = rs_query demo_db \<or> v = co_QueryEvents demo_collection"
  using assms demo_collections unfolding relay_views_def by (auto simp: demo_backends_def)

lemma demo_deletions_ok: "deletions_ok F demo_backends"
  unfolding deletions_ok_def
proof (intro conjI allI ballI impI)
  have bolt: "be_bolt demo_backends = demo_db" and ix: "ci_QueryEvents (be_index demo_backends) = (\<lambda>f n w. fst w)"
      "ci_RemoveEvent (be_index demo_backends) = (\<lambda>_ w. (Some ''locked'', w))"
    by (simp_all add: demo_backends_def)
  show "gone (rs_query (be_bolt demo_backends)) i (snd (rs_delete (be_bolt demo_backends) i w))" for i w
    by (auto simp: bolt gone_def demo_db_def)
  show "gone (co_QueryEvents c) i (snd (co_DeleteEvent c i w))" if "c \<in> set (relay_collections F demo_backends)" for c i w
    unfolding demo_collections [OF that] by (auto simp: gone_def demo_collection_def)
  show "gone v i (snd (ci_RemoveEvent (be_index demo_backends) i w))" if "gone v i w" for v i w
    using that by (simp add: ix)
  show "gone v i (snd (co_DeleteEvent c i w))"
    if "v \<in> relay_views F demo_backends" "gone v i w" "c \<in> set (relay_collections F demo_backends)" for v i w c
    using demo_views [OF that(1)]
  proof
    have c: "c = demo_collection" using demo_collections [OF that(3)] .
    have "rs_query demo_db f n (snd (co_DeleteEvent demo_collection i w)) = rs_query demo_db f n w" for f n
      by (simp add: demo_db_def demo_collection_def)
    moreover assume "v = rs_query demo_db"
    ultimately show ?thesis using that(2) by (simp add: gone_def c)
  next
    assume "v = co_QueryEvents demo_collection"
    then show ?thesis using that(2) by (auto simp: gone_def demo_collections [OF that(3)] demo_collection_def)
  qed
  show "\<exists>f n. ev \<in> set (rs_query (be_bolt demo_backends) f n w)" if "ev \<in> set (ci_QueryEvents (be_index demo_backends) f n w)" for ev f n w
    using that by (intro exI [of _ empty_filter]) (simp add: bolt ix demo_db_def empty_filter_def)
qed

definition demo_tx3 :: "demo_world tx_env" where
  "demo_tx3 = \<lparr>te_mark_id = (\<lambda>_ _. None), te_mark_coord = (\<lambda>_ _. None), te_content = (\<lambda>_ _. None)\<rparr>"

definition demo_main :: "demo_world relay_env" where
  "demo_main = \<lparr>en_reg = relay_registry demo_lib demo_docs all_on demo_backends,
     en_purger = \<lparr>pg_bolt = demo_db, pg_has_content = True, pg_reg = relay_registry demo_lib demo_docs all_on demo_backends,
       pg_ban_event = (\<lambda>_ _ m. (None, m)), pg_queueDelete = None, pg_beforeDelete = None\<rparr>,
     en_tx = demo_tx3, en_ctx_done = (\<lambda>_. False), en_boltQueue = (\<lambda>ev _ w. (True, apfst ((#) ev) w)), en_profiles = None,
     en_stampKinds = relay_stampKinds all_on demo_backends,
     en_admins = \<lparr>as_IsAdmin = (\<lambda>_ _. False), as_IsStatic = (\<lambda>_ _. False), as_IsAllowed = (\<lambda>_ _ _. False),
       as_Grant = (\<lambda>_ _ w. w), as_Revoke = (\<lambda>_ _ w. w), as_AddAdmin = (\<lambda>_ _ w. (None, w)), as_RemoveAdmin = (\<lambda>_ _ w. (None, w))\<rparr>\<rparr>"

definition demo_main_purger :: "demo_world eventPurger" where
  "demo_main_purger = relay_purger demo_lib demo_docs all_on demo_backends demo_main (\<lambda>_ _ m. (None, m)) (\<lambda>_ w. w)
     (\<lambda>t w. apsnd (apsnd ((#) t)) w)"

lemma demo_delete_succeeds:
  "fst (authorDelete demo_lib demo_tx3 demo_main_purger i (m, w)) = None"
proof -
  have del: "fst (ct_deleteID ct j u) = None" if "ct \<in> set (rg_types (relay_registry demo_lib demo_docs all_on demo_backends))" for ct j u
    using that
  proof (cases rule: relay_type_cases)
    case (collection c)
    from collection(2) show ?thesis unfolding demo_collections [OF collection(1)] by (simp add: collection_closures_def demo_collection_def)
  next
    case calendar
    from calendar(2) show ?thesis unfolding demo_collections [OF calendar(1)] by (simp add: calendar_type_def demo_collection_def)
  qed (simp add: deletionContentType_def)
  have loop: "fst (delete_loop j cts None lg u) = None"
    if "set cts \<subseteq> set (rg_types (relay_registry demo_lib demo_docs all_on demo_backends))" for j cts lg u
    using that
  proof (induction cts arbitrary: u)
    case (Cons ct cts)
    then show ?case using del [of ct j u] by (cases "ct_deleteID ct j u") simp
  qed simp
  then have "fst (deleteEverywhere (relay_registry demo_lib demo_docs all_on demo_backends) i u) = None" for u
    by (simp add: deleteEverywhere_def)
  moreover have "fst (authorDelete demo_lib demo_tx3 demo_main_purger i (m, w)) =
      fst (deleteEverywhere (relay_registry demo_lib demo_docs all_on demo_backends) i (snd (rs_delete demo_db i w)))"
    by (simp add: authorDelete_def purge_def demo_main_purger_def relay_purger_def demo_backends_def Let_def split: prod.splits)
  ultimately show ?thesis by simp
qed

text \<open>A share deleted from both stores; the events below it stay, and its content is stamped anew.\<close>

lemma author_delete_clears_the_relay_witness:
  "[1] \<notin> ev_id ` set (registry_fetch (relay_registry demo_lib demo_docs all_on demo_backends) empty_filter 10
     (snd (snd (authorDelete demo_lib demo_tx3 demo_main_purger [1]
       (fresh_db, let evs = [demo_event 1 30222 50 [], demo_event 2 30142 40 []] in (evs, evs, []))))))"
proof -
  let ?w = "let evs = [demo_event 1 30222 50 [], demo_event 2 30142 40 []] in (evs, evs, [])"
  obtain m' w' where del: "authorDelete demo_lib demo_tx3 demo_main_purger [1] (fresh_db, ?w) = (None, m', w')"
    using demo_delete_succeeds by (metis fst_conv surj_pair)
  have "only_started all_on demo_backends (apsnd (apsnd f))" for f
    unfolding only_started_def by (auto dest!: demo_views simp: demo_db_def demo_collection_def)
  moreover have "fst (rs_delete (be_bolt demo_backends) [1] ?w) = None" by (simp add: demo_backends_def demo_db_def)
  ultimately have "\<forall>ev \<in> set (registry_fetch (relay_registry demo_lib demo_docs all_on demo_backends) empty_filter 10 w'). ev_id ev \<noteq> [1]"
    by (intro author_delete_clears_the_relay [OF demo_deletions_ok _ _ del [unfolded demo_main_purger_def]])
      (simp_all add: only_started_def)
  with del show ?thesis by auto
qed

end
