(* ===== verification/Boot.thy ===== *)
theory Boot
  imports Wiring Expand "HOL-Library.Sublist"
begin

text \<open>
  The start and the end of the process in \<open>main.go\<close>: what the environment sets, the settings of the search
  collections, the administrators of earlier runs, and the sequence in which \<open>main\<close> opens its stores and
  starts its parts. Every part is closed by a deferred call; Go runs these in the reverse order, when \<open>main\<close>
  returns and also when a later step of the start panics.
\<close>

section \<open>Relay information\<close>

record nip11_info =
  ni_Name :: string
  ni_Description :: string
  ni_Icon :: string
  ni_Software :: string
  ni_Version :: string
  ni_SupportedNIPs :: "string list"
  ni_MaxLimit :: nat
  ni_RestrictedWrites :: bool
  ni_AuthRequired :: bool
  ni_Retention :: "kind list list"
  ni_PubKey :: "pubkey option"

text \<open>The settings of the build information, \<open>None\<close> when there is none.\<close>

definition getVersion :: "(string \<times> string) list option \<Rightarrow> string" where
  "getVersion info = (case info of
     None \<Rightarrow> ''dev''
   | Some settings \<Rightarrow> (case map_of settings ''vcs.revision'' of
       None \<Rightarrow> ''dev''
     | Some v \<Rightarrow> if length v > 7 then take 7 v else v))"

definition ambNIP :: string where
  "ambNIP = ''naddr1qvzqqqrcvypzp0wzr7fmrcktw4sgemxh5zsq5auh08vnvlwf0x9anusn7pkft0zgqy28wumn8ghj7un9d3shjtnyv9kh2uewd9hsqzm9v36kvet9vskkzmtzvjvrtf''"

text \<open>\<open>addNIPs\<close> is the library's \<open>AddSupportedNIPs\<close> on the numbers the relay starts with.\<close>

definition boot_info :: "(string list \<Rightarrow> string list) \<Rightarrow> relay_flags \<Rightarrow> (string \<times> string) list option \<Rightarrow> (string \<Rightarrow> string) \<Rightarrow> nip11_info" where
  "boot_info addNIPs F build getenv = \<lparr>ni_Name = getenv ''NAME'', ni_Description = getenv ''DESCRIPTION'', ni_Icon = getenv ''ICON'',
     ni_Software = ''https://git.edufeed.org/edufeed/amb-relay'', ni_Version = getVersion build,
     ni_SupportedNIPs = addNIPs [''9'', ''45'', ''50''] @ [ambNIP],
     ni_MaxLimit = 250, ni_RestrictedWrites = True, ni_AuthRequired = False, ni_Retention = retentionKinds F, ni_PubKey = None\<rparr>"

section \<open>Administrators\<close>

text \<open>The key of the operator: shown in the relay information, and an administrator unless it is the zero key.\<close>

definition operator_key :: "lib \<Rightarrow> (string \<Rightarrow> string) \<Rightarrow> pubkey option" where
  "operator_key L getenv = (let pkHex = getenv ''PUBKEY'' in
     if pkHex = [] then None else case pk_from_hex L pkHex of Inl _ \<Rightarrow> None | Inr pk \<Rightarrow> Some pk)"

definition info_with_operator :: "lib \<Rightarrow> (string \<Rightarrow> string) \<Rightarrow> nip11_info \<Rightarrow> nip11_info" where
  "info_with_operator L getenv info = (case operator_key L getenv of None \<Rightarrow> info | Some pk \<Rightarrow> info\<lparr>ni_PubKey := Some pk\<rparr>)"

definition boot_admins :: "lib \<Rightarrow> (string \<Rightarrow> string) \<Rightarrow> pubkey list" where
  "boot_admins L getenv = staticAdmins L
     (case operator_key L getenv of None \<Rightarrow> None | Some pk \<Rightarrow> if pk = replicate 32 0 then None else Some pk) (getenv ''ADMIN_PUBKEYS'')"

text \<open>The dynamic administrators of earlier runs; an entry has a flag for full access and a list of methods.\<close>

fun restore_admins :: "lib \<Rightarrow> (pubkey \<Rightarrow> string list \<Rightarrow> 'w \<Rightarrow> 'w) \<Rightarrow> (string \<times> bool \<times> string list) list \<Rightarrow> 'w \<Rightarrow> 'w" where
  "restore_admins L grant [] w = w"
| "restore_admins L grant ((h, full, methods) # entries) w = (case pk_from_hex L h of
     Inl _ \<Rightarrow> restore_admins L grant entries w
   | Inr pk \<Rightarrow> restore_admins L grant entries (grant pk (if full then [] else methods) w))"

section \<open>Search collections\<close>

datatype coll = Amb | Longform | Wiki | CalendarColl | ProfilesColl | Shares | Transferkiosk | Publications

text \<open>The settings that differ; host, key and stopwords are the same for all. \<open>SearchFields\<close> and \<open>SearchSortBy\<close>
  are empty where the backend's default stays.\<close>

record ts_settings =
  tsb_CollectionName :: string
  tsb_SearchFields :: string
  tsb_SearchSortBy :: string
  tsb_TagFields :: "(string \<times> string) list"
  tsb_RawEventStore :: bool

definition env_or :: "(string \<Rightarrow> string) \<Rightarrow> string \<Rightarrow> string \<Rightarrow> string" where
  "env_or getenv name dflt = (if getenv name = [] then dflt else getenv name)"

definition stopwordsList :: "string list \<Rightarrow> string list" where
  "stopwordsList germanStopwords = germanStopwords @ [''thema'', ''themen'', ''material'', ''materialien'']"

definition settings :: "string \<Rightarrow> string \<Rightarrow> (string \<times> string) list \<Rightarrow> ts_settings" where
  "settings name searched tags = \<lparr>tsb_CollectionName = name, tsb_SearchFields = searched, tsb_SearchSortBy = [], tsb_TagFields = tags, tsb_RawEventStore = True\<rparr>"

definition amb_collection :: "(string \<Rightarrow> string) \<Rightarrow> ts_settings" where
  "amb_collection getenv = settings (getenv ''TS_COLLECTION'') [] conceptTagFields"

definition longform_collection :: "(string \<Rightarrow> string) \<Rightarrow> ts_settings" where
  "longform_collection getenv = settings (env_or getenv ''TS_COLLECTION_LONGFORM'' ''longform_30023'') ''title,summary,content'' []"

definition wiki_collection :: "(string \<Rightarrow> string) \<Rightarrow> ts_settings" where
  "wiki_collection getenv = settings (env_or getenv ''TS_COLLECTION_WIKI'' ''wiki_30818'') ''title,summary,content'' []"

definition calendar_collection :: "(string \<Rightarrow> string) \<Rightarrow> ts_settings" where
  "calendar_collection getenv = settings (env_or getenv ''TS_COLLECTION_CALENDAR'' ''calendar_31922'')
     ''title,summary,content,location'' calendarTagFields"

definition profiles_collection :: "(string \<Rightarrow> string) \<Rightarrow> ts_settings" where
  "profiles_collection getenv = (settings (env_or getenv ''TS_COLLECTION_PROFILES'' ''profiles_0'') ''name,display_name,about,nip05'' [])
     \<lparr>tsb_SearchSortBy := ''_text_match:desc,nip05_verified:desc,eventCreatedAt:desc'', tsb_RawEventStore := False\<rparr>"

definition shares_collection :: "(string \<Rightarrow> string) \<Rightarrow> ts_settings" where
  "shares_collection getenv = settings (env_or getenv ''TS_COLLECTION_SHARES'' ''community_shares'') ''eventID'' sharesTagFields"

definition transferkiosk_collection :: "(string \<Rightarrow> string) \<Rightarrow> ts_settings" where
  "transferkiosk_collection getenv = settings (env_or getenv ''TS_COLLECTION_TRANSFERKIOSK'' ''transferkiosk'')
     ''name,searchText,content'' transferkioskTagFields"

definition publications_collection :: "(string \<Rightarrow> string) \<Rightarrow> ts_settings" where
  "publications_collection getenv = settings (env_or getenv ''TS_COLLECTION_PUBLICATIONS'' ''publications'')
     ''title,summary,searchText,content'' []"

lemmas collection_defs = amb_collection_def longform_collection_def wiki_collection_def calendar_collection_def
  profiles_collection_def shares_collection_def transferkiosk_collection_def publications_collection_def

definition boot_collections :: "(string \<Rightarrow> string) \<Rightarrow> relay_flags \<Rightarrow> (coll \<times> ts_settings) list" where
  "boot_collections getenv F = [(Amb, amb_collection getenv)] @
     on (fl_longform F) [(Longform, longform_collection getenv)] @ on (fl_wiki F) [(Wiki, wiki_collection getenv)] @
     on (fl_calendar F) [(CalendarColl, calendar_collection getenv)] @ on (fl_profiles F) [(ProfilesColl, profiles_collection getenv)] @
     on (fl_shares F) [(Shares, shares_collection getenv)] @
     on (fl_transferkiosk F) [(Transferkiosk, transferkiosk_collection getenv)] @
     on (fl_publications F) [(Publications, publications_collection getenv)]"

text \<open>The schema each collection is set up with, and what the relay announces about the schemas.\<close>

fun coll_schema :: "json_lib \<Rightarrow> schema \<Rightarrow> mgmt_db \<Rightarrow> coll \<Rightarrow> string \<Rightarrow> schema" where
  "coll_schema J defaultSchema m Amb _ = effectiveSchema J defaultSchema m"
| "coll_schema J defaultSchema m Longform name = longformSchema name"
| "coll_schema J defaultSchema m Wiki name = wikiSchema name"
| "coll_schema J defaultSchema m CalendarColl name = calendarSchema name"
| "coll_schema J defaultSchema m ProfilesColl name = profileSchema name"
| "coll_schema J defaultSchema m Shares name = sharesSchema name"
| "coll_schema J defaultSchema m Transferkiosk name = transferkioskSchema name"
| "coll_schema J defaultSchema m Publications name = publicationsSchema name"

definition searchSchemas :: "json_lib \<Rightarrow> schema \<Rightarrow> (string \<Rightarrow> string) \<Rightarrow> relay_flags \<Rightarrow> mgmt_db \<Rightarrow> schema list" where
  "searchSchemas J defaultSchema getenv F m =
     map (\<lambda>(c, settings). coll_schema J defaultSchema m c (tsb_CollectionName settings)) (boot_collections getenv F)"

definition announce_search :: "json_lib \<Rightarrow> schema \<Rightarrow> (string \<Rightarrow> string) \<Rightarrow> relay_flags \<Rightarrow> mgmt_db \<Rightarrow> relay_info \<Rightarrow> relay_info" where
  "announce_search J defaultSchema getenv F m info =
     advertiseSearchExtensions info (nip50SearchExtensions (searchSchemas J defaultSchema getenv F m))"

section \<open>Intervals, clients and the passage search\<close>

definition NewEmbeddingClient :: "string \<Rightarrow> string \<Rightarrow> embed_client" where
  "NewEmbeddingClient endpoint tok = \<lparr>ec_Endpoint = endpoint, ec_BearerToken = tok\<rparr>"

definition boot_embedder :: "(string \<Rightarrow> string) \<Rightarrow> embed_client option" where
  "boot_embedder getenv = (if getenv ''EMBED_ENDPOINT'' = [] then None
     else Some (NewEmbeddingClient (getenv ''EMBED_ENDPOINT'') (getenv ''EMBED_TOKEN'')))"

text \<open>The key that signs the snippets: the configured one, whose failure to parse is a panic, or a fresh one.\<close>

definition snippet_key :: "(string \<Rightarrow> error + 'k) \<Rightarrow> 'k \<Rightarrow> (string \<Rightarrow> string) \<Rightarrow> error + 'k" where
  "snippet_key parse_hex fresh getenv = (if getenv ''RELAY_SECKEY'' = [] then Inr fresh
     else case parse_hex (getenv ''RELAY_SECKEY'') of
       Inl e \<Rightarrow> Inl (''invalid RELAY_SECKEY: '' @ e)
     | Inr sk \<Rightarrow> Inr sk)"

definition listen_addr :: "(string \<Rightarrow> string) \<Rightarrow> string" where
  "listen_addr getenv = '':'' @ env_or getenv ''PORT'' ''3334''"


text \<open>\<open>parse_duration\<close> is \<open>time.ParseDuration\<close>, in nanoseconds. Only the directories insist on a positive interval.\<close>

definition hour :: int where
  "hour = 3600 * 1000000000"

definition refresh_interval :: "(string \<Rightarrow> int option) \<Rightarrow> string \<Rightarrow> int" where
  "refresh_interval parse_duration raw = (if raw = [] then 6 * hour else case parse_duration raw of Some d \<Rightarrow> d | None \<Rightarrow> 6 * hour)"

definition profileRefresh :: "(string \<Rightarrow> int option) \<Rightarrow> (string \<Rightarrow> string) \<Rightarrow> int" where
  "profileRefresh parse_duration getenv = refresh_interval parse_duration (getenv ''PROFILE_REFRESH_INTERVAL'')"

definition communityRefresh :: "(string \<Rightarrow> int option) \<Rightarrow> (string \<Rightarrow> string) \<Rightarrow> int" where
  "communityRefresh parse_duration getenv = refresh_interval parse_duration (getenv ''COMMUNITY_REFRESH_INTERVAL'')"

definition directory_interval :: "(string \<Rightarrow> int option) \<Rightarrow> string \<Rightarrow> int" where
  "directory_interval parse_duration raw = (if raw = [] then hour div 4
     else case parse_duration raw of Some d \<Rightarrow> if d > 0 then d else hour div 4 | None \<Rightarrow> hour div 4)"

text \<open>\<open>time.NewTicker\<close> panics when the interval is not positive.\<close>

definition ticker_panics :: "int \<Rightarrow> bool" where
  "ticker_panics d \<longleftrightarrow> d \<le> 0"

definition chunk_searcher :: "(string \<Rightarrow> string) \<Rightarrow> int \<Rightarrow> (string \<times> string \<times> int) option" where
  "chunk_searcher getenv defaultTimeout = (if getenv ''CHUNK_RERANK_ENABLED'' \<noteq> ''true'' \<or> getenv ''INDEXER_API_TOKEN'' = [] then None
     else Some (env_or getenv ''INDEXER_BASE_URL'' ''http://amb-indexer:8080'', getenv ''INDEXER_API_TOKEN'',
       (let ms = getenv ''CHUNK_RERANK_TIMEOUT_MS'' in
        if ms = [] then defaultTimeout
        else case atoi ms of
          Some n \<Rightarrow> if n > 0 then sint (word_of_int n * 1000000 :: 64 word) else defaultTimeout
        | None \<Rightarrow> defaultTimeout)))"

section \<open>What the operator changes and reads at run time\<close>

text \<open>The management calls that only hand over to the ban store of the library, and those on the relay information.\<close>

record 'w ban_store =
  bk_BanPubKey :: "pubkey \<Rightarrow> string \<Rightarrow> 'w \<Rightarrow> error option \<times> 'w"
  bk_ListBannedPubKeys :: "'w \<Rightarrow> error + (pubkey \<times> string) list"
  bk_AllowPubKey :: "pubkey \<Rightarrow> 'w \<Rightarrow> error option \<times> 'w"
  bk_ListBannedEvents :: "'w \<Rightarrow> error + (event_id \<times> string) list"
  bk_AllowEvent :: "event_id \<Rightarrow> 'w \<Rightarrow> error option \<times> 'w"

record 'w standard_api =
  sa_BanPubKey :: "pubkey \<Rightarrow> string \<Rightarrow> 'w \<Rightarrow> error option \<times> 'w"
  sa_ListBannedPubKeys :: "'w \<Rightarrow> error + (pubkey \<times> string) list"
  sa_AllowPubKey :: "pubkey \<Rightarrow> string \<Rightarrow> 'w \<Rightarrow> error option \<times> 'w"
  sa_ListBannedEvents :: "'w \<Rightarrow> error + (event_id \<times> string) list"
  sa_AllowEvent :: "event_id \<Rightarrow> string \<Rightarrow> 'w \<Rightarrow> error option \<times> 'w"

definition standard_api_of :: "'w ban_store \<Rightarrow> 'w standard_api" where
  "standard_api_of B = \<lparr>sa_BanPubKey = bk_BanPubKey B, sa_ListBannedPubKeys = bk_ListBannedPubKeys B,
     sa_AllowPubKey = (\<lambda>pk _. bk_AllowPubKey B pk), sa_ListBannedEvents = bk_ListBannedEvents B,
     sa_AllowEvent = (\<lambda>i _. bk_AllowEvent B i)\<rparr>"

definition ChangeRelayName :: "string \<Rightarrow> nip11_info \<Rightarrow> nip11_info" where
  "ChangeRelayName name info = info\<lparr>ni_Name := name\<rparr>"

definition ChangeRelayDescription :: "string \<Rightarrow> nip11_info \<Rightarrow> nip11_info" where
  "ChangeRelayDescription desc info = info\<lparr>ni_Description := desc\<rparr>"

definition ChangeRelayIcon :: "string \<Rightarrow> nip11_info \<Rightarrow> nip11_info" where
  "ChangeRelayIcon icon info = info\<lparr>ni_Icon := icon\<rparr>"

text \<open>The number of resources in the index and, in nanoseconds, the time since the start.\<close>

definition relay_Stats :: "'w collection \<Rightarrow> int \<Rightarrow> int \<Rightarrow> 'w \<Rightarrow> error + 32 word \<times> int" where
  "relay_Stats amb startTime now w = (case co_CountEvents amb (empty_filter\<lparr>f_kinds := [30142]\<rparr>) w of
     (_, Some e) \<Rightarrow> Inl e
   | (n, None) \<Rightarrow> Inr (n, now - startTime))"

section \<open>The start\<close>

datatype boot_action = DataDir | OpenBolt | InitManagement | LoadAdmins | InitAcl | LoadCustomSchema | InitCollection coll
  | OpenCalendarIndex | ReconcileIndex | StartTsBuf | StartBoltBuf | LoadSemantic | StartProfiles | StartDirectory
  | StartCommunity | StartStamper | SignerKey | StartExpansion | StartBackfill

text \<open>The deferred calls, named after what they close.\<close>

datatype closer = CloseBolt | StopAcl | CloseCalendarIndex | CloseTsBuf | CloseBoltBuf | StopProfiles | StopDirectory
  | StopCommunity | StopStamper | StopExpansion | JoinBackfill

text \<open>
  What the plan depends on: the features, whether the database lies in a directory of its own, whether the index is
  reconciled at the start, whether NIP-05 directories are configured, whether the signer key is set, and the intervals of
  the refresh loops.
\<close>

record boot_conf =
  bt_flags :: relay_flags
  bt_dataDir :: bool
  bt_hydrate :: bool
  bt_directory :: bool
  bt_signer :: bool
  bt_profileRefresh :: int
  bt_communityRefresh :: int

definition boot_conf_of :: "(string \<Rightarrow> string) \<Rightarrow> (string \<Rightarrow> int option) \<Rightarrow> (string \<Rightarrow> string) \<Rightarrow> boot_conf" where
  "boot_conf_of dir parse_duration getenv = \<lparr>bt_flags = flags_of_env getenv, bt_dataDir = (dir (env_or getenv ''DB_PATH'' ''./data/relay.db'') \<noteq> ''.''),
     bt_hydrate = (getenv ''HYDRATE_ON_START'' = ''true''),
     bt_directory = (length (parseNIP05DirectoryURLs (getenv ''PROFILE_NIP05_DIRECTORIES'')) > 0),
     bt_signer = (getenv ''RELAY_SECKEY'' \<noteq> []),
     bt_profileRefresh = profileRefresh parse_duration getenv, bt_communityRefresh = communityRefresh parse_duration getenv\<rparr>"

text \<open>The actions in the order of the source, stage by stage.\<close>

definition open_stores :: "boot_conf \<Rightarrow> boot_action list" where
  "open_stores C = on (bt_dataDir C) [DataDir] @ [OpenBolt, InitManagement, LoadAdmins, InitAcl]"

definition open_collections :: "relay_flags \<Rightarrow> boot_action list" where
  "open_collections F = [LoadCustomSchema, InitCollection Amb] @
     on (fl_longform F) [InitCollection Longform] @ on (fl_wiki F) [InitCollection Wiki] @
     on (fl_calendar F) [InitCollection CalendarColl, OpenCalendarIndex] @
     on (fl_profiles F) [InitCollection ProfilesColl] @ on (fl_shares F) [InitCollection Shares] @
     on (fl_transferkiosk F) [InitCollection Transferkiosk] @ on (fl_publications F) [InitCollection Publications]"

definition start_buffers :: "boot_conf \<Rightarrow> boot_action list" where
  "start_buffers C = on (bt_hydrate C) [ReconcileIndex] @ [StartTsBuf, StartBoltBuf]"

definition start_profiles :: "boot_conf \<Rightarrow> boot_action list" where
  "start_profiles C = on (fl_profiles (bt_flags C)) ([StartProfiles] @ on (bt_directory C) [StartDirectory])"

definition start_communities :: "relay_flags \<Rightarrow> boot_action list" where
  "start_communities F = on (fl_shares F) [StartCommunity, StartStamper]"

definition load_signer :: "boot_conf \<Rightarrow> boot_action list" where
  "load_signer C = on (bt_signer C) [SignerKey]"

definition boot_plan :: "boot_conf \<Rightarrow> boot_action list" where
  "boot_plan C = open_stores C @ open_collections (bt_flags C) @ start_buffers C @ [LoadSemantic] @ start_profiles C @
     start_communities (bt_flags C) @ load_signer C @ [StartExpansion] @ [StartBackfill]"

lemmas boot_plan_defs = boot_plan_def open_stores_def open_collections_def start_buffers_def start_profiles_def
  start_communities_def load_signer_def

text \<open>An action that fails ends the start with a panic, or is only reported.\<close>

fun fatal :: "boot_action \<Rightarrow> bool" where
  "fatal DataDir \<longleftrightarrow> True"
| "fatal OpenBolt \<longleftrightarrow> True"
| "fatal InitManagement \<longleftrightarrow> True"
| "fatal InitAcl \<longleftrightarrow> True"
| "fatal (InitCollection _) \<longleftrightarrow> True"
| "fatal OpenCalendarIndex \<longleftrightarrow> True"
| "fatal SignerKey \<longleftrightarrow> True"
| "fatal _ \<longleftrightarrow> False"

fun closer_of :: "boot_action \<Rightarrow> closer option" where
  "closer_of OpenBolt = Some CloseBolt"
| "closer_of InitAcl = Some StopAcl"
| "closer_of OpenCalendarIndex = Some CloseCalendarIndex"
| "closer_of StartTsBuf = Some CloseTsBuf"
| "closer_of StartBoltBuf = Some CloseBoltBuf"
| "closer_of StartProfiles = Some StopProfiles"
| "closer_of StartDirectory = Some StopDirectory"
| "closer_of StartCommunity = Some StopCommunity"
| "closer_of StartStamper = Some StopStamper"
| "closer_of StartExpansion = Some StopExpansion"
| "closer_of StartBackfill = Some JoinBackfill"
| "closer_of _ = None"

text \<open>\<open>outcome\<close> says what fails; the third argument is the stack of deferred calls. The result is the panic, if there was
  one, and the calls in the order in which they run. \<open>runServer\<close> comes between when there was none.\<close>

fun boot :: "(boot_action \<Rightarrow> error option) \<Rightarrow> boot_action list \<Rightarrow> closer list \<Rightarrow> error option \<times> closer list" where
  "boot outcome [] deferred = (None, deferred)"
| "boot outcome (a # as) deferred = (case outcome a of
     Some e \<Rightarrow> if fatal a then (Some e, deferred)
       else boot outcome as (case closer_of a of None \<Rightarrow> deferred | Some c \<Rightarrow> c # deferred)
   | None \<Rightarrow> boot outcome as (case closer_of a of None \<Rightarrow> deferred | Some c \<Rightarrow> c # deferred))"

definition main_run :: "boot_conf \<Rightarrow> (boot_action \<Rightarrow> error option) \<Rightarrow> error option \<times> closer list" where
  "main_run C outcome = boot outcome (boot_plan C) []"

text \<open>The refresh loops run in goroutines of their own, the stamper's with the interval of the communities. A panic there
  kills the process without a deferred call.\<close>

fun loop_panics :: "boot_conf \<Rightarrow> boot_action \<Rightarrow> bool" where
  "loop_panics C StartProfiles \<longleftrightarrow> ticker_panics (bt_profileRefresh C)"
| "loop_panics C StartCommunity \<longleftrightarrow> ticker_panics (bt_communityRefresh C)"
| "loop_panics C StartStamper \<longleftrightarrow> ticker_panics (bt_communityRefresh C)"
| "loop_panics C _ \<longleftrightarrow> False"

text \<open>The actions that are carried out: those before the first that panics.\<close>

definition carried_out :: "(boot_action \<Rightarrow> error option) \<Rightarrow> boot_action list \<Rightarrow> boot_action list" where
  "carried_out outcome as = takeWhile (\<lambda>a. outcome a = None \<or> \<not> fatal a) as"

text \<open>How the process ends: \<open>main\<close> returns or panics and runs its deferred calls, or a loop it started panics first.\<close>

datatype process_end = Exited "error option" "closer list" | Killed

inductive main_ends :: "boot_conf \<Rightarrow> (boot_action \<Rightarrow> error option) \<Rightarrow> process_end \<Rightarrow> bool" for C outcome where
  exits: "main_run C outcome = (panic, closed) \<Longrightarrow> main_ends C outcome (Exited panic closed)"
| killed: "a \<in> set (carried_out outcome (boot_plan C)) \<Longrightarrow> loop_panics C a \<Longrightarrow> main_ends C outcome Killed"

section \<open>The end\<close>

text \<open>
  What a part needs while it is closed: the buffers write to the database while they drain; the backfill deletes
  through the buffers, the database and the calendar index; the stamper asks the community registry, writes through the
  buffers and indexes what it fetched; the directories enqueue into the profile manager, whose queue is in the
  database, as are the access lists. The event buffer is drained before the index buffer.
  Each call stands here for its start in the deferred order. The join of the backfill waits at most ten seconds
  (\<open>backfillJoinTimeout\<close>) and the stores are then closed all the same, which the order of the calls does not show; the
  bounds on the two drains are in the theory Deadline.
\<close>

fun needs :: "closer \<Rightarrow> closer list" where
  "needs JoinBackfill = [CloseBoltBuf, CloseTsBuf, CloseCalendarIndex, CloseBolt, StopStamper]"
| "needs StopStamper = [StopCommunity, CloseBoltBuf, CloseTsBuf, CloseCalendarIndex, StopProfiles, CloseBolt]"
| "needs StopCommunity = [CloseBolt]"
| "needs StopDirectory = [StopProfiles]"
| "needs StopProfiles = [CloseBolt]"
| "needs CloseBoltBuf = [CloseTsBuf, CloseBolt]"
| "needs CloseTsBuf = [CloseBolt]"
| "needs StopAcl = [CloseBolt]"
| "needs _ = []"

text \<open>\<open>x\<close> comes before \<open>y\<close> in a list.\<close>

definition before :: "'a \<Rightarrow> 'a \<Rightarrow> 'a list \<Rightarrow> bool" where
  "before x y xs \<longleftrightarrow> (\<exists>us vs. xs = us @ vs \<and> x \<in> set us \<and> y \<in> set vs)"

text \<open>The calls in the order in which they run when everything has been started.\<close>

definition closing_order :: "closer list" where
  "closing_order = [JoinBackfill, StopExpansion, StopStamper, StopCommunity, StopDirectory, StopProfiles, CloseBoltBuf, CloseTsBuf,
     CloseCalendarIndex, StopAcl, CloseBolt]"

fun closing_rank :: "closer \<Rightarrow> nat" where
  "closing_rank JoinBackfill = 0"
| "closing_rank StopExpansion = 1"
| "closing_rank StopStamper = 2"
| "closing_rank StopCommunity = 3"
| "closing_rank StopDirectory = 4"
| "closing_rank StopProfiles = 5"
| "closing_rank CloseBoltBuf = 6"
| "closing_rank CloseTsBuf = 7"
| "closing_rank CloseCalendarIndex = 8"
| "closing_rank StopAcl = 9"
| "closing_rank CloseBolt = 10"

lemma closing_rank_inject [simp]: "closing_rank x = closing_rank y \<longleftrightarrow> x = y"
  by (cases x; cases y) simp_all

instantiation closer :: linorder
begin

definition less_eq_closer :: "closer \<Rightarrow> closer \<Rightarrow> bool" where
  "x \<le> y \<longleftrightarrow> closing_rank x \<le> closing_rank y"

definition less_closer :: "closer \<Rightarrow> closer \<Rightarrow> bool" where
  "x < y \<longleftrightarrow> closing_rank x < closing_rank y"

instance by standard (auto simp: less_eq_closer_def less_closer_def)

end

lemma closing_order_sorted: "sorted_wrt (<) closing_order"
  by (simp add: closing_order_def less_closer_def)

lemma needs_greater: "b \<in> set (needs a) \<Longrightarrow> a < b"
  by (cases a) (auto simp: less_closer_def)

lemma CloseBolt_greatest: "x \<le> CloseBolt"
  by (cases x) (simp_all add: less_eq_closer_def)

lemma JoinBackfill_least: "JoinBackfill \<le> x"
  by (simp add: less_eq_closer_def)

lemma boot_defers: "boot outcome as ds =
    (case find (\<lambda>a. outcome a \<noteq> None \<and> fatal a) as of None \<Rightarrow> None | Some a \<Rightarrow> outcome a,
     rev (List.map_filter closer_of (carried_out outcome as)) @ ds)"
  by (induction outcome as ds rule: boot.induct) (auto simp: carried_out_def List.map_filter_def split: option.splits)

lemma map_filter_ops:
  "List.map_filter f (xs @ ys) = List.map_filter f xs @ List.map_filter f ys"
  "List.map_filter f (on b xs) = on b (List.map_filter f xs)"
  by (simp_all add: List.map_filter_def on_def)

lemma plan_closers: "List.map_filter closer_of (boot_plan C) = [CloseBolt, StopAcl] @ on (fl_calendar (bt_flags C)) [CloseCalendarIndex] @
    [CloseTsBuf, CloseBoltBuf] @ on (fl_profiles (bt_flags C)) ([StopProfiles] @ on (bt_directory C) [StopDirectory]) @
    on (fl_shares (bt_flags C)) [StopCommunity, StopStamper] @ [StopExpansion, JoinBackfill]"
  by (simp add: boot_plan_defs map_filter_ops List.map_filter_simps)

lemma subseq_on: "subseq ys zs \<Longrightarrow> subseq (on b xs @ ys) (xs @ zs)"
  by (cases b) (simp_all add: list_emb_append_mono list_emb_append2)

lemma subseq_on_last: "subseq (on b xs) xs"
  by (cases b) simp_all

lemma plan_subseq: "subseq (List.map_filter closer_of (boot_plan C)) (rev closing_order)"
  unfolding plan_closers closing_order_def
  by (cases "fl_calendar (bt_flags C)"; cases "fl_profiles (bt_flags C)"; cases "bt_directory C"; cases "fl_shares (bt_flags C)"; simp)

lemma subseq_revI: "subseq xs ys \<Longrightarrow> subseq (rev xs) (rev ys)"
  by (induction rule: list_emb.induct) (auto simp: list_emb_append_mono subseq_rev_drop_many)

lemma subseq_left: "subseq (xs @ ws) ys \<Longrightarrow> subseq xs ys"
  by (rule subseq_order.order_trans [OF subseq_rev_drop_many [OF subseq_order.order_refl]])

lemma subseq_elem: "subseq xs ys \<Longrightarrow> x \<in> set xs \<Longrightarrow> x \<in> set ys"
  by (induction rule: list_emb.induct) auto

lemma closed_subseq: "main_run C outcome = (panic, closed) \<Longrightarrow> subseq closed closing_order"
proof -
  assume "main_run C outcome = (panic, closed)"
  then have closed: "closed = rev (List.map_filter closer_of (carried_out outcome (boot_plan C)))"
    by (simp add: main_run_def boot_defers)
  have "List.map_filter closer_of (boot_plan C) = List.map_filter closer_of (carried_out outcome (boot_plan C)) @
      List.map_filter closer_of (dropWhile (\<lambda>a. outcome a = None \<or> \<not> fatal a) (boot_plan C))"
    unfolding carried_out_def List.map_filter_def
    by (simp only: filter_append [symmetric] map_append [symmetric] takeWhile_dropWhile_id)
  then have "subseq (List.map_filter closer_of (carried_out outcome (boot_plan C))) (rev closing_order)"
    using plan_subseq [of C] subseq_left by metis
  from subseq_revI [OF this] show ?thesis by (simp add: closed)
qed

lemma sorted_subseq: "subseq xs ys \<Longrightarrow> sorted_wrt (<) ys \<Longrightarrow> sorted_wrt (<) xs"
  by (induction rule: list_emb.induct) (auto dest: subseq_elem)

lemma closed_sorted: "main_run C outcome = (panic, closed) \<Longrightarrow> sorted_wrt (<) closed"
  using sorted_subseq [OF closed_subseq closing_order_sorted] .

lemma before_sorted:
  assumes "sorted_wrt (<) xs" and "a \<in> set xs" and "b \<in> set xs" and "a < b"
  shows "before a b (xs :: closer list)"
proof -
  obtain us vs where xs: "xs = us @ a # vs" using split_list [OF assms(2)] by blast
  with assms have "b \<in> set vs" by (auto simp: sorted_wrt_append)
  then show ?thesis unfolding before_def by (intro exI [of _ "us @ [a]"] exI [of _ vs]) (simp add: xs)
qed

lemma last_sorted:
  assumes "sorted_wrt (<) xs" and "y \<in> set xs" and "\<And>x. x \<le> y"
  shows "last xs = (y :: closer)"
proof -
  obtain us vs where xs: "xs = us @ y # vs" using split_list [OF assms(2)] by blast
  have "vs = []" using assms(1,3) by (cases vs) (auto simp: xs sorted_wrt_append leD)
  with xs show ?thesis by simp
qed

lemma complete_start:
  assumes "main_run C outcome = (panic, closed)" and "panic = None"
  shows "closed = rev (List.map_filter closer_of (boot_plan C))"
proof -
  from assms have "find (\<lambda>a. outcome a \<noteq> None \<and> fatal a) (boot_plan C) = None"
    by (auto simp: main_run_def boot_defers find_Some_iff split: option.splits)
  then have "carried_out outcome (boot_plan C) = boot_plan C"
    by (auto simp: carried_out_def takeWhile_eq_all_conv find_None_iff)
  with assms(1) show ?thesis by (simp add: main_run_def boot_defers)
qed

section \<open>Properties\<close>

text \<open>What each deferred call closes. The other actions leave nothing open: they make a directory, read or write records, or
  set up a remote collection.\<close>

fun closes :: "closer \<Rightarrow> boot_action" where
  "closes CloseBolt = OpenBolt"
| "closes StopAcl = InitAcl"
| "closes CloseCalendarIndex = OpenCalendarIndex"
| "closes CloseTsBuf = StartTsBuf"
| "closes CloseBoltBuf = StartBoltBuf"
| "closes StopProfiles = StartProfiles"
| "closes StopDirectory = StartDirectory"
| "closes StopCommunity = StartCommunity"
| "closes StopStamper = StartStamper"
| "closes StopExpansion = StartExpansion"
| "closes JoinBackfill = StartBackfill"

lemma closer_of_iff: "closer_of a = Some c \<longleftrightarrow> a = closes c"
  by (cases c; cases a; simp)

lemma loop_panics_plan:
  assumes "a \<in> set (boot_plan C)" and "loop_panics C a"
  shows "fl_profiles (bt_flags C) \<and> bt_profileRefresh C \<le> 0 \<or> fl_shares (bt_flags C) \<and> bt_communityRefresh C \<le> 0"
  using assms by (cases a) (auto simp: boot_plan_defs on_def ticker_panics_def split: if_splits)

text \<open>C38. However the process ends, unless a refresh loop that is on was given an interval that is not positive, it closes
  what it opened: each part whose start was carried out is closed once and no other, in an order in which no part is
  closed before one that needs it. The backfill is joined first, the event buffer is drained before the index buffer,
  and the database is closed last. This holds whatever is switched on and wherever the start fails.\<close>

theorem shutdown_respects_dependencies:
  assumes "main_ends C outcome end"
  shows "fl_profiles (bt_flags C) \<and> bt_profileRefresh C \<le> 0 \<or> fl_shares (bt_flags C) \<and> bt_communityRefresh C \<le> 0 \<or>
    (\<exists>panic closed. end = Exited panic closed \<and> distinct closed \<and>
      set closed = {c. closes c \<in> set (carried_out outcome (boot_plan C))} \<and>
      (\<forall>a b. a \<in> set closed \<and> b \<in> set closed \<and> b \<in> set (needs a) \<longrightarrow> before a b closed) \<and>
      (CloseBolt \<in> set closed \<longrightarrow> last closed = CloseBolt) \<and>
      (panic = None \<longrightarrow> {CloseBolt, StopAcl, CloseBoltBuf, CloseTsBuf, StopExpansion, JoinBackfill} \<subseteq> set closed \<and> hd closed = JoinBackfill))"
  using assms
proof cases
  case (killed a)
  then have "a \<in> set (boot_plan C)" using set_takeWhileD unfolding carried_out_def by fast
  then show ?thesis using loop_panics_plan killed(3) by blast
next
  case (exits panic closed)
  note sorted = closed_sorted [OF exits(2)]
  have "distinct closed" using sorted by (auto simp: strict_sorted_iff)
  moreover have "set closed = {c. closes c \<in> set (carried_out outcome (boot_plan C))}"
    using exits(2) by (auto simp: main_run_def boot_defers set_map_filter_iff closer_of_iff)
  moreover have "\<forall>a b. a \<in> set closed \<and> b \<in> set closed \<and> b \<in> set (needs a) \<longrightarrow> before a b closed"
    using before_sorted [OF sorted _ _ needs_greater] by blast
  moreover have "CloseBolt \<in> set closed \<longrightarrow> last closed = CloseBolt"
    using last_sorted [OF sorted _ CloseBolt_greatest] by blast
  moreover have "panic = None \<longrightarrow> {CloseBolt, StopAcl, CloseBoltBuf, CloseTsBuf, StopExpansion, JoinBackfill} \<subseteq> set closed \<and> hd closed = JoinBackfill"
    using complete_start [OF exits(2)] by (auto simp: plan_closers)
  ultimately show ?thesis using exits(1) by blast
qed

text \<open>Everything but the calendar is on, and the signer key does not parse.\<close>

definition demo_conf :: boot_conf where
  "demo_conf = \<lparr>bt_flags = \<lparr>fl_longform = True, fl_wiki = False, fl_calendar = False, fl_profiles = True, fl_shares = True,
     fl_transferkiosk = False, fl_publications = False\<rparr>, bt_dataDir = True, bt_hydrate = False, bt_directory = False, bt_signer = True,
     bt_profileRefresh = 6 * hour, bt_communityRefresh = 6 * hour\<rparr>"

definition bad_key :: "boot_action \<Rightarrow> error option" where
  "bad_key a = (if a = SignerKey then Some ''invalid RELAY_SECKEY'' else None)"

lemma demo_boot_run: "main_run demo_conf bad_key = (Some ''invalid RELAY_SECKEY'',
    [StopStamper, StopCommunity, StopProfiles, CloseBoltBuf, CloseTsBuf, StopAcl, CloseBolt])"
  by (simp add: main_run_def boot_plan_defs demo_conf_def bad_key_def)

lemma shutdown_respects_dependencies_witness:
  "set [StopStamper, StopCommunity, StopProfiles, CloseBoltBuf, CloseTsBuf, StopAcl, CloseBolt] =
     {c. closes c \<in> set (carried_out bad_key (boot_plan demo_conf))}"
  using shutdown_respects_dependencies [OF exits [OF demo_boot_run]] by (simp add: demo_conf_def hour_def)

text \<open>With an interval of zero the same start can end with nothing closed.\<close>

lemma zero_interval_closes_nothing: "main_ends (demo_conf\<lparr>bt_profileRefresh := 0\<rparr>) (\<lambda>_. None) Killed"
  by (rule killed [of StartProfiles]) (simp_all add: carried_out_def boot_plan_defs demo_conf_def ticker_panics_def)

text \<open>The defaults keep the collections apart.\<close>

lemma subseq_distinct: "subseq xs ys \<Longrightarrow> distinct ys \<Longrightarrow> distinct xs"
  by (induction rule: list_emb.induct) (auto dest: subseq_elem)

lemma default_collections_are_disjoint:
  assumes "\<And>name. name \<noteq> ''TS_COLLECTION'' \<Longrightarrow> getenv name = []"
    and "getenv ''TS_COLLECTION'' \<notin> {''longform_30023'', ''wiki_30818'', ''calendar_31922'', ''profiles_0'', ''community_shares'', ''transferkiosk'', ''publications''}"
  shows "distinct (map (\<lambda>(_, c). tsb_CollectionName c) (boot_collections getenv F))"
proof -
  let ?all = "[getenv ''TS_COLLECTION''] @ [''longform_30023''] @ [''wiki_30818''] @ [''calendar_31922''] @ [''profiles_0''] @
    [''community_shares''] @ [''transferkiosk''] @ [''publications'']"
  have "subseq (map (\<lambda>(_, c). tsb_CollectionName c) (boot_collections getenv F)) ?all"
    unfolding boot_collections_def collection_defs map_append on_ops settings_def env_or_def
    by (simp add: assms(1) del: append_Cons append_Nil) (intro list_emb_append_mono subseq_order.order_refl subseq_on subseq_on_last)
  moreover have "distinct ?all" using assms(2) by simp
  ultimately show ?thesis by (rule subseq_distinct)
qed

text \<open>What the search engine must find in the schema to answer queries with these settings: the searched fields as
  strings, the fields the tags are looked up in, and the sort keys.\<close>

definition has_field :: "schema \<Rightarrow> string \<Rightarrow> bool" where
  "has_field sch n \<longleftrightarrow> list_ex (\<lambda>f. fd_name f = n) (sch_fields sch)"

definition has_text_field :: "schema \<Rightarrow> string \<Rightarrow> bool" where
  "has_text_field sch n \<longleftrightarrow> list_ex (\<lambda>f. fd_name f = n \<and> (fd_type f = ''string'' \<or> fd_type f = ''string[]'')) (sch_fields sch)"

definition sort_key_ok :: "schema \<Rightarrow> string \<Rightarrow> bool" where
  "sort_key_ok sch key = (case split_n 2 CHR '':'' key of
     [n, order] \<Rightarrow> (n = ''_text_match'' \<or> has_field sch n) \<and> (order = ''asc'' \<or> order = ''desc'')
   | _ \<Rightarrow> False)"

definition answers_queries :: "schema \<Rightarrow> ts_settings \<Rightarrow> bool" where
  "answers_queries sch s \<longleftrightarrow>
     tsb_SearchFields s \<noteq> [] \<and> list_all (has_text_field sch) (split_all CHR '','' (tsb_SearchFields s)) \<and>
     list_all (\<lambda>(_, n). has_field sch n) (tsb_TagFields s) \<and>
     (tsb_SearchSortBy s = [] \<or> list_all (sort_key_ok sch) (split_all CHR '','' (tsb_SearchSortBy s)))"

lemma concepts_ensured: "has_field (ensureConceptsField sch) ''concepts''"
  by (auto simp: has_field_def ensureConceptsField_def list_ex_iff plain_field_def)

lemmas field_defs = answers_queries_def settings_def has_field_def has_text_field_def mk_schema_def structuredEnvelopeFields_def fld_def

lemma searched_lists:
  "split_all CHR '','' ''title,summary,content'' = [''title'', ''summary'', ''content'']"
  "split_all CHR '','' ''title,summary,content,location'' = [''title'', ''summary'', ''content'', ''location'']"
  "split_all CHR '','' ''name,display_name,about,nip05'' = [''name'', ''display_name'', ''about'', ''nip05'']"
  "split_all CHR '','' ''eventID'' = [''eventID'']"
  "split_all CHR '','' ''name,searchText,content'' = [''name'', ''searchText'', ''content'']"
  "split_all CHR '','' ''title,summary,searchText,content'' = [''title'', ''summary'', ''searchText'', ''content'']"
  by code_simp+

lemma sort_lists:
  "split_all CHR '','' ''_text_match:desc,nip05_verified:desc,eventCreatedAt:desc'' =
    [''_text_match:desc'', ''nip05_verified:desc'', ''eventCreatedAt:desc'']"
  "split_n 2 CHR '':'' ''_text_match:desc'' = [''_text_match'', ''desc'']"
  "split_n 2 CHR '':'' ''nip05_verified:desc'' = [''nip05_verified'', ''desc'']"
  "split_n 2 CHR '':'' ''eventCreatedAt:desc'' = [''eventCreatedAt'', ''desc'']"
  by code_simp+

lemma structured_answer:
  "answers_queries (longformSchema name) (longform_collection getenv)"
  "answers_queries (wikiSchema name) (wiki_collection getenv)"
  "answers_queries (sharesSchema name) (shares_collection getenv)"
  "answers_queries (publicationsSchema name) (publications_collection getenv)"
  by (simp_all add: field_defs collection_defs searched_lists longformSchema_def wikiSchema_def sharesSchema_def sharesTagFields_def
    publicationsSchema_def Let_def)

lemma profiles_answer: "answers_queries (profileSchema name) (profiles_collection getenv)"
  by (simp add: field_defs collection_defs searched_lists sort_lists sort_key_ok_def profileSchema_def)

lemma faceted_answer:
  "answers_queries (calendarSchema name) (calendar_collection getenv)"
  "answers_queries (transferkioskSchema name) (transferkiosk_collection getenv)"
  by (simp_all add: field_defs collection_defs searched_lists calendarSchema_def calendarTagFields_def calendarConceptIDFacets_def
    transferkioskSchema_def transferkioskTagFields_def tkConceptIDFacets_def tkLabelFacets_def Let_def)

text \<open>The collection of the resources leaves the searched fields to its backend, and its schema is the library's or one the
  operator has stored. What the relay ensures is that it adds fields only: the concept tags are always declared, and
  every field the schema had is still there.\<close>

lemma ensured_fields_are_kept: "has_field sch n \<Longrightarrow> has_field (ensureConceptsField (ensureContentFields sch)) n"
  by (auto simp: has_field_def ensureConceptsField_def ensureContentFields_def list_ex_iff Let_def)

lemma amb_tags_declared: "list_all (\<lambda>(_, n). has_field (ensureConceptsField sch) n) (tsb_TagFields (amb_collection getenv))"
  by (simp add: amb_collection_def settings_def conceptTagFields_def list_all_iff concepts_ensured)

text \<open>C39. Every collection whose schema the relay defines can answer the queries its backend sends, whatever features are
  on: it names the fields to search, and these, the fields that stand for tags and the sort keys are declared by the
  schema it is created with, the searched ones as strings. The collection of the resources, whose schema and searched
  fields are not defined here, declares at least the fields that stand for tags, whatever schema has been stored.\<close>

theorem collections_answer_queries:
  "list_all (\<lambda>(c, s). answers_queries (coll_schema J defaultSchema m c (tsb_CollectionName s)) s)
     (List.filter (\<lambda>(c, s). c \<noteq> Amb) (boot_collections getenv F)) \<and>
   list_all (\<lambda>(_, n). has_field (coll_schema J defaultSchema m Amb name) n) (tsb_TagFields (amb_collection getenv))"
  by (simp add: boot_collections_def on_def structured_answer profiles_answer faceted_answer effectiveSchema_def amb_tags_declared)

text \<open>The settings of the two refresh loops let a zero interval through, which the ticker answers with a panic; the
  setting of the directories does not.\<close>

lemma zero_refresh_interval_panics:
  assumes "\<And>name. parse_duration (getenv name) = Some 0" and "\<And>name. getenv name \<noteq> []"
  shows "ticker_panics (profileRefresh parse_duration getenv)" "ticker_panics (communityRefresh parse_duration getenv)"
    and "\<not> ticker_panics (directory_interval parse_duration (getenv ''PROFILE_NIP05_DIRECTORY_INTERVAL''))"
  using assms by (simp_all add: ticker_panics_def profileRefresh_def communityRefresh_def refresh_interval_def directory_interval_def hour_def)

end
