(* ===== verification/Nip86.thy ===== *)
theory Nip86
  imports Complex_Main RelayPolicy Documents
begin

text \<open>
  The relay's own management methods (\<open>ManagementAPI.Generic\<close> of \<open>main.go\<close>): their parameters are decoded
  JSON values, every method is one definition, \<open>Generic\<close> dispatches on the method's name. A call acts on
  the database, the allowlist manager, the reindex status, the semantic search settings of the search
  backends and the world \<open>'w\<close>; the outcome of its database transactions is part of the environment.
\<close>

section \<open>Parameters, responses and state\<close>

text \<open>A decoded JSON value; a finite \<open>float64\<close> is a rational number.\<close>

datatype param =
    PStr string
  | PNum rat
  | PBool bool
  | PNull
  | PArr "param list"
  | PObj "(string \<times> param) list"

text \<open>The conversions \<open>int(k)\<close> and \<open>int64(f)\<close> truncate; Go leaves values out of range to the implementation.\<close>

definition trunc_float :: "rat \<Rightarrow> int" where
  "trunc_float r = (if r \<ge> 0 then \<lfloor>r\<rfloor> else \<lceil>r\<rceil>)"

datatype api_result =
    RTrue
  | RText string
  | RSchema schema
  | RStatus ReindexStatus
  | RSemantic semantic_config
  | RAccess bool bool "(pubkey \<times> string) list" "(pubkey \<times> string) list" "list_ref list"
  | RCount nat
  | RIds "string list"

text \<open>\<open>Failed\<close> is the Go error beside an empty response.\<close>

datatype response = Result api_result | ErrorMsg string | Failed error

record 'w api_state =
  ap_mgmt :: mgmt_db
  ap_acl :: acl
  ap_reindex :: ReindexStatus
  ap_embed :: "bool \<times> string list"
  ap_structured_embed :: bool
  ap_world :: 'w

record 'w api_env =
  ax_marshal :: "param \<Rightarrow> error + bytes"
  ax_pool :: pool_query
  ax_tx :: "error option"
  ax_refetch_tx :: "string \<Rightarrow> error option"
  ax_embedder :: bool
  ax_DefaultSchema :: schema
  ax_query :: "filter \<Rightarrow> int \<Rightarrow> 'w \<Rightarrow> event list"
  ax_publications :: "('w http \<times> ts_conn) option"
  ax_QueueContent :: "event \<Rightarrow> content_entry \<Rightarrow> 'w \<Rightarrow> 'w"

type_synonym 'w api_method = "param list \<Rightarrow> 'w api_state \<Rightarrow> response \<times> 'w api_state"

text \<open>A parameter re-read as a struct: marshalled and unmarshalled.\<close>

definition decode_param :: "'w api_env \<Rightarrow> (bytes \<Rightarrow> error option \<times> 'a) \<Rightarrow> string \<Rightarrow> param \<Rightarrow> error + 'a" where
  "decode_param X uj what p = (case ax_marshal X p of
     Inl e \<Rightarrow> Inl (''invalid '' @ what @ '': '' @ e)
   | Inr raw \<Rightarrow> (case uj raw of
       (Some e, _) \<Rightarrow> Inl (''invalid '' @ what @ '' JSON: '' @ e)
     | (None, v) \<Rightarrow> Inr v))"

definition str_param :: "param \<Rightarrow> string" where
  "str_param p = (case p of PStr s \<Rightarrow> s | _ \<Rightarrow> [])"

definition nth_str :: "param list \<Rightarrow> nat \<Rightarrow> string" where
  "nth_str ps n = (if length ps > n then str_param (ps ! n) else [])"

section \<open>Schema and reindexing\<close>

definition getcollectionschema :: "json_lib \<Rightarrow> 'w api_env \<Rightarrow> 'w api_method" where
  "getcollectionschema J X ps s = (case LoadSchema J (ap_mgmt s) of
     (_, Some e) \<Rightarrow> (Failed e, s)
   | (None, None) \<Rightarrow> (Result (RSchema (ax_DefaultSchema X)), s)
   | (Some sch, None) \<Rightarrow> (Result (RSchema sch), s))"

definition updatecollectionschema :: "json_lib \<Rightarrow> 'w api_env \<Rightarrow> 'w api_method" where
  "updatecollectionschema J X ps s = (case ps of
     [] \<Rightarrow> (ErrorMsg ''missing schema parameter'', s)
   | p # _ \<Rightarrow> (case decode_param X (uj_schema J) ''schema'' p of
       Inl e \<Rightarrow> (ErrorMsg e, s)
     | Inr sch \<Rightarrow> (case SaveSchema J (ax_tx X) sch (ap_mgmt s) of
         (Some e, m) \<Rightarrow> (Failed e, s\<lparr>ap_mgmt := m\<rparr>)
       | (None, m) \<Rightarrow> (Result RTrue, s\<lparr>ap_mgmt := m\<rparr>))))"

definition resetcollectionschema :: "'w api_env \<Rightarrow> 'w api_method" where
  "resetcollectionschema X ps s = (case DeleteSchema (ax_tx X) (ap_mgmt s) of
     (Some e, m) \<Rightarrow> (Failed e, s\<lparr>ap_mgmt := m\<rparr>)
   | (None, m) \<Rightarrow> (Result RTrue, s\<lparr>ap_mgmt := m\<rparr>))"

text \<open>The started run itself is \<open>reindex_run\<close>, in the background.\<close>

definition api_reindex :: "'w api_method" where
  "api_reindex ps s = (case reindex_Start (ap_reindex s) of
     (Some e, st) \<Rightarrow> (ErrorMsg e, s\<lparr>ap_reindex := st\<rparr>)
   | (None, st) \<Rightarrow> (Result (RText ''reindex started''), s\<lparr>ap_reindex := st\<rparr>))"

definition getreindexstatus :: "'w api_method" where
  "getreindexstatus ps s = (Result (RStatus (GetStatus (ap_reindex s))), s)"

section \<open>Semantic search\<close>

definition getsemanticsearchconfig :: "json_lib \<Rightarrow> 'w api_method" where
  "getsemanticsearchconfig J ps s = (case LoadSemanticConfig J (ap_mgmt s) of
     (_, Some e) \<Rightarrow> (Failed e, s)
   | (cfg, None) \<Rightarrow> (Result (RSemantic cfg), s))"

definition updatesemanticsearchconfig :: "json_lib \<Rightarrow> 'w api_env \<Rightarrow> 'w api_method" where
  "updatesemanticsearchconfig J X ps s = (case ps of
     [] \<Rightarrow> (ErrorMsg ''missing config parameter'', s)
   | p # _ \<Rightarrow> (case decode_param X (uj_semantic J) ''config'' p of
       Inl e \<Rightarrow> (ErrorMsg e, s)
     | Inr cfg \<Rightarrow> (case SaveSemanticConfig J (ax_tx X) cfg (ap_mgmt s) of
         (Some e, m) \<Rightarrow> (Failed e, s\<lparr>ap_mgmt := m\<rparr>)
       | (None, m) \<Rightarrow> (Result RTrue, s\<lparr>ap_mgmt := m,
           ap_embed := (if sc_enabled cfg \<and> ax_embedder X then (True, sc_embed_fields cfg) else (False, []))\<rparr>))))"

definition enablesemanticsearch :: "json_lib \<Rightarrow> 'w api_env \<Rightarrow> 'w api_method" where
  "enablesemanticsearch J X ps s =
     (if \<not> ax_embedder X then (ErrorMsg ''embedding service not configured (EMBED_ENDPOINT not set)'', s)
      else let cfg = (fst (LoadSemanticConfig J (ap_mgmt s)))\<lparr>sc_enabled := True\<rparr> in
        case SaveSemanticConfig J (ax_tx X) cfg (ap_mgmt s) of
          (Some e, m) \<Rightarrow> (Failed e, s\<lparr>ap_mgmt := m\<rparr>)
        | (None, m) \<Rightarrow> (Result RTrue, s\<lparr>ap_mgmt := m, ap_embed := (True, sc_embed_fields cfg)\<rparr>))"

definition disablesemanticsearch :: "json_lib \<Rightarrow> 'w api_env \<Rightarrow> 'w api_method" where
  "disablesemanticsearch J X ps s = (
     let cfg = (fst (LoadSemanticConfig J (ap_mgmt s)))\<lparr>sc_enabled := False\<rparr> in
     case SaveSemanticConfig J (ax_tx X) cfg (ap_mgmt s) of
       (Some e, m) \<Rightarrow> (Failed e, s\<lparr>ap_mgmt := m\<rparr>)
     | (None, m) \<Rightarrow> (Result RTrue, s\<lparr>ap_mgmt := m, ap_embed := (False, [])\<rparr>))"

text \<open>The settings at startup: the stored configuration, switched on by the environment if asked for.\<close>

definition startup_semantic :: "json_lib \<Rightarrow> 'w api_env \<Rightarrow> bool \<Rightarrow> 'w api_state \<Rightarrow> 'w api_state" where
  "startup_semantic J X env_enabled s = (
     let cfg0 = (case LoadSemanticConfig J (ap_mgmt s) of (_, Some _) \<Rightarrow> DefaultSemanticConfig | (c, None) \<Rightarrow> c);
         forced = (env_enabled \<and> ax_embedder X \<and> \<not> sc_enabled cfg0);
         cfg = (if forced then cfg0\<lparr>sc_enabled := True\<rparr> else cfg0);
         m = (if forced then snd (SaveSemanticConfig J (ax_tx X) cfg (ap_mgmt s)) else ap_mgmt s);
         on = (sc_enabled cfg \<and> ax_embedder X)
     in s\<lparr>ap_mgmt := m, ap_embed := (if on then (True, sc_embed_fields cfg) else (False, [])), ap_structured_embed := on\<rparr>)"

section \<open>Access control\<close>

text \<open>Runs an operation of the allowlist manager.\<close>

definition on_acl :: "(acl_state \<Rightarrow> error option \<times> acl_state) \<Rightarrow> 'w api_state \<Rightarrow> response \<times> 'w api_state" where
  "on_acl f s = (case f (ap_mgmt s, ap_acl s) of
     (Some e, (m, a)) \<Rightarrow> (Failed e, s\<lparr>ap_mgmt := m, ap_acl := a\<rparr>)
   | (None, (m, a)) \<Rightarrow> (Result RTrue, s\<lparr>ap_mgmt := m, ap_acl := a\<rparr>))"

definition getaccesscontrol :: "lib \<Rightarrow> json_lib \<Rightarrow> 'w api_method" where
  "getaccesscontrol L J ps s = (Result (RAccess (IsWriteRestricted (ap_acl s)) (IsReadRestricted (ap_acl s))
     (Store_ListWriteAllowPubkeys L J (ap_mgmt s)) (Store_ListReadAllowPubkeys L J (ap_mgmt s))
     (map snd (Allowlist_LoadListReferences (ap_acl s)))), s)"

definition setaccesscontrol :: "json_lib \<Rightarrow> 'w api_env \<Rightarrow> 'w api_method" where
  "setaccesscontrol J X ps s = (case ps of
     [] \<Rightarrow> (ErrorMsg ''missing config parameter'', s)
   | p # _ \<Rightarrow> (case decode_param X (uj_access J) ''config'' p of
       Inl e \<Rightarrow> (ErrorMsg e, s)
     | Inr cfg \<Rightarrow> on_acl (SetAccessControl J (ax_tx X) cfg) s))"

definition pubkey_method :: "(string \<Rightarrow> string \<Rightarrow> acl_state \<Rightarrow> error option \<times> acl_state) \<Rightarrow> 'w api_method" where
  "pubkey_method f ps s = (case ps of
     [] \<Rightarrow> (ErrorMsg ''missing pubkey parameter'', s)
   | p # _ \<Rightarrow> if str_param p = [] then (ErrorMsg ''invalid pubkey'', s)
       else on_acl (f (str_param p) (nth_str ps 1)) s)"

definition addtowriteallowlist :: "lib \<Rightarrow> json_lib \<Rightarrow> 'w api_env \<Rightarrow> 'w api_method" where
  "addtowriteallowlist L J X = pubkey_method (\<lambda>pk reason. AddWriteAllowPubkey L J (ax_tx X) pk reason)"
definition removefromwriteallowlist :: "lib \<Rightarrow> json_lib \<Rightarrow> 'w api_env \<Rightarrow> 'w api_method" where
  "removefromwriteallowlist L J X = pubkey_method (\<lambda>pk _. RemoveWriteAllowPubkey L J (ax_tx X) pk)"
definition addtoreadallowlist :: "lib \<Rightarrow> json_lib \<Rightarrow> 'w api_env \<Rightarrow> 'w api_method" where
  "addtoreadallowlist L J X = pubkey_method (\<lambda>pk reason. AddReadAllowPubkey L J (ax_tx X) pk reason)"
definition removefromreadallowlist :: "lib \<Rightarrow> json_lib \<Rightarrow> 'w api_env \<Rightarrow> 'w api_method" where
  "removefromreadallowlist L J X = pubkey_method (\<lambda>pk _. RemoveReadAllowPubkey L J (ax_tx X) pk)"

definition addlistreference :: "lib \<Rightarrow> json_lib \<Rightarrow> 'w api_env \<Rightarrow> 'w api_method" where
  "addlistreference L J X ps s = (case ps of
     [] \<Rightarrow> (ErrorMsg ''missing list reference parameter'', s)
   | p # _ \<Rightarrow> (case decode_param X (uj_list_ref J) ''list reference'' p of
       Inl e \<Rightarrow> (ErrorMsg e, s)
     | Inr ref \<Rightarrow>
         if lr_pubkey ref = [] \<or> length (lr_relays ref) = 0 \<or> lr_kind ref \<noteq> 3 \<and> lr_kind ref \<noteq> 30000
         then (ErrorMsg ''list reference requires pubkey, relays, and kind (3 or 30000)'', s)
         else let ref' = (if lr_direction ref = [] then ref\<lparr>lr_direction := ''both''\<rparr> else ref)
           in on_acl (AddListReference L J (ax_pool X) (ax_tx X) ref') s))"

definition list_kind :: "param list \<Rightarrow> int" where
  "list_kind ps = (if length ps > 1 then (case ps ! 1 of PNum k \<Rightarrow> trunc_float k | _ \<Rightarrow> 3) else 3)"

definition removelistreference :: "lib \<Rightarrow> json_lib \<Rightarrow> 'w api_env \<Rightarrow> 'w api_method" where
  "removelistreference L J X ps s = (case ps of
     [] \<Rightarrow> (ErrorMsg ''missing pubkey parameter'', s)
   | p # _ \<Rightarrow> if str_param p = [] then (ErrorMsg ''invalid pubkey'', s)
       else on_acl (RemoveListReference L J (ax_tx X) (str_param p) (list_kind ps) (nth_str ps 2)) s)"

definition refreshlistreferences :: "lib \<Rightarrow> json_lib \<Rightarrow> 'w api_env \<Rightarrow> 'w api_method" where
  "refreshlistreferences L J X ps s = (case RefreshAllLists L J (ax_pool X) (ap_mgmt s) (ap_acl s) of
     (n, a) \<Rightarrow> (Result (RCount n), s\<lparr>ap_acl := a\<rparr>))"

section \<open>Fetched content\<close>

definition stored_event :: "'w api_env \<Rightarrow> event_id \<Rightarrow> 'w \<Rightarrow> event option" where
  "stored_event X i w = fold (\<lambda>e _. Some e) (ax_query X (empty_filter\<lparr>f_ids := [i], f_limit := 1\<rparr>) 1 w) None"

text \<open>The checked parameters of \<open>setcontent\<close>: the id and the row to store.\<close>

definition content_params :: "param list \<Rightarrow> error + (string \<times> content_entry)" where
  "content_params ps = (
     if length ps < 4 then Inl ''setcontent requires [event_id, text, fetched_at, status, (source_url)]''
     else case ps ! 0 of
       PStr eid \<Rightarrow>
         if eid = [] then Inl ''event_id must be a non-empty string''
         else (case ps ! 1 of
           PStr body \<Rightarrow> (case ps ! 2 of
             PNum fetched \<Rightarrow> (case ps ! 3 of
               PStr status \<Rightarrow>
                 if status = [] then Inl ''status must be a non-empty string''
                 else let entry = (\<lambda>url. \<lparr>ce_text = body, ce_fetched_at = word_of_int (trunc_float fetched), ce_status = status,
                        ce_source_url = url, ce_content_hash = []\<rparr>) in
                   if length ps > 4 \<and> ps ! 4 \<noteq> PNull then
                     (case ps ! 4 of PStr url \<Rightarrow> Inr (eid, entry url) | _ \<Rightarrow> Inl ''source_url must be a string or null'')
                   else Inr (eid, entry [])
             | _ \<Rightarrow> Inl ''status must be a non-empty string'')
           | _ \<Rightarrow> Inl ''fetched_at must be a number (unix seconds)'')
         | _ \<Rightarrow> Inl ''text must be a string'')
     | _ \<Rightarrow> Inl ''event_id must be a non-empty string'')"

definition setcontent :: "lib \<Rightarrow> json_lib \<Rightarrow> 'w api_env \<Rightarrow> 'w api_method" where
  "setcontent L J X ps s = (case content_params ps of
     Inl e \<Rightarrow> (ErrorMsg e, s)
   | Inr (eid, entry) \<Rightarrow> (case id_from_hex L eid of
       Inl e \<Rightarrow> (ErrorMsg (''invalid event id: '' @ e), s)
     | Inr i \<Rightarrow> (case stored_event X i (ap_world s) of
         None \<Rightarrow> (ErrorMsg ''event not found'', s)
       | Some ev \<Rightarrow>
           if ev_kind ev = 30040 then
             (case ax_publications X of
               None \<Rightarrow> (ErrorMsg ''publications not enabled'', s)
             | Some (http, conn) \<Rightarrow> (case setPublicationContent L J http conn (ax_tx X) ev entry (ap_mgmt s, ap_world s) of
                 (Some e, (m, w)) \<Rightarrow> (ErrorMsg (''set publication content: '' @ e), s\<lparr>ap_mgmt := m, ap_world := w\<rparr>)
               | (None, (m, w)) \<Rightarrow> (Result RTrue, s\<lparr>ap_mgmt := m, ap_world := w\<rparr>)))
           else (case ContentStore_Put J (ax_tx X) eid entry (ap_mgmt s) of
             (Some e, m) \<Rightarrow> (ErrorMsg (''content store put: '' @ e), s\<lparr>ap_mgmt := m\<rparr>)
           | (None, m) \<Rightarrow> (Result RTrue, s\<lparr>ap_mgmt := m, ap_world := ax_QueueContent X ev entry (ap_world s)\<rparr>)))))"

text \<open>The mark for the indexer is best effort.\<close>

definition mark_refetch :: "'w api_env \<Rightarrow> string \<Rightarrow> 'w api_state \<Rightarrow> 'w api_state" where
  "mark_refetch X eid s = s\<lparr>ap_mgmt := snd (MarkNeedsRefetch (ax_refetch_tx X eid) eid (ap_mgmt s))\<rparr>"

definition refetchcontent :: "lib \<Rightarrow> 'w api_env \<Rightarrow> 'w api_method" where
  "refetchcontent L X ps s = (case ps of
     [] \<Rightarrow> (ErrorMsg ''refetchcontent requires [event_id]'', s)
   | p # _ \<Rightarrow>
       if str_param p = [] then (ErrorMsg ''event_id must be a non-empty string'', s)
       else let eid = str_param p in (case id_from_hex L eid of
         Inl e \<Rightarrow> (ErrorMsg (''invalid event id: '' @ e), s)
       | Inr i \<Rightarrow> (case stored_event X i (ap_world s) of
           None \<Rightarrow> (ErrorMsg ''event not found'', s)
         | Some ev \<Rightarrow>
             if ev_kind ev = 30040 then
               (case ax_publications X of
                 None \<Rightarrow> (ErrorMsg ''publications not enabled'', s)
               | Some (http, conn) \<Rightarrow> (case clearPublicationContent L http conn (ax_tx X) ev (ap_mgmt s, ap_world s) of
                   (Some e, (m, w)) \<Rightarrow> (ErrorMsg (''clear publication content: '' @ e), s\<lparr>ap_mgmt := m, ap_world := w\<rparr>)
                 | (None, (m, w)) \<Rightarrow> (Result RTrue, mark_refetch X eid (s\<lparr>ap_mgmt := m, ap_world := w\<rparr>))))
             else (case ContentStore_Delete (ax_tx X) eid (ap_mgmt s) of
               (Some e, m) \<Rightarrow> (ErrorMsg (''content store delete: '' @ e), s\<lparr>ap_mgmt := m\<rparr>)
             | (None, m) \<Rightarrow> (Result RTrue, mark_refetch X eid (s\<lparr>ap_mgmt := m,
                 ap_world := ax_QueueContent X ev empty_entry (ap_world s)\<rparr>))))))"

definition listrefetch :: "'w api_method" where
  "listrefetch ps s = (Result (RIds (ListNeedsRefetch (ap_mgmt s))), s)"

fun acknowledge_loop :: "'w api_env \<Rightarrow> param list \<Rightarrow> nat \<Rightarrow> mgmt_db \<Rightarrow> response \<times> mgmt_db" where
  "acknowledge_loop X [] acked m = (Result (RCount acked), m)"
| "acknowledge_loop X (raw # raws) acked m =
     (if str_param raw = [] then (ErrorMsg ''event_ids must contain non-empty strings'', m)
      else case RemoveNeedsRefetch (ax_refetch_tx X (str_param raw)) (str_param raw) m of
        (Some e, m') \<Rightarrow> (ErrorMsg (''remove needs_refetch '' @ str_param raw @ '': '' @ e), m')
      | (None, m') \<Rightarrow> acknowledge_loop X raws (Suc acked) m')"

definition acknowledgerefetch :: "'w api_env \<Rightarrow> 'w api_method" where
  "acknowledgerefetch X ps s = (case ps of
     [] \<Rightarrow> (ErrorMsg ''acknowledgerefetch requires [event_ids]'', s)
   | PArr raws # _ \<Rightarrow> (case acknowledge_loop X raws 0 (ap_mgmt s) of (r, m) \<Rightarrow> (r, s\<lparr>ap_mgmt := m\<rparr>))
   | _ # _ \<Rightarrow> (ErrorMsg ''event_ids must be an array of strings'', s))"

section \<open>Dispatch\<close>

definition methods :: "lib \<Rightarrow> json_lib \<Rightarrow> 'w api_env \<Rightarrow> (string \<times> 'w api_method) list" where
  "methods L J X = [
     (''getcollectionschema'', getcollectionschema J X), (''updatecollectionschema'', updatecollectionschema J X),
     (''resetcollectionschema'', resetcollectionschema X), (''reindex'', api_reindex), (''getreindexstatus'', getreindexstatus),
     (''getsemanticsearchconfig'', getsemanticsearchconfig J), (''updatesemanticsearchconfig'', updatesemanticsearchconfig J X),
     (''enablesemanticsearch'', enablesemanticsearch J X), (''disablesemanticsearch'', disablesemanticsearch J X),
     (''getaccesscontrol'', getaccesscontrol L J), (''setaccesscontrol'', setaccesscontrol J X),
     (''addtowriteallowlist'', addtowriteallowlist L J X), (''removefromwriteallowlist'', removefromwriteallowlist L J X),
     (''addtoreadallowlist'', addtoreadallowlist L J X), (''removefromreadallowlist'', removefromreadallowlist L J X),
     (''addlistreference'', addlistreference L J X), (''removelistreference'', removelistreference L J X),
     (''refreshlistreferences'', refreshlistreferences L J X), (''setcontent'', setcontent L J X),
     (''refetchcontent'', refetchcontent L X), (''listrefetch'', listrefetch), (''acknowledgerefetch'', acknowledgerefetch X)]"

definition Generic :: "lib \<Rightarrow> json_lib \<Rightarrow> 'w api_env \<Rightarrow> string \<Rightarrow> 'w api_method" where
  "Generic L J X method ps s = (case map_of (methods L J X) method of
     None \<Rightarrow> (ErrorMsg (''unknown method '' @ [CHR 0x27] @ method @ [CHR 0x27]), s)
   | Some f \<Rightarrow> f ps s)"

section \<open>Parameter types\<close>

definition method_names :: "string list" where
  "method_names = [''getcollectionschema'', ''updatecollectionschema'', ''resetcollectionschema'', ''reindex'',
     ''getreindexstatus'', ''getsemanticsearchconfig'', ''updatesemanticsearchconfig'', ''enablesemanticsearch'',
     ''disablesemanticsearch'', ''getaccesscontrol'', ''setaccesscontrol'', ''addtowriteallowlist'',
     ''removefromwriteallowlist'', ''addtoreadallowlist'', ''removefromreadallowlist'', ''addlistreference'',
     ''removelistreference'', ''refreshlistreferences'', ''setcontent'', ''refetchcontent'', ''listrefetch'',
     ''acknowledgerefetch'']"

text \<open>Methods with a struct as first parameter, and methods with a name as first parameter.\<close>

definition struct_methods :: "string list" where
  "struct_methods = [''updatecollectionschema'', ''updatesemanticsearchconfig'', ''setaccesscontrol'', ''addlistreference'']"

definition name_methods :: "string list" where
  "name_methods = [''addtowriteallowlist'', ''removefromwriteallowlist'', ''addtoreadallowlist'',
     ''removefromreadallowlist'', ''removelistreference'', ''refetchcontent'']"

text \<open>What a method asks of its parameters before it acts.\<close>

definition well_typed :: "json_lib \<Rightarrow> 'w api_env \<Rightarrow> string \<Rightarrow> param list \<Rightarrow> bool" where
  "well_typed J X method ps = (
     let struct = (\<lambda>ok. case ps of [] \<Rightarrow> False | p # _ \<Rightarrow> (case ax_marshal X p of Inl _ \<Rightarrow> False | Inr raw \<Rightarrow> ok raw));
         name = (case ps of [] \<Rightarrow> False | p # _ \<Rightarrow> str_param p \<noteq> [])
     in if method = ''updatecollectionschema'' then struct (\<lambda>raw. fst (uj_schema J raw) = None)
        else if method = ''updatesemanticsearchconfig'' then struct (\<lambda>raw. fst (uj_semantic J raw) = None)
        else if method = ''setaccesscontrol'' then struct (\<lambda>raw. fst (uj_access J raw) = None)
        else if method = ''addlistreference'' then
          struct (\<lambda>raw. case uj_list_ref J raw of (err, ref) \<Rightarrow> err = None \<and> lr_pubkey ref \<noteq> [] \<and> lr_relays ref \<noteq> [] \<and>
            lr_kind ref \<in> {3, 30000})
        else if method \<in> set name_methods then name
        else if method = ''setcontent'' then
          (case ps of PStr eid # PStr body # PNum fetched # PStr status # rest \<Rightarrow> eid \<noteq> [] \<and> status \<noteq> [] \<and>
             (case rest of [] \<Rightarrow> True | PNull # _ \<Rightarrow> True | PStr _ # _ \<Rightarrow> True | _ \<Rightarrow> False)
           | _ \<Rightarrow> False)
        else if method = ''acknowledgerefetch'' then
          (case ps of PArr raws # _ \<Rightarrow> list_all (\<lambda>r. str_param r \<noteq> []) raws | _ \<Rightarrow> False)
        else method \<in> set method_names)"


lemma Generic_calls:
  "Generic L J X ''getcollectionschema'' = getcollectionschema J X"
  "Generic L J X ''updatecollectionschema'' = updatecollectionschema J X"
  "Generic L J X ''resetcollectionschema'' = resetcollectionschema X"
  "Generic L J X ''reindex'' = api_reindex"
  "Generic L J X ''getreindexstatus'' = getreindexstatus"
  "Generic L J X ''getsemanticsearchconfig'' = getsemanticsearchconfig J"
  "Generic L J X ''updatesemanticsearchconfig'' = updatesemanticsearchconfig J X"
  "Generic L J X ''enablesemanticsearch'' = enablesemanticsearch J X"
  "Generic L J X ''disablesemanticsearch'' = disablesemanticsearch J X"
  "Generic L J X ''getaccesscontrol'' = getaccesscontrol L J"
  "Generic L J X ''setaccesscontrol'' = setaccesscontrol J X"
  "Generic L J X ''addtowriteallowlist'' = addtowriteallowlist L J X"
  "Generic L J X ''removefromwriteallowlist'' = removefromwriteallowlist L J X"
  "Generic L J X ''addtoreadallowlist'' = addtoreadallowlist L J X"
  "Generic L J X ''removefromreadallowlist'' = removefromreadallowlist L J X"
  "Generic L J X ''addlistreference'' = addlistreference L J X"
  "Generic L J X ''removelistreference'' = removelistreference L J X"
  "Generic L J X ''refreshlistreferences'' = refreshlistreferences L J X"
  "Generic L J X ''setcontent'' = setcontent L J X"
  "Generic L J X ''refetchcontent'' = refetchcontent L X"
  "Generic L J X ''listrefetch'' = listrefetch"
  "Generic L J X ''acknowledgerefetch'' = acknowledgerefetch X"
  by (simp_all add: fun_eq_iff Generic_def methods_def)

lemma set_method_names: "set (map fst (methods L J X)) = set method_names"
  by (simp add: methods_def method_names_def)

lemma Generic_unknown: "method \<notin> set method_names \<Longrightarrow>
    Generic L J X method ps s = (ErrorMsg (''unknown method '' @ [CHR 0x27] @ method @ [CHR 0x27]), s)"
  using set_method_names [of L J X] by (auto simp: Generic_def map_of_eq_None_iff [symmetric] split: option.split)

text \<open>The names \<open>acknowledgerefetch\<close> meets before an element that is none, and what it is to remove their marks.\<close>

definition leading_names :: "string \<Rightarrow> param list \<Rightarrow> param list" where
  "leading_names method ps = (if method \<noteq> ''acknowledgerefetch'' then []
     else case ps of PArr raws # _ \<Rightarrow> takeWhile (\<lambda>r. str_param r \<noteq> []) raws | _ \<Rightarrow> [])"

definition unmark :: "param list \<Rightarrow> mgmt_db \<Rightarrow> mgmt_db" where
  "unmark = fold (\<lambda>p m. snd (RemoveNeedsRefetch None (str_param p) m))"

text \<open>A request is refused: an error message and no change, except that the marks of some first names are removed.\<close>

definition refused :: "param list \<Rightarrow> response \<times> 'w api_state \<Rightarrow> 'w api_state \<Rightarrow> bool" where
  "refused acks r s \<longleftrightarrow> (case r of
     (ErrorMsg _, s') \<Rightarrow> \<exists>n. s' = s\<lparr>ap_mgmt := unmark (take n acks) (ap_mgmt s)\<rparr>
   | _ \<Rightarrow> False)"

lemma refused_same [simp]: "refused acks (ErrorMsg e, s) s"
  unfolding refused_def prod.case response.case by (rule exI [of _ 0]) (simp add: unmark_def)

lemma refuse_struct:
  assumes "case ps of [] \<Rightarrow> True | p # _ \<Rightarrow> (case ax_marshal X p of Inl _ \<Rightarrow> True | Inr raw \<Rightarrow> fst (uj raw) \<noteq> None)"
  shows "ps = [] \<or> (\<exists>p rest e. ps = p # rest \<and> decode_param X uj what p = Inl e)"
  using assms by (auto simp: decode_param_def split: list.splits sum.splits prod.splits option.splits)

lemma RemoveNeedsRefetch_frame: "\<exists>b. snd (RemoveNeedsRefetch t k m) = m\<lparr>b_needs_refetch := b\<rparr>"
proof (cases t)
  case (Some e)
  then have "snd (RemoveNeedsRefetch t k m) = m\<lparr>b_needs_refetch := b_needs_refetch m\<rparr>"
    by (simp add: RemoveNeedsRefetch_def)
  then show ?thesis ..
qed (auto simp: RemoveNeedsRefetch_def)

lemma acknowledge_loop_frame: "\<exists>b. snd (acknowledge_loop X raws n m) = m\<lparr>b_needs_refetch := b\<rparr>"
proof (induction raws arbitrary: n m)
  case Nil
  have "snd (acknowledge_loop X [] n m) = m\<lparr>b_needs_refetch := b_needs_refetch m\<rparr>" by simp
  then show ?case ..
next
  case (Cons raw raws)
  obtain r m' where rm: "RemoveNeedsRefetch (ax_refetch_tx X (str_param raw)) (str_param raw) m = (r, m')" by fastforce
  then obtain b where m': "m' = m\<lparr>b_needs_refetch := b\<rparr>" by (metis RemoveNeedsRefetch_frame snd_conv)
  have same: "\<exists>b. m = m\<lparr>b_needs_refetch := b\<rparr>" by (rule exI [of _ "b_needs_refetch m"]) simp
  from Cons [of "Suc n" m'] obtain b' where "snd (acknowledge_loop X raws (Suc n) m') = m\<lparr>b_needs_refetch := b'\<rparr>"
    by (auto simp: m')
  then show ?case using rm m' same by (auto split: option.split)
qed

lemma acknowledge_loop_unmarks:
  "\<exists>k. snd (acknowledge_loop X raws n m) = unmark (take k (takeWhile (\<lambda>r. str_param r \<noteq> []) raws)) m"
proof (induction raws arbitrary: n m)
  case (Cons raw raws)
  have stop: "\<exists>k. m = unmark (take k xs) m" for xs by (rule exI [of _ 0]) (simp add: unmark_def)
  show ?case
  proof (cases "str_param raw = [] \<or> ax_refetch_tx X (str_param raw) \<noteq> None")
    case True
    then show ?thesis using stop by (auto simp: RemoveNeedsRefetch_def unmark_def)
  next
    case False
    from Cons obtain k where "snd (acknowledge_loop X raws (Suc n) (snd (RemoveNeedsRefetch None (str_param raw) m))) =
        unmark (take k (takeWhile (\<lambda>r. str_param r \<noteq> []) raws)) (snd (RemoveNeedsRefetch None (str_param raw) m))" by blast
    with False show ?thesis by (intro exI [of _ "Suc k"]) (simp add: unmark_def RemoveNeedsRefetch_def)
  qed
qed (simp add: unmark_def)

lemma acknowledge_loop_invalid:
  assumes "\<not> list_all (\<lambda>r. str_param r \<noteq> []) raws"
  shows "\<exists>e. fst (acknowledge_loop X raws n m) = ErrorMsg e"
  using assms by (induction raws arbitrary: n m) (auto split: prod.split option.split)

lemma refused_acknowledge:
  assumes "\<not> list_all (\<lambda>r. str_param r \<noteq> []) raws"
  shows "refused (takeWhile (\<lambda>r. str_param r \<noteq> []) raws) (acknowledgerefetch X (PArr raws # ps) s) s"
proof -
  from acknowledge_loop_invalid [OF assms] obtain e where "fst (acknowledge_loop X raws 0 (ap_mgmt s)) = ErrorMsg e" by blast
  then show ?thesis using acknowledge_loop_unmarks [of X raws 0 "ap_mgmt s"]
    by (auto simp: acknowledgerefetch_def refused_def split: prod.splits)
qed

lemma refused_content_params:
  assumes "\<not> (case ps of PStr eid # PStr body # PNum fetched # PStr status # rest \<Rightarrow> eid \<noteq> [] \<and> status \<noteq> [] \<and>
             (case rest of [] \<Rightarrow> True | PNull # _ \<Rightarrow> True | PStr _ # _ \<Rightarrow> True | _ \<Rightarrow> False)
           | _ \<Rightarrow> False)"
  shows "\<exists>e. content_params ps = Inl e"
proof (cases "length ps < 4")
  case False
  then obtain p q r t rest where ps: "ps = p # q # r # t # rest"
    by (auto simp: not_less numeral_eq_Suc Suc_le_length_iff)
  then show ?thesis using assms
    by (auto simp: content_params_def numeral_eq_Suc split: param.splits list.splits)
qed (simp add: content_params_def)


lemma well_typed_otherwise:
  assumes "method \<notin> set struct_methods" and "method \<notin> set name_methods"
    and "method \<noteq> ''setcontent''" and "method \<noteq> ''acknowledgerefetch''"
  shows "well_typed J X method ps \<longleftrightarrow> method \<in> set method_names"
proof -
  have "method \<noteq> n" if "n \<in> set struct_methods" for n using assms(1) that by blast
  then show ?thesis using assms(2-4) by (simp add: well_typed_def Let_def struct_methods_def)
qed

lemma refused_structs:
  assumes "\<not> well_typed J X method ps"
    and "method \<in> set struct_methods"
  shows "refused (leading_names method ps) (Generic L J X method ps s) s"
  using assms(2) unfolding struct_methods_def list.set
proof (elim insertE emptyE)
  assume m: "method = ''updatecollectionschema''"
  show ?thesis using assms(1)
    by (cases ps) (auto simp: m Generic_calls well_typed_def updatecollectionschema_def decode_param_def
        split: sum.splits prod.splits option.splits)
next
  assume m: "method = ''updatesemanticsearchconfig''"
  show ?thesis using assms(1)
    by (cases ps) (auto simp: m Generic_calls well_typed_def updatesemanticsearchconfig_def decode_param_def
        split: sum.splits prod.splits option.splits)
next
  assume m: "method = ''setaccesscontrol''"
  show ?thesis using assms(1)
    by (cases ps) (auto simp: m Generic_calls well_typed_def setaccesscontrol_def decode_param_def
        split: sum.splits prod.splits option.splits)
next
  assume m: "method = ''addlistreference''"
  show ?thesis using assms(1)
    by (cases ps) (auto simp: m Generic_calls well_typed_def addlistreference_def decode_param_def
        split: sum.splits prod.splits option.splits)
qed

lemma refused_names:
  assumes "\<not> well_typed J X method ps" and m: "method \<in> set name_methods"
  shows "refused (leading_names method ps) (Generic L J X method ps s) s"
proof -
  have "method \<notin> set struct_methods" using m by (auto simp: name_methods_def struct_methods_def)
  then have "\<not> (case ps of [] \<Rightarrow> False | p # _ \<Rightarrow> str_param p \<noteq> [])"
    using assms by (simp add: well_typed_def Let_def struct_methods_def)
  then have "ps = [] \<or> (\<exists>p rest. ps = p # rest \<and> str_param p = [])" by (auto split: list.splits)
  then show ?thesis using m unfolding name_methods_def list.set
    by (elim insertE emptyE) (auto simp: Generic_calls addtowriteallowlist_def removefromwriteallowlist_def addtoreadallowlist_def
        removefromreadallowlist_def removelistreference_def refetchcontent_def pubkey_method_def)
qed

lemma refused_ill_typed:
  assumes "\<not> well_typed J X method ps"
  shows "refused (leading_names method ps) (Generic L J X method ps s) s"
proof -
  consider "method \<in> set struct_methods" | "method \<in> set name_methods" | "method = ''setcontent''"
    | "method = ''acknowledgerefetch''" | "method \<notin> set method_names"
    using well_typed_otherwise assms by blast
  then show ?thesis
  proof cases
    case 1
    with assms show ?thesis by (rule refused_structs)
  next
    case 2
    with assms show ?thesis by (rule refused_names)
  next
    case 3
    then have "\<exists>e. content_params ps = Inl e" using assms by (intro refused_content_params) (simp add: well_typed_def name_methods_def)
    with 3 show ?thesis by (auto simp: Generic_calls setcontent_def)
  next
    case 4
    then have ps: "\<not> (case ps of PArr raws # _ \<Rightarrow> list_all (\<lambda>r. str_param r \<noteq> []) raws | _ \<Rightarrow> False)"
      using assms by (simp add: well_typed_def name_methods_def)
    show ?thesis
    proof (cases "\<exists>raws rest. ps = PArr raws # rest")
      case True
      with ps 4 show ?thesis by (auto simp: Generic_calls leading_names_def intro: refused_acknowledge)
    next
      case False
      with 4 show ?thesis by (auto simp: Generic_calls acknowledgerefetch_def split: list.splits param.splits)
    qed
  next
    case 5
    then show ?thesis by (simp add: Generic_unknown)
  qed
qed

section \<open>The semantic search settings\<close>

text \<open>What a method leaves alone: the stored configuration and the settings of the search backends.\<close>

definition api_frame :: "response \<times> 'w api_state \<Rightarrow> 'w api_state \<Rightarrow> bool" where
  "api_frame r s \<longleftrightarrow> b_semantic (ap_mgmt (snd r)) = b_semantic (ap_mgmt s) \<and> ap_embed (snd r) = ap_embed s \<and>
     ap_structured_embed (snd r) = ap_structured_embed s"

lemma api_frame_same [simp]: "api_frame (r, s) s"
  by (simp add: api_frame_def)

lemma db_update_semantic:
  "(\<And>m. b_semantic (f m) = b_semantic m) \<Longrightarrow> b_semantic (snd (db_update tx f m)) = b_semantic m"
  by (cases tx) simp_all

lemmas keeps_semantic = SaveSchema_def DeleteSchema_def ContentStore_Put_def ContentStore_Delete_def MarkNeedsRefetch_def
  SaveAccessControlConfig_def Store_AddWriteAllowPubkey_def Store_RemoveWriteAllowPubkey_def Store_AddReadAllowPubkey_def
  Store_RemoveReadAllowPubkey_def SaveListReference_def DeleteListReference_def

lemma keeps_semantic_simps [simp]:
  "b_semantic (snd (SaveSchema J tx sch m)) = b_semantic m"
  "b_semantic (snd (DeleteSchema tx m)) = b_semantic m"
  "b_semantic (snd (ContentStore_Put J tx k e m)) = b_semantic m"
  "b_semantic (snd (ContentStore_Delete tx k m)) = b_semantic m"
  "b_semantic (snd (MarkNeedsRefetch tx k m)) = b_semantic m"
  by (cases tx; simp add: keeps_semantic)+

lemma semantic_kept:
  "SaveSchema J tx sch m = (r, m') \<Longrightarrow> b_semantic m' = b_semantic m"
  "DeleteSchema tx m = (r, m') \<Longrightarrow> b_semantic m' = b_semantic m"
  "ContentStore_Put J tx k e m = (r, m') \<Longrightarrow> b_semantic m' = b_semantic m"
  "ContentStore_Delete tx k m = (r, m') \<Longrightarrow> b_semantic m' = b_semantic m"
  using keeps_semantic_simps by (metis snd_conv)+

lemma acl_ops_keep_semantic [simp]:
  "b_semantic (fst (snd (SetAccessControl J tx cfg (m, a)))) = b_semantic m"
  "b_semantic (fst (snd (AddWriteAllowPubkey L J tx pk reason (m, a)))) = b_semantic m"
  "b_semantic (fst (snd (RemoveWriteAllowPubkey L J tx pk (m, a)))) = b_semantic m"
  "b_semantic (fst (snd (AddReadAllowPubkey L J tx pk reason (m, a)))) = b_semantic m"
  "b_semantic (fst (snd (RemoveReadAllowPubkey L J tx pk (m, a)))) = b_semantic m"
  "b_semantic (fst (snd (AddListReference L J pool tx ref (m, a)))) = b_semantic m"
  "b_semantic (fst (snd (RemoveListReference L J tx pk knd d (m, a)))) = b_semantic m"
  by (cases tx; simp add: acl_op_defs keeps_semantic Let_def split: prod.split)+

lemma on_acl_frame:
  "(\<And>m a. b_semantic (fst (snd (f (m, a)))) = b_semantic m) \<Longrightarrow> api_frame (on_acl f s) s"
  by (auto simp: api_frame_def on_acl_def split: prod.splits option.splits) (metis fst_conv snd_conv)+

definition semantic_methods :: "string list" where
  "semantic_methods = [''updatesemanticsearchconfig'', ''enablesemanticsearch'', ''disablesemanticsearch'']"

lemma schema_methods_frame:
  "api_frame (getcollectionschema J X ps s) s" "api_frame (updatecollectionschema J X ps s) s"
  "api_frame (resetcollectionschema X ps s) s"
  by (auto simp: api_frame_def getcollectionschema_def updatecollectionschema_def resetcollectionschema_def
      split: prod.split option.split sum.split list.split dest: semantic_kept)

lemma other_methods_frame:
  "api_frame (api_reindex ps s) s" "api_frame (getreindexstatus ps s) s" "api_frame (getsemanticsearchconfig J ps s) s"
  "api_frame (getaccesscontrol L J ps s) s" "api_frame (refreshlistreferences L J X ps s) s" "api_frame (listrefetch ps s) s"
  by (auto simp: api_frame_def api_reindex_def getreindexstatus_def getsemanticsearchconfig_def getaccesscontrol_def
      refreshlistreferences_def listrefetch_def split: prod.split option.split)

lemma acl_methods_frame:
  "api_frame (setaccesscontrol J X ps s) s" "api_frame (addtowriteallowlist L J X ps s) s"
  "api_frame (removefromwriteallowlist L J X ps s) s" "api_frame (addtoreadallowlist L J X ps s) s"
  "api_frame (removefromreadallowlist L J X ps s) s" "api_frame (addlistreference L J X ps s) s"
  "api_frame (removelistreference L J X ps s) s"
  by (auto simp: setaccesscontrol_def addtowriteallowlist_def removefromwriteallowlist_def addtoreadallowlist_def
      removefromreadallowlist_def addlistreference_def removelistreference_def pubkey_method_def Let_def
      intro!: on_acl_frame split: list.split sum.split)

lemma publication_content_frame:
  "setPublicationContent L J http c tx ev entry (m, w) = (r, m', w') \<Longrightarrow> b_semantic m' = b_semantic m"
  "clearPublicationContent L http c tx ev (m, w) = (r, m', w') \<Longrightarrow> b_semantic m' = b_semantic m"
  by (auto simp: setPublicationContent_def clearPublicationContent_def split: prod.splits option.splits dest: semantic_kept)

lemma acknowledge_frame: "api_frame (acknowledgerefetch X ps s) s"
proof -
  have "b_semantic m = b_semantic (ap_mgmt s)" if "acknowledge_loop X raws 0 (ap_mgmt s) = (r, m)" for raws r m
    using acknowledge_loop_frame [of X raws 0 "ap_mgmt s"] that by auto
  then show ?thesis
    by (auto simp: api_frame_def acknowledgerefetch_def split: list.split param.split prod.split)
qed

lemma setcontent_frame: "api_frame (setcontent L J X ps s) s"
  by (auto simp: api_frame_def setcontent_def split: sum.split prod.split option.split
      dest: semantic_kept publication_content_frame)

lemma refetchcontent_frame: "api_frame (refetchcontent L X ps s) s"
  by (auto simp: api_frame_def refetchcontent_def mark_refetch_def Let_def split: list.split sum.split prod.split option.split
      dest: semantic_kept publication_content_frame)

lemmas method_frames = schema_methods_frame other_methods_frame acl_methods_frame acknowledge_frame setcontent_frame
  refetchcontent_frame

lemma methods_frame: "list_all (\<lambda>(n, f). n \<in> set semantic_methods \<or> api_frame (f ps s) s) (methods L J X)"
  unfolding methods_def list.pred_inject prod.case by (simp only: method_frames simp_thms) (simp add: semantic_methods_def)

lemma Generic_frame:
  assumes "method \<notin> set semantic_methods"
  shows "api_frame (Generic L J X method ps s) s"
proof (cases "map_of (methods L J X) method")
  case (Some f)
  then have "(method, f) \<in> set (methods L J X)" by (rule map_of_SomeD)
  then have "api_frame (f ps s) s" using assms methods_frame by (fastforce simp: list_all_iff)
  with Some show ?thesis by (simp add: Generic_def)
qed (simp add: Generic_def)

text \<open>The search backends run with the stored configuration.\<close>

definition runtime_config :: "bool \<Rightarrow> semantic_config \<Rightarrow> bool \<times> string list" where
  "runtime_config embedder cfg = (if sc_enabled cfg \<and> embedder then (True, sc_embed_fields cfg) else (False, []))"

definition config_live :: "json_lib \<Rightarrow> bool \<Rightarrow> 'w api_state \<Rightarrow> bool" where
  "config_live J embedder s \<longleftrightarrow> (case LoadSemanticConfig J (ap_mgmt s) of
     (cfg, None) \<Rightarrow> ap_embed s = runtime_config embedder cfg
   | (_, Some _) \<Rightarrow> True)"

lemma config_live_frame: "api_frame r s \<Longrightarrow> config_live J e s \<Longrightarrow> config_live J e (snd r)"
  unfolding config_live_def api_frame_def LoadSemanticConfig_def by (elim conjE) (simp only:)

lemma config_live_saved:
  assumes "json_ok J" and "SaveSemanticConfig J tx cfg m = (None, m')"
  shows "LoadSemanticConfig J m' = (cfg, None)"
  using assms LoadSemanticConfig_Save [of J cfg m] by (cases tx) (auto simp: SaveSemanticConfig_def)

lemma save_failed: "SaveSemanticConfig J tx cfg m = (Some e, m') \<Longrightarrow> m' = m"
  by (cases tx) (auto simp: SaveSemanticConfig_def)

lemma enable_live:
  assumes "json_ok J" and "config_live J (ax_embedder X) s"
  shows "config_live J (ax_embedder X) (snd (enablesemanticsearch J X ps s))"
proof (cases "ax_embedder X")
  case True
  let ?cfg = "(fst (LoadSemanticConfig J (ap_mgmt s)))\<lparr>sc_enabled := True\<rparr>"
  obtain r m where sv: "SaveSemanticConfig J (ax_tx X) ?cfg (ap_mgmt s) = (r, m)" by fastforce
  show ?thesis
  proof (cases r)
    case None
    with sv assms have "LoadSemanticConfig J m = (?cfg, None)" by (simp add: config_live_saved)
    with True sv None show ?thesis by (simp add: enablesemanticsearch_def config_live_def runtime_config_def)
  next
    case (Some e)
    with sv have "m = ap_mgmt s" by (simp add: save_failed)
    with True sv Some assms show ?thesis by (simp add: enablesemanticsearch_def)
  qed
qed (use assms in \<open>simp add: enablesemanticsearch_def\<close>)

lemma disable_live:
  assumes "json_ok J" and "config_live J e s"
  shows "config_live J e (snd (disablesemanticsearch J X ps s))"
proof -
  let ?cfg = "(fst (LoadSemanticConfig J (ap_mgmt s)))\<lparr>sc_enabled := False\<rparr>"
  obtain r m where sv: "SaveSemanticConfig J (ax_tx X) ?cfg (ap_mgmt s) = (r, m)" by fastforce
  show ?thesis
  proof (cases r)
    case None
    with sv assms have "LoadSemanticConfig J m = (?cfg, None)" by (simp add: config_live_saved)
    with sv None show ?thesis by (simp add: disablesemanticsearch_def config_live_def runtime_config_def)
  next
    case (Some e)
    with sv have "m = ap_mgmt s" by (simp add: save_failed)
    with sv Some assms show ?thesis by (simp add: disablesemanticsearch_def)
  qed
qed

lemma update_live:
  assumes "json_ok J" and "config_live J (ax_embedder X) s"
  shows "config_live J (ax_embedder X) (snd (updatesemanticsearchconfig J X ps s))"
  using assms
  by (auto simp: updatesemanticsearchconfig_def config_live_def runtime_config_def
      split: list.split sum.split prod.split option.split dest: save_failed config_live_saved)

lemma Generic_live:
  assumes "json_ok J" and "config_live J (ax_embedder X) s"
  shows "config_live J (ax_embedder X) (snd (Generic L J X method ps s))"
proof (cases "method \<in> set semantic_methods")
  case True
  then consider "method = ''updatesemanticsearchconfig''" | "method = ''enablesemanticsearch''" | "method = ''disablesemanticsearch''"
    unfolding semantic_methods_def by auto
  then show ?thesis using assms by cases (simp_all only: Generic_calls update_live enable_live disable_live)
next
  case False
  show ?thesis by (rule config_live_frame [OF Generic_frame [OF False] assms(2)])
qed

lemma startup_live:
  assumes "json_ok J" and "\<not> on \<or> ax_tx X = None"
  shows "config_live J (ax_embedder X) (startup_semantic J X on s)"
proof -
  obtain c e where ld: "LoadSemanticConfig J (ap_mgmt s) = (c, e)" by fastforce
  show ?thesis
  proof (cases "on \<and> ax_embedder X \<and> \<not> sc_enabled (if e = None then c else DefaultSemanticConfig)")
    case True
    then show ?thesis using ld assms LoadSemanticConfig_Save [OF assms(1)]
      by (cases e) (auto simp: startup_semantic_def config_live_def Let_def runtime_config_def)
  next
    case False
    then show ?thesis using ld
      by (cases e) (auto simp: startup_semantic_def config_live_def Let_def runtime_config_def)
  qed
qed

fun api_run :: "lib \<Rightarrow> json_lib \<Rightarrow> ('w api_env \<times> string \<times> param list) list \<Rightarrow> 'w api_state \<Rightarrow> 'w api_state" where
  "api_run L J [] s = s"
| "api_run L J ((X, method, ps) # calls) s = api_run L J calls (snd (Generic L J X method ps s))"

lemma api_run_live:
  assumes "json_ok J" and "list_all (\<lambda>(X, _). ax_embedder X = e) calls" and "config_live J e s"
  shows "config_live J e (api_run L J calls s)"
  using assms(2,3)
proof (induction calls arbitrary: s)
  case (Cons c calls)
  obtain X nm ps where c: "c = (X, nm, ps)" by (metis surj_pair)
  with Cons.prems have "list_all (\<lambda>(X, _). ax_embedder X = e) calls" "ax_embedder X = e" by auto
  with c Cons.IH Cons.prems(2) show ?case using Generic_live [OF assms(1), of X s L nm ps] by simp
qed simp

text \<open>A call that changes the configuration and succeeds makes it the running one, whatever ran before.\<close>

lemma config_change_live:
  assumes "json_ok J" and "method \<in> set semantic_methods" and "fst (Generic L J X method ps s) = Result r"
  shows "config_live J (ax_embedder X) (snd (Generic L J X method ps s))"
proof -
  from assms(2) consider "method = ''updatesemanticsearchconfig''" | "method = ''enablesemanticsearch''" | "method = ''disablesemanticsearch''"
    unfolding semantic_methods_def by auto
  then show ?thesis
  proof cases
    case 1
    show ?thesis using assms(1,3) unfolding 1 Generic_calls
      by (auto simp: updatesemanticsearchconfig_def config_live_def runtime_config_def
          split: list.splits sum.splits prod.splits option.splits dest: config_live_saved)
  next
    case 2
    obtain e m where sv: "SaveSemanticConfig J (ax_tx X) ((fst (LoadSemanticConfig J (ap_mgmt s)))\<lparr>sc_enabled := True\<rparr>) (ap_mgmt s) = (e, m)"
      by fastforce
    with assms(3) have "e = None" "ax_embedder X" unfolding 2 Generic_calls by (auto simp: enablesemanticsearch_def Let_def split: if_splits option.splits)
    with sv config_live_saved [OF assms(1)] show ?thesis
      unfolding 2 Generic_calls by (simp add: enablesemanticsearch_def Let_def config_live_def runtime_config_def)
  next
    case 3
    obtain e m where sv: "SaveSemanticConfig J (ax_tx X) ((fst (LoadSemanticConfig J (ap_mgmt s)))\<lparr>sc_enabled := False\<rparr>) (ap_mgmt s) = (e, m)"
      by fastforce
    with assms(3) have "e = None" "e = None" unfolding 3 Generic_calls by (auto simp: disablesemanticsearch_def Let_def split: if_splits option.splits)
    with sv config_live_saved [OF assms(1)] show ?thesis
      unfolding 3 Generic_calls by (simp add: disablesemanticsearch_def Let_def config_live_def runtime_config_def)
  qed
qed

fun config_call_succeeds :: "lib \<Rightarrow> json_lib \<Rightarrow> ('w api_env \<times> string \<times> param list) list \<Rightarrow> 'w api_state \<Rightarrow> bool" where
  "config_call_succeeds L J [] s \<longleftrightarrow> False"
| "config_call_succeeds L J ((X, method, ps) # calls) s \<longleftrightarrow> (case Generic L J X method ps s of
     (r, s') \<Rightarrow> method \<in> set semantic_methods \<and> (case r of Result _ \<Rightarrow> True | _ \<Rightarrow> False) \<or> config_call_succeeds L J calls s')"

lemma config_call_live:
  assumes "json_ok J" and "list_all (\<lambda>(X, _). ax_embedder X = e) calls" and "config_call_succeeds L J calls s"
  shows "config_live J e (api_run L J calls s)"
  using assms(2,3)
proof (induction calls arbitrary: s)
  case (Cons c calls)
  obtain X nm ps where c: "c = (X, nm, ps)" by (metis surj_pair)
  obtain r s' where g: "Generic L J X nm ps s = (r, s')" by fastforce
  from c Cons.prems(1) have e: "list_all (\<lambda>(X, _). ax_embedder X = e) calls" "ax_embedder X = e" by auto
  show ?case
  proof (cases "nm \<in> set semantic_methods \<and> (case r of Result _ \<Rightarrow> True | _ \<Rightarrow> False)")
    case True
    then have "config_live J e s'" using config_change_live [OF assms(1), of nm L X ps s] g e(2) by (auto split: response.splits)
    then show ?thesis using api_run_live [OF assms(1) e(1)] g by (simp add: c)
  next
    case False
    with Cons.prems(2) g have "config_call_succeeds L J calls s'" by (simp only: c config_call_succeeds.simps prod.case simp_thms)
    from Cons.IH [OF e(1) this] g show ?thesis by (simp add: c)
  qed
qed simp

lemma Generic_structured: "ap_structured_embed (snd (Generic L J X method ps s)) = ap_structured_embed s"
proof (cases "method \<in> set semantic_methods")
  case True
  then consider "method = ''updatesemanticsearchconfig''" | "method = ''enablesemanticsearch''" | "method = ''disablesemanticsearch''"
    unfolding semantic_methods_def by auto
  then show ?thesis by cases (auto simp: Generic_calls updatesemanticsearchconfig_def enablesemanticsearch_def
      disablesemanticsearch_def Let_def split: list.split sum.split prod.split option.split)
next
  case False
  from Generic_frame [OF this, of L J X ps s] show ?thesis by (simp add: api_frame_def)
qed

text \<open>The settings of the structured search backends follow the configuration at startup only: a call that
  disables semantic search leaves them on.\<close>

lemma structured_backends_keep_startup_settings:
  "ap_structured_embed (api_run L J calls s) = ap_structured_embed s"
proof (induction calls arbitrary: s)
  case (Cons c calls)
  then show ?case by (cases c) (simp add: Generic_structured)
qed simp

section \<open>Properties\<close>

text \<open>C28. A management call whose method is unknown or whose parameters do not have the types the method asks for is
  answered by an error message and changes nothing, with one exception that is exactly this: \<open>acknowledgerefetch\<close> has
  by then removed the marks of some of the names that come before the first element that is none, in their order, and
  changed nothing else.\<close>

theorem ill_typed_calls_are_refused:
  assumes "\<not> well_typed J X method ps"
  shows "case Generic L J X method ps s of
      (ErrorMsg _, s') \<Rightarrow> \<exists>n. s' = s\<lparr>ap_mgmt := unmark (take n (leading_names method ps)) (ap_mgmt s)\<rparr>
    | _ \<Rightarrow> False"
  using refused_ill_typed [OF assms, of L s] unfolding refused_def .

text \<open>C29. The resource search backend runs with exactly the configuration that is stored, after startup and any sequence of
  management calls, whatever fails on the way, from the moment on when the startup had nothing to store or stored it, or a
  call that changes the configuration succeeded: embedding is on for the stored fields when the stored
  configuration enables it and an embedding service is configured, off otherwise.\<close>

theorem semantic_config_is_live:
  assumes "json_ok J" and "list_all (\<lambda>(Y, _). ax_embedder Y = ax_embedder X) calls"
    and "\<not> on \<or> ax_tx X = None \<or> config_call_succeeds L J calls (startup_semantic J X on s)"
    and s': "s' = api_run L J calls (startup_semantic J X on s)"
    and "LoadSemanticConfig J (ap_mgmt s') = (cfg, None)"
  shows "ap_embed s' = (if sc_enabled cfg \<and> ax_embedder X then (True, sc_embed_fields cfg) else (False, []))"
proof -
  have "config_live J (ax_embedder X) s'"
    using assms(3) api_run_live [OF assms(1,2) startup_live [OF assms(1)], of on L s] config_call_live [OF assms(1,2)] s' by blast
  with assms(5) show ?thesis by (simp add: config_live_def runtime_config_def)
qed

text \<open>The startup ignores a failure to store what the environment asks for: the backend then runs with embedding while
  the stored configuration says off.\<close>

lemma failed_startup_save_diverges:
  assumes "ax_tx X = Some e" and "ax_embedder X" and "LoadSemanticConfig J (ap_mgmt s) = (cfg, None)" and "\<not> sc_enabled cfg"
  shows "ap_embed (startup_semantic J X True s) = (True, sc_embed_fields cfg) \<and>
    LoadSemanticConfig J (ap_mgmt (startup_semantic J X True s)) = (cfg, None)"
  using assms by (simp add: startup_semantic_def Let_def SaveSemanticConfig_def)

section \<open>Worked examples\<close>

definition demo_api :: "unit api_env" where
  "demo_api = \<lparr>ax_marshal = (\<lambda>_. Inl ''unsupported''), ax_pool = (\<lambda>_ _. None), ax_tx = None, ax_refetch_tx = (\<lambda>_. None),
     ax_embedder = True, ax_DefaultSchema = undefined, ax_query = (\<lambda>_ _ _. []), ax_publications = None,
     ax_QueueContent = (\<lambda>_ _ w. w)\<rparr>"

definition demo_api_state :: "unit api_state" where
  "demo_api_state = \<lparr>ap_mgmt = fresh_db, ap_acl = NewAllowlistManager, ap_reindex = fresh_status False, ap_embed = (False, []),
     ap_structured_embed = False, ap_world = ()\<rparr>"

text \<open>A call with an element that is no name after one that is, on a database with one mark.\<close>

definition demo_marked :: "unit api_state" where
  "demo_marked = demo_api_state\<lparr>ap_mgmt := snd (MarkNeedsRefetch None ''a'' fresh_db)\<rparr>"

lemma ill_typed_calls_are_refused_witness:
  "\<exists>e s'. Generic demo_lib demo_json demo_api ''acknowledgerefetch'' [PArr [PStr ''a'', PNull, PStr ''b'']] demo_marked = (ErrorMsg e, s') \<and>
     (s' = demo_marked \<or> s' = demo_marked\<lparr>ap_mgmt := snd (RemoveNeedsRefetch None ''a'' (ap_mgmt demo_marked))\<rparr>)"
proof -
  have "\<not> well_typed demo_json demo_api ''acknowledgerefetch'' [PArr [PStr ''a'', PNull, PStr ''b'']]"
    by (simp add: well_typed_def name_methods_def str_param_def)
  from ill_typed_calls_are_refused [OF this, where L = demo_lib and s = demo_marked] obtain e s' n where
    g: "Generic demo_lib demo_json demo_api ''acknowledgerefetch'' [PArr [PStr ''a'', PNull, PStr ''b'']] demo_marked = (ErrorMsg e, s')"
    and s': "s' = demo_marked\<lparr>ap_mgmt := unmark (take n [PStr ''a'']) (ap_mgmt demo_marked)\<rparr>"
    by (auto simp: leading_names_def str_param_def split: prod.splits response.splits)
  from s' have "s' = demo_marked \<or> s' = demo_marked\<lparr>ap_mgmt := snd (RemoveNeedsRefetch None ''a'' (ap_mgmt demo_marked))\<rparr>"
    by (cases n) (simp_all add: unmark_def str_param_def)
  with g show ?thesis by blast
qed

text \<open>Switched on by the environment at startup, then disabled by a call.\<close>

lemma semantic_config_is_live_witness:
  "ap_embed (api_run demo_lib demo_json [(demo_api, ''disablesemanticsearch'', [])]
     (startup_semantic demo_json demo_api True demo_api_state)) = (False, [])"
proof -
  let ?s = "startup_semantic demo_json demo_api True demo_api_state"
  let ?cfg = "(fst (LoadSemanticConfig demo_json (ap_mgmt ?s)))\<lparr>sc_enabled := False\<rparr>"
  have m: "ap_mgmt (api_run demo_lib demo_json [(demo_api, ''disablesemanticsearch'', [])] ?s) =
      snd (SaveSemanticConfig demo_json None ?cfg (ap_mgmt ?s))"
    by (simp add: Generic_calls disablesemanticsearch_def Let_def SaveSemanticConfig_def demo_api_def)
  have "LoadSemanticConfig demo_json (ap_mgmt (api_run demo_lib demo_json [(demo_api, ''disablesemanticsearch'', [])] ?s)) =
      (?cfg, None)"
    unfolding m by (rule LoadSemanticConfig_Save) simp
  from semantic_config_is_live [OF demo_json_ok _ _ refl this] show ?thesis by (simp add: demo_api_def)
qed

end
