(* ===== verification/Hydrate.thy ===== *)
theory Hydrate
  imports Typesense BoltBuffer Purge
begin

text \<open>
  \<open>internal/hydrate\<close>: the reconciliation of the event database with the search index, run at startup and by
  \<open>cmd/hydrate-bolt\<close>. The first pass saves the event of every search document, the second makes sure that the
  database has a row under the id every document carries. The decoders of the JSON texts and the network are
  parameters; a walk that is served full pages for ever does not end, so its result is an option.
\<close>

section \<open>Sinks and stores\<close>

record 'w event_sink =
  sk_SaveEvent :: "event \<Rightarrow> 'w \<Rightarrow> db_error option \<times> 'w"

record 'w event_store = "'w event_sink" +
  st_QueryEvents :: "filter \<Rightarrow> int \<Rightarrow> 'w \<Rightarrow> event list"

text \<open>The gate around the store of the startup run, and the sink of a dry run.\<close>

definition gatedRawStore :: "'w event_store \<Rightarrow> (event \<Rightarrow> bool) \<Rightarrow> 'w event_store" where
  "gatedRawStore st blocked = st\<lparr>sk_SaveEvent := \<lambda>ev w. if blocked ev then (None, w) else sk_SaveEvent st ev w\<rparr>"

definition countingSink :: "'w event_sink" where
  "countingSink = \<lparr>sk_SaveEvent = \<lambda>_ w. (None, w)\<rparr>"

section \<open>One document\<close>

record TSDocRef =
  tr_EventID :: string
  tr_EventRaw :: string

datatype Outcome = OutcomeSaved | OutcomeAlreadyPresent | OutcomeParseError | OutcomeSaveError

record Stats =
  hs_Scanned :: nat
  hs_Saved :: nat
  hs_AlreadyPresent :: nat
  hs_ParseErrors :: nat
  hs_SaveErrors :: nat

type_synonym parse_event = "string \<Rightarrow> error + event"

definition HydrateOne :: "parse_event \<Rightarrow> ('w, 'z) event_sink_scheme \<Rightarrow> string \<Rightarrow> 'w \<Rightarrow> Outcome \<times> 'w" where
  "HydrateOne parse sink raw w = (case parse raw of
     Inl _ \<Rightarrow> (OutcomeParseError, w)
   | Inr ev \<Rightarrow> (case sk_SaveEvent sink ev w of
       (None, w') \<Rightarrow> (OutcomeSaved, w')
     | (Some (DupEvent _), w') \<Rightarrow> (OutcomeAlreadyPresent, w')
     | (Some (DbError _), w') \<Rightarrow> (OutcomeSaveError, w')))"

definition count_outcome :: "Outcome \<Rightarrow> Stats \<Rightarrow> Stats" where
  "count_outcome r s0 = (let s = s0\<lparr>hs_Scanned := hs_Scanned s0 + 1\<rparr> in case r of
     OutcomeSaved \<Rightarrow> s\<lparr>hs_Saved := hs_Saved s + 1\<rparr>
   | OutcomeAlreadyPresent \<Rightarrow> s\<lparr>hs_AlreadyPresent := hs_AlreadyPresent s + 1\<rparr>
   | OutcomeParseError \<Rightarrow> s\<lparr>hs_ParseErrors := hs_ParseErrors s + 1\<rparr>
   | OutcomeSaveError \<Rightarrow> s\<lparr>hs_SaveErrors := hs_SaveErrors s + 1\<rparr>)"

definition no_stats :: Stats where
  "no_stats = \<lparr>hs_Scanned = 0, hs_Saved = 0, hs_AlreadyPresent = 0, hs_ParseErrors = 0, hs_SaveErrors = 0\<rparr>"

fun hydrate_docs :: "parse_event \<Rightarrow> ('w, 'z) event_sink_scheme \<Rightarrow> string list \<Rightarrow> Stats \<Rightarrow> 'w \<Rightarrow> Stats \<times> 'w" where
  "hydrate_docs parse sink [] s w = (s, w)"
| "hydrate_docs parse sink (raw # raws) s w = (case HydrateOne parse sink raw w of
     (r, w') \<Rightarrow> hydrate_docs parse sink raws (count_outcome r s) w')"

definition HydrateBatch :: "parse_event \<Rightarrow> ('w, 'z) event_sink_scheme \<Rightarrow> string list \<Rightarrow> 'w \<Rightarrow> Stats \<times> 'w" where
  "HydrateBatch parse sink raws w = hydrate_docs parse sink raws no_stats w"

section \<open>Verifying a document\<close>

datatype VerifyOutcome = VerifyOK | VerifyResaved | VerifyAlreadyResave | VerifyParseError | VerifySaveError

record VerifyStats =
  vs_Scanned :: nat
  vs_OK :: nat
  vs_Mismatches :: nat
  vs_Resaved :: nat
  vs_ParseErrors :: nat
  vs_SaveErrors :: nat

definition has_row :: "'w event_store \<Rightarrow> event_id \<Rightarrow> 'w \<Rightarrow> bool" where
  "has_row st i w \<longleftrightarrow> st_QueryEvents st (empty_filter\<lparr>f_ids := [i]\<rparr>) 1 w \<noteq> []"

definition VerifyOne :: "lib \<Rightarrow> parse_event \<Rightarrow> 'w event_store \<Rightarrow> string \<Rightarrow> string \<Rightarrow> 'w \<Rightarrow> VerifyOutcome \<times> 'w" where
  "VerifyOne L parse st tsEventID raw w = (case id_from_hex L tsEventID of
     Inl _ \<Rightarrow> (VerifyParseError, w)
   | Inr i \<Rightarrow>
       if has_row st i w then (VerifyOK, w)
       else (case parse raw of
         Inl _ \<Rightarrow> (VerifyParseError, w)
       | Inr ev \<Rightarrow> (case sk_SaveEvent st (ev\<lparr>ev_id := i\<rparr>) w of
           (None, w') \<Rightarrow> (VerifyResaved, w')
         | (Some (DupEvent _), w') \<Rightarrow> (VerifyAlreadyResave, w')
         | (Some (DbError _), w') \<Rightarrow> (VerifySaveError, w'))))"

definition no_verify :: VerifyStats where
  "no_verify = \<lparr>vs_Scanned = 0, vs_OK = 0, vs_Mismatches = 0, vs_Resaved = 0, vs_ParseErrors = 0, vs_SaveErrors = 0\<rparr>"

definition count_verify :: "VerifyOutcome \<Rightarrow> VerifyStats \<Rightarrow> VerifyStats" where
  "count_verify r s = (case r of
     VerifyOK \<Rightarrow> s\<lparr>vs_OK := vs_OK s + 1\<rparr>
   | VerifyResaved \<Rightarrow> s\<lparr>vs_Mismatches := vs_Mismatches s + 1, vs_Resaved := vs_Resaved s + 1\<rparr>
   | VerifyAlreadyResave \<Rightarrow> s\<lparr>vs_Mismatches := vs_Mismatches s + 1\<rparr>
   | VerifyParseError \<Rightarrow> s\<lparr>vs_ParseErrors := vs_ParseErrors s + 1\<rparr>
   | VerifySaveError \<Rightarrow> s\<lparr>vs_Mismatches := vs_Mismatches s + 1, vs_SaveErrors := vs_SaveErrors s + 1\<rparr>)"

fun verify_docs :: "lib \<Rightarrow> parse_event \<Rightarrow> 'w event_store \<Rightarrow> TSDocRef list \<Rightarrow> VerifyStats \<Rightarrow> 'w \<Rightarrow> VerifyStats \<times> 'w" where
  "verify_docs L parse st [] s w = (s, w)"
| "verify_docs L parse st (d # ds) s w = (let s1 = s\<lparr>vs_Scanned := vs_Scanned s + 1\<rparr> in
     if tr_EventID d = [] then verify_docs L parse st ds (s1\<lparr>vs_ParseErrors := vs_ParseErrors s1 + 1\<rparr>) w
     else (case VerifyOne L parse st (tr_EventID d) (tr_EventRaw d) w of
       (r, w') \<Rightarrow> verify_docs L parse st ds (count_verify r s1) w'))"

section \<open>One page\<close>

text \<open>\<open>decode\<close> reads the \<open>eventRaw\<close> and \<open>eventID\<close> of the hits. The query is \<open>url.Values\<close> encoded, in the order of its keys.\<close>

definition search_request :: "ts_conn \<Rightarrow> nat \<Rightarrow> nat \<Rightarrow> http_request" where
  "search_request c page perPage = \<lparr>rq_method = GET,
     rq_url = tc_Host c @ ''/collections/'' @ tc_Collection c @ ''/documents/search?include_fields=eventRaw%2CeventID&page='' @
       dec page @ ''&per_page='' @ dec perPage @ ''&q=%2A&query_by=name'',
     rq_headers = [(''X-TYPESENSE-API-KEY'', tc_ApiKey c)], rq_body = []\<rparr>"

definition FetchPage :: "'w http \<Rightarrow> (string \<Rightarrow> error + TSDocRef list) \<Rightarrow> ts_conn \<Rightarrow> nat \<Rightarrow> nat \<Rightarrow> 'w \<Rightarrow> (error + TSDocRef list) \<times> 'w" where
  "FetchPage http decode c page perPage w = (case http (search_request c page perPage) w of
     (Inl e, w') \<Rightarrow> (Inl e, w')
   | (Inr (status, answer), w') \<Rightarrow>
       if status \<noteq> 200 then (Inl (''status '' @ int_dec status @ '': '' @ answer), w')
       else (case decode answer of
         Inl e \<Rightarrow> (Inl (''decode: '' @ e), w')
       | Inr hits \<Rightarrow> (Inr (List.filter (\<lambda>d. tr_EventRaw d \<noteq> []) hits), w')))"

section \<open>The two passes\<close>

record hydrate_config =
  hc_conn :: ts_conn
  hc_PageSize :: int

type_synonym 'w page_fetcher = "nat \<Rightarrow> 'w \<Rightarrow> (error + TSDocRef list) \<times> 'w"

definition add_stats :: "Stats \<Rightarrow> Stats \<Rightarrow> Stats" where
  "add_stats t s = \<lparr>hs_Scanned = hs_Scanned t + hs_Scanned s, hs_Saved = hs_Saved t + hs_Saved s,
     hs_AlreadyPresent = hs_AlreadyPresent t + hs_AlreadyPresent s, hs_ParseErrors = hs_ParseErrors t + hs_ParseErrors s,
     hs_SaveErrors = hs_SaveErrors t + hs_SaveErrors s\<rparr>"

definition add_verify :: "VerifyStats \<Rightarrow> VerifyStats \<Rightarrow> VerifyStats" where
  "add_verify t s = \<lparr>vs_Scanned = vs_Scanned t + vs_Scanned s, vs_OK = vs_OK t + vs_OK s,
     vs_Mismatches = vs_Mismatches t + vs_Mismatches s, vs_Resaved = vs_Resaved t + vs_Resaved s,
     vs_ParseErrors = vs_ParseErrors t + vs_ParseErrors s, vs_SaveErrors = vs_SaveErrors t + vs_SaveErrors s\<rparr>"

partial_function (option) save_pass :: "'w page_fetcher \<Rightarrow> parse_event \<Rightarrow> 'w event_sink \<Rightarrow> nat \<Rightarrow> nat \<Rightarrow> Stats \<Rightarrow> 'w \<Rightarrow>
    (error option \<times> Stats \<times> 'w) option" where
  "save_pass fetch parse sink psize page tot w = (case fetch page w of
     (Inl e, w') \<Rightarrow> Some (Some (''fetch page '' @ dec page @ '': '' @ e), tot, w')
   | (Inr docs, w') \<Rightarrow>
       if length docs = 0 then Some (None, tot, w')
       else (case HydrateBatch parse sink (map tr_EventRaw docs) w' of (s, w'') \<Rightarrow>
         if length docs < psize then Some (None, add_stats tot s, w'')
         else save_pass fetch parse sink psize (page + 1) (add_stats tot s) w''))"

partial_function (option) verify_pass :: "'w page_fetcher \<Rightarrow> lib \<Rightarrow> parse_event \<Rightarrow> 'w event_store \<Rightarrow> nat \<Rightarrow> nat \<Rightarrow> VerifyStats \<Rightarrow> 'w \<Rightarrow>
    (error option \<times> VerifyStats \<times> 'w) option" where
  "verify_pass fetch L parse st psize page tot w = (case fetch page w of
     (Inl e, w') \<Rightarrow> Some (Some (''verify: fetch page '' @ dec page @ '': '' @ e), tot, w')
   | (Inr docs, w') \<Rightarrow>
       if length docs = 0 then Some (None, tot, w')
       else (case verify_docs L parse st docs no_verify w' of (s, w'') \<Rightarrow>
         if length docs < psize then Some (None, add_verify tot s, w'')
         else verify_pass fetch L parse st psize (page + 1) (add_verify tot s) w''))"

definition page_size :: "hydrate_config \<Rightarrow> nat" where
  "page_size cfg = nat (if hc_PageSize cfg \<le> 0 then 250 else hc_PageSize cfg)"

definition hydrate_Run :: "lib \<Rightarrow> 'w http \<Rightarrow> (string \<Rightarrow> error + TSDocRef list) \<Rightarrow> parse_event \<Rightarrow> hydrate_config \<Rightarrow>
    'w event_sink \<Rightarrow> 'w event_store option \<Rightarrow> 'w \<Rightarrow> ((Stats \<times> VerifyStats \<times> error option) \<times> 'w) option" where
  "hydrate_Run L http decode parse cfg sink store w = (
     let psize = page_size cfg; fetch = (\<lambda>page. FetchPage http decode (hc_conn cfg) page psize)
     in case save_pass fetch parse sink psize 1 no_stats w of
       None \<Rightarrow> None
     | Some (Some e, tot, w1) \<Rightarrow> Some ((tot, no_verify, Some e), w1)
     | Some (None, tot, w1) \<Rightarrow> (case store of
         None \<Rightarrow> Some ((tot, no_verify, None), w1)
       | Some st \<Rightarrow> (case verify_pass fetch L parse st psize 1 no_verify w1 of
           None \<Rightarrow> None
         | Some (r, vtot, w2) \<Rightarrow> Some ((tot, vtot, r), w2))))"

text \<open>The startup run of the relay: through the gate, with pages of 250.\<close>

definition hydrate_on_start :: "lib \<Rightarrow> 'w http \<Rightarrow> (string \<Rightarrow> error + TSDocRef list) \<Rightarrow> parse_event \<Rightarrow> ts_conn \<Rightarrow> mgmt_db \<Rightarrow>
    'w event_store \<Rightarrow> 'w \<Rightarrow> ((Stats \<times> VerifyStats \<times> error option) \<times> 'w) option" where
  "hydrate_on_start L http decode parse c m st w = (let gated = gatedRawStore st (isBlocked L m) in
     hydrate_Run L http decode parse \<lparr>hc_conn = c, hc_PageSize = 250\<rparr> \<lparr>sk_SaveEvent = sk_SaveEvent gated\<rparr> (Some gated) w)"

text \<open>The standalone tool \<open>cmd/hydrate-bolt\<close>: it ends with a message or with the counts. \<open>mkdir\<close> makes the directory
  \<open>dir dbPath\<close> of the database, \<open>openBolt\<close> opens it. A dry run neither opens nor verifies it.\<close>

definition mustEnv :: "(string \<Rightarrow> string) \<Rightarrow> string \<Rightarrow> error + string" where
  "mustEnv getenv name = (if getenv name = [] then Inl (name @ '' is required'') else Inr (getenv name))"

record hydrate_args =
  ha_pageSize :: int
  ha_dryRun :: bool

definition open_store :: "(string \<Rightarrow> string) \<Rightarrow> (string \<Rightarrow> error option) \<Rightarrow> (string \<Rightarrow> error + 'w event_store) \<Rightarrow> string \<Rightarrow> error + 'w event_store" where
  "open_store dir mkdir openBolt dbPath = (case (if dir dbPath \<noteq> ''.'' then mkdir (dir dbPath) else None) of
     Some e \<Rightarrow> Inl (''mkdir '' @ dir dbPath @ '': '' @ e)
   | None \<Rightarrow> (case openBolt dbPath of
       Inl e \<Rightarrow> Inl (''bolt init '' @ dbPath @ '': '' @ e @ '' (is the relay running and holding the lock?)'')
     | Inr st \<Rightarrow> Inr st))"

definition hydrate_main :: "lib \<Rightarrow> 'w http \<Rightarrow> (string \<Rightarrow> error + TSDocRef list) \<Rightarrow> parse_event \<Rightarrow> (string \<Rightarrow> string) \<Rightarrow>
    (string \<Rightarrow> string) \<Rightarrow> (string \<Rightarrow> error option) \<Rightarrow> (string \<Rightarrow> error + 'w event_store) \<Rightarrow> hydrate_args \<Rightarrow> 'w \<Rightarrow>
    ((error + Stats \<times> VerifyStats) \<times> 'w) option" where
  "hydrate_main L http decode parse getenv dir mkdir openBolt args w =
     (case (mustEnv getenv ''TS_HOST'', mustEnv getenv ''TS_APIKEY'', mustEnv getenv ''TS_COLLECTION'') of
       (Inl e, _, _) \<Rightarrow> Some (Inl e, w)
     | (Inr _, Inl e, _) \<Rightarrow> Some (Inl e, w)
     | (Inr _, Inr _, Inl e) \<Rightarrow> Some (Inl e, w)
     | (Inr host, Inr key, Inr c) \<Rightarrow>
         let cfg = \<lparr>hc_conn = \<lparr>tc_Host = host, tc_ApiKey = key, tc_Collection = c\<rparr>, hc_PageSize = ha_pageSize args\<rparr>;
             dbPath = (if getenv ''DB_PATH'' = [] then ''./data/relay.db'' else getenv ''DB_PATH'')
         in case (if ha_dryRun args then Inr (countingSink, None)
             else case open_store dir mkdir openBolt dbPath of Inl e \<Rightarrow> Inl e | Inr st \<Rightarrow> Inr (\<lparr>sk_SaveEvent = sk_SaveEvent st\<rparr>, Some st)) of
           Inl e \<Rightarrow> Some (Inl e, w)
         | Inr (sink, store) \<Rightarrow> (case hydrate_Run L http decode parse cfg sink store w of
             None \<Rightarrow> None
           | Some ((_, _, Some e), w') \<Rightarrow> Some (Inl (''hydrate: '' @ e), w')
           | Some ((tot, vtot, None), w') \<Rightarrow> Some (Inr (tot, vtot), w')))"

section \<open>Counting\<close>

text \<open>Every scanned document has exactly one outcome.\<close>

definition stats_ok :: "Stats \<Rightarrow> bool" where
  "stats_ok s \<longleftrightarrow> hs_Scanned s = hs_Saved s + hs_AlreadyPresent s + hs_ParseErrors s + hs_SaveErrors s"

definition verify_ok :: "VerifyStats \<Rightarrow> bool" where
  "verify_ok s \<longleftrightarrow> vs_Scanned s = vs_OK s + vs_Mismatches s + vs_ParseErrors s \<and> vs_Resaved s + vs_SaveErrors s \<le> vs_Mismatches s"

lemma hydrate_docs_scanned:
  "stats_ok s \<Longrightarrow> stats_ok (fst (hydrate_docs parse sink raws s w)) \<and>
    hs_Scanned (fst (hydrate_docs parse sink raws s w)) = hs_Scanned s + length raws"
proof (induction raws arbitrary: s w)
  case (Cons raw raws)
  obtain r w' where one: "HydrateOne parse sink raw w = (r, w')" by fastforce
  have "stats_ok (count_outcome r s)" "hs_Scanned (count_outcome r s) = Suc (hs_Scanned s)"
    using Cons.prems by (cases r; simp add: stats_ok_def count_outcome_def Let_def)+
  with Cons.IH [of "count_outcome r s" w'] one show ?case by simp
qed simp

lemma verify_docs_scanned:
  "verify_ok s \<Longrightarrow> verify_ok (fst (verify_docs L parse st ds s w)) \<and>
    vs_Scanned (fst (verify_docs L parse st ds s w)) = vs_Scanned s + length ds"
proof (induction ds arbitrary: s w)
  case (Cons d ds)
  let ?s = "s\<lparr>vs_Scanned := vs_Scanned s + 1\<rparr>"
  obtain r w' where one: "VerifyOne L parse st (tr_EventID d) (tr_EventRaw d) w = (r, w')" by fastforce
  have "verify_ok (count_verify r ?s)" "vs_Scanned (count_verify r ?s) = Suc (vs_Scanned s)"
    "verify_ok (?s\<lparr>vs_ParseErrors := vs_ParseErrors ?s + 1\<rparr>)"
    using Cons.prems by (cases r; simp add: verify_ok_def count_verify_def)+
  with Cons.IH one show ?case by (simp add: Let_def)
qed simp

section \<open>Rows are restored\<close>

text \<open>What the database promises: a save loses no row, and after a save without error, or refused as a duplicate,
  the row of the event is there.\<close>

definition keeps_rows :: "'w event_store \<Rightarrow> bool" where
  "keeps_rows st \<longleftrightarrow> (\<forall>ev w. case sk_SaveEvent st ev w of (r, w') \<Rightarrow>
     (\<forall>i. has_row st i w \<longrightarrow> has_row st i w') \<and>
     (case r of Some (DbError _) \<Rightarrow> True | _ \<Rightarrow> has_row st (ev_id ev) w'))"

definition rows_le :: "'w event_store \<Rightarrow> 'w \<Rightarrow> 'w \<Rightarrow> bool" where
  "rows_le st w w' \<longleftrightarrow> (\<forall>i. has_row st i w \<longrightarrow> has_row st i w')"

lemma rows_le_refl [simp]: "rows_le st w w"
  by (simp add: rows_le_def)

lemma rows_le_trans: "rows_le st w w' \<Longrightarrow> rows_le st w' w'' \<Longrightarrow> rows_le st w w''"
  by (simp add: rows_le_def)

lemma has_row_gated [simp]: "has_row (gatedRawStore st blocked) = has_row st"
  by (simp add: has_row_def gatedRawStore_def fun_eq_iff)

lemma gated_save: "sk_SaveEvent (gatedRawStore st blocked) ev w = (if blocked ev then (None, w) else sk_SaveEvent st ev w)"
  by (simp add: gatedRawStore_def)

lemma gated_rows:
  assumes "keeps_rows st" and "sk_SaveEvent (gatedRawStore st blocked) ev w = (r, w')"
  shows "rows_le st w w'" and "\<not> blocked ev \<Longrightarrow> (\<forall>e. r \<noteq> Some (DbError e)) \<Longrightarrow> has_row st (ev_id ev) w'"
proof -
  have k: "case sk_SaveEvent st ev w of (r, w') \<Rightarrow> (\<forall>i. has_row st i w \<longrightarrow> has_row st i w') \<and>
      (case r of Some (DbError _) \<Rightarrow> True | _ \<Rightarrow> has_row st (ev_id ev) w')"
    using assms(1) by (simp add: keeps_rows_def)
  then show "rows_le st w w'" using assms(2) by (auto simp: gated_save rows_le_def split: if_splits prod.splits)
  assume "\<not> blocked ev" and "\<forall>e. r \<noteq> Some (DbError e)"
  then show "has_row st (ev_id ev) w'" using k assms(2)
    by (auto simp: gated_save split: option.splits db_error.splits)
qed

lemma hydrate_docs_rows:
  assumes "keeps_rows st" and "\<And>ev w. sk_SaveEvent sink ev w = sk_SaveEvent (gatedRawStore st blocked) ev w"
  shows "rows_le st w (snd (hydrate_docs parse sink raws s w))"
proof (induction raws arbitrary: s w)
  case (Cons raw raws)
  obtain r w1 where one: "HydrateOne parse sink raw w = (r, w1)" by fastforce
  have "rows_le st w w1"
  proof (cases "parse raw")
    case (Inr ev)
    obtain q w2 where sv: "sk_SaveEvent (gatedRawStore st blocked) ev w = (q, w2)" by fastforce
    then have "w1 = w2" using one Inr assms(2) by (auto simp: HydrateOne_def split: option.splits db_error.splits)
    with gated_rows(1) [OF assms(1) sv] show ?thesis by simp
  qed (use one in \<open>auto simp: HydrateOne_def\<close>)
  with one Cons.IH show ?case by (auto intro: rows_le_trans)
qed simp

text \<open>A document is restored when its row is there, unless it is unreadable or blocked.\<close>

definition restored :: "lib \<Rightarrow> parse_event \<Rightarrow> 'w event_store \<Rightarrow> (event \<Rightarrow> bool) \<Rightarrow> 'w \<Rightarrow> TSDocRef \<Rightarrow> bool" where
  "restored L parse st blocked w d \<longleftrightarrow> (case (id_from_hex L (tr_EventID d), parse (tr_EventRaw d)) of
     (Inr i, Inr ev) \<Rightarrow> tr_EventID d = [] \<or> blocked (ev\<lparr>ev_id := i\<rparr>) \<or> has_row st i w
   | _ \<Rightarrow> True)"

lemma restored_mono: "rows_le st w w' \<Longrightarrow> restored L parse st blocked w d \<Longrightarrow> restored L parse st blocked w' d"
  by (auto simp: restored_def rows_le_def split: sum.splits)

lemma VerifyOne_restores:
  assumes "keeps_rows st" and "VerifyOne L parse (gatedRawStore st blocked) (tr_EventID d) (tr_EventRaw d) w = (r, w')"
  shows "rows_le st w w'" and "r \<noteq> VerifySaveError \<Longrightarrow> restored L parse st blocked w' d"
proof -
  have "rows_le st w w' \<and> (r \<noteq> VerifySaveError \<longrightarrow> restored L parse st blocked w' d)"
  proof (cases "id_from_hex L (tr_EventID d)")
    case (Inr i)
    show ?thesis
    proof (cases "has_row st i w")
      case True
      with Inr assms(2) show ?thesis by (auto simp: VerifyOne_def restored_def split: sum.splits)
    next
      case False
      show ?thesis
      proof (cases "parse (tr_EventRaw d)")
        case (Inr ev)
        obtain q w2 where sv: "sk_SaveEvent (gatedRawStore st blocked) (ev\<lparr>ev_id := i\<rparr>) w = (q, w2)" by fastforce
        have r: "w' = w2" "r \<noteq> VerifySaveError \<Longrightarrow> \<forall>e. q \<noteq> Some (DbError e)"
          using assms(2) False \<open>id_from_hex L (tr_EventID d) = Inr i\<close> Inr sv
          by (auto simp: VerifyOne_def split: option.splits db_error.splits)
        with gated_rows [OF assms(1) sv] Inr \<open>id_from_hex L (tr_EventID d) = Inr i\<close> show ?thesis
          by (auto simp: restored_def)
      qed (use False Inr assms(2) in \<open>auto simp: VerifyOne_def restored_def\<close>)
    qed
  qed (use assms(2) in \<open>auto simp: VerifyOne_def restored_def\<close>)
  then show "rows_le st w w'" and "r \<noteq> VerifySaveError \<Longrightarrow> restored L parse st blocked w' d" by auto
qed

lemma verify_docs_restores:
  assumes "keeps_rows st" and "verify_docs L parse (gatedRawStore st blocked) ds s w = (s', w')"
  shows "rows_le st w w' \<and> vs_SaveErrors s \<le> vs_SaveErrors s' \<and>
    (vs_SaveErrors s' = vs_SaveErrors s \<longrightarrow> list_all (restored L parse st blocked w') ds)"
  using assms(2)
proof (induction ds arbitrary: s w)
  case (Cons d ds)
  let ?s = "s\<lparr>vs_Scanned := vs_Scanned s + 1\<rparr>"
  show ?case
  proof (cases "tr_EventID d = []")
    case True
    then have "restored L parse st blocked w' d" by (auto simp: restored_def split: sum.splits)
    with True Cons.IH [of "?s\<lparr>vs_ParseErrors := vs_ParseErrors ?s + 1\<rparr>" w] Cons.prems show ?thesis
      by (auto simp: Let_def)
  next
    case False
    obtain r w1 where one: "VerifyOne L parse (gatedRawStore st blocked) (tr_EventID d) (tr_EventRaw d) w = (r, w1)" by fastforce
    note v = VerifyOne_restores [OF assms(1) one]
    have rest: "verify_docs L parse (gatedRawStore st blocked) ds (count_verify r ?s) w1 = (s', w')"
      using Cons.prems False one by (simp add: Let_def)
    have e: "vs_SaveErrors (count_verify r ?s) = vs_SaveErrors s + (if r = VerifySaveError then 1 else 0)"
      by (cases r) (simp_all add: count_verify_def)
    from Cons.IH [OF rest] v e show ?thesis
      by (auto intro: rows_le_trans restored_mono split: if_splits)
  qed
qed simp

section \<open>The walk over a stable index\<close>

text \<open>The search engine serves the pages of one list of documents and the requests leave the world alone.\<close>

definition page_of :: "nat \<Rightarrow> 'a list \<Rightarrow> nat \<Rightarrow> 'a list" where
  "page_of n ds page = take n (drop ((page - 1) * n) ds)"

definition serves_pages :: "'w http \<Rightarrow> (string \<Rightarrow> error + TSDocRef list) \<Rightarrow> ts_conn \<Rightarrow> nat \<Rightarrow> TSDocRef list \<Rightarrow> bool" where
  "serves_pages http decode c n ds \<longleftrightarrow> (\<forall>k w. case http (search_request c (Suc k) n) w of
     (Inl _, _) \<Rightarrow> False
   | (Inr (status, answer), w') \<Rightarrow> w' = w \<and> status = 200 \<and> decode answer = Inr (page_of n ds (Suc k)))"

lemma FetchPage_served:
  assumes "serves_pages http decode c n ds" and "list_all (\<lambda>d. tr_EventRaw d \<noteq> []) ds"
  shows "FetchPage http decode c (Suc page) n w = (Inr (page_of n ds (Suc page)), w)"
proof -
  let ?p = "Suc page"
  have "set (page_of n ds ?p) \<subseteq> set ds" by (auto simp: page_of_def dest: in_set_takeD in_set_dropD)
  then have "List.filter (\<lambda>d. tr_EventRaw d \<noteq> []) (page_of n ds ?p) = page_of n ds ?p"
    using assms(2) by (auto simp: filter_id_conv list_all_iff)
  moreover obtain answer where "http (search_request c ?p n) w = (Inr (200, answer), w)" "decode answer = Inr (page_of n ds ?p)"
    using assms(1) [unfolded serves_pages_def, THEN spec, THEN spec, of w page]
    by (cases "http (search_request c ?p n) w"; cases "fst (http (search_request c ?p n) w)") auto
  ultimately show ?thesis by (simp add: FetchPage_def)
qed

lemma stats_ok_add: "stats_ok t \<Longrightarrow> stats_ok s \<Longrightarrow> stats_ok (add_stats t s)"
  by (simp add: stats_ok_def add_stats_def)

lemma verify_ok_add: "verify_ok t \<Longrightarrow> verify_ok s \<Longrightarrow> verify_ok (add_verify t s)"
  by (simp add: verify_ok_def add_verify_def)

lemma stats_ok_zero [simp]: "stats_ok no_stats" "hs_Scanned no_stats = 0" "verify_ok no_verify" "vs_Scanned no_verify = 0"
    "vs_SaveErrors no_verify = 0"
  by (simp_all add: stats_ok_def no_stats_def verify_ok_def no_verify_def)

lemma page_of_Suc: "page_of n ds (Suc k) = take n (drop (k * n) ds)"
  by (simp add: page_of_def)

lemma save_pass_served:
  assumes fetch: "\<And>k w. fetch (Suc k) w = (Inr (page_of n ds (Suc k)), w)" and "0 < n" and "keeps_rows st"
    and sink: "\<And>ev w. sk_SaveEvent sink ev w = sk_SaveEvent (gatedRawStore st blocked) ev w"
    and "stats_ok tot"
  shows "\<exists>tot' w'. save_pass fetch parse sink n (Suc k) tot w = Some (None, tot', w') \<and> stats_ok tot' \<and>
    hs_Scanned tot' = hs_Scanned tot + (length ds - k * n) \<and> rows_le st w w'"
  using \<open>stats_ok tot\<close>
proof (induction "length ds - k * n" arbitrary: k tot w rule: less_induct)
  case less
  let ?page = "page_of n ds (Suc k)"
  have len: "length ?page = min n (length ds - k * n)" by (simp add: page_of_Suc)
  show ?case
  proof (cases "length ds \<le> k * n")
    case True
    then have "?page = []" by (simp add: page_of_Suc)
    with True less.prems show ?thesis by (auto simp: save_pass.simps [of fetch] fetch)
  next
    case False
    obtain s w1 where b: "HydrateBatch parse sink (map tr_EventRaw ?page) w = (s, w1)" by fastforce
    then have s: "stats_ok s" "hs_Scanned s = length ?page"
      using hydrate_docs_scanned [of no_stats parse sink "map tr_EventRaw ?page" w] by (auto simp: HydrateBatch_def)
    have rows: "rows_le st w w1"
      using hydrate_docs_rows [OF assms(3) sink, of w parse "map tr_EventRaw ?page" no_stats] b by (simp add: HydrateBatch_def)
    have ne: "?page \<noteq> []" using False assms(2) by (simp add: page_of_Suc)
    have tot: "stats_ok (add_stats tot s)" "hs_Scanned (add_stats tot s) = hs_Scanned tot + length ?page"
      using stats_ok_add [OF less.prems s(1)] s(2) by (auto simp: add_stats_def)
    show ?thesis
    proof (cases "length ?page < n")
      case True
      with len have "length ?page = length ds - k * n" by simp
      with True False b ne tot rows show ?thesis by (simp add: save_pass.simps [of fetch] fetch)
    next
      case full: False
      then have "length ds - Suc k * n < length ds - k * n" using False assms(2) by simp
      from less.hyps [OF this tot(1), of w1] obtain tot' w' where
        "save_pass fetch parse sink n (Suc (Suc k)) (add_stats tot s) w1 = Some (None, tot', w')" "stats_ok tot'"
        "hs_Scanned tot' = hs_Scanned (add_stats tot s) + (length ds - Suc k * n)" "rows_le st w1 w'" by blast
      with full b ne tot rows len show ?thesis
        by (auto simp: save_pass.simps [of fetch parse sink n "Suc k"] fetch intro: rows_le_trans)
    qed
  qed
qed

lemma restored_append:
  assumes "rows_le st w1 w2" and "list_all (restored L parse st blocked w1) xs" and "list_all (restored L parse st blocked w2) ys"
  shows "list_all (restored L parse st blocked w2) (xs @ ys)"
  using assms restored_mono [OF assms(1)] by (auto simp: list_all_iff)

lemma verify_pass_served:
  assumes fetch: "\<And>k w. fetch (Suc k) w = (Inr (page_of n ds (Suc k)), w)" and "0 < n" and "keeps_rows st" and "verify_ok tot"
  shows "\<exists>tot' w'. verify_pass fetch L parse (gatedRawStore st blocked) n (Suc k) tot w = Some (None, tot', w') \<and>
    verify_ok tot' \<and> vs_Scanned tot' = vs_Scanned tot + (length ds - k * n) \<and> rows_le st w w' \<and>
    vs_SaveErrors tot \<le> vs_SaveErrors tot' \<and>
    (vs_SaveErrors tot' = vs_SaveErrors tot \<longrightarrow> list_all (restored L parse st blocked w') (drop (k * n) ds))"
  using \<open>verify_ok tot\<close>
proof (induction "length ds - k * n" arbitrary: k tot w rule: less_induct)
  case less
  let ?G = "gatedRawStore st blocked"
  let ?page = "page_of n ds (Suc k)"
  have len: "length ?page = min n (length ds - k * n)" by (simp add: page_of_Suc)
  show ?case
  proof (cases "length ds \<le> k * n")
    case True
    then have "?page = []" by (simp add: page_of_Suc)
    with True less.prems show ?thesis by (auto simp: verify_pass.simps [of fetch] fetch)
  next
    case False
    obtain s w1 where b: "verify_docs L parse ?G ?page no_verify w = (s, w1)" by fastforce
    then have s: "verify_ok s" "vs_Scanned s = length ?page"
      using verify_docs_scanned [of no_verify L parse ?G ?page w] by auto
    note r = verify_docs_restores [OF assms(3) b]
    have ne: "?page \<noteq> []" using False assms(2) by (simp add: page_of_Suc)
    let ?tot = "add_verify tot s"
    have tot: "verify_ok ?tot" "vs_Scanned ?tot = vs_Scanned tot + length ?page"
        "vs_SaveErrors ?tot = vs_SaveErrors tot + vs_SaveErrors s"
      using verify_ok_add [OF less.prems s(1)] s(2) by (auto simp: add_verify_def)
    show ?thesis
    proof (cases "length ?page < n")
      case True
      with len have l: "length ?page = length ds - k * n" "?page = drop (k * n) ds" by (simp_all add: page_of_Suc)
      from True False b ne tot r l(1) show ?thesis unfolding l(2) by (simp add: verify_pass.simps [of fetch] fetch l(2))
    next
      case full: False
      have split: "drop (k * n) ds = ?page @ drop (Suc k * n) ds"
        by (simp add: page_of_Suc add.commute flip: drop_drop)
      have "length ds - Suc k * n < length ds - k * n" using False assms(2) by simp
      from less.hyps [OF this tot(1), of w1] obtain tot' w' where
        n: "verify_pass fetch L parse ?G n (Suc (Suc k)) ?tot w1 = Some (None, tot', w')" "verify_ok tot'"
        "vs_Scanned tot' = vs_Scanned ?tot + (length ds - Suc k * n)" "rows_le st w1 w'"
        "vs_SaveErrors ?tot \<le> vs_SaveErrors tot'"
        "vs_SaveErrors tot' = vs_SaveErrors ?tot \<longrightarrow> list_all (restored L parse st blocked w') (drop (Suc k * n) ds)" by blast
      have "list_all (restored L parse st blocked w') (drop (k * n) ds)" if "vs_SaveErrors tot' = vs_SaveErrors tot"
        unfolding split using restored_append [OF n(4)] that n(5,6) tot(3) r by simp
      moreover have "vs_Scanned tot' = vs_Scanned tot + (length ds - k * n)" using n(3) tot(2) full len by simp
      ultimately show ?thesis using full b ne tot r n
        by (auto simp: verify_pass.simps [of fetch L parse ?G n "Suc k"] fetch intro: rows_le_trans)
    qed
  qed
qed

lemma on_start_passes:
  "hydrate_on_start L http decode parse c m st w = (
     let G = gatedRawStore st (isBlocked L m); fetch = (\<lambda>page. FetchPage http decode c page 250) in
     case save_pass fetch parse \<lparr>sk_SaveEvent = sk_SaveEvent G\<rparr> 250 (Suc 0) no_stats w of
       None \<Rightarrow> None
     | Some (Some e, tot, w1) \<Rightarrow> Some ((tot, no_verify, Some e), w1)
     | Some (None, tot, w1) \<Rightarrow> (case verify_pass fetch L parse G 250 (Suc 0) no_verify w1 of
         None \<Rightarrow> None
       | Some (r, vtot, w2) \<Rightarrow> Some ((tot, vtot, r), w2)))"
proof -
  have "page_size \<lparr>hc_conn = c, hc_PageSize = 250\<rparr> = 250" by (simp add: page_size_def)
  then show ?thesis
    unfolding hydrate_on_start_def hydrate_Run_def Let_def by (simp only: option.case One_nat_def hydrate_config.simps cong: option.case_cong prod.case_cong)
qed

lemma hydration_complete:
  assumes "keeps_rows st" and "serves_pages http decode c 250 ds" and "list_all (\<lambda>d. tr_EventRaw d \<noteq> []) ds"
  shows "\<exists>tot vtot w'. hydrate_on_start L http decode parse c m st w = Some ((tot, vtot, None), w') \<and>
    hs_Scanned tot = length ds \<and> vs_Scanned vtot = length ds \<and>
    (vs_SaveErrors vtot = 0 \<longrightarrow> list_all (restored L parse st (isBlocked L m) w') ds)"
proof -
  let ?fetch = "\<lambda>page. FetchPage http decode c page 250" and ?G = "gatedRawStore st (isBlocked L m)"
  have fetch: "?fetch (Suc k) w = (Inr (page_of 250 ds (Suc k)), w)" for k w
    by (rule FetchPage_served [OF assms(2,3)])
  obtain tot w1 where s: "save_pass ?fetch parse \<lparr>sk_SaveEvent = sk_SaveEvent ?G\<rparr> 250 (Suc 0) no_stats w = Some (None, tot, w1)"
      "hs_Scanned tot = length ds"
    using save_pass_served [of ?fetch 250 ds st "\<lparr>sk_SaveEvent = sk_SaveEvent ?G\<rparr>" "isBlocked L m" no_stats parse 0 w,
      OF fetch _ assms(1)] by auto
  obtain vtot w2 where "verify_pass ?fetch L parse ?G 250 (Suc 0) no_verify w1 = Some (None, vtot, w2)"
      "vs_Scanned vtot = length ds" "vs_SaveErrors vtot = 0 \<longrightarrow> list_all (restored L parse st (isBlocked L m) w2) ds"
    using verify_pass_served [of ?fetch 250 ds st no_verify L parse "isBlocked L m" 0 w1, OF fetch _ assms(1)] by auto
  with s show ?thesis by (simp add: on_start_passes Let_def)
qed

section \<open>Blocked events stay out\<close>

text \<open>An absent row stays absent while only events of other ids are saved.\<close>

definition saves_only_own :: "'w event_store \<Rightarrow> event_id \<Rightarrow> bool" where
  "saves_only_own st i \<longleftrightarrow> (\<forall>ev w. ev_id ev \<noteq> i \<longrightarrow> has_row st i (snd (sk_SaveEvent st ev w)) \<longrightarrow> has_row st i w)"

lemma gated_absent:
  assumes "saves_only_own st i" and "\<forall>ev. ev_id ev = i \<longrightarrow> blocked ev" and "\<not> has_row st i w"
    and "sk_SaveEvent (gatedRawStore st blocked) ev w = (r, w')"
  shows "\<not> has_row st i w'"
proof (cases "blocked ev")
  case True
  with assms(3,4) show ?thesis by (simp add: gated_save)
next
  case False
  then have "ev_id ev \<noteq> i" and "sk_SaveEvent st ev w = (r, w')" using assms(2,4) by (auto simp: gated_save)
  then have "has_row st i w' \<Longrightarrow> has_row st i w" using assms(1) unfolding saves_only_own_def by (metis snd_conv)
  with assms(3) show ?thesis by blast
qed

lemma hydrate_docs_absent:
  assumes "saves_only_own st i" and "\<forall>ev. ev_id ev = i \<longrightarrow> blocked ev"
    and "\<And>ev w. sk_SaveEvent sink ev w = sk_SaveEvent (gatedRawStore st blocked) ev w" and "\<not> has_row st i w"
  shows "\<not> has_row st i (snd (hydrate_docs parse sink raws s w))"
  using assms(4)
proof (induction raws arbitrary: s w)
  case (Cons raw raws)
  obtain r w1 where one: "HydrateOne parse sink raw w = (r, w1)" by fastforce
  have "\<not> has_row st i w1"
  proof (cases "parse raw")
    case (Inr ev)
    obtain q w2 where sv: "sk_SaveEvent (gatedRawStore st blocked) ev w = (q, w2)" by fastforce
    then have "w1 = w2" using one Inr assms(3) by (auto simp: HydrateOne_def split: option.splits db_error.splits)
    with gated_absent [OF assms(1,2) Cons.prems sv] show ?thesis by simp
  qed (use one Cons.prems in \<open>auto simp: HydrateOne_def\<close>)
  with one Cons.IH show ?case by simp
qed simp

lemma VerifyOne_absent:
  assumes "saves_only_own st i" and "\<forall>ev. ev_id ev = i \<longrightarrow> blocked ev" and "\<not> has_row st i w"
    and "VerifyOne L parse (gatedRawStore st blocked) tsid raw w = (r, w')"
  shows "\<not> has_row st i w'"
proof (cases "w' = w")
  case False
  then obtain j ev q where "sk_SaveEvent (gatedRawStore st blocked) (ev\<lparr>ev_id := j\<rparr>) w = (q, w')"
    using assms(4) by (auto simp: VerifyOne_def split: sum.splits if_splits prod.splits option.splits db_error.splits)
  with gated_absent [OF assms(1-3)] show ?thesis by blast
qed (use assms(3) in simp)

lemma verify_docs_absent:
  assumes "saves_only_own st i" and "\<forall>ev. ev_id ev = i \<longrightarrow> blocked ev" and "\<not> has_row st i w"
  shows "\<not> has_row st i (snd (verify_docs L parse (gatedRawStore st blocked) ds s w))"
  using assms(3)
proof (induction ds arbitrary: s w)
  case (Cons d ds)
  obtain r w1 where one: "VerifyOne L parse (gatedRawStore st blocked) (tr_EventID d) (tr_EventRaw d) w = (r, w1)" by fastforce
  from VerifyOne_absent [OF assms(1,2) Cons.prems one] Cons.IH Cons.prems one show ?case by (simp add: Let_def)
qed simp

lemma save_pass_absent:
  assumes "save_pass fetch parse sink n page tot w = Some y"
    and st: "saves_only_own st i" "\<forall>ev. ev_id ev = i \<longrightarrow> blocked ev"
    and "\<And>ev w. sk_SaveEvent sink ev w = sk_SaveEvent (gatedRawStore st blocked) ev w"
    and "\<And>page w. \<not> has_row st i w \<Longrightarrow> \<not> has_row st i (snd (fetch page w))" and "\<not> has_row st i w"
  shows "\<not> has_row st i (snd (snd y))"
  using assms(1,4-6)
proof (induction rule: save_pass.raw_induct [rotated 1, consumes 1, case_names step])
  case (step pass fetch parse sink n page tot w y)
  obtain r w1 where f: "fetch page w = (r, w1)" by fastforce
  with step.prems(2,3) have w1: "\<not> has_row st i w1" by (metis snd_conv)
  show ?case
  proof (cases r)
    case (Inl e)
    with f w1 step.hyps show ?thesis by auto
  next
    case (Inr docs)
    obtain s w2 where b: "HydrateBatch parse sink (map tr_EventRaw docs) w1 = (s, w2)" by fastforce
    with hydrate_docs_absent [OF st step.prems(1) w1, of parse "map tr_EventRaw docs" no_stats]
    have "\<not> has_row st i w2" by (simp add: HydrateBatch_def)
    then show ?thesis using f Inr b w1 step.hyps step.prems(1,2) step.IH
      by (auto split: if_splits)
  qed
qed

lemma verify_pass_absent:
  assumes "verify_pass fetch L parse (gatedRawStore st blocked) n page tot w = Some y"
    and st: "saves_only_own st i" "\<forall>ev. ev_id ev = i \<longrightarrow> blocked ev"
    and "\<And>page w. \<not> has_row st i w \<Longrightarrow> \<not> has_row st i (snd (fetch page w))" and "\<not> has_row st i w"
  shows "\<not> has_row st i (snd (snd y))"
proof -
  have "G = gatedRawStore st blocked \<Longrightarrow> \<not> has_row st i (snd (snd y))"
    if "verify_pass fetch L parse G n page tot w = Some y" for G
    using that assms(4,5)
  proof (induction rule: verify_pass.raw_induct [rotated 1, consumes 1, case_names step])
    case (step pass fetch L parse G n page tot w y)
    obtain r w1 where f: "fetch page w = (r, w1)" by fastforce
    with step.prems have w1: "\<not> has_row st i w1" by (metis snd_conv)
    show ?case
    proof (cases r)
      case (Inl e)
      with f w1 step.hyps show ?thesis by auto
    next
      case (Inr docs)
      obtain s w2 where b: "verify_docs L parse G docs no_verify w1 = (s, w2)" by fastforce
      with verify_docs_absent [OF st w1, of L parse docs no_verify] step.prems
      have "\<not> has_row st i w2" by simp
      then show ?thesis using f Inr b w1 step.hyps step.prems step.IH
        by (auto split: if_splits)
    qed
  qed
  then show ?thesis using assms(1) by blast
qed

text \<open>A document without text shortens its page, and a short page ends the walk: what follows is never looked at.\<close>

lemma document_without_text_ends_the_walk:
  assumes "http (search_request c page n) w = (Inr (200, answer), w)" and "decode answer = Inr hits"
    and "length hits \<le> n" and "d \<in> set hits" and "tr_EventRaw d = []"
  shows "save_pass (\<lambda>page. FetchPage http decode c page n) parse sink n page tot w = Some (None,
    (case HydrateBatch parse sink (map tr_EventRaw (List.filter (\<lambda>d. tr_EventRaw d \<noteq> []) hits)) w of
      (s, w') \<Rightarrow> (if list_all (\<lambda>d. tr_EventRaw d = []) hits then tot else add_stats tot s, w')))"
proof -
  let ?docs = "List.filter (\<lambda>d. tr_EventRaw d \<noteq> []) hits"
  have "length ?docs < length hits" using assms(4,5) by (intro length_filter_less) auto
  with assms(3) have "length ?docs < n" by simp
  moreover have "?docs = [] \<longleftrightarrow> list_all (\<lambda>d. tr_EventRaw d = []) hits" by (auto simp: filter_empty_conv list_all_iff)
  ultimately show ?thesis using assms(1,2)
    by (auto simp: save_pass.simps [of "\<lambda>page. FetchPage http decode c page n"] FetchPage_def HydrateBatch_def split: prod.split)
qed

text \<open>The standalone tool has no gate: it does what the startup run does on a database in which nothing is banned or
  deleted, whatever the bans in the database it opens.\<close>

lemma gatedRawStore_open: "gatedRawStore st (\<lambda>_. False) = st"
  by (simp add: gatedRawStore_def)

lemma standalone_tool_is_ungated:
  assumes "getenv ''TS_HOST'' \<noteq> []" and "getenv ''TS_APIKEY'' \<noteq> []" and "getenv ''TS_COLLECTION'' \<noteq> []"
    and "open_store dir mkdir openBolt (if getenv ''DB_PATH'' = [] then ''./data/relay.db'' else getenv ''DB_PATH'') = Inr st"
    and "\<And>ev. \<not> isBlocked L nothing_blocked ev"
  shows "hydrate_main L http decode parse getenv dir mkdir openBolt \<lparr>ha_pageSize = 250, ha_dryRun = False\<rparr> w =
    (case hydrate_on_start L http decode parse \<lparr>tc_Host = getenv ''TS_HOST'', tc_ApiKey = getenv ''TS_APIKEY'',
        tc_Collection = getenv ''TS_COLLECTION''\<rparr> nothing_blocked st w of
      None \<Rightarrow> None
    | Some ((_, _, Some e), w') \<Rightarrow> Some (Inl (''hydrate: '' @ e), w')
    | Some ((tot, vtot, None), w') \<Rightarrow> Some (Inr (tot, vtot), w'))"
proof -
  have "isBlocked L nothing_blocked = (\<lambda>_. False)" using assms(5) by auto
  with assms(1-4) show ?thesis
    by (simp add: hydrate_main_def hydrate_on_start_def mustEnv_def gatedRawStore_open Let_def)
qed

section \<open>Properties\<close>

text \<open>C35. The startup reconciliation of an index whose documents all carry their event's text always ends without an
  error, looks at every document in both passes and, unless a save of the second pass failed, leaves a row under the
  id of every document whose id and text can be read and whose event is not blocked.\<close>

theorem hydration_restores_every_row:
  assumes "keeps_rows st" and "serves_pages http decode c 250 ds" and "list_all (\<lambda>d. tr_EventRaw d \<noteq> []) ds"
  shows "\<exists>tot vtot w'. hydrate_on_start L http decode parse c m st w = Some ((tot, vtot, None), w') \<and>
    hs_Scanned tot = length ds \<and> vs_Scanned vtot = length ds \<and>
    (vs_SaveErrors vtot = 0 \<longrightarrow> list_all (restored L parse st (isBlocked L m) w') ds)"
  using hydration_complete [OF assms] .

text \<open>C36. The startup reconciliation never copies a banned or deleted event back: when its id is blocked and it has no
  row, it has none afterwards, whatever the search engine answers.\<close>

theorem hydration_restores_no_banned_event:
  assumes "saves_only_own st i" and "\<forall>rq w. has_row st i (snd (http rq w)) = has_row st i w"
    and "id_hex L i \<in> dom (RBT.lookup (b_banned_events m)) \<or> id_hex L i \<in> dom (RBT.lookup (b_deleted_events m))"
    and "\<not> has_row st i w" and "hydrate_on_start L http decode parse c m st w = Some (r, w')"
  shows "\<not> has_row st i w'"
proof -
  have blocked: "\<forall>ev. ev_id ev = i \<longrightarrow> isBlocked L m ev" using assms(3) by (auto simp: isBlocked_iff)
  have fetch: "\<not> has_row st i (snd (FetchPage http decode c page 250 v))" if "\<not> has_row st i v" for page v
    using that assms(2) [rule_format, of "search_request c page 250" v]
    by (auto simp: FetchPage_def split: prod.splits sum.splits)
  note pass = save_pass_absent [OF _ assms(1) blocked _ fetch assms(4), where sink = "\<lparr>sk_SaveEvent = sk_SaveEvent (gatedRawStore st (isBlocked L m))\<rparr>"]
  note verify = verify_pass_absent [OF _ assms(1) blocked fetch]
  show ?thesis using assms(5)
    by (auto simp: on_start_passes Let_def split: option.splits prod.splits dest!: pass verify)
qed

section \<open>Worked examples\<close>

text \<open>A database that is a list of events, an index of one document and a parser that knows its text.\<close>

definition demo_events :: "event list event_store" where
  "demo_events = \<lparr>sk_SaveEvent = (\<lambda>ev w. if list_ex (\<lambda>e. ev_id e = ev_id ev) w then (Some (DupEvent ''duplicate''), w) else (None, ev # w)),
     st_QueryEvents = (\<lambda>f n w. List.filter (\<lambda>e. ev_id e \<in> set (f_ids f)) w)\<rparr>"

definition demo_conn :: ts_conn where
  "demo_conn = \<lparr>tc_Host = ''http://search'', tc_ApiKey = ''key'', tc_Collection = ''amb''\<rparr>"

definition demo_doc :: TSDocRef where
  "demo_doc = \<lparr>tr_EventID = to_hex [7], tr_EventRaw = ''raw''\<rparr>"

definition demo_search :: "event list http" where
  "demo_search = (\<lambda>rq w. (Inr (200, if rq = search_request demo_conn 1 250 then ''one'' else ''none''), w))"

definition demo_hits :: "string \<Rightarrow> error + TSDocRef list" where
  "demo_hits answer = Inr (if answer = ''one'' then [demo_doc] else [])"

definition demo_parse :: parse_event where
  "demo_parse raw = Inr (demo_event 7 30142 50 [[''d'', ''x'']])"

lemma has_row_demo: "has_row demo_events i w \<longleftrightarrow> list_ex (\<lambda>e. ev_id e = i) w"
  by (auto simp: has_row_def demo_events_def empty_filter_def filter_empty_conv list_ex_iff)

lemma demo_save: "sk_SaveEvent demo_events ev w =
    (if list_ex (\<lambda>e. ev_id e = ev_id ev) w then (Some (DupEvent ''duplicate''), w) else (None, ev # w))"
  by (simp add: demo_events_def)

lemma demo_keeps_rows: "keeps_rows demo_events"
  by (auto simp: keeps_rows_def has_row_demo demo_save list_ex_iff)

lemma demo_serves: "serves_pages demo_search demo_hits demo_conn 250 [demo_doc]"
  by (auto simp: serves_pages_def demo_search_def demo_hits_def page_of_def search_request_def dec_inject)

lemma hydration_restores_every_row_witness:
  "\<exists>r w'. hydrate_on_start demo_lib demo_search demo_hits demo_parse demo_conn fresh_db demo_events [] = Some (r, w') \<and>
     hs_Scanned (fst r) = 1"
  using hydration_restores_every_row [OF demo_keeps_rows demo_serves, of demo_lib demo_parse fresh_db "[]"]
  by (auto simp: demo_doc_def)

text \<open>The document's event is banned: the run ends without a row.\<close>

definition demo_banned :: mgmt_db where
  "demo_banned = fresh_db\<lparr>b_banned_events := RBT.insert (to_hex [7]) [] (b_banned_events fresh_db)\<rparr>"

lemma hydration_restores_no_banned_event_witness:
  "\<exists>r w'. hydrate_on_start demo_lib demo_search demo_hits demo_parse demo_conn demo_banned demo_events [] = Some (r, w') \<and>
     \<not> has_row demo_events [7] w'"
proof -
  obtain r w' where run: "hydrate_on_start demo_lib demo_search demo_hits demo_parse demo_conn demo_banned demo_events [] = Some (r, w')"
    using hydration_complete [OF demo_keeps_rows demo_serves, of demo_lib demo_parse demo_banned "[]"]
    by (auto simp: demo_doc_def)
  have "\<not> has_row demo_events [7] w'"
    by (rule hydration_restores_no_banned_event [OF _ _ _ _ run])
      (auto simp: saves_only_own_def has_row_demo demo_save demo_search_def demo_banned_def demo_lib_def split: if_splits)
  with run show ?thesis by blast
qed

end
