(* ===== verification/Spec2Isabelle.thy ===== *)
theory Spec2Isabelle
  imports DualWrite Deadline Allowlist TSWriter Remote ProfileLife Loops Boot Reindex Nip86 Hydrate
begin

text \<open>
  A verification development of amb-relay, a Nostr relay for educational resources. This theory only collects the
  others; each of them models one part of the program, in the order in which the code is built up.

  \<^bold>\<open>The program.\<close> The relay keeps every event in an event database (bbolt) and projects most of them into collections of
  a search engine (Typesense), from which queries are answered. \<open>main.go\<close> installs hooks on the relay library: \<open>OnEvent\<close>
  decides on an event, \<open>StoreEvent\<close> and \<open>ReplaceEvent\<close> put it into the write queue of the database and, through the
  content-type registry, into the index; \<open>QueryStored\<close> and \<open>Count\<close> answer requests. A management store in the same
  database holds bans, tombstones, allowlists, queues and settings; its gate keeps blocked events out of every write
  and every answer. Beside the hooks run the two write queues, the refresh loops (lists, communities, profiles, mappings,
  directories), the community stamper, a reindex on request, and at startup a reconciliation of index and database and
  a backfill of tombstones.

  \<^bold>\<open>How it is modelled.\<close> Go structs are records with the source's fields, tagged values are datatypes, \<open>nostr.Kind\<close> is
  \<open>16 word\<close>, timestamps are \<open>64 word\<close>, the count of NIP-45 is \<open>32 word\<close>, Go's \<open>int\<close> is \<open>int\<close> where it cannot overflow and is
  cut to its width where it can; strings and keys are byte strings. A function that may fail returns an error as a value
  (\<open>error option\<close>, \<open>error + 'a\<close>); a database transaction takes its outcome as an argument, so that every failure of a commit
  is a case. State is passed explicitly: \<open>mgmt_db\<close> for the buckets of the management store, a record per manager, and a
  type variable \<open>'w\<close> for the world of the stores behind third-party calls. Goroutines that share state are step relations
  (\<open>ts_step\<close>, \<open>bolt_step\<close>, \<open>dual_step\<close>, \<open>stamp_step\<close>, \<open>drain_step\<close>, \<open>profile_step\<close>, \<open>loop_step\<close>, \<open>server_step\<close>) cut at every access to shared
  state; timers, tickers and deadlines are steps that may happen at any time. Go's iterators are the lists they yield,
  with a version in which the consumer may stop early where the source does. Maps whose order Go leaves open are functions, sets or
  association lists about whose order nothing is assumed.

  \<^bold>\<open>Theories.\<close>
  \<^item> \<open>Prelude\<close>: events, filters, the protocol functions the relay calls (\<open>lib\<close>, \<open>lib_ok\<close>), Go's string functions, decimal numbers.
    \<open>Demo\<close>: one concrete instance of these and of the JSON codecs, on which witnesses evaluate. \<open>Sha256\<close>: \<open>crypto/sha256\<close>.
  \<^item> \<open>Management\<close> (\<open>management.go\<close>, \<open>content_store.go\<close>), \<open>Tombstone\<close> (\<open>tombstone.go\<close>): the buckets, the block gate.
    The locales \<open>flag_bucket\<close> and \<open>gate_keeper\<close> are what the other parts rely on.
  \<^item> \<open>Allowlist\<close> (\<open>allowlist.go\<close>): access control; the merged sets agree with the database after any sequence of operations and failures.
  \<^item> \<open>Registry\<close>, \<open>Validate\<close> (\<open>content_registry.go\<close>, \<open>deletion.go\<close>, \<open>validate.go\<close>, \<open>shares.go\<close>): dispatch by kind, validators.
  \<^item> \<open>Community\<close> (\<open>community_registry.go\<close>, \<open>community_stamp.go\<close>): membership rules and the stamps derived from shares.
    \<open>Stamping\<close>: what a sweep and many reconciles at the same time leave in the \<open>community\<close> fields, and patches in the index queue.
  \<^item> \<open>Purge\<close> (\<open>purge.go\<close>, \<open>coord_tombstone_backfill.go\<close>): deletions, bans, the backfill and its marker.
  \<^item> \<open>TSBuffer\<close>, \<open>TSWriter\<close> (\<open>buffer.go\<close>, \<open>embedding.go\<close>): the queue of the index, refinement to immediate writes, batched
    embedding. \<open>BoltBuffer\<close> (\<open>bolt_buffer.go\<close>): the queue of the database, its retries and its race with a ban. \<open>DualWrite\<close>:
    the handlers and both queues as one system; an acknowledged resource survives, but for the write a drain gives up on.
    \<open>Deadline\<close>: the shutdown of the queues with a clock.
  \<^item> \<open>VocabParse\<close>, \<open>VocabGraph\<close> (\<open>vocabmap/\<close>): vocabulary mappings and the expansion of a concept. \<open>Expand\<close> (\<open>expand.go\<close>,
    \<open>expand_config.go\<close>): rewriting the concept filters of a query. \<open>ExpandRegistry\<close> (\<open>expand_registry.go\<close>): loading, caching and
    evicting trusted sources, and paging a relay. \<open>Remote\<close>: one page of a subscription, directories and profiles over the net.
  \<^item> \<open>Query\<close> (\<open>query_budget.go\<close>, \<open>calendar_rerank.go\<close>, the query hooks of \<open>main.go\<close>): answering within a budget and a calendar window.
  \<^item> \<open>Profiles\<close>, \<open>ProfileLife\<close> (\<open>profile_manager.go\<close>, \<open>nip05_directory.go\<close>): the queue of authors, its draining, and the manager as
    a running system.
  \<^item> \<open>Typesense\<close> (\<open>content_ts.go\<close>, requests of \<open>structured.go\<close> and \<open>embedding.go\<close>), \<open>Documents\<close> (the projections and schemas of the
    structured collections, \<open>search_extensions.go\<close>): what is sent to the search engine.
  \<^item> \<open>Reindex\<close> (\<open>reindex.go\<close>), \<open>Hydrate\<close> (\<open>internal/hydrate\<close>, \<open>cmd/hydrate-bolt\<close>): from the database to the index and back.
  \<^item> \<open>RelayPolicy\<close>, \<open>Nip86\<close>, \<open>Wiring\<close>, \<open>Boot\<close> (\<open>main.go\<close>, \<open>server.go\<close>): the hooks, the management methods, how the parts are
    connected, the start and the end of the process. \<open>Loops\<close>: the refresh and sweep loops.

  \<^bold>\<open>What is shown.\<close> Nothing that is banned, or deleted with a recorded tombstone, is accepted, served, restored or written again,
  in any interleaving of the queues, and a deletion reaches only what it names (\<open>Purge\<close>, \<open>BoltBuffer\<close>, \<open>TSBuffer\<close>, \<open>RelayPolicy\<close>,
  \<open>Wiring\<close>, \<open>Hydrate\<close>). What is accepted is kept: acknowledged writes unless the shutdown runs out of time, candidate authors,
  members of a directory, the texts and versions of a reindex, the rows of a reconciliation (\<open>DualWrite\<close>, \<open>ProfileLife\<close>,
  \<open>Profiles\<close>, \<open>Reindex\<close>, \<open>Hydrate\<close>). Expansion yields what its specification by sets says, neither narrows a query nor grows
  beyond its bound, and its caches are bounded and never stale (\<open>Expand\<close>, \<open>VocabGraph\<close>, \<open>ExpandRegistry\<close>, \<open>Remote\<close>). Access
  control, communities and settings agree with what is stored (\<open>Allowlist\<close>, \<open>Stamping\<close>, \<open>Nip86\<close>). Documents fit the schemas they
  are sent to and the parts of the relay agree on the kinds (\<open>Documents\<close>, \<open>Wiring\<close>, \<open>Boot\<close>). Loops and the shutdown terminate,
  the drains in time, and the process closes what it opened (\<open>TSBuffer\<close>, \<open>ExpandRegistry\<close>, \<open>Boot\<close>, \<open>Deadline\<close>). Where the code falls short
  of one of these, the theorem states the exact condition and a lemma beside it exhibits the case: a tombstone that could not
  be recorded is acknowledged (\<open>RelayPolicy\<close>), two spellings of a coordinate and late patches lose stamps (\<open>Stamping\<close>), cache keys with
  commas collide (\<open>ExpandRegistry\<close>), a configuration the startup could not store diverges (\<open>Nip86\<close>), a list removed while it is
  added stays in memory (\<open>Allowlist\<close>), a task in hand that hangs blocks the shutdown (\<open>Deadline\<close>), and a refresh interval of zero
  kills the process with everything open (\<open>Boot\<close>).

  \<^bold>\<open>Bounds and fuel.\<close> No definition runs on fuel. The paging of a relay and the two passes of the reconciliation may run for ever
  against a server that always answers with new events; they are \<open>partial_function\<close>s whose value is \<open>None\<close> in that case,
  and they are shown to return against servers that hold finitely many (\<open>paging_loses_nothing\<close>, \<open>hydration_restores_every_row\<close>).
  All other loops are structural or have a measure. The constants of the source are kept: 10000 queued writes and five
  attempts, batches of 32 embeddings, 200 expanded identifiers at depth four, 32 on-demand sources, 64 cached graphs,
  1024 recorded failures, 300 events a page.

  \<^bold>\<open>Parameters.\<close> The source rests on libraries that are not part of it; what they do is an argument of the definitions: the
  protocol functions (\<open>lib\<close>), JSON (\<open>json_lib\<close>), the event database (\<open>raw_store\<close>, \<open>boltEventWriter\<close>, \<open>event_store\<close>), the Typesense
  backend (\<open>ts_backend\<close>, \<open>collection\<close>, \<open>http\<close>), the calendar and metadata parsers (\<open>cal_lib\<close>, \<open>doc_lib\<close>), passage ranking
  (\<open>chunk_rerank\<close>), NIP-19, Unicode normalisation, connections (\<open>pool_query\<close>, \<open>relay_net\<close>), the admin set. What a theorem needs of
  them is a named hypothesis that states documented behaviour (\<open>lib_ok\<close>, \<open>json_ok\<close>, \<open>bolt_ok\<close>, \<open>keeps_stored\<close>, \<open>writer_ok\<close>,
  \<open>index_ok\<close>, \<open>store_remembers\<close>, \<open>serves_only_asked\<close>, \<open>serves_pages\<close>, \<open>keeps_rows\<close>, \<open>net_honest\<close>, \<open>dedup_ok\<close>, \<open>index_upserts\<close>,
  \<open>content_patches\<close> and others beside their theories), and a witness instantiates it.

  \<^bold>\<open>Not modelled.\<close> The projection of kind 30142 (\<open>NostrToAMB\<close>), the search and ranking of Typesense, the storage of bbolt and the
  websocket layer are third-party code. Log output and the landing page are left out, as are HTTP timeouts and
  connection reuse beyond the error a call returns. Clock readings are parameters. The deadline of a drain is a step that may come at any
  time in the step relations and a clock reading in \<open>Deadline\<close>, where the duration of a call is a parameter. The Python embedding service, the deployment files and the builders of test events
  are not part of the relay's own code.
\<close>

end
